(* ===== verification/Prelude.thy ===== *)
theory Prelude
  imports Complex_Main "HOL-Library.AList" "HOL-Library.List_Lexorder"
begin

text \<open>
  Shared vocabulary of the development: strings and their Python operations, JSON values with
  Python truthiness, insertion-ordered dictionaries, and generic lemmas on lists and dictionaries.

  Python strings are modelled by Isabelle's \<open>string\<close>: a list of characters, each a code point
  below 256 (Latin-1).  Length, slicing, equality and concatenation act on code points as in
  Python.  The code points above 255 that the modelled code emits, the ellipsis and the em dash, are
  written \<open>CHR 0x80\<close> and \<open>CHR 0x81\<close>, control codes that no input uses.
  A Python \<open>dict\<close> is an association list in insertion order with distinct keys:
  \<open>AList.update\<close> overwrites in place or appends, which is what \<open>d[k] = v\<close> does.
\<close>

subsection \<open>Automation\<close>

named_theorems guard_simps "unfolding rules for the guards of the modelled code"

subsection \<open>Characters and strings\<close>

definition code :: "char \<Rightarrow> nat" where
  "code c = of_char c"

definition ellipsis :: char where
  "ellipsis = CHR 0x80"

definition em_dash :: char where
  "em_dash = CHR 0x81"

definition newline :: char where
  "newline = CHR 0x0A"

text \<open>\<open>str.isspace\<close>, \<open>str.isdigit\<close>, \<open>str.isalnum\<close> and \<open>str.lower\<close> on one code point.\<close>

definition is_space :: "char \<Rightarrow> bool" where
  "is_space c \<longleftrightarrow> (let n = code c in (9 \<le> n \<and> n \<le> 13) \<or> (28 \<le> n \<and> n \<le> 32) \<or> n = 133 \<or> n = 160)"

definition is_digit :: "char \<Rightarrow> bool" where
  "is_digit c \<longleftrightarrow> (let n = code c in 48 \<le> n \<and> n \<le> 57)"

definition is_upper :: "char \<Rightarrow> bool" where
  "is_upper c \<longleftrightarrow> (let n = code c in (65 \<le> n \<and> n \<le> 90) \<or> (192 \<le> n \<and> n \<le> 222 \<and> n \<noteq> 215))"

definition is_lower :: "char \<Rightarrow> bool" where
  "is_lower c \<longleftrightarrow> (let n = code c in (97 \<le> n \<and> n \<le> 122) \<or> (223 \<le> n \<and> n \<le> 255 \<and> n \<noteq> 247)
      \<or> n = 170 \<or> n = 181 \<or> n = 186)"

definition is_alpha :: "char \<Rightarrow> bool" where
  "is_alpha c \<longleftrightarrow> is_upper c \<or> is_lower c"

definition is_alnum :: "char \<Rightarrow> bool" where
  "is_alnum c \<longleftrightarrow> is_alpha c \<or> is_digit c \<or> code c \<in> {178, 179, 185, 188, 189, 190}"

definition lower_char :: "char \<Rightarrow> char" where
  "lower_char c = (if is_upper c then char_of (code c + 32) else c)"

definition upper_char :: "char \<Rightarrow> char" where
  "upper_char c = (let n = code c in
     if (97 \<le> n \<and> n \<le> 122) \<or> (224 \<le> n \<and> n \<le> 254 \<and> n \<noteq> 247) then char_of (n - 32) else c)"

definition lower :: "string \<Rightarrow> string" where
  "lower = map lower_char"

definition upper :: "string \<Rightarrow> string" where
  "upper = map upper_char"

text \<open>\<open>str.strip\<close>, \<open>str.startswith\<close>, \<open>str.join\<close>, \<open>str.replace(c, "")\<close>, \<open>str.partition\<close>.\<close>

definition strip :: "string \<Rightarrow> string" where
  "strip s = rev (dropWhile is_space (rev (dropWhile is_space s)))"

definition starts_with :: "string \<Rightarrow> string \<Rightarrow> bool" where
  "starts_with p s \<longleftrightarrow> take (length p) s = p"

fun join :: "string \<Rightarrow> string list \<Rightarrow> string" where
  "join sep [] = []"
| "join sep [s] = s"
| "join sep (s # t # ss) = s @ sep @ join sep (t # ss)"

definition drop_char :: "char \<Rightarrow> string \<Rightarrow> string" where
  "drop_char c s = filter (\<lambda>d. d \<noteq> c) s"

text \<open>\<open>s.partition(c)\<close> for a one-character separator: what precedes the first occurrence, and
  what follows it if there is one.\<close>

definition before_char :: "char \<Rightarrow> string \<Rightarrow> string" where
  "before_char c s = takeWhile (\<lambda>d. d \<noteq> c) s"

definition after_char :: "char \<Rightarrow> string \<Rightarrow> string option" where
  "after_char c s = (case dropWhile (\<lambda>d. d \<noteq> c) s of [] \<Rightarrow> None | _ # t \<Rightarrow> Some t)"

text \<open>\<open>s.split(c)\<close>.\<close>

fun split_on :: "char \<Rightarrow> string \<Rightarrow> string list" where
  "split_on c [] = [ [] ]"
| "split_on c (d # s) = (if d = c then [] # split_on c s
     else (case split_on c s of [] \<Rightarrow> [ [d] ] | w # ws \<Rightarrow> (d # w) # ws))"

text \<open>\<open>p in s\<close> for strings; the characters of a word, \<open>\w\<close> on ASCII texts.\<close>

fun contains :: "string \<Rightarrow> string \<Rightarrow> bool" where
  "contains p [] = (p = [])"
| "contains p (c # s) = (starts_with p (c # s) \<or> contains p s)"

definition is_word :: "char \<Rightarrow> bool" where
  "is_word c \<longleftrightarrow> is_alnum c \<or> c = CHR ''_''"

text \<open>\<open>s.replace(p, r)\<close> for a non-empty \<open>p\<close>.\<close>

function replace_all :: "string \<Rightarrow> string \<Rightarrow> string \<Rightarrow> string" where
  "replace_all p r s = (case s of
      [] \<Rightarrow> []
    | c # cs \<Rightarrow> if p \<noteq> [] \<and> starts_with p s then r @ replace_all p r (drop (length p) s) else c # replace_all p r cs)"
  by pat_completeness auto
termination
  by (relation "measure (\<lambda>(p, r, s). length s)") auto

declare replace_all.simps [simp del]

text \<open>Decimal notation, for the indices and counts that messages carry.\<close>

fun nat_str :: "nat \<Rightarrow> string" where
  "nat_str n = (if n < 10 then [char_of (48 + n)] else nat_str (n div 10) @ [char_of (48 + n mod 10)])"

declare nat_str.simps [simp del]

definition int_str :: "int \<Rightarrow> string" where
  "int_str i = (if i < 0 then ''-'' @ nat_str (nat (- i)) else nat_str (nat i))"

text \<open>A string in single quotes, as messages cite it.\<close>

definition quoted :: "string \<Rightarrow> string" where
  "quoted s = [CHR 0x27] @ s @ [CHR 0x27]"

text \<open>\<open>sorted\<close> on strings: by code points.\<close>

definition sort_strings :: "string list \<Rightarrow> string list" where
  "sort_strings = sort_key (map code)"

text \<open>Python truthiness of a string or list: non-empty.  \<open>x or y\<close> on strings.\<close>

definition str_or :: "string \<Rightarrow> string \<Rightarrow> string" where
  "str_or s t = (if s = [] then t else s)"

definition opt_truthy :: "'a list option \<Rightarrow> bool" where
  "opt_truthy x \<longleftrightarrow> (case x of None \<Rightarrow> False | Some s \<Rightarrow> s \<noteq> [])"

definition opt_or :: "'a list option \<Rightarrow> 'a list \<Rightarrow> 'a list" where
  "opt_or x d = (case x of None \<Rightarrow> d | Some s \<Rightarrow> if s = [] then d else s)"

lemma strip_Nil [simp]: "strip [] = []"
  by (simp add: strip_def)

lemma length_strip: "length (strip s) \<le> length s"
  unfolding strip_def using length_dropWhile_le [of is_space s]
    length_dropWhile_le [of is_space "rev (dropWhile is_space s)"] by simp

lemma set_strip: "set (strip s) \<subseteq> set s"
  unfolding strip_def by (metis (no_types, lifting) set_dropWhileD set_rev subsetI)

lemma strip_idem [simp]: "strip (strip s) = strip s"
proof -
  define u where "u = dropWhile is_space s"
  have tw: "dropWhile is_space (rev (dropWhile is_space (rev u))) = rev (dropWhile is_space (rev u))" (is "_ = ?v")
  proof (cases "?v")
    case (Cons c v)
    have "\<exists>p. ?v @ p = u" by (metis rev_append rev_rev_ident takeWhile_dropWhile_id)
    then have "u \<noteq> [] \<and> hd u = c" using Cons by auto
    then have "\<not> is_space c" using hd_dropWhile [of is_space s] u_def by auto
    then show ?thesis using Cons by simp
  next
    case Nil
    then show ?thesis by (simp only: Nil dropWhile.simps)
  qed
  show ?thesis unfolding strip_def u_def [symmetric] tw by simp
qed

lemma strip_infix: "\<exists>p q. s = p @ strip s @ q"
proof -
  define u where "u = dropWhile is_space s"
  have "s = takeWhile is_space s @ u" by (simp add: u_def)
  moreover have "u = rev (dropWhile is_space (rev u)) @ rev (takeWhile is_space (rev u))"
    by (metis rev_append rev_rev_ident takeWhile_dropWhile_id)
  ultimately show ?thesis unfolding strip_def u_def [symmetric] by metis
qed

lemma starts_with_append [simp]: "starts_with p (p @ s)"
  by (simp add: starts_with_def)

lemma starts_withE: "starts_with p s \<Longrightarrow> (\<And>t. s = p @ t \<Longrightarrow> P) \<Longrightarrow> P"
  by (metis append_take_drop_id starts_with_def)

lemma starts_with_prefix: "starts_with p t \<Longrightarrow> starts_with p (t @ u)"
  by (auto elim!: starts_withE)

lemma contains_iff: "contains p s \<longleftrightarrow> (\<exists>a b. s = a @ p @ b)"
proof (induction s)
  case (Cons c s)
  have "(\<exists>a b. c # s = a @ p @ b) \<longleftrightarrow> (\<exists>b. c # s = p @ b) \<or> (\<exists>a b. s = a @ p @ b)"
    by (metis append_Cons append_Nil list.exhaust list.inject)
  moreover have "starts_with p (c # s) \<longleftrightarrow> (\<exists>b. c # s = p @ b)" by (metis starts_withE starts_with_append)
  ultimately show ?case by (simp add: Cons.IH)
qed simp

lemma contains_append: "contains p u \<Longrightarrow> contains p (u @ v)" "contains p v \<Longrightarrow> contains p (u @ v)"
proof -
  have "contains p v \<Longrightarrow> contains p (u @ v)" by (induction u) simp_all
  then show "contains p v \<Longrightarrow> contains p (u @ v)" .
  have s: "starts_with p w \<Longrightarrow> starts_with p (w @ v)" for w by (metis append_assoc starts_withE starts_with_append)
  have e: "contains [] w" for w by (induction w) (simp_all add: starts_with_def)
  show "contains p u \<Longrightarrow> contains p (u @ v)"
  proof (induction u)
    case (Cons c u)
    then show ?case using s [of "c # u"] by auto
  qed (simp add: e)
qed

lemma starts_contains: "starts_with p s \<Longrightarrow> contains p s"
  by (cases s) (simp_all add: starts_with_def)

lemma contains_self: "contains p (u @ p @ v)"
  by (rule contains_append(2) [OF starts_contains]) simp

text \<open>A text that does not hold a character of a pattern separates its occurrences.\<close>

lemma starts_with_split:
  assumes c: "c \<notin> set p"
  shows "starts_with p (u @ c # v) \<longleftrightarrow> starts_with p u"
proof -
  have short: "length p \<le> length u" if a: "starts_with p (u @ c # v)"
  proof (rule ccontr)
    assume l: "\<not> length p \<le> length u"
    have "p ! length u = take (length p) (u @ c # v) ! length u" using a by (simp add: starts_with_def)
    also have "\<dots> = (u @ c # v) ! length u" using l by (intro nth_take) simp
    also have "\<dots> = c" by (rule nth_append_length)
    finally show False using c l by (metis not_le nth_mem)
  qed
  then have "starts_with p u" if "starts_with p (u @ c # v)" using that short [OF that] by (simp add: starts_with_def)
  then show ?thesis using starts_with_prefix by blast
qed

lemma contains_split:
  assumes "c \<notin> set p" "p \<noteq> []"
  shows "contains p (u @ c # v) \<longleftrightarrow> contains p u \<or> contains p v"
proof (induction u)
  case Nil
  have "\<not> starts_with p (c # v)" using assms by (cases p) (auto simp: starts_with_def)
  then show ?case using assms(2) by simp
next
  case (Cons d u)
  have "starts_with p (d # u @ c # v) \<longleftrightarrow> starts_with p (d # u)" using starts_with_split [OF assms(1), of "d # u" v] by simp
  then show ?case using Cons.IH by auto
qed

lemma replace_all_absent: "\<not> contains p s \<Longrightarrow> replace_all p r s = s"
  by (induction s) (simp_all add: replace_all.simps [of p r "_ # _"] replace_all.simps [of p r "[]"])

lemma replace_all_at:
  assumes "p \<noteq> []"
  shows "replace_all p r (p @ s) = r @ replace_all p r s"
  using assms by (cases p) (simp_all add: replace_all.simps [of _ r "_ # _"], metis append_Cons starts_with_append)

text \<open>Where a separator precedes the first occurrence of a pattern, the pattern is replaced there.\<close>

lemma replace_all_after:
  assumes "c \<notin> set p" "p \<noteq> []" "\<not> contains p u"
  shows "replace_all p r (u @ c # v) = u @ c # replace_all p r v"
  using assms(3)
proof (induction u)
  case Nil
  have "\<not> starts_with p (c # v)" using assms by (cases p) (auto simp: starts_with_def)
  then show ?case by (simp add: replace_all.simps [of p r "_ # _"])
next
  case (Cons d u)
  have "\<not> starts_with p (d # u @ c # v)" using starts_with_split [OF assms(1), of "d # u" v] Cons.prems by simp
  then show ?case using Cons by (simp add: replace_all.simps [of p r "_ # _"])
qed

lemma before_char_append: "c \<notin> set s \<Longrightarrow> before_char c (s @ c # t) = s"
  by (simp add: before_char_def takeWhile_append)

lemma after_char_append: "c \<notin> set s \<Longrightarrow> after_char c (s @ c # t) = Some t"
  by (simp add: after_char_def dropWhile_append)

lemma after_char_None: "c \<notin> set s \<Longrightarrow> after_char c s = None"
  by (induction s) (auto simp: after_char_def)

subsection \<open>JSON values\<close>

text \<open>Values of type \<open>Any\<close> in the code's dictionaries.  Floats that the code only stores or
  compares are rationals.\<close>

datatype json = JNull | JBool bool | JInt int | JFloat rat | JStr string
  | JList "json list" | JObj "(string \<times> json) list"

fun truthy :: "json \<Rightarrow> bool" where
  "truthy JNull = False"
| "truthy (JBool b) = b"
| "truthy (JInt i) = (i \<noteq> 0)"
| "truthy (JFloat r) = (r \<noteq> 0)"
| "truthy (JStr s) = (s \<noteq> [])"
| "truthy (JList xs) = (xs \<noteq> [])"
| "truthy (JObj kvs) = (kvs \<noteq> [])"

subsection \<open>Insertion-ordered dictionaries\<close>

text \<open>\<open>str(v)\<close>, where \<open>show\<close> prints what is not a string, and \<open>v or w\<close>.\<close>

definition text_of :: "(json \<Rightarrow> string) \<Rightarrow> json \<Rightarrow> string" where
  "text_of show v = (case v of JStr s \<Rightarrow> s | _ \<Rightarrow> show v)"

definition json_or :: "json \<Rightarrow> json \<Rightarrow> json" where
  "json_or v w = (if truthy v then v else w)"

type_synonym ('k, 'v) odict = "('k \<times> 'v) list"

definition keys :: "('k, 'v) odict \<Rightarrow> 'k list" where
  "keys d = map fst d"

definition wf_odict :: "('k, 'v) odict \<Rightarrow> bool" where
  "wf_odict d \<longleftrightarrow> distinct (keys d)"

abbreviation get :: "('k, 'v) odict \<Rightarrow> 'k \<Rightarrow> 'v option" where
  "get \<equiv> map_of"

abbreviation put :: "'k \<Rightarrow> 'v \<Rightarrow> ('k, 'v) odict \<Rightarrow> ('k, 'v) odict" where
  "put \<equiv> AList.update"

abbreviation del :: "'k \<Rightarrow> ('k, 'v) odict \<Rightarrow> ('k, 'v) odict" where
  "del \<equiv> AList.delete"

definition get_default :: "('k, 'v) odict \<Rightarrow> 'k \<Rightarrow> 'v \<Rightarrow> 'v" where
  "get_default d k v = (case get d k of None \<Rightarrow> v | Some w \<Rightarrow> w)"

text \<open>\<open>{**d, **e}\<close> and \<open>d.update(e)\<close>.\<close>

definition merge :: "('k, 'v) odict \<Rightarrow> ('k, 'v) odict \<Rightarrow> ('k, 'v) odict" where
  "merge d e = fold (\<lambda>(k, v). put k v) e d"

text \<open>Lookup of a JSON member, \<open>d.get(k)\<close> with a missing key read as \<open>None\<close>.\<close>

definition jget :: "(string, json) odict \<Rightarrow> string \<Rightarrow> json" where
  "jget d k = get_default d k JNull"

lemma keys_put: "keys (put k v d) = (if k \<in> set (keys d) then keys d else keys d @ [k])"
  by (simp add: keys_def AList.update_keys)

lemma set_keys_put [simp]: "set (keys (put k v d)) = insert k (set (keys d))"
  by (auto simp: keys_put)

lemma get_put [simp]: "get (put k v d) = (get d)(k \<mapsto> v)"
  by (simp add: AList.update_conv')

lemma get_del [simp]: "get (del k d) = (get d)(k := None)"
  by (simp add: AList.delete_conv')

lemma keys_del: "keys (del k d) = filter (\<lambda>x. x \<noteq> k) (keys d)"
  by (induction d) (auto simp: keys_def AList.delete_eq)

lemma set_keys_del [simp]: "set (keys (del k d)) = set (keys d) - {k}"
  by (auto simp: keys_del)

lemma wf_put [simp, intro]: "wf_odict d \<Longrightarrow> wf_odict (put k v d)"
  by (simp add: wf_odict_def keys_put)

lemma wf_del [simp, intro]: "wf_odict d \<Longrightarrow> wf_odict (del k d)"
  by (simp add: wf_odict_def keys_del)

lemma wf_Nil [simp]: "wf_odict []"
  by (simp add: wf_odict_def keys_def)

lemma in_keys_iff: "k \<in> set (keys d) \<longleftrightarrow> get d k \<noteq> None"
  by (auto simp: keys_def map_of_eq_None_iff)

lemma keysE: "k \<in> set (keys d) \<Longrightarrow> (\<And>v. get d k = Some v \<Longrightarrow> P) \<Longrightarrow> P"
  by (cases "get d k") (simp_all add: in_keys_iff)

lemma get_None_iff: "get d k = None \<longleftrightarrow> k \<notin> set (keys d)"
  by (simp add: in_keys_iff)

lemma length_keys [simp]: "length (keys d) = length d"
  by (simp add: keys_def)

lemma put_new: "k \<notin> set (keys d) \<Longrightarrow> put k v d = d @ [(k, v)]"
  by (induction d) (auto simp: keys_def)

lemma length_put: "length (put k v d) = (if k \<in> set (keys d) then length d else Suc (length d))"
proof -
  have "length (keys (put k v d)) = (if k \<in> set (keys d) then length d else Suc (length d))"
    by (simp add: keys_put)
  then show ?thesis by simp
qed

lemma length_del: "wf_odict d \<Longrightarrow> k \<in> set (keys d) \<Longrightarrow> Suc (length (del k d)) = length d"
proof (induction d)
  case (Cons p d)
  then show ?case
    by (auto simp: wf_odict_def keys_def AList.delete_eq intro!: arg_cong [where f = length] filter_True intro: rev_image_eqI)
qed (simp add: keys_def)

lemma get_merge: "get (merge d e) = get d ++ get (rev e)"
  by (induction e arbitrary: d)
    (auto simp: merge_def fun_eq_iff map_add_def split: option.splits)

lemma wf_merge: "wf_odict d \<Longrightarrow> wf_odict (merge d e)"
  by (induction e arbitrary: d) (auto simp: merge_def)

lemma get_rev: "wf_odict e \<Longrightarrow> get (rev e) = get e"
  unfolding wf_odict_def keys_def
  by (rule map_of_inject_set [THEN iffD2]) (simp_all add: rev_map [symmetric])

lemma get_default_put: "get_default (put k v d) k' w = (if k' = k then v else get_default d k' w)"
  by (simp add: get_default_def)

subsection \<open>First match and small list facts\<close>

text \<open>\<open>next((x for x in xs if p(x)), None)\<close> is \<open>List.find\<close>.\<close>

lemma find_SomeD: "List.find p xs = Some x \<Longrightarrow> x \<in> set xs \<and> p x"
  by (auto simp: find_Some_iff)

lemma find_NoneD: "List.find p xs = None \<Longrightarrow> \<forall>x \<in> set xs. \<not> p x"
  by (auto simp: find_None_iff)

lemma find_distinct:
  assumes "distinct (map f xs)" "x \<in> set xs"
  shows "List.find (\<lambda>y. f y = f x) xs = Some x"
  using assms by (induction xs) (auto simp: image_iff)

lemma find_skip: "\<forall>x \<in> set xs. \<not> p x \<Longrightarrow> List.find p (xs @ ys) = List.find p ys"
  by (induction xs) auto

text \<open>\<open>if x not in xs: xs.append(x)\<close>.\<close>

definition append_new :: "'a \<Rightarrow> 'a list \<Rightarrow> 'a list" where
  "append_new x xs = (if x \<in> set xs then xs else xs @ [x])"

lemma set_append_new [simp]: "set (append_new x xs) = insert x (set xs)"
  by (auto simp: append_new_def)

lemma distinct_append_new [simp, intro]: "distinct xs \<Longrightarrow> distinct (append_new x xs)"
  by (simp add: append_new_def)

text \<open>\<open>xs[-n:]\<close>.\<close>

definition take_last :: "nat \<Rightarrow> 'a list \<Rightarrow> 'a list" where
  "take_last n xs = drop (length xs - n) xs"

lemma length_take_last [simp]: "length (take_last n xs) = min n (length xs)"
  by (simp add: take_last_def)

lemma set_take_last: "set (take_last n xs) \<subseteq> set xs"
  unfolding take_last_def by (rule set_drop_subset)

text \<open>A property of every element and what precedes it, when an element is added at the end.\<close>

lemma all_splits_snoc:
  "(\<forall>ys x zs. xs @ [a] = ys @ x # zs \<longrightarrow> P ys x) \<longleftrightarrow> (\<forall>ys x zs. xs = ys @ x # zs \<longrightarrow> P ys x) \<and> P xs a"
proof (intro iffI conjI allI impI)
  fix ys x zs
  assume "\<forall>ys x zs. xs @ [a] = ys @ x # zs \<longrightarrow> P ys x" "xs = ys @ x # zs"
  then show "P ys x" by simp
next
  fix ys x zs
  assume h: "(\<forall>ys x zs. xs = ys @ x # zs \<longrightarrow> P ys x) \<and> P xs a" and e: "xs @ [a] = ys @ x # zs"
  show "P ys x"
  proof (cases zs rule: rev_cases)
    case (snoc zs' b)
    then show ?thesis using h e by auto
  qed (use h e in simp)
qed simp

lemma take_last_snoc_Suc: "take_last (Suc n) (xs @ [x]) = take_last n xs @ [x]"
  by (simp add: take_last_def)

lemma sort_key_map: "sort_key k (map g xs) = map g (sort_key (\<lambda>x. k (g x)) xs)"
proof (induction xs)
  case (Cons x xs)
  have "insort_key k (g x) (map g ys) = map g (insort_key (\<lambda>x. k (g x)) x ys)" for ys
    by (induction ys) auto
  then show ?case using Cons by simp
qed simp

end
