(* ===== verification/Graph_Search.thy ===== *)
theory Graph_Search
  imports Prelude
begin

text \<open>
  Directed graphs as the code builds them (a dictionary from a node to the list of its successors)
  and the depth-first searches over them.  The search with a path
  (\<open>detect_cycles.dfs\<close>, \<open>src/src/api/workflow_validation.py\<close>) and the search without
  (\<open>TopologyConfig._has_cycle.dfs\<close>, \<open>src/src/config/topology_models.py\<close>) are two
  definitions; the second is shown to be the projection of the first, so one correctness proof
  (closure and acyclicity of the finished nodes, the path as a chain) serves both.
\<close>

type_synonym graph = "(string, string list) odict"

definition succs :: "graph \<Rightarrow> string \<Rightarrow> string list" where
  "succs g n = get_default g n []"

definition edge_rel :: "graph \<Rightarrow> (string \<times> string) set" where
  "edge_rel g = {(u, v). v \<in> set (succs g u)}"

definition is_chain :: "(string \<times> string) set \<Rightarrow> string list \<Rightarrow> bool" where
  "is_chain r xs \<longleftrightarrow> successively (\<lambda>u v. (u, v) \<in> r) xs"

definition is_cycle :: "(string \<times> string) set \<Rightarrow> string list \<Rightarrow> bool" where
  "is_cycle r c \<longleftrightarrow> 2 \<le> length c \<and> hd c = last c \<and> is_chain r c"

subsection \<open>The search with a path\<close>

text \<open>The four variables the nested function shares.  \<open>None\<close> as a result is a raised exception
  (\<open>path.index\<close> or \<open>rec_stack.remove\<close> on a missing element) or exhausted fuel;
  \<open>dfs_total\<close> shows that neither happens.\<close>

record search =
  visited :: "string set"
  rec_stack :: "string set"
  path :: "string list"
  cycles :: "string list list"

definition enter :: "string \<Rightarrow> search \<Rightarrow> search" where
  "enter n s = s\<lparr>visited := insert n (visited s), rec_stack := insert n (rec_stack s),
     path := path s @ [n]\<rparr>"

definition leave :: "string \<Rightarrow> search \<Rightarrow> search option" where
  "leave n s = (if path s = [] \<or> n \<notin> rec_stack s then None
     else Some (s\<lparr>path := butlast (path s), rec_stack := rec_stack s - {n}\<rparr>))"

text \<open>\<open>path[path.index(m):]\<close>\<close>

definition path_from :: "string \<Rightarrow> string list \<Rightarrow> string list option" where
  "path_from m p = (if m \<in> set p then Some (dropWhile (\<lambda>x. x \<noteq> m) p) else None)"

definition report :: "string \<Rightarrow> search \<Rightarrow> search option" where
  "report m s = (case path_from m (path s) of None \<Rightarrow> None
     | Some c \<Rightarrow> Some (s\<lparr>cycles := cycles s @ [c @ [m]]\<rparr>))"

fun dfs :: "nat \<Rightarrow> graph \<Rightarrow> string \<Rightarrow> search \<Rightarrow> (bool \<times> search) option"
  and dfs_neighbors :: "nat \<Rightarrow> graph \<Rightarrow> string list \<Rightarrow> search \<Rightarrow> (bool \<times> search) option" where
  "dfs 0 g n s = None"
| "dfs (Suc f) g n s =
     (case dfs_neighbors f g (succs g n) (enter n s) of
        None \<Rightarrow> None
      | Some (True, t) \<Rightarrow> Some (True, t)
      | Some (False, t) \<Rightarrow> map_option (Pair False) (leave n t))"
| "dfs_neighbors f g [] s = Some (False, s)"
| "dfs_neighbors f g (m # ms) s =
     (if m \<notin> visited s then
        (case dfs f g m s of
           None \<Rightarrow> None
         | Some (True, t) \<Rightarrow> Some (True, t)
         | Some (False, t) \<Rightarrow> dfs_neighbors f g ms t)
      else if m \<in> rec_stack s then map_option (Pair True) (report m s)
      else dfs_neighbors f g ms s)"

definition dfs_fuel :: "graph \<Rightarrow> nat" where
  "dfs_fuel g = Suc (length g + length (concat (map snd g)))"

text \<open>\<open>for node in graph: if node not in visited: dfs(node)\<close>, the result ignored.\<close>

fun dfs_roots :: "graph \<Rightarrow> string list \<Rightarrow> search \<Rightarrow> search option" where
  "dfs_roots g [] s = Some s"
| "dfs_roots g (n # ns) s =
     (if n \<notin> visited s then
        (case dfs (dfs_fuel g) g n s of None \<Rightarrow> None | Some (b, t) \<Rightarrow> dfs_roots g ns t)
      else dfs_roots g ns s)"

definition init_search :: search where
  "init_search = \<lparr>visited = {}, rec_stack = {}, path = [], cycles = []\<rparr>"

subsection \<open>The search without a path\<close>

fun hc_dfs :: "nat \<Rightarrow> graph \<Rightarrow> string \<Rightarrow> string set \<times> string set \<Rightarrow> (bool \<times> string set \<times> string set) option"
  and hc_neighbors :: "nat \<Rightarrow> graph \<Rightarrow> string list \<Rightarrow> string set \<times> string set \<Rightarrow> (bool \<times> string set \<times> string set) option"
where
  "hc_dfs 0 g n s = None"
| "hc_dfs (Suc f) g n (vis, rec) =
     (case hc_neighbors f g (succs g n) (insert n vis, insert n rec) of
        None \<Rightarrow> None
      | Some (True, t) \<Rightarrow> Some (True, t)
      | Some (False, vis', rec') \<Rightarrow> if n \<in> rec' then Some (False, vis', rec' - {n}) else None)"
| "hc_neighbors f g [] s = Some (False, s)"
| "hc_neighbors f g (m # ms) (vis, rec) =
     (if m \<notin> vis then
        (case hc_dfs f g m (vis, rec) of
           None \<Rightarrow> None
         | Some (True, t) \<Rightarrow> Some (True, t)
         | Some (False, t) \<Rightarrow> hc_neighbors f g ms t)
      else if m \<in> rec then Some (True, vis, rec)
      else hc_neighbors f g ms (vis, rec))"

fun hc_roots :: "graph \<Rightarrow> string list \<Rightarrow> string set \<times> string set \<Rightarrow> bool option" where
  "hc_roots g [] s = Some False"
| "hc_roots g (n # ns) (vis, rec) =
     (if n \<notin> vis then
        (case hc_dfs (dfs_fuel g) g n (vis, rec) of None \<Rightarrow> None
         | Some (True, t) \<Rightarrow> Some True | Some (False, t) \<Rightarrow> hc_roots g ns t)
      else hc_roots g ns (vis, rec))"

subsection \<open>Chains and cycles\<close>

lemma chain_trancl: "is_chain r xs \<Longrightarrow> 2 \<le> length xs \<Longrightarrow> (hd xs, last xs) \<in> r\<^sup>+"
proof (induction xs rule: induct_list012)
  case (3 x y zs)
  then show ?case
    by (cases zs) (auto simp: is_chain_def intro: trancl_into_trancl2)
qed auto

lemma cycle_not_acyclic: "is_cycle r c \<Longrightarrow> \<not> acyclic r"
  using chain_trancl [of r c] by (auto simp: is_cycle_def acyclic_def)

lemma is_chain_append:
  "is_chain r (xs @ ys) \<longleftrightarrow> is_chain r xs \<and> is_chain r ys \<and> (xs = [] \<or> ys = [] \<or> (last xs, hd ys) \<in> r)"
  by (simp add: is_chain_def successively_append_iff)

lemma is_chain_dropWhile: "is_chain r xs \<Longrightarrow> is_chain r (dropWhile P xs)"
  by (metis is_chain_append takeWhile_dropWhile_id)

lemma is_chain_single [simp]: "is_chain r [x]" "is_chain r []"
  by (simp_all add: is_chain_def)

lemma path_from_cycle:
  assumes "is_chain r p" "path_from m p = Some c" "(last p, m) \<in> r"
  shows "is_cycle r (c @ [m])"
proof -
  from assms(2) have m: "m \<in> set p" and c: "c = dropWhile (\<lambda>x. x \<noteq> m) p"
    by (auto simp: path_from_def split: if_splits)
  from m have ne: "c \<noteq> []" unfolding c by (simp add: dropWhile_eq_Nil_conv)
  have hd: "hd c = m" using hd_dropWhile [of "\<lambda>x. x \<noteq> m" p] ne c by auto
  have last: "last c = last p" unfolding c using ne c by (metis last_appendR takeWhile_dropWhile_id)
  show ?thesis using assms(1,3) ne hd last
    by (auto simp: is_cycle_def is_chain_append c is_chain_dropWhile Suc_le_eq hd_append)
qed

subsection \<open>Nodes of a graph and the fuel\<close>

definition nodes :: "graph \<Rightarrow> string set" where
  "nodes g = set (keys g) \<union> set (concat (map snd g))"

lemma finite_nodes [simp]: "finite (nodes g)"
  by (simp add: nodes_def)

lemma succs_nodes: "m \<in> set (succs g n) \<Longrightarrow> m \<in> nodes g"
  by (cases "get g n") (force simp: succs_def get_default_def nodes_def dest: map_of_SomeD)+

lemma succs_keys: "m \<in> set (succs g n) \<Longrightarrow> n \<in> set (keys g)"
  by (cases "get g n") (auto simp: succs_def get_default_def in_keys_iff)

lemma edge_rel_nodes: "edge_rel g \<subseteq> nodes g \<times> nodes g"
  by (auto simp: edge_rel_def succs_nodes) (metis UnCI nodes_def succs_keys)

lemma card_nodes_fuel: "card (nodes g - V) < dfs_fuel g"
proof -
  have "card (nodes g - V) \<le> card (nodes g)" by (rule card_mono) auto
  also have "\<dots> \<le> card (set (keys g)) + card (set (concat (map snd g)))"
    unfolding nodes_def by (rule card_Un_le)
  also have "\<dots> \<le> length g + length (concat (map snd g))"
    by (intro add_mono order.trans [OF card_length]) (simp_all add: keys_def)
  finally show ?thesis by (simp add: dfs_fuel_def)
qed

lemma card_unvisited:
  "n \<in> nodes g \<Longrightarrow> n \<notin> V \<Longrightarrow> card (nodes g - insert n V) < card (nodes g - V)"
  by (rule psubset_card_mono) auto

subsection \<open>Invariant and totality\<close>

definition search_inv :: "graph \<Rightarrow> search \<Rightarrow> bool" where
  "search_inv g s \<longleftrightarrow> rec_stack s = set (path s) \<and> distinct (path s) \<and> set (path s) \<subseteq> visited s
     \<and> visited s \<subseteq> nodes g"

lemma search_inv_init [simp]: "search_inv g init_search"
  by (simp add: search_inv_def init_search_def)

lemma search_inv_enter:
  "search_inv g s \<Longrightarrow> n \<in> nodes g \<Longrightarrow> n \<notin> visited s \<Longrightarrow> search_inv g (enter n s)"
  by (auto simp: search_inv_def enter_def)

lemma enter_simps [simp]:
  "visited (enter n s) = insert n (visited s)" "path (enter n s) = path s @ [n]"
  "cycles (enter n s) = cycles s"
  by (simp_all add: enter_def)

lemma leave_entered:
  assumes "search_inv g t" "path t = p @ [n]"
  shows "\<exists>u. leave n t = Some u \<and> search_inv g u \<and> path u = p \<and> visited u = visited t \<and> cycles u = cycles t"
  using assms by (auto simp: leave_def search_inv_def)

lemma report_inv:
  assumes "search_inv g s" "m \<in> rec_stack s"
  shows "\<exists>t c. report m s = Some t \<and> search_inv g t \<and> visited t = visited s \<and> path t = path s
    \<and> path_from m (path s) = Some c \<and> cycles t = cycles s @ [c @ [m]]"
  using assms by (auto simp: report_def path_from_def search_inv_def)

text \<open>What one call leaves behind, whatever its result.\<close>

definition dfs_post :: "graph \<Rightarrow> search \<Rightarrow> bool \<Rightarrow> search \<Rightarrow> bool" where
  "dfs_post g s b t \<longleftrightarrow> search_inv g t \<and> visited s \<subseteq> visited t
     \<and> (if b then \<exists>c. cycles t = cycles s @ [c] else path t = path s \<and> cycles t = cycles s)"

lemma dfs_post_trans: "dfs_post g s False t \<Longrightarrow> dfs_post g t b u \<Longrightarrow> dfs_post g s b u"
  by (auto simp: dfs_post_def split: if_splits)

lemma dfs_post_refl: "search_inv g s \<Longrightarrow> dfs_post g s False s"
  by (simp add: dfs_post_def)

lemma dfs_total:
  "search_inv g s \<Longrightarrow> n \<in> nodes g \<Longrightarrow> n \<notin> visited s \<Longrightarrow> card (nodes g - visited s) \<le> f \<Longrightarrow>
     \<exists>b t. dfs f g n s = Some (b, t) \<and> dfs_post g s b t \<and> n \<in> visited t"
  "search_inv g s \<Longrightarrow> set ms \<subseteq> nodes g \<Longrightarrow> card (nodes g - visited s) \<le> f \<Longrightarrow>
     \<exists>b t. dfs_neighbors f g ms s = Some (b, t) \<and> dfs_post g s b t"
proof (induction f g n s and f g ms s rule: dfs_dfs_neighbors.induct)
  case (1 g n s)
  then show ?case by auto
next
  case (2 f g n s)
  have "card (nodes g - visited (enter n s)) \<le> f"
    using 2 card_unvisited [of n g "visited s"] by simp
  moreover have "set (succs g n) \<subseteq> nodes g" by (auto simp: succs_nodes)
  ultimately obtain b t where t: "dfs_neighbors f g (succs g n) (enter n s) = Some (b, t)"
    and p: "dfs_post g (enter n s) b t"
    using 2 search_inv_enter by blast
  show ?case
  proof (cases b)
    case True
    then show ?thesis using t p by (auto simp: dfs_post_def)
  next
    case False
    then have "search_inv g t" "path t = path s @ [n]" using p by (auto simp: dfs_post_def)
    from leave_entered [OF this] show ?thesis using t p False by (auto simp: dfs_post_def)
  qed
next
  case (3 f g s)
  then show ?case using dfs_post_refl by auto
next
  case (4 f g m ms s)
  show ?case
  proof (cases "m \<in> visited s")
    case True
    show ?thesis
    proof (cases "m \<in> rec_stack s")
      case rec: True
      from report_inv [OF 4(4) rec] obtain t c where "report m s = Some t" "search_inv g t"
        "visited t = visited s" "cycles t = cycles s @ [c @ [m]]" by blast
      then show ?thesis using True rec by (auto simp: dfs_post_def)
    next
      case rec: False
      then show ?thesis using 4(3) 4(4,5,6) True by simp
    qed
  next
    case False
    with 4 obtain b t where t: "dfs f g m s = Some (b, t)" "dfs_post g s b t" by auto
    show ?thesis
    proof (cases b)
      case True
      then show ?thesis using t False by auto
    next
      case b: False
      have "card (nodes g - visited t) \<le> card (nodes g - visited s)"
        using t(2) by (intro card_mono) (auto simp: dfs_post_def)
      then have "\<exists>b u. dfs_neighbors f g ms t = Some (b, u) \<and> dfs_post g t b u"
        using 4(2) [OF False t(1)] 4 t b by (auto simp: dfs_post_def)
      then show ?thesis using t False b by (auto intro: dfs_post_trans)
    qed
  qed
qed

subsection \<open>A search that returns false finishes an acyclic closed set\<close>

definition finished :: "search \<Rightarrow> string set" where
  "finished s = visited s - set (path s)"

definition closed_acyclic :: "(string \<times> string) set \<Rightarrow> string set \<Rightarrow> bool" where
  "closed_acyclic r D \<longleftrightarrow> r `` D \<subseteq> D \<and> acyclic (r \<inter> D \<times> D)"

lemma trancl_closed:
  assumes "(u, v) \<in> s\<^sup>+" "u \<in> D" "s `` D \<subseteq> D"
  shows "v \<in> D"
  using assms by (induction) auto

lemma closed_acyclic_insert:
  assumes D: "closed_acyclic r D" and n: "n \<notin> D" "r `` {n} \<subseteq> D"
  shows "closed_acyclic r (insert n D)"
proof -
  let ?s = "r \<inter> insert n D \<times> insert n D"
  have into: "v \<in> D" if "(u, v) \<in> ?s" for u v
    using that D n by (auto simp: closed_acyclic_def)
  have walk: "(x, v) \<in> (r \<inter> D \<times> D)\<^sup>+ \<and> v \<in> D" if "(x, v) \<in> ?s\<^sup>+" "x \<in> D" for x v
    using that(1)
  proof induction
    case (base v)
    then show ?case using \<open>x \<in> D\<close> into [OF base] by blast
  next
    case (step u v)
    then have "(u, v) \<in> r \<inter> D \<times> D" using into [OF step(2)] by blast
    then show ?case using step.IH into [OF step(2)] by (blast intro: trancl_into_trancl)
  qed
  have "(x, x) \<notin> ?s\<^sup>+" for x
  proof
    assume c: "(x, x) \<in> ?s\<^sup>+"
    then obtain u where "(u, x) \<in> ?s" by (meson tranclE)
    then have "x \<in> D" by (rule into)
    from walk [OF c this] D show False by (simp add: closed_acyclic_def acyclic_def)
  qed
  then have "acyclic ?s" by (simp add: acyclic_def)
  moreover have "r `` insert n D \<subseteq> insert n D" using D n by (auto simp: closed_acyclic_def)
  ultimately show ?thesis by (simp add: closed_acyclic_def)
qed

lemma dfs_finished:
  "dfs f g n s = Some (False, t) \<Longrightarrow> search_inv g s \<Longrightarrow> n \<in> nodes g \<Longrightarrow> n \<notin> visited s \<Longrightarrow>
     card (nodes g - visited s) \<le> f \<Longrightarrow> closed_acyclic (edge_rel g) (finished s) \<Longrightarrow>
     closed_acyclic (edge_rel g) (finished t) \<and> n \<in> finished t \<and> finished s \<subseteq> finished t"
  "dfs_neighbors f g ms s = Some (False, t) \<Longrightarrow> search_inv g s \<Longrightarrow> set ms \<subseteq> nodes g \<Longrightarrow>
     card (nodes g - visited s) \<le> f \<Longrightarrow> closed_acyclic (edge_rel g) (finished s) \<Longrightarrow>
     closed_acyclic (edge_rel g) (finished t) \<and> set ms \<subseteq> finished t \<and> finished s \<subseteq> finished t"
proof (induction f g n s and f g ms s arbitrary: t and t rule: dfs_dfs_neighbors.induct)
  case (2 f g n s)
  have fuel: "card (nodes g - visited (enter n s)) \<le> f"
    using 2 card_unvisited [of n g "visited s"] by simp
  have ms: "set (succs g n) \<subseteq> nodes g" by (auto simp: succs_nodes)
  have inv: "search_inv g (enter n s)" using 2 search_inv_enter by blast
  from 2(2) obtain u where u: "dfs_neighbors f g (succs g n) (enter n s) = Some (False, u)"
    and leave: "leave n u = Some t" by (auto split: option.splits prod.splits bool.splits)
  have fin: "finished (enter n s) = finished s" using 2 by (auto simp: finished_def search_inv_def)
  with 2(1) [OF u inv ms fuel] 2
  have IH: "closed_acyclic (edge_rel g) (finished u)" "set (succs g n) \<subseteq> finished u"
    "finished s \<subseteq> finished u" by auto
  have "dfs_post g (enter n s) False u" using dfs_total(2) [OF inv ms fuel] u by auto
  then have u': "search_inv g u" "path u = path s @ [n]" "n \<in> visited u" by (auto simp: dfs_post_def)
  then have "finished t = insert n (finished u)" "n \<notin> finished u"
    using leave by (auto simp: leave_def finished_def search_inv_def split: if_splits)
  then show ?case using IH closed_acyclic_insert [of "edge_rel g" "finished u" n]
    by (auto simp: edge_rel_def)
next
  case (4 f g m ms s)
  show ?case
  proof (cases "m \<in> visited s")
    case True
    with 4 have m: "m \<notin> rec_stack s" and "dfs_neighbors f g ms s = Some (False, t)"
      by (auto split: if_splits)
    then show ?thesis using 4 True by (auto simp: finished_def search_inv_def)
  next
    case False
    with 4(4) obtain u where u: "dfs f g m s = Some (False, u)" "dfs_neighbors f g ms u = Some (False, t)"
      by (auto split: option.splits prod.splits bool.splits)
    have post: "dfs_post g s False u" using dfs_total(1) [of g s m f] 4 False u by auto
    have "card (nodes g - visited u) \<le> card (nodes g - visited s)"
      using post by (intro card_mono) (auto simp: dfs_post_def)
    then have "card (nodes g - visited u) \<le> f" "search_inv g u" using 4 post by (auto simp: dfs_post_def)
    moreover have m: "closed_acyclic (edge_rel g) (finished u) \<and> m \<in> finished u \<and> finished s \<subseteq> finished u"
      using 4(1) [OF False u(1)] 4 False by simp
    ultimately have "closed_acyclic (edge_rel g) (finished t) \<and> set ms \<subseteq> finished t \<and> finished u \<subseteq> finished t"
      using 4(2) [OF False u(1) refl _ u(2)] 4(6) by simp
    with m show ?thesis by auto
  qed
qed auto

subsection \<open>A search that returns true reports a genuine cycle\<close>

lemma dfs_genuine:
  "dfs f g n s = Some (True, t) \<Longrightarrow> search_inv g s \<Longrightarrow> n \<in> nodes g \<Longrightarrow> n \<notin> visited s \<Longrightarrow>
     card (nodes g - visited s) \<le> f \<Longrightarrow> is_chain (edge_rel g) (path s @ [n]) \<Longrightarrow>
     \<exists>c. cycles t = cycles s @ [c] \<and> is_cycle (edge_rel g) c"
  "dfs_neighbors f g ms s = Some (True, t) \<Longrightarrow> search_inv g s \<Longrightarrow> set ms \<subseteq> nodes g \<Longrightarrow>
     card (nodes g - visited s) \<le> f \<Longrightarrow> is_chain (edge_rel g) (path s) \<Longrightarrow> path s \<noteq> [] \<Longrightarrow>
     \<forall>m \<in> set ms. (last (path s), m) \<in> edge_rel g \<Longrightarrow>
     \<exists>c. cycles t = cycles s @ [c] \<and> is_cycle (edge_rel g) c"
proof (induction f g n s and f g ms s arbitrary: t and t rule: dfs_dfs_neighbors.induct)
  case (2 f g n s)
  have "card (nodes g - visited (enter n s)) \<le> f"
    using 2 card_unvisited [of n g "visited s"] by simp
  moreover have "search_inv g (enter n s)" using 2 search_inv_enter by blast
  moreover have "dfs_neighbors f g (succs g n) (enter n s) = Some (True, t)"
    using 2(2) by (auto split: option.splits prod.splits bool.splits)
  ultimately show ?case using 2 succs_nodes by (auto simp: edge_rel_def)
next
  case (4 f g m ms s)
  show ?case
  proof (cases "m \<in> visited s")
    case vis: True
    show ?thesis
    proof (cases "m \<in> rec_stack s")
      case rec: True
      from report_inv [OF 4(5) rec] obtain u c where u: "report m s = Some u"
        "path_from m (path s) = Some c" "cycles u = cycles s @ [c @ [m]]" by blast
      moreover have "is_cycle (edge_rel g) (c @ [m])"
        using path_from_cycle [OF 4(8) u(2)] 4(10) by simp
      moreover have "t = u" using 4(4) vis rec u(1) by simp
      ultimately show ?thesis by auto
    next
      case rec: False
      then show ?thesis using 4(3) 4(4-10) vis by simp
    qed
  next
    case False
    from 4 False obtain b u where u: "dfs f g m s = Some (b, u)" "dfs_post g s b u"
      using dfs_total(1) [of g s m f] by auto
    show ?thesis
    proof (cases b)
      case True
      then show ?thesis using 4(1) [OF False] u 4(4-10) False by (simp add: is_chain_append)
    next
      case b: False
      then have u': "dfs f g m s = Some (False, u)" and nxt: "dfs_neighbors f g ms u = Some (True, t)"
        using u(1) 4(4) False by simp_all
      have same: "search_inv g u" "path u = path s" "cycles u = cycles s" "visited s \<subseteq> visited u"
        using u(2) b by (auto simp: dfs_post_def)
      then have "card (nodes g - visited u) \<le> card (nodes g - visited s)"
        by (intro card_mono) auto
      then show ?thesis using 4(2) [OF False u' refl _ nxt] 4(6-10) same by simp
    qed
  qed
qed auto

subsection \<open>The loop over the roots\<close>

lemma dfs_fuel_enough: "card (nodes g - V) \<le> dfs_fuel g"
  using card_nodes_fuel [of g V] by simp

lemma dfs_roots_grows:
  "search_inv g s \<Longrightarrow> set ns \<subseteq> nodes g \<Longrightarrow>
     \<exists>t cs. dfs_roots g ns s = Some t \<and> cycles t = cycles s @ cs"
proof (induction ns arbitrary: s)
  case (Cons n ns)
  show ?case
  proof (cases "n \<in> visited s")
    case False
    with Cons.prems dfs_fuel_enough obtain b u where u: "dfs (dfs_fuel g) g n s = Some (b, u)"
      "dfs_post g s b u" using dfs_total(1) [of g s n "dfs_fuel g"] by auto
    then obtain cs where "cycles u = cycles s @ cs" by (cases b) (auto simp: dfs_post_def)
    moreover obtain t ds where "dfs_roots g ns u = Some t" "cycles t = cycles u @ ds"
      using Cons u(2) by (fastforce simp: dfs_post_def)
    ultimately show ?thesis using u(1) False by simp
  qed (use Cons in simp)
qed simp

definition roots_post :: "graph \<Rightarrow> string list \<Rightarrow> search \<Rightarrow> search \<Rightarrow> bool" where
  "roots_post g ns s t \<longleftrightarrow>
     (if cycles t = [] then path t = [] \<and> closed_acyclic (edge_rel g) (finished t)
        \<and> finished s \<subseteq> finished t \<and> set ns \<subseteq> finished t
      else is_cycle (edge_rel g) (hd (cycles t)))"

lemma dfs_roots_post:
  "search_inv g s \<Longrightarrow> set ns \<subseteq> nodes g \<Longrightarrow> path s = [] \<Longrightarrow> cycles s = [] \<Longrightarrow>
     closed_acyclic (edge_rel g) (finished s) \<Longrightarrow>
     \<exists>t. dfs_roots g ns s = Some t \<and> roots_post g ns s t"
proof (induction ns arbitrary: s)
  case (Cons n ns)
  show ?case
  proof (cases "n \<in> visited s")
    case True
    then have "n \<in> finished s" using Cons.prems by (simp add: finished_def)
    then show ?thesis using Cons True by (fastforce simp: roots_post_def split: if_splits)
  next
    case False
    with Cons.prems dfs_fuel_enough obtain b u where u: "dfs (dfs_fuel g) g n s = Some (b, u)"
      "dfs_post g s b u" using dfs_total(1) [of g s n "dfs_fuel g"] by auto
    show ?thesis
    proof (cases b)
      case True
      then obtain c where c: "cycles u = [c]" "is_cycle (edge_rel g) c"
        using dfs_genuine(1) [of "dfs_fuel g" g n s u] u(1) Cons.prems False dfs_fuel_enough by auto
      obtain t cs where "dfs_roots g ns u = Some t" "cycles t = cycles u @ cs"
        using dfs_roots_grows [of g u ns] u(2) Cons.prems by (auto simp: dfs_post_def)
      then show ?thesis using c u(1) False by (simp add: roots_post_def)
    next
      case b: False
      have fin: "closed_acyclic (edge_rel g) (finished u) \<and> n \<in> finished u \<and> finished s \<subseteq> finished u"
        using dfs_finished(1) [of "dfs_fuel g" g n s u] u(1) b Cons.prems False dfs_fuel_enough by auto
      obtain t where t: "dfs_roots g ns u = Some t" "roots_post g ns u t"
        using Cons.IH [of u] u(2) b fin Cons.prems by (auto simp: dfs_post_def)
      then have "roots_post g (n # ns) s t" using fin by (auto simp: roots_post_def split: if_splits)
      then show ?thesis using t(1) u(1) b False by simp
    qed
  qed
qed (simp add: roots_post_def)

text \<open>The whole search: run from every key of the graph.\<close>

definition search_graph :: "graph \<Rightarrow> search option" where
  "search_graph g = dfs_roots g (keys g) init_search"

lemma finished_init [simp]: "finished init_search = {}"
  by (simp add: finished_def init_search_def)

lemma search_graph_cases:
  obtains t where "search_graph g = Some t" "cycles t = []" "acyclic (edge_rel g)"
  | t where "search_graph g = Some t" "cycles t \<noteq> []" "is_cycle (edge_rel g) (hd (cycles t))"
proof -
  have "closed_acyclic (edge_rel g) {}" by (simp add: closed_acyclic_def acyclic_def)
  then obtain t where t: "search_graph g = Some t" "roots_post g (keys g) init_search t"
    using dfs_roots_post [of g init_search "keys g"]
    by (auto simp: search_graph_def init_search_def nodes_def search_inv_def finished_def)
  show thesis
  proof (cases "cycles t = []")
    case True
    with t(2) have D: "closed_acyclic (edge_rel g) (finished t)" "set (keys g) \<subseteq> finished t"
      by (auto simp: roots_post_def)
    have "edge_rel g = edge_rel g \<inter> finished t \<times> finished t"
      using D by (auto simp: closed_acyclic_def edge_rel_def dest: succs_keys)
    then show thesis using D True t(1) that(1) by (simp add: closed_acyclic_def)
  next
    case False
    then show thesis using t that(2) by (simp add: roots_post_def)
  qed
qed

subsection \<open>The search without a path is a projection\<close>

lemma hc_dfs_projects:
  "dfs f g n s = Some (b, t) \<Longrightarrow>
     hc_dfs f g n (visited s, rec_stack s) = Some (b, visited t, rec_stack t)"
  "dfs_neighbors f g ms s = Some (b, t) \<Longrightarrow>
     hc_neighbors f g ms (visited s, rec_stack s) = Some (b, visited t, rec_stack t)"
proof (induction f g n s and f g ms s arbitrary: b t and b t rule: dfs_dfs_neighbors.induct)
  case (2 f g n s)
  then obtain c u where u: "dfs_neighbors f g (succs g n) (enter n s) = Some (c, u)"
    by (auto split: option.splits)
  from 2(1) [OF u] have "hc_neighbors f g (succs g n) (insert n (visited s), insert n (rec_stack s))
      = Some (c, visited u, rec_stack u)" by (simp add: enter_def)
  then show ?case using 2(2) u by (cases c) (auto simp: leave_def split: if_splits)
next
  case (4 f g m ms s)
  show ?case
  proof (cases "m \<in> visited s")
    case vis: True
    then show ?thesis using 4(3) 4(4)
      by (cases "m \<in> rec_stack s") (auto simp: report_def split: option.splits)
  next
    case False
    then obtain c u where u: "dfs f g m s = Some (c, u)" using 4(4) by (auto split: option.splits)
    show ?thesis
    proof (cases c)
      case True
      then show ?thesis using u 4(4) 4(1) [OF False u] False by simp
    next
      case c: False
      then have "dfs f g m s = Some (False, u)" using u by simp
      then show ?thesis using 4(4) 4(1) [OF False u] 4(2) [OF False _ refl] False c by simp
    qed
  qed
qed auto

lemma hc_roots_projects:
  "search_inv g s \<Longrightarrow> set ns \<subseteq> nodes g \<Longrightarrow> dfs_roots g ns s = Some t \<Longrightarrow>
     hc_roots g ns (visited s, rec_stack s) = Some (cycles t \<noteq> cycles s)"
proof (induction ns arbitrary: s)
  case (Cons n ns)
  show ?case
  proof (cases "n \<in> visited s")
    case False
    with Cons.prems dfs_fuel_enough obtain b u where u: "dfs (dfs_fuel g) g n s = Some (b, u)"
      "dfs_post g s b u" using dfs_total(1) [of g s n "dfs_fuel g"] by auto
    then have t: "dfs_roots g ns u = Some t" using Cons.prems False by simp
    note hc = hc_dfs_projects(1) [OF u(1)]
    show ?thesis
    proof (cases b)
      case True
      obtain cs where "cycles t = cycles u @ cs"
        using dfs_roots_grows [of g u ns] u(2) Cons.prems t by (auto simp: dfs_post_def)
      then show ?thesis using True hc u(2) False by (auto simp: dfs_post_def)
    next
      case b: False
      then show ?thesis using Cons.IH [OF _ _ t] hc u(2) Cons.prems False by (simp add: dfs_post_def)
    qed
  qed (use Cons in simp)
qed simp

lemma hc_roots_acyclic: "hc_roots g (keys g) ({}, {}) = Some (\<not> acyclic (edge_rel g))"
proof (cases rule: search_graph_cases [of g])
  case (1 t)
  then show ?thesis using hc_roots_projects [of g init_search "keys g" t]
    by (auto simp: search_graph_def init_search_def nodes_def search_inv_def)
next
  case (2 t)
  then show ?thesis using hc_roots_projects [of g init_search "keys g" t] cycle_not_acyclic
    by (auto simp: search_graph_def init_search_def nodes_def search_inv_def)
qed

end
