(* ===== verification/Workflow_Validation.thy ===== *)
theory Workflow_Validation
  imports Graph_Search
begin

text \<open>
  The canvas validator, \<open>src/src/api/workflow_validation.py\<close>: cycle detection over the sequential
  connections, agent references, connection ends and types, and \<open>validate_workflow\<close> that
  combines them.  The results of the search come from theory \<open>Graph_Search\<close>.
\<close>

subsection \<open>Nodes, connections, errors\<close>

record wf_node =
  node_id :: string
  node_agent :: string

record connection =
  from_node :: string
  to_node :: string
  conn_type :: string

record validation_error =
  err_field :: string
  err_message :: string
  err_type :: string

definition mk_error :: "string \<Rightarrow> string \<Rightarrow> string \<Rightarrow> validation_error" where
  "mk_error f m t = \<lparr>err_field = f, err_message = m, err_type = t\<rparr>"

subsection \<open>Cycle detection\<close>

definition add_connection :: "connection \<Rightarrow> graph \<Rightarrow> graph" where
  "add_connection c g = (if conn_type c = ''sequential'' then
      (let g' = (if from_node c \<in> set (keys g) then g else put (from_node c) [] g)
       in put (from_node c) (succs g' (from_node c) @ [to_node c]) g')
    else g)"

definition connection_graph :: "connection list \<Rightarrow> graph" where
  "connection_graph conns = fold add_connection conns []"

definition detect_cycles :: "connection list \<Rightarrow> string list list option" where
  "detect_cycles conns = map_option cycles
     (dfs_roots (connection_graph conns) (keys (connection_graph conns)) init_search)"

subsection \<open>References and connections\<close>

definition validate_agent_references :: "wf_node list \<Rightarrow> string set \<Rightarrow> validation_error list" where
  "validate_agent_references ns available =
     map (\<lambda>n. mk_error (''nodes['' @ node_id n @ ''].agent_id'')
                (''Agent '' @ [CHR 0x27] @ node_agent n @ [CHR 0x27] @ '' not found'') ''missing_reference'')
       (filter (\<lambda>n. node_agent n \<notin> available) ns)"

definition connection_errors :: "string set \<Rightarrow> nat \<Rightarrow> connection \<Rightarrow> validation_error list" where
  "connection_errors ids i c =
     (if from_node c \<notin> ids then [mk_error (''connections['' @ nat_str i @ ''].from_node'')
        (''Node '' @ quoted (from_node c) @ '' not found'') ''missing_node''] else [])
   @ (if to_node c \<notin> ids then [mk_error (''connections['' @ nat_str i @ ''].to_node'')
        (''Node '' @ quoted (to_node c) @ '' not found'') ''missing_node''] else [])
   @ (if conn_type c \<notin> {''sequential'', ''parallel''} then [mk_error (''connections['' @ nat_str i @ ''].type'')
        (''Invalid connection type '' @ quoted (conn_type c) @ ''. Must be '' @ quoted ''sequential''
          @ '' or '' @ quoted ''parallel'') ''invalid_value''] else [])"

definition validate_connections :: "wf_node list \<Rightarrow> connection list \<Rightarrow> validation_error list" where
  "validate_connections ns conns =
     concat (map (\<lambda>(i, c). connection_errors (set (map node_id ns)) i c) (enumerate 0 conns))"

text \<open>The warning lists a set in an unspecified order, so the set itself is kept; there is at most
  one warning.\<close>

definition validate_workflow ::
  "wf_node list \<Rightarrow> connection list \<Rightarrow> string set \<Rightarrow> (bool \<times> validation_error list \<times> string set option) option"
where
  "validate_workflow ns conns available =
     (case detect_cycles conns of None \<Rightarrow> None
      | Some cs \<Rightarrow>
         (let errors = validate_agent_references ns available @ validate_connections ns conns
                @ map (\<lambda>c. mk_error ''connections'' (''Cycle detected: '' @ join '' -> '' c) ''cycle_detected'') cs;
              connected = fold (\<lambda>c s. insert (to_node c) (insert (from_node c) s)) conns {};
              disconnected = set (map node_id ns) - connected
          in Some (errors = [], errors, if disconnected = {} then None else Some disconnected)))"

subsection \<open>The graph has exactly the sequential connections as edges\<close>

definition seq_edges :: "connection list \<Rightarrow> (string \<times> string) set" where
  "seq_edges conns = (\<lambda>c. (from_node c, to_node c)) ` {c \<in> set conns. conn_type c = ''sequential''}"

lemma seq_edges_simps [simp]:
  "seq_edges [] = {}"
  "seq_edges (c # conns) = (if conn_type c = ''sequential''
     then insert (from_node c, to_node c) (seq_edges conns) else seq_edges conns)"
  by (auto simp: seq_edges_def)

lemma succs_add_connection:
  "succs (add_connection c g) u =
     succs g u @ (if conn_type c = ''sequential'' \<and> from_node c = u then [to_node c] else [])"
  by (auto simp: add_connection_def succs_def get_default_def get_None_iff Let_def split: option.splits)
    (simp add: in_keys_iff)

lemma succs_fold_connections:
  "succs (fold add_connection conns g) u =
     succs g u @ map to_node (filter (\<lambda>c. conn_type c = ''sequential'' \<and> from_node c = u) conns)"
  by (induction conns arbitrary: g) (simp_all add: succs_add_connection)

lemma edge_rel_connection_graph: "edge_rel (connection_graph conns) = seq_edges conns"
  by (auto simp: edge_rel_def connection_graph_def succs_fold_connections seq_edges_def
      succs_def [of "[]"] get_default_def image_iff)

lemma detect_cycles_search: "detect_cycles conns = map_option cycles (search_graph (connection_graph conns))"
  by (simp add: detect_cycles_def search_graph_def)

lemma detect_cycles_cases:
  obtains "detect_cycles conns = Some []" "acyclic (seq_edges conns)"
  | c cs where "detect_cycles conns = Some (c # cs)" "is_cycle (seq_edges conns) c"
proof (cases rule: search_graph_cases [of "connection_graph conns"])
  case (1 t)
  then show thesis using that(1) by (simp add: detect_cycles_search edge_rel_connection_graph)
next
  case (2 t)
  then show thesis using that(2) [of "hd (cycles t)" "tl (cycles t)"]
    by (simp add: detect_cycles_search edge_rel_connection_graph)
qed

subsection \<open>Properties\<close>

text \<open>C1: on every list of connections the cycle detector returns normally, and it returns the empty
  list exactly when the graph of the sequential connections has no cycle.  In particular it never
  misses a cycle and never reports one in an acyclic workflow, and neither \<open>path.index\<close> nor
  \<open>rec_stack.remove\<close> can raise.\<close>

theorem detect_cycles_correct:
  "\<exists>cs. detect_cycles conns = Some cs \<and> (cs = [] \<longleftrightarrow> acyclic (seq_edges conns))"
  by (cases rule: detect_cycles_cases [of conns]) (auto dest: cycle_not_acyclic)

text \<open>the first cycle the detector reports is a genuine one: a path of sequential connections with
  at least one edge that ends where it starts.\<close>

theorem detect_cycles_first_genuine:
  assumes "detect_cycles conns = Some (c # cs)"
  shows "2 \<le> length c \<and> hd c = last c
    \<and> (\<forall>i. Suc i < length c \<longrightarrow> (c ! i, c ! Suc i) \<in> seq_edges conns)"
  using assms by (cases rule: detect_cycles_cases [of conns])
    (auto simp: is_cycle_def is_chain_def successively_conv_nth)

definition seq_conn :: "string \<Rightarrow> string \<Rightarrow> connection" where
  "seq_conn a b = \<lparr>from_node = a, to_node = b, conn_type = ''sequential''\<rparr>"

text \<open>Evaluation of the search on a concrete graph: the graph first, then the fuel, then the calls.\<close>

lemmas search_eval = succs_def get_default_def keys_def init_search_def enter_def leave_def
  report_def path_from_def

lemma two_cycle_graph:
  "connection_graph [seq_conn ''a'' ''b'', seq_conn ''b'' ''a''] = [(''a'', [''b'']), (''b'', [''a''])]"
  by code_simp

theorem detect_cycles_first_genuine_witness:
  "(''a'', ''b'') \<in> seq_edges [seq_conn ''a'' ''b'', seq_conn ''b'' ''a'']"
proof -
  have "dfs_fuel [(''a'', [''b'']), (''b'', [''a''])] = Suc (Suc (Suc (Suc (Suc 0))))"
    by (simp add: dfs_fuel_def)
  then have d: "detect_cycles [seq_conn ''a'' ''b'', seq_conn ''b'' ''a''] = Some [ [''a'', ''b'', ''a''] ]"
    by (simp add: detect_cycles_def two_cycle_graph search_eval)
  from detect_cycles_first_genuine [OF d, THEN conjunct2, THEN conjunct2, rule_format, of 0]
  show ?thesis by simp
qed

text \<open>the detector does not unwind its path and recursion stack after a reported cycle, so a later
  start node can make it report a node sequence that is no cycle at all: with the connections
  a-b, b-a and c-a it also reports a, b, c, a although there is no connection from b to c.\<close>

theorem detect_cycles_spurious_second:
  "\<exists>conns c1 c2. detect_cycles conns = Some [c1, c2] \<and> is_cycle (seq_edges conns) c1
     \<and> \<not> is_cycle (seq_edges conns) c2"
proof -
  let ?conns = "[seq_conn ''a'' ''b'', seq_conn ''b'' ''a'', seq_conn ''c'' ''a'']"
  let ?g = "[(''a'', [''b'']), (''b'', [''a'']), (''c'', [''a''])]"
  have "connection_graph ?conns = ?g" by code_simp
  moreover have "dfs_fuel ?g = Suc (Suc (Suc (Suc (Suc (Suc (Suc 0))))))" by (simp add: dfs_fuel_def)
  ultimately have "detect_cycles ?conns = Some [ [''a'', ''b'', ''a''], [''a'', ''b'', ''c'', ''a''] ]"
    by (simp add: detect_cycles_def search_eval)
  moreover have "is_cycle (seq_edges ?conns) [''a'', ''b'', ''a'']"
    by (simp add: is_cycle_def is_chain_def seq_conn_def)
  moreover have "\<not> is_cycle (seq_edges ?conns) [''a'', ''b'', ''c'', ''a'']"
    by (simp add: is_cycle_def is_chain_def seq_conn_def)
  ultimately show ?thesis by blast
qed

lemma connection_errors_Nil_iff:
  "connection_errors ids i c = [] \<longleftrightarrow>
     from_node c \<in> ids \<and> to_node c \<in> ids \<and> conn_type c \<in> {''sequential'', ''parallel''}"
  by (simp add: connection_errors_def)

lemma validate_connections_Nil_iff:
  "validate_connections ns conns = [] \<longleftrightarrow>
     (\<forall>c \<in> set conns. from_node c \<in> node_id ` set ns \<and> to_node c \<in> node_id ` set ns
        \<and> conn_type c \<in> {''sequential'', ''parallel''})"
proof -
  have "concat (map (\<lambda>(i, c). connection_errors ids i c) (enumerate k conns)) = [] \<longleftrightarrow>
     (\<forall>c \<in> set conns. connection_errors ids 0 c = [])" for ids k
    by (induction conns arbitrary: k) (auto simp: connection_errors_Nil_iff)
  then show ?thesis by (simp add: validate_connections_def connection_errors_Nil_iff)
qed

lemma validate_agent_references_Nil_iff:
  "validate_agent_references ns available = [] \<longleftrightarrow> (\<forall>n \<in> set ns. node_agent n \<in> available)"
  by (auto simp: validate_agent_references_def filter_empty_conv)

lemma fold_connected:
  "fold (\<lambda>c s. insert (to_node c) (insert (from_node c) s)) conns S
     = S \<union> from_node ` set conns \<union> to_node ` set conns"
  by (induction conns arbitrary: S) auto

text \<open>C2: the validator always returns; a workflow is valid exactly when every node names an available
  agent, every connection joins two nodes of the workflow and is sequential or parallel, and the
  sequential connections are acyclic; and the warning lists exactly the nodes no connection
  touches.\<close>

theorem validate_workflow_sound_complete:
  "\<exists>errors warning. validate_workflow ns conns available =
      Some ((\<forall>n \<in> set ns. node_agent n \<in> available)
        \<and> (\<forall>c \<in> set conns. from_node c \<in> node_id ` set ns \<and> to_node c \<in> node_id ` set ns
             \<and> conn_type c \<in> {''sequential'', ''parallel''})
        \<and> acyclic (seq_edges conns), errors, warning)
    \<and> (case warning of None \<Rightarrow> {} | Some d \<Rightarrow> d) =
        {x \<in> node_id ` set ns. \<forall>c \<in> set conns. x \<noteq> from_node c \<and> x \<noteq> to_node c}"
proof (cases rule: detect_cycles_cases [of conns])
  case 1
  then show ?thesis
    by (auto simp: validate_workflow_def Let_def validate_connections_Nil_iff
        validate_agent_references_Nil_iff fold_connected)
next
  case (2 c cs)
  then show ?thesis
    by (auto simp: validate_workflow_def Let_def fold_connected dest: cycle_not_acyclic)
qed

theorem validate_workflow_sound_complete_witness:
  "\<exists>errors warning. validate_workflow [\<lparr>node_id = ''a'', node_agent = ''w''\<rparr>] [] {''w''} = Some (True, errors, warning)
    \<and> (case warning of None \<Rightarrow> {} | Some d \<Rightarrow> d) = {''a''}"
  using validate_workflow_sound_complete [of "[\<lparr>node_id = ''a'', node_agent = ''w''\<rparr>]" "[]" "{''w''}"]
  by (simp add: seq_edges_def acyclic_def Collect_conv_if)

end
