(* ===== verification/Topology.thy ===== *)
theory Topology
  imports Graph_Search
begin

text \<open>
  Workflow topologies, \<open>src/src/config/topology_models.py\<close>: the Pydantic models with their field
  validators, and \<open>TopologyConfig.validate_topology\<close> with its breadth-first reachability and
  depth-first cycle test.  A field validator runs only when the field is given, so an input field
  with a default is an option whose \<open>None\<close> means "not given".
\<close>

subsection \<open>Enumerations\<close>

datatype topology_type = SINGLE | SEQUENTIAL | TREE | GRAPH

datatype context_strategy = FULL | SUMMARY | SELECTIVE

datatype condition_type = MAX_ITERATIONS | MESSAGE_PATTERN | AGENT_DECISION | TIMEOUT | MAX_ROUTING_ATTEMPTS

subsection \<open>Nodes\<close>

record agent_node =
  an_id :: string
  an_description :: string
  an_position :: "(string, rat) odict option"
  an_agent_id :: string
  an_is_router :: bool
  an_config_override :: "(string, json) odict option"
  an_input_transform :: "string option"
  an_output_transform :: "string option"
  an_timeout :: "rat option"
  an_tools :: "string list"
  an_memory :: "bool option"
  an_knowledge :: "bool option"
  an_extra :: "(string, json) odict"

definition slug_char :: "char \<Rightarrow> bool" where
  "slug_char c \<longleftrightarrow> (97 \<le> code c \<and> code c \<le> 122) \<or> is_digit c \<or> c = CHR ''_''"

definition blank :: "string \<Rightarrow> bool" where
  "blank v \<longleftrightarrow> v = [] \<or> strip v = []"

definition node_ok :: "agent_node \<Rightarrow> bool" where
  "node_ok n \<longleftrightarrow> an_id n \<noteq> [] \<and> (\<forall>c \<in> set (an_id n). slug_char c \<or> c = CHR ''-'') \<and> \<not> blank (an_id n)
     \<and> an_agent_id n \<noteq> [] \<and> (\<forall>c \<in> set (an_agent_id n). slug_char c) \<and> \<not> blank (an_agent_id n)
     \<and> (case an_timeout n of None \<Rightarrow> True | Some t \<Rightarrow> 0 < t)"

subsection \<open>Edges\<close>

record agent_edge =
  ae_from :: string
  ae_to :: string
  ae_condition :: json
  ae_strategy :: context_strategy
  ae_fields :: "string list option"
  ae_extra :: "(string, json) odict"

datatype edge_error = Empty_node_id | Fields_required

text \<open>\<open>AgentEdge(...)\<close> with \<open>fields\<close> given as \<open>Some v\<close> or left out as \<open>None\<close>.\<close>

definition make_edge :: "string \<Rightarrow> string \<Rightarrow> json \<Rightarrow> context_strategy \<Rightarrow> string list option option
    \<Rightarrow> (string, json) odict \<Rightarrow> edge_error + agent_edge" where
  "make_edge f t cond strat given extra =
     (if blank f \<or> blank t then Inl Empty_node_id
      else case given of
        None \<Rightarrow> Inr \<lparr>ae_from = f, ae_to = t, ae_condition = cond, ae_strategy = strat, ae_fields = None, ae_extra = extra\<rparr>
      | Some v \<Rightarrow> if strat = SELECTIVE \<and> \<not> opt_truthy v then Inl Fields_required
          else Inr \<lparr>ae_from = f, ae_to = t, ae_condition = cond, ae_strategy = strat, ae_fields = v, ae_extra = extra\<rparr>)"

text \<open>The \<open>fields\<close> check is skipped when \<open>fields\<close> is left out, so a selective edge without fields is built.\<close>

lemma make_edge_selective:
  "make_edge f t cond SELECTIVE given extra = Inr e \<Longrightarrow> opt_truthy (ae_fields e) \<longleftrightarrow> given \<noteq> None"
  by (auto simp: make_edge_def opt_truthy_def split: option.splits if_splits)

subsection \<open>Termination conditions\<close>

record termination_condition =
  tc_type :: condition_type
  tc_value :: json

text \<open>\<open>isinstance(v, int)\<close> also holds for booleans.\<close>

fun as_int :: "json \<Rightarrow> int option" where
  "as_int (JInt i) = Some i"
| "as_int (JBool b) = Some (if b then 1 else 0)"
| "as_int _ = None"

fun as_number :: "json \<Rightarrow> rat option" where
  "as_number (JFloat r) = Some r"
| "as_number v = map_option of_int (as_int v)"

definition condition_value_ok :: "condition_type \<Rightarrow> json \<Rightarrow> bool" where
  "condition_value_ok ty v = (case ty of
      MAX_ITERATIONS \<Rightarrow> (case as_int v of None \<Rightarrow> False | Some i \<Rightarrow> \<not> i < 1)
    | MESSAGE_PATTERN \<Rightarrow> (case v of JStr _ \<Rightarrow> True | _ \<Rightarrow> False)
    | TIMEOUT \<Rightarrow> (case as_number v of None \<Rightarrow> False | Some r \<Rightarrow> \<not> r \<le> 0)
    | MAX_ROUTING_ATTEMPTS \<Rightarrow> (case as_int v of None \<Rightarrow> False | Some i \<Rightarrow> \<not> i < 1)
    | AGENT_DECISION \<Rightarrow> True)"

subsection \<open>Topologies\<close>

record topology =
  tp_type :: topology_type
  tp_nodes :: "agent_node list"
  tp_edges :: "agent_edge list"
  tp_entry :: string
  tp_conditions :: "termination_condition list"

datatype topology_error = No_nodes | Edge_from_unknown string | Edge_to_unknown string | Entry_unknown string

definition node_ids :: "topology \<Rightarrow> string list" where
  "node_ids t = map an_id (tp_nodes t)"

fun validate_edges :: "string set \<Rightarrow> agent_edge list \<Rightarrow> topology_error option" where
  "validate_edges ids [] = None"
| "validate_edges ids (e # es) =
     (if ae_from e \<notin> ids then Some (Edge_from_unknown (ae_from e))
      else if ae_to e \<notin> ids then Some (Edge_to_unknown (ae_to e))
      else validate_edges ids es)"

definition make_topology :: "topology \<Rightarrow> topology_error list + topology" where
  "make_topology t =
     (let errors = (if tp_nodes t = [] then [No_nodes] else [])
         @ (case validate_edges (set (node_ids t)) (tp_edges t) of None \<Rightarrow> [] | Some e \<Rightarrow> [e])
         @ (if tp_entry t \<notin> set (node_ids t) then [Entry_unknown (tp_entry t)] else [])
      in if errors = [] then Inr t else Inl errors)"

subsection \<open>Reachability and cycles\<close>

definition bfs_neighbors :: "string list \<Rightarrow> string set \<times> string list \<Rightarrow> string set \<times> string list" where
  "bfs_neighbors ms s = fold (\<lambda>m (vis, q). if m \<notin> vis then (insert m vis, q @ [m]) else (vis, q)) ms s"

lemma bfs_neighbors_simps [simp]:
  "bfs_neighbors [] s = s"
  "bfs_neighbors (m # ms) (vis, q) =
     bfs_neighbors ms (if m \<notin> vis then (insert m vis, q @ [m]) else (vis, q))"
  by (auto simp: bfs_neighbors_def)

lemma bfs_neighbors_spec:
  "bfs_neighbors ms (vis, q) = (vis', q') \<Longrightarrow>
     vis' = vis \<union> set ms \<and> set q' = set q \<union> (set ms - vis) \<and> (vis' = vis \<longrightarrow> q' = q)"
proof (induction ms arbitrary: vis q)
  case (Cons m ms)
  then show ?case by (cases "m \<in> vis") (auto, blast+)
qed simp

function bfs :: "graph \<Rightarrow> string set \<Rightarrow> string list \<Rightarrow> string set" where
  "bfs g vis [] = vis"
| "bfs g vis (c # q) = (let (vis', q') = bfs_neighbors (succs g c) (vis, q) in bfs g vis' q')"
  by pat_completeness auto
termination
proof (relation "measures [\<lambda>(g, vis, q). card (nodes g - vis), \<lambda>(g, vis, q). length q]", goal_cases)
  case (2 g vis c q x vis' q')
  from 2 have s: "vis' = vis \<union> set (succs g c)" "vis' = vis \<longrightarrow> q' = q"
    using bfs_neighbors_spec [of "succs g c" vis q vis' q'] by auto
  show ?case
  proof (cases "vis' = vis")
    case False
    then have "nodes g - vis' \<subset> nodes g - vis" using s(1) succs_nodes by blast
    then have "card (nodes g - vis') < card (nodes g - vis)" by (intro psubset_card_mono) auto
    then show ?thesis by simp
  qed (use s in simp)
qed simp

definition reachable_nodes :: "graph \<Rightarrow> string \<Rightarrow> string set" where
  "reachable_nodes g start = bfs g {start} [start]"

definition has_cycle :: "graph \<Rightarrow> bool option" where
  "has_cycle g = hc_roots g (keys g) ({}, {})"

subsection \<open>Structural validation\<close>

datatype structure_error = Unreachable "string set" | Single_node_count nat | Single_edge_count nat
  | Sequential_edge_count nat nat | Sequential_cycle | Tree_cycle | Tree_parents string nat
  | Graph_needs_termination

text \<open>\<open>{node.id: [] for node in nodes}\<close>, then \<open>adjacency[edge.from_node].append(edge.to_node)\<close>, which raises
  a KeyError on an unknown source.\<close>

definition empty_adjacency :: "agent_node list \<Rightarrow> graph" where
  "empty_adjacency ns = fold (\<lambda>n. put (an_id n) []) ns []"

fun add_edges :: "agent_edge list \<Rightarrow> graph \<Rightarrow> graph option" where
  "add_edges [] g = Some g"
| "add_edges (e # es) g =
     (case get g (ae_from e) of None \<Rightarrow> None
      | Some ms \<Rightarrow> add_edges es (put (ae_from e) (ms @ [ae_to e]) g))"

fun count_parents :: "agent_edge list \<Rightarrow> (string, nat) odict \<Rightarrow> (string, nat) odict option" where
  "count_parents [] d = Some d"
| "count_parents (e # es) d =
     (case get d (ae_to e) of None \<Rightarrow> None | Some k \<Rightarrow> count_parents es (put (ae_to e) (Suc k) d))"

definition tree_errors :: "topology \<Rightarrow> structure_error list option" where
  "tree_errors t =
     map_option (\<lambda>d. map (\<lambda>(n, k). Tree_parents n k) (filter (\<lambda>(n, k). n \<noteq> tp_entry t \<and> k \<noteq> 1) d))
       (count_parents (tp_edges t) (fold (\<lambda>n. put (an_id n) 0) (tp_nodes t) []))"

definition type_errors :: "topology \<Rightarrow> bool \<Rightarrow> structure_error list option" where
  "type_errors t cyc = (case tp_type t of
      SINGLE \<Rightarrow> Some ((if length (tp_nodes t) \<noteq> 1 then [Single_node_count (length (tp_nodes t))] else [])
        @ (if length (tp_edges t) > 0 then [Single_edge_count (length (tp_edges t))] else []))
    | SEQUENTIAL \<Rightarrow> Some ((if int (length (tp_edges t)) \<noteq> int (length (tp_nodes t)) - 1
          then [Sequential_edge_count (length (tp_edges t)) (length (tp_nodes t))] else [])
        @ (if cyc then [Sequential_cycle] else []))
    | TREE \<Rightarrow> map_option (\<lambda>es. (if cyc then [Tree_cycle] else []) @ es) (tree_errors t)
    | GRAPH \<Rightarrow> Some (if cyc \<and> tp_conditions t = [] then [Graph_needs_termination] else []))"

definition validate_topology :: "topology \<Rightarrow> structure_error list option" where
  "validate_topology t =
     (case add_edges (tp_edges t) (empty_adjacency (tp_nodes t)) of None \<Rightarrow> None
      | Some g \<Rightarrow>
         (let unreachable = set (keys g) - reachable_nodes g (tp_entry t);
              first = (if tp_type t \<noteq> SINGLE \<and> unreachable \<noteq> {} then [Unreachable unreachable] else [])
          in case has_cycle g of None \<Rightarrow> None
             | Some cyc \<Rightarrow> map_option (\<lambda>es. first @ es) (type_errors t cyc)))"

subsection \<open>Breadth-first search computes reachability\<close>

lemma bfs_closure:
  "set q \<subseteq> vis \<Longrightarrow> \<forall>u \<in> vis. u \<in> set q \<or> set (succs g u) \<subseteq> vis \<Longrightarrow> bfs g vis q = (edge_rel g)\<^sup>* `` vis"
proof (induction g vis q rule: bfs.induct)
  case (1 g vis)
  then have "edge_rel g `` vis \<subseteq> vis" by (auto simp: edge_rel_def)
  then show ?case using Image_closed_trancl [of "edge_rel g" vis] by (metis bfs.simps(1))
next
  case (2 g vis c q)
  obtain vis' q' where n: "bfs_neighbors (succs g c) (vis, q) = (vis', q')" by fastforce
  note s = bfs_neighbors_spec [OF n]
  have grow: "vis' = vis \<union> set (succs g c)" "set q' = set q \<union> (set (succs g c) - vis)" using s by auto
  have "set q' \<subseteq> vis'" "\<forall>u \<in> vis'. u \<in> set q' \<or> set (succs g u) \<subseteq> vis'"
    using 2(2,3) grow by auto
  then have "bfs g vis' q' = (edge_rel g)\<^sup>* `` vis'" using 2(1) [OF n [symmetric] refl] by simp
  moreover have "(edge_rel g)\<^sup>* `` vis' = (edge_rel g)\<^sup>* `` vis"
  proof -
    have "set (succs g c) \<subseteq> (edge_rel g)\<^sup>* `` vis" using 2(2) by (auto simp: edge_rel_def)
    then have "(edge_rel g)\<^sup>* `` set (succs g c) \<subseteq> (edge_rel g)\<^sup>* `` vis"
      by (auto intro: rtrancl_trans dest!: subsetD)
    then show ?thesis unfolding grow by (auto simp: Image_Un)
  qed
  ultimately show ?case using n by simp
qed

lemma reachable_nodes_closure: "reachable_nodes g s = (edge_rel g)\<^sup>* `` {s}"
  unfolding reachable_nodes_def by (rule bfs_closure) auto

subsection \<open>The adjacency and the in-degrees\<close>

definition edge_pairs :: "agent_edge list \<Rightarrow> (string \<times> string) list" where
  "edge_pairs es = map (\<lambda>e. (ae_from e, ae_to e)) es"

definition topo_rel :: "topology \<Rightarrow> (string \<times> string) set" where
  "topo_rel t = set (edge_pairs (tp_edges t))"

definition in_degree :: "agent_edge list \<Rightarrow> string \<Rightarrow> nat" where
  "in_degree es n = length (filter (\<lambda>e. ae_to e = n) es)"

lemma keys_empty_adjacency: "set (keys (empty_adjacency ns)) = an_id ` set ns"
proof -
  have "set (keys (fold (\<lambda>n. put (an_id n) []) ns d)) = set (keys d) \<union> an_id ` set ns" for d :: graph
    by (induction ns arbitrary: d) auto
  then show ?thesis by (simp add: empty_adjacency_def keys_def)
qed

lemma succs_empty_adjacency: "succs (empty_adjacency ns) n = []"
proof -
  have "\<forall>n. succs d n = [] \<Longrightarrow> succs (fold (\<lambda>n. put (an_id n) []) ns d) m = []" for d m
    by (induction ns arbitrary: d) (auto simp: succs_def get_default_put)
  then show ?thesis by (simp add: empty_adjacency_def succs_def get_default_def)
qed

lemma add_edges_spec:
  "ae_from ` set es \<subseteq> set (keys g) \<Longrightarrow>
     \<exists>h. add_edges es g = Some h \<and> set (keys h) = set (keys g) \<and> edge_rel h = edge_rel g \<union> set (edge_pairs es)"
proof (induction es arbitrary: g)
  case (Cons e es)
  then have "ae_from e \<in> set (keys g)" by simp
  then obtain ms where ms: "get g (ae_from e) = Some ms" by (rule keysE)
  let ?g = "put (ae_from e) (ms @ [ae_to e]) g"
  have "set (succs ?g u) = (if u = ae_from e then insert (ae_to e) (set (succs g u)) else set (succs g u))" for u
    using ms by (auto simp: succs_def get_default_def)
  then have "edge_rel ?g = insert (ae_from e, ae_to e) (edge_rel g)"
    by (auto simp: edge_rel_def split: if_splits)
  moreover have "set (keys ?g) = set (keys g)" using Cons.prems by auto
  moreover obtain h where "add_edges es ?g = Some h" "set (keys h) = set (keys ?g)"
    "edge_rel h = edge_rel ?g \<union> set (edge_pairs es)"
    using Cons.IH [of ?g] Cons.prems by auto
  ultimately show ?case using ms by (simp add: edge_pairs_def)
qed (simp add: edge_pairs_def)

lemma count_parents_spec:
  "ae_to ` set es \<subseteq> set (keys d) \<Longrightarrow>
     \<exists>h. count_parents es d = Some h \<and> keys h = keys d
       \<and> (\<forall>n k. get d n = Some k \<longrightarrow> get h n = Some (k + in_degree es n))"
proof (induction es arbitrary: d)
  case (Cons e es)
  then have "ae_to e \<in> set (keys d)" by simp
  then obtain k where k: "get d (ae_to e) = Some k" by (rule keysE)
  let ?d = "put (ae_to e) (Suc k) d"
  have keys: "keys ?d = keys d" using Cons.prems by (simp add: keys_put)
  then obtain h where h: "count_parents es ?d = Some h" "keys h = keys d"
    "\<forall>n k. get ?d n = Some k \<longrightarrow> get h n = Some (k + in_degree es n)"
    using Cons.IH [of ?d] Cons.prems by auto
  have "get h n = Some (j + in_degree (e # es) n)" if "get d n = Some j" for n j
    using h(3) [rule_format, of n "if n = ae_to e then Suc k else j"] that k
    by (auto simp: in_degree_def)
  then show ?case using h k by auto
qed (simp add: in_degree_def)

lemma zero_degrees:
  fixes ns :: "agent_node list"
  defines "d \<equiv> fold (\<lambda>n. put (an_id n) (0::nat)) ns []"
  shows "set (keys d) = an_id ` set ns" "wf_odict d" "get d n = Some k \<Longrightarrow> k = 0"
proof -
  have g: "set (keys (fold (\<lambda>n. put (an_id n) (0::nat)) ns e)) = set (keys e) \<union> an_id ` set ns"
    "wf_odict e \<Longrightarrow> wf_odict (fold (\<lambda>n. put (an_id n) (0::nat)) ns e)"
    "(\<forall>n k. get e n = Some k \<longrightarrow> k = 0) \<Longrightarrow> get (fold (\<lambda>n. put (an_id n) (0::nat)) ns e) n = Some k \<Longrightarrow> k = 0"
    for e n k
  proof (induction ns arbitrary: e)
    case (Cons a ns)
    {
      case 3
      then show ?case using Cons(3) [of "put (an_id a) 0 e"] by (simp split: if_splits)
    }
  qed auto
  show "set (keys d) = an_id ` set ns" using g(1) [of "[]"] by (simp add: d_def keys_def)
  show "wf_odict d" using g(2) [of "[]"] by (simp add: d_def)
  show "get d n = Some k \<Longrightarrow> k = 0" using g(3) [of "[]" n k] by (simp add: d_def)
qed

lemma tree_errors_spec:
  assumes "ae_to ` set (tp_edges t) \<subseteq> set (node_ids t)"
  shows "\<exists>es. tree_errors t = Some es \<and> (es = [] \<longleftrightarrow>
    (\<forall>n \<in> set (node_ids t). n = tp_entry t \<or> in_degree (tp_edges t) n = 1))"
proof -
  let ?d = "fold (\<lambda>n. put (an_id n) (0::nat)) (tp_nodes t) []"
  have "set (keys ?d) = set (node_ids t)" by (simp add: node_ids_def zero_degrees)
  with count_parents_spec [of "tp_edges t" ?d] assms obtain h where
    h: "count_parents (tp_edges t) ?d = Some h" "keys h = keys ?d"
    "\<forall>n k. get ?d n = Some k \<longrightarrow> get h n = Some (k + in_degree (tp_edges t) n)" by auto
  have wf: "wf_odict h" using h(2) zero_degrees(2) by (simp add: wf_odict_def)
  have val: "get h n = Some (in_degree (tp_edges t) n)" if "n \<in> set (keys h)" for n
  proof -
    obtain k where k: "get ?d n = Some k" using \<open>n \<in> set (keys h)\<close> h(2) by (auto simp: in_keys_iff)
    with zero_degrees(3) h(3) show ?thesis by fastforce
  qed
  have "(n, k) \<in> set h \<longleftrightarrow> n \<in> set (keys h) \<and> k = in_degree (tp_edges t) n" for n k
  proof
    assume nk: "(n, k) \<in> set h"
    then have "n \<in> set (keys h)" by (auto simp: keys_def intro: rev_image_eqI)
    moreover have "get h n = Some k" using nk wf by (simp add: wf_odict_def keys_def)
    ultimately show "n \<in> set (keys h) \<and> k = in_degree (tp_edges t) n" using val by simp
  next
    assume "n \<in> set (keys h) \<and> k = in_degree (tp_edges t) n"
    then show "(n, k) \<in> set h" using val map_of_SomeD by fastforce
  qed
  then have "filter (\<lambda>(n, k). n \<noteq> tp_entry t \<and> k \<noteq> 1) h = [] \<longleftrightarrow>
      (\<forall>n \<in> set (keys h). n = tp_entry t \<or> in_degree (tp_edges t) n = 1)"
    by (auto simp: filter_empty_conv)
  then show ?thesis using h \<open>set (keys ?d) = set (node_ids t)\<close> by (simp add: tree_errors_def)
qed

subsection \<open>What structural validation accepts\<close>

fun topology_valid :: "topology \<Rightarrow> bool" where
  "topology_valid t \<longleftrightarrow>
     (tp_type t \<noteq> SINGLE \<longrightarrow> (\<forall>n \<in> set (node_ids t). (tp_entry t, n) \<in> (topo_rel t)\<^sup>*))
     \<and> (case tp_type t of
          SINGLE \<Rightarrow> length (tp_nodes t) = 1 \<and> tp_edges t = []
        | SEQUENTIAL \<Rightarrow> Suc (length (tp_edges t)) = length (tp_nodes t) \<and> acyclic (topo_rel t)
        | TREE \<Rightarrow> acyclic (topo_rel t)
            \<and> (\<forall>n \<in> set (node_ids t). n = tp_entry t \<or> in_degree (tp_edges t) n = 1)
        | GRAPH \<Rightarrow> acyclic (topo_rel t) \<or> tp_conditions t \<noteq> [])"

lemma validate_edges_None:
  "validate_edges ids es = None \<longleftrightarrow> (\<forall>e \<in> set es. ae_from e \<in> ids \<and> ae_to e \<in> ids)"
  by (induction es) auto

lemma make_topology_Inr:
  "make_topology t = Inr u \<longleftrightarrow> u = t \<and> tp_nodes t \<noteq> [] \<and> tp_entry t \<in> set (node_ids t)
     \<and> (\<forall>e \<in> set (tp_edges t). ae_from e \<in> set (node_ids t) \<and> ae_to e \<in> set (node_ids t))"
proof (cases "validate_edges (set (node_ids t)) (tp_edges t)")
  case None
  then show ?thesis using validate_edges_None [of "set (node_ids t)" "tp_edges t"]
    by (auto simp: make_topology_def Let_def)
next
  case (Some e)
  then have "\<not> (\<forall>e \<in> set (tp_edges t). ae_from e \<in> set (node_ids t) \<and> ae_to e \<in> set (node_ids t))"
    using validate_edges_None [of "set (node_ids t)" "tp_edges t"] by simp
  then show ?thesis using Some by (simp add: make_topology_def Let_def)
qed

lemma validate_topology_valid:
  assumes "make_topology t = Inr t"
  shows "\<exists>es. validate_topology t = Some es \<and> (es = [] \<longleftrightarrow> topology_valid t)"
proof -
  from assms have m: "tp_nodes t \<noteq> []"
    "ae_from ` set (tp_edges t) \<subseteq> set (keys (empty_adjacency (tp_nodes t)))"
    "ae_to ` set (tp_edges t) \<subseteq> set (node_ids t)"
    by (auto simp: make_topology_Inr keys_empty_adjacency node_ids_def)
  from add_edges_spec [OF m(2)] obtain g where g: "add_edges (tp_edges t) (empty_adjacency (tp_nodes t)) = Some g"
    "set (keys g) = set (node_ids t)" "edge_rel g = topo_rel t"
    by (auto simp: keys_empty_adjacency node_ids_def topo_rel_def edge_rel_def [of "empty_adjacency _"] succs_empty_adjacency)
  have c: "has_cycle g = Some (\<not> acyclic (topo_rel t))" by (simp add: has_cycle_def hc_roots_acyclic g)
  have r: "(set (keys g) - reachable_nodes g (tp_entry t) = {}) \<longleftrightarrow>
      (\<forall>n \<in> set (node_ids t). (tp_entry t, n) \<in> (topo_rel t)\<^sup>*)"
    by (auto simp: reachable_nodes_closure g)
  obtain te where te: "tree_errors t = Some te" "(te = []) \<longleftrightarrow>
      (\<forall>n \<in> set (node_ids t). n = tp_entry t \<or> in_degree (tp_edges t) n = 1)"
    using tree_errors_spec [OF m(3)] by blast
  have n: "int (length (tp_edges t)) = int (length (tp_nodes t)) - 1 \<longleftrightarrow>
      Suc (length (tp_edges t)) = length (tp_nodes t)" by linarith
  have "\<exists>es. type_errors t (\<not> acyclic (topo_rel t)) = Some es \<and> (es = [] \<longleftrightarrow> (case tp_type t of
          SINGLE \<Rightarrow> length (tp_nodes t) = 1 \<and> tp_edges t = []
        | SEQUENTIAL \<Rightarrow> Suc (length (tp_edges t)) = length (tp_nodes t) \<and> acyclic (topo_rel t)
        | TREE \<Rightarrow> acyclic (topo_rel t) \<and> te = []
        | GRAPH \<Rightarrow> acyclic (topo_rel t) \<or> tp_conditions t \<noteq> []))"
    by (simp add: type_errors_def te(1) n split: topology_type.split)
  then obtain es where es: "type_errors t (\<not> acyclic (topo_rel t)) = Some es" "(es = []) \<longleftrightarrow> (case tp_type t of
          SINGLE \<Rightarrow> length (tp_nodes t) = 1 \<and> tp_edges t = []
        | SEQUENTIAL \<Rightarrow> Suc (length (tp_edges t)) = length (tp_nodes t) \<and> acyclic (topo_rel t)
        | TREE \<Rightarrow> acyclic (topo_rel t) \<and> te = []
        | GRAPH \<Rightarrow> acyclic (topo_rel t) \<or> tp_conditions t \<noteq> [])" by blast
  show ?thesis
    unfolding validate_topology_def g(1) option.case Let_def c es(1) option.map
    using r es(2) te(2) by (auto split: if_splits topology_type.splits simp del: Diff_eq_empty_iff)
qed

text \<open>C3: on a topology the constructor accepts, structural validation never raises, and it reports no
  error exactly when: every node is reachable from the entry (unless the topology is single), a
  single topology has one node and no edge, a sequential one has one edge less than nodes and no
  cycle, a tree has no cycle and exactly one parent for every node but the entry, and a graph with
  a cycle has a termination condition.\<close>

theorem validate_topology_correct:
  assumes "make_topology t = Inr t"
  shows "\<exists>es. validate_topology t = Some es \<and> (es = [] \<longleftrightarrow>
     (tp_type t \<noteq> SINGLE \<longrightarrow> (\<forall>n \<in> set (node_ids t). (tp_entry t, n) \<in> (topo_rel t)\<^sup>*))
     \<and> (case tp_type t of
          SINGLE \<Rightarrow> length (tp_nodes t) = 1 \<and> tp_edges t = []
        | SEQUENTIAL \<Rightarrow> Suc (length (tp_edges t)) = length (tp_nodes t) \<and> acyclic (topo_rel t)
        | TREE \<Rightarrow> acyclic (topo_rel t)
            \<and> (\<forall>n \<in> set (node_ids t). n = tp_entry t \<or> in_degree (tp_edges t) n = 1)
        | GRAPH \<Rightarrow> acyclic (topo_rel t) \<or> tp_conditions t \<noteq> []))"
  using validate_topology_valid [OF assms] by simp

subsection \<open>Sequential and tree topologies coincide\<close>

lemma sum_in_degree:
  assumes "finite A" "ae_to ` set es \<subseteq> A"
  shows "(\<Sum>n\<in>A. in_degree es n) = length es"
  using assms(2)
proof (induction es)
  case (Cons e es)
  have "in_degree (e # es) n = (if n = ae_to e then 1 else 0) + in_degree es n" for n
    by (simp add: in_degree_def)
  then show ?case using Cons assms(1) by (simp add: sum.distrib sum.delta)
qed (simp add: in_degree_def)

lemma in_degree_0_iff: "in_degree es n = 0 \<longleftrightarrow> n \<notin> ae_to ` set es"
  by (auto simp: in_degree_def filter_empty_conv)

lemma entry_no_parent:
  assumes "acyclic (topo_rel t)" "\<forall>n \<in> set (node_ids t). (tp_entry t, n) \<in> (topo_rel t)\<^sup>*"
    "ae_from ` set (tp_edges t) \<subseteq> set (node_ids t)"
  shows "in_degree (tp_edges t) (tp_entry t) = 0"
proof (rule ccontr)
  assume "in_degree (tp_edges t) (tp_entry t) \<noteq> 0"
  then obtain e where e: "e \<in> set (tp_edges t)" "ae_to e = tp_entry t" by (auto simp: in_degree_0_iff)
  then have "(ae_from e, tp_entry t) \<in> topo_rel t"
    by (auto simp: topo_rel_def edge_pairs_def intro: rev_image_eqI)
  moreover have "(tp_entry t, ae_from e) \<in> (topo_rel t)\<^sup>*" using assms e by auto
  ultimately have "(tp_entry t, tp_entry t) \<in> (topo_rel t)\<^sup>+" by (rule rtrancl_into_trancl1 [rotated])
  then show False using assms(1) by (simp add: acyclic_def)
qed

lemma reached_has_parent:
  assumes "(tp_entry t, n) \<in> (topo_rel t)\<^sup>*" "n \<noteq> tp_entry t"
  shows "1 \<le> in_degree (tp_edges t) n"
proof -
  from assms obtain m where "(m, n) \<in> topo_rel t" by (metis rtranclE)
  then have "in_degree (tp_edges t) n \<noteq> 0"
    by (auto simp: in_degree_0_iff topo_rel_def edge_pairs_def)
  then show ?thesis by simp
qed

lemma sum_ones:
  fixes f :: "'a \<Rightarrow> nat"
  assumes "finite A" "\<forall>x \<in> A. 1 \<le> f x" "sum f A = card A"
  shows "\<forall>x \<in> A. f x = 1"
proof (rule ccontr)
  assume "\<not> ?thesis"
  with assms(2) obtain x where "x \<in> A" "1 < f x" by (metis le_neq_implies_less)
  then have "(\<Sum>x\<in>A. 1) < sum f A" using assms(1,2) by (intro sum_strict_mono_ex1) auto
  with assms(3) show False by simp
qed

definition with_type :: "topology_type \<Rightarrow> topology \<Rightarrow> topology" where
  "with_type ty t = t\<lparr>tp_type := ty\<rparr>"

lemma with_type_sel [simp]:
  "tp_type (with_type ty t) = ty" "tp_nodes (with_type ty t) = tp_nodes t"
  "tp_edges (with_type ty t) = tp_edges t" "tp_entry (with_type ty t) = tp_entry t"
  "node_ids (with_type ty t) = node_ids t" "topo_rel (with_type ty t) = topo_rel t"
  by (simp_all add: with_type_def node_ids_def topo_rel_def)

lemma make_with_type: "make_topology t = Inr t \<Longrightarrow> make_topology (with_type ty t) = Inr (with_type ty t)"
  by (simp add: make_topology_Inr)

lemma sequential_tree_valid:
  assumes m: "make_topology t = Inr t" and d: "distinct (node_ids t)"
  shows "topology_valid (with_type SEQUENTIAL t) \<longleftrightarrow> topology_valid (with_type TREE t)"
proof -
  let ?deg = "in_degree (tp_edges t)" and ?others = "set (node_ids t) - {tp_entry t}"
  from m have sub: "ae_from ` set (tp_edges t) \<subseteq> set (node_ids t)" "ae_to ` set (tp_edges t) \<subseteq> set (node_ids t)"
    and en: "tp_entry t \<in> set (node_ids t)" by (auto simp: make_topology_Inr)
  have len: "length (tp_nodes t) = Suc (card ?others)"
    using distinct_card [OF d] en card.remove [of "set (node_ids t)" "tp_entry t"] by (simp add: node_ids_def)
  {
    assume r: "\<forall>n \<in> set (node_ids t). (tp_entry t, n) \<in> (topo_rel t)\<^sup>*" and a: "acyclic (topo_rel t)"
    have "length (tp_edges t) = (\<Sum>n\<in>set (node_ids t). ?deg n)" by (rule sum_in_degree [symmetric]) (use sub in auto)
    also have "\<dots> = (\<Sum>n\<in>?others. ?deg n)" using entry_no_parent [OF a r sub(1)] en
      by (subst sum.remove [of _ "tp_entry t"]) auto
    finally have l: "length (tp_edges t) = sum ?deg ?others" .
    have one: "\<forall>n \<in> ?others. 1 \<le> ?deg n" using r reached_has_parent by blast
    have "Suc (length (tp_edges t)) = length (tp_nodes t) \<longleftrightarrow> (\<forall>n \<in> ?others. ?deg n = 1)"
      using sum_ones [OF _ one] by (auto simp: len l)
    then have "Suc (length (tp_edges t)) = length (tp_nodes t) \<longleftrightarrow>
        (\<forall>n \<in> set (node_ids t). n = tp_entry t \<or> ?deg n = 1)" by blast
  }
  then show ?thesis by auto
qed

text \<open>with distinct node ids, the sequential check and the tree check accept the same graphs: a
  sequential topology may branch, as long as it is a tree.\<close>

theorem sequential_iff_tree:
  assumes "make_topology t = Inr t" "distinct (node_ids t)"
  shows "validate_topology (with_type SEQUENTIAL t) = Some [] \<longleftrightarrow>
    validate_topology (with_type TREE t) = Some []"
  using validate_topology_valid [OF make_with_type [OF assms(1)], of SEQUENTIAL]
    validate_topology_valid [OF make_with_type [OF assms(1)], of TREE]
    sequential_tree_valid [OF assms] by auto

definition fork_node :: "string \<Rightarrow> agent_node" where
  "fork_node i = \<lparr>an_id = i, an_description = [], an_position = None, an_agent_id = ''worker'',
     an_is_router = False, an_config_override = None, an_input_transform = None,
     an_output_transform = None, an_timeout = None, an_tools = [], an_memory = None,
     an_knowledge = None, an_extra = []\<rparr>"

definition fork_edge :: "string \<Rightarrow> string \<Rightarrow> agent_edge" where
  "fork_edge f t = \<lparr>ae_from = f, ae_to = t, ae_condition = JNull, ae_strategy = FULL, ae_fields = None, ae_extra = []\<rparr>"

definition fork :: topology where
  "fork = \<lparr>tp_type = SEQUENTIAL, tp_nodes = [fork_node ''a'', fork_node ''b'', fork_node ''c''],
     tp_edges = [fork_edge ''a'' ''b'', fork_edge ''a'' ''c''], tp_entry = ''a'', tp_conditions = []\<rparr>"

lemma fork_made: "make_topology fork = Inr fork"
  by (simp add: make_topology_Inr fork_def node_ids_def fork_node_def fork_edge_def)

theorem sequential_iff_tree_witness:
  "(validate_topology (with_type SEQUENTIAL fork) = Some []) = (validate_topology (with_type TREE fork) = Some [])
     \<and> length (tp_edges fork) = 2"
proof -
  have "distinct (node_ids fork)" by (simp add: fork_def node_ids_def fork_node_def)
  from sequential_iff_tree [OF fork_made this] show ?thesis by (simp add: fork_def)
qed

theorem validate_topology_correct_witness: "\<exists>es. validate_topology fork = Some es"
  using validate_topology_correct [OF fork_made] by blast

end
