(* ===== verification/Agents.thy ===== *)
theory Agents
  imports Prelude
begin

text \<open>
  Agent configurations, \<open>src/src/config/agent_models.py\<close>: the Pydantic models with their field bounds, the
  validation of an agent, the translation of the older \<open>llm_config\<close> into a model client configuration, and the
  root configuration with its check for duplicate ids.  The behaviour block
  (\<open>src/src/config/behavior_models.py\<close>) is stored as a JSON value; floats are rationals.
\<close>

subsection \<open>Enumerations\<close>

datatype agent_type = CONVERSABLE | RETRIEVE_USER_PROXY | GROUP_CHAT_MANAGER | ASSISTANT | CODE_EXECUTOR | CUSTOM

datatype human_input_mode = ALWAYS | NEVER | TERMINATE

subsection \<open>Model settings\<close>

definition in_range :: "'a::ord \<Rightarrow> 'a \<Rightarrow> 'a option \<Rightarrow> bool" where
  "in_range l h x = (case x of None \<Rightarrow> True | Some v \<Rightarrow> l \<le> v \<and> v \<le> h)"

definition at_least :: "'a::ord \<Rightarrow> 'a option \<Rightarrow> bool" where
  "at_least l x = (case x of None \<Rightarrow> True | Some v \<Rightarrow> l \<le> v)"

record llm_config =
  ll_provider_id :: string
  ll_model :: string
  ll_preset :: "string option"
  ll_temperature :: rat
  ll_max_tokens :: "int option"
  ll_cache_seed :: "int option"
  ll_timeout :: int
  ll_base_url :: "string option"
  ll_api_key_env :: "string option"
  ll_top_p :: "rat option"
  ll_top_k :: "int option"
  ll_max_completion_tokens :: "int option"
  ll_max_output_tokens :: "int option"
  ll_presence_penalty :: "rat option"
  ll_frequency_penalty :: "rat option"
  ll_seed :: "int option"
  ll_reasoning_effort :: "string option"
  ll_stop :: "string list option"
  ll_response_format :: "(string, json) odict option"

definition llm_config_ok :: "llm_config \<Rightarrow> bool" where
  "llm_config_ok c \<longleftrightarrow> 0 \<le> ll_temperature c \<and> ll_temperature c \<le> 2 \<and> at_least 1 (ll_max_tokens c) \<and> 1 \<le> ll_timeout c
     \<and> in_range 0 1 (ll_top_p c) \<and> at_least 1 (ll_top_k c) \<and> at_least 1 (ll_max_completion_tokens c)
     \<and> at_least 1 (ll_max_output_tokens c) \<and> in_range (-2) 2 (ll_presence_penalty c)
     \<and> in_range (-2) 2 (ll_frequency_penalty c)
     \<and> (case ll_reasoning_effort c of None \<Rightarrow> True | Some e \<Rightarrow> e \<in> {''none'', ''low'', ''medium'', ''high''})"

record runtime_settings =
  rs_max_iter :: "int option"
  rs_max_rpm :: "int option"
  rs_max_execution_time :: "int option"
  rs_max_retry_limit :: "int option"
  rs_allow_delegation :: "bool option"
  rs_respect_context_window :: "bool option"
  rs_cache :: "bool option"
  rs_verbose :: "bool option"
  rs_inject_date :: "bool option"
  rs_use_system_prompt :: "bool option"

definition runtime_settings_ok :: "runtime_settings \<Rightarrow> bool" where
  "runtime_settings_ok s \<longleftrightarrow> in_range 1 100 (rs_max_iter s) \<and> at_least 1 (rs_max_rpm s)
     \<and> at_least 1 (rs_max_execution_time s) \<and> in_range 0 10 (rs_max_retry_limit s)"

record model_client =
  mc_provider_id :: string
  mc_model :: string
  mc_temperature :: rat
  mc_timeout :: int
  mc_max_tokens :: "int option"
  mc_seed :: "int option"
  mc_base_url :: "string option"
  mc_api_version :: "string option"
  mc_azure_deployment :: "string option"
  mc_model_info :: "(string, json) odict option"
  mc_api_key :: "string option"
  mc_api_key_env :: "string option"

definition model_client_ok :: "model_client \<Rightarrow> bool" where
  "model_client_ok m \<longleftrightarrow> 0 \<le> mc_temperature m \<and> mc_temperature m \<le> 2 \<and> 1 \<le> mc_timeout m \<and> at_least 1 (mc_max_tokens m)"

text \<open>\<open>model_dump(exclude_none=True)\<close>: the fields that are set, in declaration order.\<close>

definition given_fields :: "(string \<times> json option) list \<Rightarrow> (string, json) odict" where
  "given_fields fs = List.map_filter (\<lambda>(k, v). map_option (Pair k) v) fs"

abbreviation "jints \<equiv> map_option JInt"
abbreviation "jstrs \<equiv> map_option JStr"
abbreviation "jrats \<equiv> map_option JFloat"
abbreviation "jbools \<equiv> map_option JBool"

definition dump_llm :: "llm_config \<Rightarrow> (string, json) odict" where
  "dump_llm c = given_fields [(''provider_id'', Some (JStr (ll_provider_id c))), (''model'', Some (JStr (ll_model c))),
     (''preset'', jstrs (ll_preset c)), (''temperature'', Some (JFloat (ll_temperature c))),
     (''max_tokens'', jints (ll_max_tokens c)), (''cache_seed'', jints (ll_cache_seed c)),
     (''timeout'', Some (JInt (ll_timeout c))), (''base_url'', jstrs (ll_base_url c)),
     (''api_key_env'', jstrs (ll_api_key_env c)), (''top_p'', jrats (ll_top_p c)), (''top_k'', jints (ll_top_k c)),
     (''max_completion_tokens'', jints (ll_max_completion_tokens c)),
     (''max_output_tokens'', jints (ll_max_output_tokens c)),
     (''presence_penalty'', jrats (ll_presence_penalty c)), (''frequency_penalty'', jrats (ll_frequency_penalty c)),
     (''seed'', jints (ll_seed c)), (''reasoning_effort'', jstrs (ll_reasoning_effort c)),
     (''stop'', map_option (\<lambda>l. JList (map JStr l)) (ll_stop c)),
     (''response_format'', map_option JObj (ll_response_format c))]"

definition dump_settings :: "runtime_settings \<Rightarrow> (string, json) odict" where
  "dump_settings s = given_fields [(''max_iter'', jints (rs_max_iter s)), (''max_rpm'', jints (rs_max_rpm s)),
     (''max_execution_time'', jints (rs_max_execution_time s)), (''max_retry_limit'', jints (rs_max_retry_limit s)),
     (''allow_delegation'', jbools (rs_allow_delegation s)),
     (''respect_context_window'', jbools (rs_respect_context_window s)), (''cache'', jbools (rs_cache s)),
     (''verbose'', jbools (rs_verbose s)), (''inject_date'', jbools (rs_inject_date s)),
     (''use_system_prompt'', jbools (rs_use_system_prompt s))]"

definition dump_client :: "model_client \<Rightarrow> (string, json) odict" where
  "dump_client m = given_fields [(''provider_id'', Some (JStr (mc_provider_id m))), (''model'', Some (JStr (mc_model m))),
     (''temperature'', Some (JFloat (mc_temperature m))), (''timeout'', Some (JInt (mc_timeout m))),
     (''max_tokens'', jints (mc_max_tokens m)), (''seed'', jints (mc_seed m)), (''base_url'', jstrs (mc_base_url m)),
     (''api_version'', jstrs (mc_api_version m)), (''azure_deployment'', jstrs (mc_azure_deployment m)),
     (''model_info'', map_option JObj (mc_model_info m)), (''api_key'', jstrs (mc_api_key m)),
     (''api_key_env'', jstrs (mc_api_key_env m))]"

subsection \<open>Memory and retrieval\<close>

record memory_config =
  mm_type :: string
  mm_vector_db :: string
  mm_collection_name :: string
  mm_embedding_model :: string
  mm_docs_path :: "string list option"
  mm_chunk_token_size :: int
  mm_db_config :: "(string, json) odict option"

record retrieve_config =
  rt_task :: string
  rt_docs_path :: "string list"
  rt_chunk_token_size :: int
  rt_vector_db :: string
  rt_collection_name :: string
  rt_embedding_model :: string
  rt_get_or_create :: bool
  rt_db_config :: "(string, json) odict option"

subsection \<open>Agents\<close>

text \<open>\<open>llm_config: LLMConfig | bool | None\<close> and \<open>code_execution_config: dict | bool | None\<close>.\<close>

datatype llm_setting = Llm_none | Llm_flag bool | Llm llm_config

datatype code_setting = Code_none | Code_flag bool | Code_dict "(string, json) odict"

record agent =
  ag_id :: string
  ag_type :: agent_type
  ag_name :: string
  ag_output_key :: "string option"
  ag_system_message :: "string option"
  ag_is_selector :: bool
  ag_model_override :: "(string, json) odict option"
  ag_settings :: "runtime_settings option"
  ag_llm :: llm_setting
  ag_client :: "model_client option"
  ag_memory :: "memory_config option"
  ag_reflect_on_tool_use :: bool
  ag_human_input :: human_input_mode
  ag_code_execution :: code_setting
  ag_tools :: "string list"
  ag_max_auto_reply :: int
  ag_retrieve :: "retrieve_config option"
  ag_description :: "string option"
  ag_behavior :: "json option"
  ag_version :: int
  ag_updated :: int

definition agent_id_char :: "char \<Rightarrow> bool" where
  "agent_id_char c \<longleftrightarrow> (97 \<le> code c \<and> code c \<le> 122) \<or> is_digit c \<or> c = CHR ''_''"

text \<open>The field constraints of \<open>AgentConfig(...)\<close>.\<close>

definition agent_ok :: "agent \<Rightarrow> bool" where
  "agent_ok a \<longleftrightarrow> ag_id a \<noteq> [] \<and> (\<forall>c \<in> set (ag_id a). agent_id_char c) \<and> 0 \<le> ag_max_auto_reply a \<and> 1 \<le> ag_version a
     \<and> (case ag_settings a of None \<Rightarrow> True | Some s \<Rightarrow> runtime_settings_ok s)
     \<and> (case ag_llm a of Llm c \<Rightarrow> llm_config_ok c | _ \<Rightarrow> True)
     \<and> (case ag_client a of None \<Rightarrow> True | Some m \<Rightarrow> model_client_ok m)
     \<and> (case ag_memory a of None \<Rightarrow> True | Some m \<Rightarrow> 100 \<le> mm_chunk_token_size m)
     \<and> (case ag_retrieve a of None \<Rightarrow> True | Some r \<Rightarrow> 100 \<le> rt_chunk_token_size r)"

datatype agent_error = Missing_retrieve_config string

definition validate_config :: "agent \<Rightarrow> agent_error option" where
  "validate_config a =
     (if ag_type a = RETRIEVE_USER_PROXY \<and> ag_retrieve a = None \<and> ag_memory a = None
      then Some (Missing_retrieve_config (ag_id a)) else None)"

datatype compat_error = Needs_model | Needs_code_execution | Needs_system_message | Use_memory_config | Two_model_configs

definition validate_v04_compatibility :: "agent \<Rightarrow> compat_error list" where
  "validate_v04_compatibility a =
     (if ag_type a \<in> {ASSISTANT, CODE_EXECUTOR, CUSTOM} then
        (if ag_type a = ASSISTANT \<and> ag_client a = None \<and> ag_llm a = Llm_none then [Needs_model] else [])
        @ (if ag_type a = CODE_EXECUTOR \<and> ag_code_execution a \<in> {Code_flag False, Code_none}
           then [Needs_code_execution] else [])
        @ (if ag_type a = CUSTOM \<and> \<not> opt_truthy (ag_system_message a) then [Needs_system_message] else [])
      else if ag_type a = RETRIEVE_USER_PROXY \<and> ag_retrieve a \<noteq> None \<and> ag_memory a = None then [Use_memory_config]
      else [])
     @ (if ag_llm a \<noteq> Llm_none \<and> ag_client a \<noteq> None then [Two_model_configs] else [])"

definition is_v04_compatible :: "agent \<Rightarrow> bool" where
  "is_v04_compatible a \<longleftrightarrow> length (validate_v04_compatibility a) = 0"

definition client_of_llm :: "llm_config \<Rightarrow> model_client" where
  "client_of_llm c = \<lparr>mc_provider_id = ll_provider_id c, mc_model = ll_model c, mc_temperature = ll_temperature c,
     mc_timeout = ll_timeout c, mc_max_tokens = ll_max_tokens c, mc_seed = ll_cache_seed c,
     mc_base_url = ll_base_url c, mc_api_version = None, mc_azure_deployment = None, mc_model_info = None,
     mc_api_key = None, mc_api_key_env = ll_api_key_env c\<rparr>"

definition get_effective_model_config :: "agent \<Rightarrow> model_client option" where
  "get_effective_model_config a = (case ag_client a of
      Some m \<Rightarrow> Some m
    | None \<Rightarrow> (case ag_llm a of Llm c \<Rightarrow> Some (client_of_llm c) | _ \<Rightarrow> None))"

text \<open>The translation never fails the model client's own bounds.\<close>

lemma effective_model_config_ok:
  "agent_ok a \<Longrightarrow> get_effective_model_config a = Some m \<Longrightarrow> model_client_ok m"
  by (auto simp: agent_ok_def get_effective_model_config_def client_of_llm_def model_client_ok_def llm_config_ok_def
      split: option.splits llm_setting.splits)

subsection \<open>The root configuration\<close>

fun duplicate_ids :: "string set \<Rightarrow> agent list \<Rightarrow> string set" where
  "duplicate_ids seen [] = {}"
| "duplicate_ids seen (a # as) =
     (if ag_id a \<in> seen then {ag_id a} else {}) \<union> duplicate_ids (insert (ag_id a) seen) as"

text \<open>\<open>AgentsConfig(agents=...)\<close>, rejecting duplicate ids.\<close>

definition make_agents :: "agent list \<Rightarrow> string set + agent list" where
  "make_agents as = (if duplicate_ids {} as \<noteq> {} then Inl (duplicate_ids {} as) else Inr as)"

definition get_agent :: "agent list \<Rightarrow> string \<Rightarrow> agent option" where
  "get_agent as i = List.find (\<lambda>a. ag_id a = i) as"

definition validate_agents :: "agent list \<Rightarrow> agent_error option" where
  "validate_agents as = (case List.map_filter validate_config as of [] \<Rightarrow> None | e # _ \<Rightarrow> Some e)"

lemma duplicate_ids_empty_iff:
  "duplicate_ids seen as = {} \<longleftrightarrow> distinct (map ag_id as) \<and> set (map ag_id as) \<inter> seen = {}"
  by (induction as arbitrary: seen) auto

lemma make_agents_distinct: "make_agents as = Inr bs \<longleftrightarrow> bs = as \<and> distinct (map ag_id as)"
  using duplicate_ids_empty_iff [of "{}" as] by (auto simp: make_agents_def)

lemma get_agent_None_iff: "get_agent as i = None \<longleftrightarrow> i \<notin> ag_id ` set as"
  by (auto simp: get_agent_def find_None_iff)

lemma get_agent_SomeD: "get_agent as i = Some a \<Longrightarrow> a \<in> set as \<and> ag_id a = i"
  unfolding get_agent_def by (drule find_SomeD) simp

end
