(* ===== verification/Workflows.thy ===== *)
theory Workflows
  imports Topology
begin

text \<open>
  Workflow configurations, \<open>src/src/config/workflow_models.py\<close>: the enumerations, the Pydantic models with
  their field constraints and validators, and the checks that the registry runs on a whole workflow.
  A model that only checks its fields is a predicate \<open>..._ok\<close>; \<open>make_...\<close> is a constructor whose validator
  changes the value.  Keys beyond the declared fields (\<open>extra="allow"\<close>) are kept in \<open>wf_extra\<close>.
\<close>

subsection \<open>Enumerations\<close>

datatype conversation_pattern = SINGLE | TWO_AGENT | SEQUENTIAL | PARALLEL | GROUP_CHAT | NESTED | SELECTOR | INTERACTIVE

datatype speaker_selection_method = AUTO | ROUND_ROBIN | RANDOM | MANUAL

datatype summary_method = LAST_MSG | REFLECTION_WITH_LLM

datatype termination_type = TEXT_MENTION | MAX_MESSAGE | COMBINED

datatype termination_operator = AND_OP | OR_OP

datatype team_type = ROUND_ROBIN_TEAM | SELECTOR_TEAM | CUSTOM_TEAM

datatype workflow_type = CHATBOT | SEQUENTIAL_WORKFLOW | TREE_WORKFLOW | CUSTOM_WORKFLOW

datatype persistence_mode = POSTGRES | MONGO_ONLY

datatype crewai_process = Sequential | Hierarchical

subsection \<open>Agent ids\<close>

definition isalnum :: "string \<Rightarrow> bool" where
  "isalnum s \<longleftrightarrow> s \<noteq> [] \<and> (\<forall>c \<in> set s. is_alnum c)"

definition agent_ref_ok :: "string \<Rightarrow> bool" where
  "agent_ref_ok v \<longleftrightarrow> \<not> blank v \<and> isalnum (drop_char (CHR ''-'') (drop_char (CHR ''_'') v))"

definition at_least_one :: "int option \<Rightarrow> bool" where
  "at_least_one x = (case x of None \<Rightarrow> True | Some v \<Rightarrow> 1 \<le> v)"

subsection \<open>Teams\<close>

datatype termination_config = Termination
  (te_type: termination_type)
  (te_text_mention: "string option")
  (te_max_messages: "int option")
  (te_conditions: "termination_config list option")
  (te_operator: "termination_operator option")

text \<open>\<open>validate_termination_config\<close> on a configuration whose parts are already checked.\<close>

definition validate_termination_config :: "termination_config \<Rightarrow> bool" where
  "validate_termination_config t = (case te_type t of
      TEXT_MENTION \<Rightarrow> opt_truthy (te_text_mention t)
    | MAX_MESSAGE \<Rightarrow> te_max_messages t \<noteq> None
    | COMBINED \<Rightarrow> (case te_conditions t of None \<Rightarrow> False | Some cs \<Rightarrow> 2 \<le> length cs) \<and> te_operator t \<noteq> None)"

text \<open>The whole construction: Pydantic checks the nested conditions, then the bound, then the validator.\<close>

primrec termination_ok :: "termination_config \<Rightarrow> bool" where
  "termination_ok (Termination ty txt mx cs op) \<longleftrightarrow>
     (case map_option (map termination_ok) cs of None \<Rightarrow> True | Some bs \<Rightarrow> list_all id bs)
     \<and> at_least_one mx \<and> validate_termination_config (Termination ty txt mx cs op)"

record team_config =
  tm_id :: string
  tm_type :: team_type
  tm_agents :: "string list"
  tm_termination :: termination_config
  tm_max_turns :: "int option"
  tm_selector_client :: "(string, json) odict option"
  tm_selector_func :: "string option"

definition config_id_ok :: "string \<Rightarrow> bool" where
  "config_id_ok i \<longleftrightarrow> i \<noteq> [] \<and> (\<forall>c \<in> set i. slug_char c \<or> c = CHR ''-'')"

definition team_agents_ok :: "string list \<Rightarrow> bool" where
  "team_agents_ok v \<longleftrightarrow> 2 \<le> length v \<and> length v = card (set v) \<and> list_all agent_ref_ok v"

definition team_ok :: "team_config \<Rightarrow> bool" where
  "team_ok t \<longleftrightarrow> config_id_ok (tm_id t) \<and> team_agents_ok (tm_agents t) \<and> termination_ok (tm_termination t)
     \<and> at_least_one (tm_max_turns t)
     \<and> (tm_type t = SELECTOR_TEAM \<longrightarrow> tm_selector_client t \<noteq> None \<or> tm_selector_func t \<noteq> None)"

subsection \<open>Steps, group chats, selectors and interactive routing\<close>

record workflow_step =
  st_sender :: string
  st_recipient :: string
  st_message :: "string option"
  st_max_turns :: int
  st_summary :: summary_method
  st_carryover :: bool
  st_clear_history :: bool

definition step_ok :: "workflow_step \<Rightarrow> bool" where
  "step_ok s \<longleftrightarrow> agent_ref_ok (st_sender s) \<and> agent_ref_ok (st_recipient s) \<and> 1 \<le> st_max_turns s"

record group_chat =
  gc_agents :: "string list"
  gc_max_round :: int
  gc_speaker_selection :: speaker_selection_method
  gc_allowed_transitions :: "(string, string list) odict option"
  gc_transitions_type :: "string option"
  gc_send_introductions :: bool
  gc_admin_name :: string
  gc_select_template :: "string option"
  gc_auto_verbose :: bool

text \<open>\<open>validate_transitions_type\<close> runs only when the field is given: \<open>given\<close> is \<open>None\<close> when it is left out.\<close>

definition transitions_type :: "(string, string list) odict option \<Rightarrow> string option option \<Rightarrow> string option option" where
  "transitions_type allowed given = (case given of
      None \<Rightarrow> Some None
    | Some (Some v) \<Rightarrow> if v \<in> {''allowed'', ''disallowed''} then Some (Some v) else None
    | Some None \<Rightarrow> Some (if allowed \<noteq> None then Some ''allowed'' else None))"

definition make_group_chat :: "group_chat \<Rightarrow> string option option \<Rightarrow> group_chat option" where
  "make_group_chat g given =
     (if team_agents_ok (gc_agents g) \<and> 1 \<le> gc_max_round g then
        map_option (\<lambda>v. g\<lparr>gc_transitions_type := v\<rparr>) (transitions_type (gc_allowed_transitions g) given)
      else None)"

text \<open>The documented default \<open>allowed\<close> reaches only an explicit \<open>null\<close>.\<close>

lemma make_group_chat_default:
  assumes "gc_allowed_transitions g = Some tr" "make_group_chat g given = Some g'"
  shows "gc_transitions_type g' = None \<longleftrightarrow> given = None"
  using assms by (auto simp: make_group_chat_def transitions_type_def split: option.splits if_splits)

record nested_chat =
  nc_trigger_agent :: string
  nc_chats :: "(string, json) odict list"
  nc_condition :: "string option"
  nc_position :: int

definition nested_chat_ok :: "nested_chat \<Rightarrow> bool" where
  "nested_chat_ok n \<longleftrightarrow> 0 \<le> nc_position n"

record selector_config =
  sl_routing :: "(string, string) odict"
  sl_default :: string
  sl_max_attempts :: int

definition selector_ok :: "selector_config \<Rightarrow> bool" where
  "selector_ok s \<longleftrightarrow> sl_routing s \<noteq> []
     \<and> list_all (\<lambda>(domain, agent). \<not> blank domain \<and> agent_ref_ok agent) (sl_routing s)
     \<and> 1 \<le> sl_max_attempts s \<and> sl_max_attempts s \<le> 10"

record interactive_config =
  ic_enabled :: bool
  ic_available :: "string list"
  ic_default :: string
  ic_prefix :: string
  ic_multiple :: bool
  ic_max_turns :: int

definition interactive_ok :: "interactive_config \<Rightarrow> bool" where
  "interactive_ok i \<longleftrightarrow> ic_available i \<noteq> [] \<and> list_all agent_ref_ok (ic_available i)
     \<and> length (ic_available i) = card (set (ic_available i)) \<and> 1 \<le> ic_max_turns i"

subsection \<open>CrewAI settings\<close>

record crewai_memory =
  cm_enabled :: bool
  cm_storage_dir :: "string option"
  cm_retention :: string

record crewai_knowledge =
  ck_enabled :: bool
  ck_collections :: "string list"
  ck_top_k :: int

record crewai_guardrails =
  cg_enabled :: bool
  cg_human_review :: bool
  cg_output_schema :: string

record crewai_tracing =
  ct_enabled :: bool
  ct_amp_enabled :: bool
  ct_event_listeners :: "string list"

record task_config =
  tk_id :: string
  tk_node :: "string option"
  tk_agent :: string
  tk_description :: string
  tk_expected_output :: string

subsection \<open>Workflows\<close>

record workflow =
  wf_id :: string
  wf_name :: string
  wf_description :: string
  wf_entry_agent :: "string option"
  wf_max_turns :: "int option"
  wf_execution_config :: "(string, json) odict option"
  wf_pattern :: conversation_pattern
  wf_topology :: topology
  wf_strategy :: string
  wf_enabled :: bool
  wf_metadata :: "(string, json) odict"
  wf_interactive :: "interactive_config option"
  wf_persistence :: persistence_mode
  wf_type :: workflow_type
  wf_process :: crewai_process
  wf_tasks :: "task_config list"
  wf_memory :: crewai_memory
  wf_knowledge :: crewai_knowledge
  wf_guardrails :: crewai_guardrails
  wf_planning :: bool
  wf_cache :: bool
  wf_max_rpm :: "int option"
  wf_verbose :: bool
  wf_manager_llm :: "(string, json) odict option"
  wf_planning_llm :: "(string, json) odict option"
  wf_tracing :: crewai_tracing
  wf_listeners :: "(string, json) odict list"
  wf_mcp_servers :: "(string, json) odict list"
  wf_output_schema :: "json option"
  wf_auth_mode :: string
  wf_version :: int
  wf_updated :: int
  wf_extra :: "(string, json) odict"

text \<open>\<open>WorkflowConfig(id=..., topology=...)\<close> with every other field at its default; \<open>name\<close> and \<open>description\<close>, which
  have none, are empty.\<close>

definition default_workflow :: "string \<Rightarrow> topology \<Rightarrow> workflow" where
  "default_workflow i t = \<lparr>wf_id = i, wf_name = [], wf_description = [], wf_entry_agent = None, wf_max_turns = None,
     wf_execution_config = None, wf_pattern = SEQUENTIAL, wf_topology = t, wf_strategy = ''sequential'', wf_enabled = True,
     wf_metadata = [], wf_interactive = None, wf_persistence = POSTGRES, wf_type = SEQUENTIAL_WORKFLOW,
     wf_process = Sequential, wf_tasks = [], wf_memory = \<lparr>cm_enabled = True, cm_storage_dir = None, cm_retention = ''session''\<rparr>,
     wf_knowledge = \<lparr>ck_enabled = False, ck_collections = [], ck_top_k = 5\<rparr>,
     wf_guardrails = \<lparr>cg_enabled = True, cg_human_review = False, cg_output_schema = ''text''\<rparr>,
     wf_planning = False, wf_cache = True, wf_max_rpm = None, wf_verbose = False, wf_manager_llm = None,
     wf_planning_llm = None, wf_tracing = \<lparr>ct_enabled = True, ct_amp_enabled = False, ct_event_listeners = []\<rparr>,
     wf_listeners = [], wf_mcp_servers = [], wf_output_schema = Some (JStr ''text''), wf_auth_mode = ''public'',
     wf_version = 1, wf_updated = 0, wf_extra = []\<rparr>"

definition default_node :: "string \<Rightarrow> string \<Rightarrow> agent_node" where
  "default_node i a = \<lparr>an_id = i, an_description = [], an_position = None, an_agent_id = a, an_is_router = False,
     an_config_override = None, an_input_transform = None, an_output_transform = None, an_timeout = None,
     an_tools = [], an_memory = None, an_knowledge = None, an_extra = []\<rparr>"

definition topology_agents :: "workflow \<Rightarrow> string set" where
  "topology_agents w = set (map an_agent_id (tp_nodes (wf_topology w)))"

text \<open>\<open>validate_interactive_agents_exist\<close> and the field constraints: what \<open>WorkflowConfig(...)\<close> accepts.\<close>

definition validate_interactive_agents_exist :: "workflow \<Rightarrow> bool" where
  "validate_interactive_agents_exist w =
     (case wf_interactive w of None \<Rightarrow> True | Some i \<Rightarrow> ic_default i \<in> topology_agents w)"

definition workflow_ok :: "workflow \<Rightarrow> bool" where
  "workflow_ok w \<longleftrightarrow> config_id_ok (wf_id w) \<and> at_least_one (wf_max_turns w)
     \<and> list_all node_ok (tp_nodes (wf_topology w)) \<and> make_topology (wf_topology w) = Inr (wf_topology w)
     \<and> (case wf_interactive w of None \<Rightarrow> True | Some i \<Rightarrow> interactive_ok i)
     \<and> 1 \<le> ck_top_k (wf_knowledge w) \<and> ck_top_k (wf_knowledge w) \<le> 50
     \<and> at_least_one (wf_max_rpm w) \<and> 1 \<le> wf_version w \<and> validate_interactive_agents_exist w"

datatype pattern_error = No_topology_node | Single_has int | Selector_too_small | Entry_not_a_node string

definition validate_pattern_config :: "workflow \<Rightarrow> pattern_error option" where
  "validate_pattern_config w =
     (let n = length (tp_nodes (wf_topology w)); entry = tp_entry (wf_topology w) in
      if n = 0 then Some No_topology_node
      else if wf_pattern w = SINGLE \<and> n \<noteq> 1 then Some (Single_has (int n))
      else if wf_pattern w = SELECTOR \<and> n < 2 then Some Selector_too_small
      else if entry \<noteq> [] \<and> entry \<notin> set (node_ids (wf_topology w)) then Some (Entry_not_a_node entry)
      else None)"

definition get_all_agent_ids :: "workflow \<Rightarrow> string set" where
  "get_all_agent_ids w = topology_agents w \<union> (case wf_interactive w of
      None \<Rightarrow> {}
    | Some i \<Rightarrow> if ic_enabled i then insert (ic_default i) (set (ic_available i)) else {})"

text \<open>A constructed workflow passes the pattern check unless its node count contradicts the pattern, and its
  interactive default agent is already among the topology's agents.\<close>

lemma pattern_config_of_ok:
  assumes "workflow_ok w"
  shows "validate_pattern_config w = None \<longleftrightarrow>
    (wf_pattern w = SINGLE \<longrightarrow> length (tp_nodes (wf_topology w)) = 1)
    \<and> (wf_pattern w = SELECTOR \<longrightarrow> 2 \<le> length (tp_nodes (wf_topology w)))"
proof -
  have "tp_nodes (wf_topology w) \<noteq> []" "tp_entry (wf_topology w) \<in> set (node_ids (wf_topology w))"
    using assms by (auto simp: workflow_ok_def make_topology_def Let_def split: if_splits)
  then show ?thesis by (auto simp: validate_pattern_config_def Let_def)
qed

lemma all_agent_ids_interactive:
  assumes "workflow_ok w" "wf_interactive w = Some i" "ic_enabled i"
  shows "get_all_agent_ids w = topology_agents w \<union> set (ic_available i)"
  using assms by (auto simp: workflow_ok_def validate_interactive_agents_exist_def get_all_agent_ids_def)

subsection \<open>The root configuration\<close>

definition get_workflow :: "workflow list \<Rightarrow> string \<Rightarrow> workflow option" where
  "get_workflow ws i = List.find (\<lambda>w. wf_id w = i) ws"

definition get_enabled_workflows :: "workflow list \<Rightarrow> workflow list" where
  "get_enabled_workflows ws = filter wf_enabled ws"

datatype root_error = Duplicate_workflow_ids "string set" | Empty_topology string

definition validate_root :: "workflow list \<Rightarrow> root_error option" where
  "validate_root ws =
     (let ids = map wf_id ws in
      if length ids \<noteq> card (set ids) then Some (Duplicate_workflow_ids {i \<in> set ids. count_list ids i > 1})
      else map_option (\<lambda>w. Empty_topology (wf_id w)) (List.find (\<lambda>w. tp_nodes (wf_topology w) = []) ws))"

lemma validate_root_None_iff:
  "validate_root ws = None \<longleftrightarrow> distinct (map wf_id ws) \<and> (\<forall>w \<in> set ws. tp_nodes (wf_topology w) \<noteq> [])"
proof -
  have "length (map wf_id ws) = card (set (map wf_id ws)) \<longleftrightarrow> distinct (map wf_id ws)"
    using card_distinct distinct_card by metis
  then show ?thesis by (auto simp: validate_root_def Let_def find_None_iff)
qed

lemma get_workflow_None_iff: "get_workflow ws i = None \<longleftrightarrow> i \<notin> wf_id ` set ws"
  by (auto simp: get_workflow_def find_None_iff)

lemma get_workflow_SomeD: "get_workflow ws i = Some w \<Longrightarrow> w \<in> set ws \<and> wf_id w = i"
  unfolding get_workflow_def by (drule find_SomeD) simp

lemma get_workflow_map_of: "get_workflow ws i = map_of (map (\<lambda>w. (wf_id w, w)) ws) i"
  by (induction ws) (auto simp: get_workflow_def)

end
