(* ===== verification/Workflow_Registry.thy ===== *)
theory Workflow_Registry
  imports Agents Workflows
begin

text \<open>
  The workflow registry, \<open>src/src/config/workflow_registry.py\<close>: loading and saving the file of workflows,
  looking workflows up, validating them, and adding, updating and removing one.  The list of workflows is
  refined by a finite map from ids to valid workflows.  Log calls and the creation of the directory are
  left out; where the code names one of several missing agents, the model reports the set of them.
\<close>

subsection \<open>State\<close>

record root_config =
  root_version :: string
  root_workflows :: "workflow list"

record registry =
  rg_config :: "root_config option"
  rg_agents :: "agent list option"

datatype registry_error = Bad_pattern pattern_error | Missing_agents string "string set" | Self_loop json
  | Circular json json | Bad_root root_error | Already_exists string | Not_found string | No_config
  | Invalid_json | Invalid_config

subsection \<open>Validation of one workflow\<close>

definition missing_agents :: "agent list \<Rightarrow> workflow \<Rightarrow> string set" where
  "missing_agents as w = {i \<in> get_all_agent_ids w. get_agent as i = None}"

definition check_agent_references :: "agent list option \<Rightarrow> workflow \<Rightarrow> registry_error option" where
  "check_agent_references as w = (case as of
      None \<Rightarrow> None
    | Some l \<Rightarrow> if missing_agents l w = {} then None else Some (Missing_agents (wf_id w) (missing_agents l w)))"

text \<open>An edge drawn on the canvas carries \<open>source\<close> and \<open>target\<close> among its extra keys; they come before
  \<open>from_node\<close> and \<open>to_node\<close>.  \<open>None\<close> cannot occur, since those two are never empty.\<close>

definition edge_source :: "agent_edge \<Rightarrow> json" where
  "edge_source e = (let v = jget (ae_extra e) ''source'' in if truthy v then v else JStr (ae_from e))"

definition edge_target :: "agent_edge \<Rightarrow> json" where
  "edge_target e = (let v = jget (ae_extra e) ''target'' in if truthy v then v else JStr (ae_to e))"

fun circular_edges :: "(json \<times> json) set \<Rightarrow> agent_edge list \<Rightarrow> registry_error option" where
  "circular_edges pairs [] = None"
| "circular_edges pairs (e # es) =
     (if edge_source e = edge_target e then Some (Self_loop (edge_source e))
      else if (edge_target e, edge_source e) \<in> pairs then Some (Circular (edge_source e) (edge_target e))
      else circular_edges (insert (edge_source e, edge_target e) pairs) es)"

definition check_circular_dependencies :: "workflow \<Rightarrow> registry_error option" where
  "check_circular_dependencies w =
     (if wf_pattern w \<noteq> conversation_pattern.SEQUENTIAL then None
      else circular_edges {} (tp_edges (wf_topology w)))"

definition validate_entry :: "agent list option \<Rightarrow> bool \<Rightarrow> workflow \<Rightarrow> registry_error option" where
  "validate_entry as check w = (case validate_pattern_config w of
      Some e \<Rightarrow> Some (Bad_pattern e)
    | None \<Rightarrow> (case (if check \<and> as \<noteq> None then check_agent_references as w else None) of
        Some e \<Rightarrow> Some e
      | None \<Rightarrow> if wf_pattern w = conversation_pattern.SEQUENTIAL then check_circular_dependencies w else None))"

definition first_error :: "('a \<Rightarrow> 'e option) \<Rightarrow> 'a list \<Rightarrow> 'e option" where
  "first_error f xs = (case List.map_filter f xs of [] \<Rightarrow> None | e # _ \<Rightarrow> Some e)"

definition validate_all :: "bool \<Rightarrow> registry \<Rightarrow> registry_error option" where
  "validate_all check r = (case rg_config r of
      None \<Rightarrow> None
    | Some c \<Rightarrow> (case validate_root (root_workflows c) of
        Some e \<Rightarrow> Some (Bad_root e)
      | None \<Rightarrow> first_error (validate_entry (rg_agents r) check) (root_workflows c)))"

subsection \<open>Operations\<close>

definition find_workflow :: "registry \<Rightarrow> string \<Rightarrow> workflow option" where
  "find_workflow r i = (case rg_config r of None \<Rightarrow> None | Some c \<Rightarrow> get_workflow (root_workflows c) i)"

definition list_workflows :: "bool \<Rightarrow> registry \<Rightarrow> workflow list" where
  "list_workflows enabled_only r = (case rg_config r of
      None \<Rightarrow> []
    | Some c \<Rightarrow> if enabled_only then get_enabled_workflows (root_workflows c) else root_workflows c)"

definition set_agents_config :: "agent list \<Rightarrow> registry \<Rightarrow> registry" where
  "set_agents_config as r = r\<lparr>rg_agents := Some as\<rparr>"

definition empty_root :: root_config where
  "empty_root = \<lparr>root_version = ''1.0.0'', root_workflows = []\<rparr>"

definition with_root :: "root_config \<Rightarrow> registry \<Rightarrow> registry" where
  "with_root c r = r\<lparr>rg_config := Some c\<rparr>"

definition add_workflow :: "workflow \<Rightarrow> registry \<Rightarrow> registry_error option \<times> registry" where
  "add_workflow w r =
     (let c = (case rg_config r of None \<Rightarrow> empty_root | Some c \<Rightarrow> c) in
      if get_workflow (root_workflows c) (wf_id w) \<noteq> None then (Some (Already_exists (wf_id w)), with_root c r)
      else case validate_entry (rg_agents r) True w of
        Some e \<Rightarrow> (Some e, with_root c r)
      | None \<Rightarrow> (None, with_root (c\<lparr>root_workflows := root_workflows c @ [w]\<rparr>) r))"

fun index_of :: "nat \<Rightarrow> string \<Rightarrow> workflow list \<Rightarrow> nat option" where
  "index_of k i [] = None"
| "index_of k i (w # ws) = (if wf_id w = i then Some k else index_of (Suc k) i ws)"

definition update_workflow :: "workflow \<Rightarrow> registry \<Rightarrow> registry_error option \<times> registry" where
  "update_workflow w r = (case rg_config r of
      None \<Rightarrow> (Some No_config, r)
    | Some c \<Rightarrow> (case index_of 0 (wf_id w) (root_workflows c) of
        None \<Rightarrow> (Some (Not_found (wf_id w)), r)
      | Some k \<Rightarrow> (case validate_entry (rg_agents r) True w of
          Some e \<Rightarrow> (Some e, r)
        | None \<Rightarrow> (None, with_root (c\<lparr>root_workflows := (root_workflows c)[k := w]\<rparr>) r))))"

definition remove_workflow :: "string \<Rightarrow> registry \<Rightarrow> bool \<times> registry" where
  "remove_workflow i r = (case rg_config r of
      None \<Rightarrow> (False, r)
    | Some c \<Rightarrow> (case index_of 0 i (root_workflows c) of
        None \<Rightarrow> (False, r)
      | Some k \<Rightarrow> (True, with_root (c\<lparr>root_workflows := take k (root_workflows c) @ drop (Suc k) (root_workflows c)\<rparr>) r)))"

subsection \<open>The file\<close>

text \<open>A saved workflow leaves out the fields that are \<open>None\<close> (\<open>exclude_none=True\<close>), and reading gives a missing
  field its default.  Of the optional fields only \<open>output_schema\<close> has a default other than \<open>None\<close>, so an
  absent field is \<open>None\<close> here as well and parsing fills in that default.\<close>

datatype config_file = Missing | Not_json | Document root_config

definition parse_workflow :: "workflow \<Rightarrow> workflow" where
  "parse_workflow w = w\<lparr>wf_output_schema := (case wf_output_schema w of None \<Rightarrow> Some (JStr ''text'') | s \<Rightarrow> s)\<rparr>"

definition load_config :: "config_file \<Rightarrow> registry \<Rightarrow> registry_error option \<times> registry" where
  "load_config f r = (case f of
      Missing \<Rightarrow> (None, with_root empty_root r)
    | Not_json \<Rightarrow> (Some Invalid_json, r)
    | Document c \<Rightarrow>
        (let ws = map parse_workflow (root_workflows c) in
         if list_all workflow_ok ws then (None, with_root (c\<lparr>root_workflows := ws\<rparr>) r) else (Some Invalid_config, r)))"

definition save_config :: "registry \<Rightarrow> registry_error + config_file" where
  "save_config r = (case rg_config r of None \<Rightarrow> Inl No_config | Some c \<Rightarrow> Inr (Document c))"

subsection \<open>Circular dependencies\<close>

lemma circular_edges_None_iff:
  "circular_edges P es = None \<longleftrightarrow> (\<forall>e \<in> set es. edge_source e \<noteq> edge_target e \<and> (edge_target e, edge_source e) \<notin> P)
     \<and> (\<forall>e \<in> set es. \<forall>f \<in> set es. edge_target e = edge_source f \<longrightarrow> edge_source e \<noteq> edge_target f)"
proof (induction es arbitrary: P)
  case (Cons e es)
  then show ?case by (auto 0 4 simp: eq_commute)
qed simp

text \<open>The circularity check of a sequential workflow finds exactly self-loops and pairs of opposite edges.\<close>

lemma check_circular_None_iff:
  "check_circular_dependencies w = None \<longleftrightarrow> wf_pattern w \<noteq> conversation_pattern.SEQUENTIAL
     \<or> (\<forall>e \<in> set (tp_edges (wf_topology w)). \<forall>f \<in> set (tp_edges (wf_topology w)).
          edge_source e \<noteq> edge_target e \<and> (edge_target e = edge_source f \<longrightarrow> edge_source e \<noteq> edge_target f))"
  by (auto simp: check_circular_dependencies_def circular_edges_None_iff)

subsection \<open>Lists with an index\<close>

lemma index_of_None_iff: "index_of k i ws = None \<longleftrightarrow> i \<notin> wf_id ` set ws"
  by (induction ws arbitrary: k) auto

lemma index_of_SomeD:
  "index_of k i ws = Some j \<Longrightarrow> \<exists>us w vs. ws = us @ w # vs \<and> j = k + length us \<and> wf_id w = i \<and> i \<notin> wf_id ` set us"
proof (induction ws arbitrary: k)
  case (Cons w ws)
  show ?case
  proof (cases "wf_id w = i")
    case True
    then show ?thesis using Cons.prems by (intro exI [of _ "[]"]) auto
  next
    case False
    with Cons.prems have "index_of (Suc k) i ws = Some j" by simp
    from Cons.IH [OF this] obtain us v vs
      where "ws = us @ v # vs" "j = Suc k + length us" "wf_id v = i" "i \<notin> wf_id ` set us" by blast
    then show ?thesis using False by (intro exI [of _ "w # us"]) auto
  qed
qed simp

lemma index_ofE:
  assumes "index_of 0 i ws = Some k"
  obtains us w vs where "ws = us @ w # vs" "k = length us" "wf_id w = i" "i \<notin> wf_id ` set us"
  using index_of_SomeD [OF assms] by auto

lemma first_error_None_iff: "first_error f xs = None \<longleftrightarrow> (\<forall>x \<in> set xs. f x = None)"
  by (induction xs) (auto simp: first_error_def map_filter_simps split: option.splits list.splits)

subsection \<open>The registry refines a map of valid workflows\<close>

definition registry_ok :: "registry \<Rightarrow> bool" where
  "registry_ok r \<longleftrightarrow> (case rg_config r of None \<Rightarrow> True
    | Some c \<Rightarrow> distinct (map wf_id (root_workflows c))
        \<and> (\<forall>w \<in> set (root_workflows c). validate_entry (rg_agents r) True w = None))"

lemma validate_entry_nodes: "validate_entry as b w = None \<Longrightarrow> tp_nodes (wf_topology w) \<noteq> []"
  by (auto simp: validate_entry_def validate_pattern_config_def Let_def split: option.splits if_splits)

lemma validate_all_iff: "validate_all True r = None \<longleftrightarrow> registry_ok r"
proof (cases "rg_config r")
  case (Some c)
  let ?v = "\<forall>w \<in> set (root_workflows c). validate_entry (rg_agents r) True w = None"
  have "validate_all True r = None \<longleftrightarrow> validate_root (root_workflows c) = None \<and> ?v"
    using Some by (simp add: validate_all_def first_error_None_iff split: option.splits)
  moreover have "?v \<Longrightarrow> validate_root (root_workflows c) = None \<longleftrightarrow> distinct (map wf_id (root_workflows c))"
    using validate_entry_nodes by (auto simp: validate_root_None_iff)
  ultimately show ?thesis using Some by (auto simp: registry_ok_def)
qed (simp add: validate_all_def registry_ok_def)

lemma get_workflow_append:
  "get_workflow (us @ vs) i = (case get_workflow us i of None \<Rightarrow> get_workflow vs i | Some w \<Rightarrow> Some w)"
  by (induction us) (auto simp: get_workflow_def)

lemma get_workflow_Cons: "get_workflow (w # ws) i = (if wf_id w = i then Some w else get_workflow ws i)"
  by (simp add: get_workflow_def)

lemma get_workflow_fresh: "i \<notin> wf_id ` set ws \<Longrightarrow> get_workflow ws i = None"
  by (simp add: get_workflow_None_iff)

lemma get_workflow_replace:
  assumes "wf_id w = wf_id v" "wf_id w \<notin> wf_id ` set us"
  shows "get_workflow (us @ v # vs) = (get_workflow (us @ w # vs))(wf_id w \<mapsto> v)"
  using assms by (auto simp: fun_eq_iff get_workflow_append get_workflow_Cons get_workflow_fresh split: option.splits)

lemma get_workflow_remove:
  assumes "distinct (map wf_id (us @ w # vs))"
  shows "get_workflow (us @ vs) = (get_workflow (us @ w # vs))(wf_id w := None)"
  using assms by (auto simp: fun_eq_iff get_workflow_append get_workflow_Cons get_workflow_fresh split: option.splits)

datatype registry_op = Add workflow | Update workflow | Remove string

fun run_op :: "registry_op \<Rightarrow> registry \<Rightarrow> registry" where
  "run_op (Add w) r = snd (add_workflow w r)"
| "run_op (Update w) r = snd (update_workflow w r)"
| "run_op (Remove i) r = snd (remove_workflow i r)"

fun spec_op :: "agent list option \<Rightarrow> registry_op \<Rightarrow> (string \<Rightarrow> workflow option) \<Rightarrow> (string \<Rightarrow> workflow option)" where
  "spec_op as (Add w) m = (if m (wf_id w) = None \<and> validate_entry as True w = None then m(wf_id w \<mapsto> w) else m)"
| "spec_op as (Update w) m = (if m (wf_id w) \<noteq> None \<and> validate_entry as True w = None then m(wf_id w \<mapsto> w) else m)"
| "spec_op as (Remove i) m = m(i := None)"

lemma find_workflow_with_root [simp]: "find_workflow (with_root c r) = get_workflow (root_workflows c)"
  by (simp add: find_workflow_def with_root_def fun_eq_iff)

lemma with_root_agents [simp]: "rg_agents (with_root c r) = rg_agents r" "rg_config (with_root c r) = Some c"
  by (simp_all add: with_root_def)

lemma registry_ok_with_root:
  "registry_ok (with_root c r) \<longleftrightarrow> distinct (map wf_id (root_workflows c))
     \<and> (\<forall>w \<in> set (root_workflows c). validate_entry (rg_agents r) True w = None)"
  by (simp add: registry_ok_def)

lemma add_refines:
  assumes "registry_ok r"
  shows "registry_ok (snd (add_workflow w r)) \<and> rg_agents (snd (add_workflow w r)) = rg_agents r
    \<and> find_workflow (snd (add_workflow w r)) = spec_op (rg_agents r) (Add w) (find_workflow r)
    \<and> (fst (add_workflow w r) = None \<longleftrightarrow> find_workflow r (wf_id w) = None \<and> validate_entry (rg_agents r) True w = None)"
proof -
  define c where "c = (case rg_config r of None \<Rightarrow> empty_root | Some c \<Rightarrow> c)"
  have c: "find_workflow r = get_workflow (root_workflows c)" "registry_ok (with_root c r)"
    using assms
    by (auto simp: c_def find_workflow_def empty_root_def get_workflow_def fun_eq_iff registry_ok_with_root registry_ok_def
        split: option.splits)
  show ?thesis using c(2) unfolding add_workflow_def Let_def c_def [symmetric] c(1)
    by (auto simp: registry_ok_with_root get_workflow_None_iff get_workflow_append get_workflow_Cons fun_eq_iff
        get_workflow_fresh split: option.splits)
qed

lemma update_refines:
  assumes "registry_ok r"
  shows "registry_ok (snd (update_workflow w r)) \<and> rg_agents (snd (update_workflow w r)) = rg_agents r
    \<and> find_workflow (snd (update_workflow w r)) = spec_op (rg_agents r) (Update w) (find_workflow r)
    \<and> (fst (update_workflow w r) = None \<longleftrightarrow> find_workflow r (wf_id w) \<noteq> None \<and> validate_entry (rg_agents r) True w = None)"
proof (cases "rg_config r")
  case None
  then show ?thesis using assms by (simp add: update_workflow_def find_workflow_def)
next
  case (Some c)
  show ?thesis
  proof (cases "index_of 0 (wf_id w) (root_workflows c)")
    case None
    then have "get_workflow (root_workflows c) (wf_id w) = None" by (simp add: get_workflow_None_iff index_of_None_iff)
    then show ?thesis using assms Some None by (simp add: update_workflow_def find_workflow_def)
  next
    case (Some k)
    then obtain us v vs where s: "root_workflows c = us @ v # vs" "k = length us" "wf_id v = wf_id w" "wf_id w \<notin> wf_id ` set us"
      by (elim index_ofE)
    have "get_workflow (us @ w # vs) = (get_workflow (us @ v # vs))(wf_id v \<mapsto> w)"
      using s by (intro get_workflow_replace) auto
    moreover have "get_workflow (us @ v # vs) (wf_id w) \<noteq> None" using s(3) by (auto simp: get_workflow_None_iff)
    moreover have "find_workflow r = get_workflow (us @ v # vs)"
      using \<open>rg_config r = _\<close> s(1) by (simp add: find_workflow_def fun_eq_iff)
    ultimately show ?thesis using assms Some s \<open>rg_config r = _\<close>
      by (auto simp: update_workflow_def registry_ok_def split: option.splits)
  qed
qed

lemma remove_refines:
  assumes "registry_ok r"
  shows "registry_ok (snd (remove_workflow i r)) \<and> rg_agents (snd (remove_workflow i r)) = rg_agents r
    \<and> find_workflow (snd (remove_workflow i r)) = spec_op (rg_agents r) (Remove i) (find_workflow r)
    \<and> (fst (remove_workflow i r) \<longleftrightarrow> find_workflow r i \<noteq> None)"
proof (cases "rg_config r")
  case None
  then show ?thesis using assms by (simp add: remove_workflow_def find_workflow_def fun_eq_iff)
next
  case (Some c)
  show ?thesis
  proof (cases "index_of 0 i (root_workflows c)")
    case None
    then have "get_workflow (root_workflows c) i = None" by (simp add: get_workflow_None_iff index_of_None_iff)
    then show ?thesis using assms Some None by (simp add: remove_workflow_def find_workflow_def fun_eq_iff)
  next
    case (Some k)
    then obtain us v vs where s: "root_workflows c = us @ v # vs" "k = length us" "wf_id v = i" "i \<notin> wf_id ` set us"
      by (elim index_ofE)
    have d: "distinct (map wf_id (us @ v # vs))" using assms \<open>rg_config r = _\<close> s(1) by (simp add: registry_ok_def)
    have "get_workflow (us @ v # vs) i \<noteq> None" using s(3) by (auto simp: get_workflow_None_iff)
    moreover have "find_workflow r = get_workflow (us @ v # vs)"
      using \<open>rg_config r = _\<close> s(1) by (simp add: find_workflow_def fun_eq_iff)
    ultimately show ?thesis using assms Some s \<open>rg_config r = _\<close> d get_workflow_remove [OF d]
      by (auto simp: remove_workflow_def registry_ok_def split: option.splits)
  qed
qed

text \<open>C4: the registry refines a map from ids to workflows in which every workflow is valid: on a registry
  that validates, adding needs a new id, updating an existing one, both a valid workflow; a refused
  operation changes no workflow, and the registry validates after every sequence of operations.\<close>

theorem registry_refines_map:
  assumes "validate_all True r = None"
  shows "validate_all True (fold run_op ops r) = None
    \<and> find_workflow (fold run_op ops r) = fold (spec_op (rg_agents r)) ops (find_workflow r)"
proof -
  have step: "registry_ok s \<Longrightarrow> registry_ok (run_op op s) \<and> rg_agents (run_op op s) = rg_agents s
      \<and> find_workflow (run_op op s) = spec_op (rg_agents s) op (find_workflow s)" for op s
    using add_refines [of s] update_refines [of s] remove_refines [of s] by (cases op) auto
  have "registry_ok s \<Longrightarrow> registry_ok (fold run_op ops s)
      \<and> find_workflow (fold run_op ops s) = fold (spec_op (rg_agents s)) ops (find_workflow s)" for s
  proof (induction ops arbitrary: s)
    case (Cons op ops)
    from Cons.IH [of "run_op op s"] step [OF Cons.prems, of op] show ?case by simp
  qed simp
  then show ?thesis using assms by (simp add: validate_all_iff)
qed

definition demo_topology :: topology where
  "demo_topology = \<lparr>tp_type = topology_type.SINGLE,
     tp_nodes = [default_node ''n'' ''a''], tp_edges = [], tp_entry = ''n'', tp_conditions = []\<rparr>"

theorem registry_refines_map_witness:
  "validate_all True (fold run_op [Add (default_workflow ''w'' demo_topology)] \<lparr>rg_config = Some empty_root, rg_agents = None\<rparr>) = None
    \<and> find_workflow (fold run_op [Add (default_workflow ''w'' demo_topology)] \<lparr>rg_config = Some empty_root, rg_agents = None\<rparr>) ''w''
      = Some (default_workflow ''w'' demo_topology)"
proof -
  let ?r = "\<lparr>rg_config = Some empty_root, rg_agents = None\<rparr>"
  have r: "validate_all True ?r = None"
    by (simp add: validate_all_def empty_root_def validate_root_def first_error_def map_filter_simps)
  have w: "validate_entry None True (default_workflow ''w'' demo_topology) = None" "wf_id (default_workflow ''w'' demo_topology) = ''w''"
    by (simp_all add: validate_entry_def validate_pattern_config_def default_workflow_def demo_topology_def node_ids_def
        default_node_def check_circular_dependencies_def)
  show ?thesis
    using registry_refines_map [OF r, of "[Add (default_workflow ''w'' demo_topology)]"] w
    by (simp add: find_workflow_def empty_root_def get_workflow_def)
qed

subsection \<open>Saving and loading\<close>

lemma parse_workflow_ok: "workflow_ok (parse_workflow w) = workflow_ok w"
  by (simp add: workflow_ok_def parse_workflow_def validate_interactive_agents_exist_def topology_agents_def
      cong: option.case_cong)

text \<open>A saved configuration loads again, unchanged but for an \<open>output_schema\<close> of \<open>None\<close>, which comes back as
  \<open>"text"\<close>.\<close>

lemma save_load:
  assumes "rg_config r = Some c" "list_all workflow_ok (root_workflows c)"
  shows "\<exists>f. save_config r = Inr f
    \<and> load_config f s = (None, with_root (c\<lparr>root_workflows := map parse_workflow (root_workflows c)\<rparr>) s)"
  using assms by (simp add: save_config_def load_config_def list.pred_map o_def parse_workflow_ok)

lemma parse_workflow_id_iff: "parse_workflow w = w \<longleftrightarrow> wf_output_schema w \<noteq> None"
proof
  assume "parse_workflow w = w"
  then have "wf_output_schema (parse_workflow w) = wf_output_schema w" by simp
  then show "wf_output_schema w \<noteq> None" by (cases "wf_output_schema w") (simp_all add: parse_workflow_def)
qed (auto simp: parse_workflow_def)

end
