(* ===== verification/Caches.thy ===== *)
theory Caches
  imports Prelude
begin

text \<open>
  The cache layer: the LRU and LFU caches and the \<open>CacheManager\<close> read and write paths
  (\<open>src/src/infrastructure/cache_manager.py\<close>), the configuration hierarchy
  (\<open>src/src/config/cache_models.py\<close>) and the JSON accessors of the Redis wrapper
  (\<open>src/src/infrastructure/cache.py\<close>).  The Redis client and the JSON codec are parameters.
  The locale \<open>memory_cache\<close> is the contract the manager relies on; the LRU cache, the LFU cache
  and the manager's choice of one of them interpret it.
\<close>

subsection \<open>The LRU cache\<close>

text \<open>\<open>OrderedDict.move_to_end\<close>, \<open>popitem(last=False)\<close>.  A stored \<open>None\<close> and a missing key give the
  same answer, \<open>JNull\<close>.\<close>

record lru =
  lru_max :: int
  lru_items :: "(string, json) odict"

definition move_to_end :: "string \<Rightarrow> (string, json) odict \<Rightarrow> (string, json) odict" where
  "move_to_end k d = (case get d k of None \<Rightarrow> d | Some v \<Rightarrow> del k d @ [(k, v)])"

definition lru_get :: "lru \<Rightarrow> string \<Rightarrow> json \<times> lru" where
  "lru_get c k = (case get (lru_items c) k of None \<Rightarrow> (JNull, c)
     | Some v \<Rightarrow> (v, c\<lparr>lru_items := move_to_end k (lru_items c)\<rparr>))"

definition lru_set :: "lru \<Rightarrow> string \<Rightarrow> json \<Rightarrow> lru option" where
  "lru_set c k v =
     (let d = put k v (if k \<in> set (keys (lru_items c)) then move_to_end k (lru_items c) else lru_items c)
      in Some (c\<lparr>lru_items := (if int (length d) > lru_max c then tl d else d)\<rparr>))"

definition lru_delete :: "lru \<Rightarrow> string \<Rightarrow> bool \<times> lru" where
  "lru_delete c k = (if k \<in> set (keys (lru_items c)) then (True, c\<lparr>lru_items := del k (lru_items c)\<rparr>)
     else (False, c))"

definition lru_clear :: "lru \<Rightarrow> nat \<times> lru" where
  "lru_clear c = (length (lru_items c), c\<lparr>lru_items := []\<rparr>)"

subsection \<open>The LFU cache\<close>

record lfu =
  lfu_max :: int
  lfu_items :: "(string, json) odict"
  lfu_freqs :: "(string, int) odict"

text \<open>\<open>min(freqs, key=freqs.get)\<close>: the first key with the least frequency; \<open>ValueError\<close> on an empty
  dictionary.\<close>

fun min_key :: "(string, int) odict \<Rightarrow> string option" where
  "min_key [] = None"
| "min_key ((k, f) # d) = (case min_key d of None \<Rightarrow> Some k
     | Some k' \<Rightarrow> if get_default d k' 0 < f then Some k' else Some k)"

definition bump :: "lfu \<Rightarrow> string \<Rightarrow> lfu" where
  "bump c k = c\<lparr>lfu_freqs := put k (get_default (lfu_freqs c) k 0 + 1) (lfu_freqs c)\<rparr>"

definition lfu_get :: "lfu \<Rightarrow> string \<Rightarrow> json \<times> lfu" where
  "lfu_get c k = (case get (lfu_items c) k of None \<Rightarrow> (JNull, c) | Some v \<Rightarrow> (v, bump c k))"

definition lfu_evict :: "lfu \<Rightarrow> lfu option" where
  "lfu_evict c = (case min_key (lfu_freqs c) of None \<Rightarrow> None
     | Some k \<Rightarrow> if k \<in> set (keys (lfu_items c))
         then Some (c\<lparr>lfu_items := del k (lfu_items c), lfu_freqs := del k (lfu_freqs c)\<rparr>) else None)"

definition lfu_set :: "lfu \<Rightarrow> string \<Rightarrow> json \<Rightarrow> lfu option" where
  "lfu_set c k v =
     (if k \<in> set (keys (lfu_items c)) then Some (bump (c\<lparr>lfu_items := put k v (lfu_items c)\<rparr>) k)
      else map_option (\<lambda>c'. c'\<lparr>lfu_items := put k v (lfu_items c'), lfu_freqs := put k 1 (lfu_freqs c')\<rparr>)
        (if int (length (lfu_items c)) \<ge> lfu_max c then lfu_evict c else Some c))"

definition lfu_delete :: "lfu \<Rightarrow> string \<Rightarrow> (bool \<times> lfu) option" where
  "lfu_delete c k = (if k \<in> set (keys (lfu_items c)) then
        (if k \<in> set (keys (lfu_freqs c)) then
           Some (True, c\<lparr>lfu_items := del k (lfu_items c), lfu_freqs := del k (lfu_freqs c)\<rparr>)
         else None)
     else Some (False, c))"

definition lfu_clear :: "lfu \<Rightarrow> nat \<times> lfu" where
  "lfu_clear c = (length (lfu_items c), c\<lparr>lfu_items := [], lfu_freqs := []\<rparr>)"

subsection \<open>The contract of an in-memory cache\<close>

datatype cache_op = Get string | Set string json | Delete string

text \<open>\<open>look\<close> is the content of a cache as a map, \<open>cap\<close> its bound and \<open>ok\<close> its representation
  invariant.  A cache may forget entries, but it never answers with anything but the last value
  written.\<close>

locale memory_cache =
  fixes mget :: "'c \<Rightarrow> string \<Rightarrow> json \<times> 'c"
    and mset :: "'c \<Rightarrow> string \<Rightarrow> json \<Rightarrow> 'c option"
    and mdelete :: "'c \<Rightarrow> string \<Rightarrow> (bool \<times> 'c) option"
    and ok :: "'c \<Rightarrow> bool"
    and look :: "'c \<Rightarrow> string \<Rightarrow> json option"
    and cap :: "'c \<Rightarrow> int"
  assumes get_ok: "ok c \<Longrightarrow> mget c k = (v, c') \<Longrightarrow>
      ok c' \<and> cap c' = cap c \<and> look c' = look c \<and> v = (case look c k of None \<Rightarrow> JNull | Some w \<Rightarrow> w)"
    and set_ok: "ok c \<Longrightarrow> \<exists>c'. mset c k v = Some c' \<and> ok c' \<and> cap c' = cap c
      \<and> look c' k = Some v \<and> look c' \<subseteq>\<^sub>m (look c)(k \<mapsto> v)"
    and delete_ok: "ok c \<Longrightarrow> \<exists>c'. mdelete c k = Some (k \<in> dom (look c), c')
      \<and> ok c' \<and> cap c' = cap c \<and> look c' = (look c)(k := None)"
    and bounded: "ok c \<Longrightarrow> finite (dom (look c)) \<and> int (card (dom (look c))) \<le> cap c"
begin

fun perform :: "cache_op \<Rightarrow> 'c \<Rightarrow> (json \<times> 'c) option" where
  "perform (Get k) c = Some (mget c k)"
| "perform (Set k v) c = map_option (Pair JNull) (mset c k v)"
| "perform (Delete k) c = map_option (\<lambda>(b, c'). (JBool b, c')) (mdelete c k)"

fun run :: "cache_op list \<Rightarrow> 'c \<Rightarrow> 'c option" where
  "run [] c = Some c"
| "run (x # xs) c = (case perform x c of None \<Rightarrow> None | Some (_, c') \<Rightarrow> run xs c')"

fun written :: "cache_op list \<Rightarrow> (string \<rightharpoonup> json) \<Rightarrow> (string \<rightharpoonup> json)" where
  "written [] m = m"
| "written (Get k # xs) m = written xs m"
| "written (Set k v # xs) m = written xs (m(k \<mapsto> v))"
| "written (Delete k # xs) m = written xs (m(k := None))"

lemma read_your_write:
  assumes "ok c" "mset c k v = Some c'" "mget c' k = (w, c'')"
  shows "w = v"
  using set_ok [OF assms(1), of k v] get_ok [of c' k w c''] assms by auto

theorem refines:
  "ok c \<Longrightarrow> look c \<subseteq>\<^sub>m m \<Longrightarrow>
     \<exists>c'. run xs c = Some c' \<and> ok c' \<and> cap c' = cap c \<and> look c' \<subseteq>\<^sub>m written xs m"
proof (induction xs arbitrary: c m)
  case (Cons x xs)
  have "\<exists>r c'. perform x c = Some (r, c') \<and> ok c' \<and> cap c' = cap c \<and> look c' \<subseteq>\<^sub>m written [x] m"
  proof (cases x)
    case (Get k)
    then show ?thesis using get_ok [OF Cons.prems(1), of k] Cons.prems(2) by (cases "mget c k") auto
  next
    case (Set k v)
    obtain c' where c': "mset c k v = Some c'" "ok c'" "cap c' = cap c" "look c' \<subseteq>\<^sub>m (look c)(k \<mapsto> v)"
      using set_ok [OF Cons.prems(1), of k v] by blast
    moreover have "(look c)(k \<mapsto> v) \<subseteq>\<^sub>m m(k \<mapsto> v)" using Cons.prems(2) by (rule map_le_upd)
    ultimately show ?thesis using Set by (auto intro: map_le_trans)
  next
    case (Delete k)
    obtain c' where "mdelete c k = Some (k \<in> dom (look c), c')" "ok c'" "cap c' = cap c"
      "look c' = (look c)(k := None)" using delete_ok [OF Cons.prems(1)] by blast
    then show ?thesis using Delete Cons.prems(2) by (auto simp: map_le_def)
  qed
  then obtain r c' where c': "perform x c = Some (r, c')" "ok c'" "cap c' = cap c" "look c' \<subseteq>\<^sub>m written [x] m"
    by blast
  have "written (x # xs) m = written xs (written [x] m)" by (cases x) auto
  then show ?case using Cons.IH [OF c'(2,4)] c' by auto
qed auto

lemma size_bound:
  assumes "ok c" "run xs c = Some c'"
  shows "int (card (dom (look c'))) \<le> cap c"
proof -
  from refines [OF assms(1), of "look c" xs] assms(2) have "ok c'" "cap c' = cap c" by auto
  then show ?thesis using bounded [of c'] by simp
qed

end

subsection \<open>The LRU cache meets the contract\<close>

definition lru_ok :: "lru \<Rightarrow> bool" where
  "lru_ok c \<longleftrightarrow> wf_odict (lru_items c) \<and> 1 \<le> lru_max c \<and> int (length (lru_items c)) \<le> lru_max c"

lemma dom_get: "dom (get d) = set (keys d)"
  by (auto simp: in_keys_iff)

lemma card_dom_get: "wf_odict d \<Longrightarrow> card (dom (get d)) = length d"
  using distinct_card [of "keys d"] by (simp add: dom_get wf_odict_def)

lemma move_to_end_simps:
  assumes "wf_odict d"
  shows "wf_odict (move_to_end k d)" "get (move_to_end k d) = get d" "length (move_to_end k d) = length d"
proof -
  show "wf_odict (move_to_end k d)" using assms keys_del [of k d]
    by (auto simp: move_to_end_def wf_odict_def keys_def split: option.split)
  show "get (move_to_end k d) = get d"
    by (auto simp: move_to_end_def map_add_def fun_eq_iff split: option.splits)
  show "length (move_to_end k d) = length d" using assms length_del [of d k]
    by (auto simp: move_to_end_def in_keys_iff split: option.split)
qed

text \<open>The content after a write, with the written key last.\<close>

definition written_last :: "string \<Rightarrow> json \<Rightarrow> (string, json) odict \<Rightarrow> (string, json) odict" where
  "written_last k v d = del k d @ [(k, v)]"

lemma del_absent: "k \<notin> set (keys d) \<Longrightarrow> del k d = d"
  by (induction d) (auto simp: keys_def AList.delete_eq)

lemma put_absent: "k \<notin> set (keys d) \<Longrightarrow> put k v d = d @ [(k, v)]"
  by (induction d) (auto simp: keys_def)

lemma put_at_end: "k \<notin> set (keys d) \<Longrightarrow> put k v (d @ [(k, w)]) = d @ [(k, v)]"
  by (induction d) (auto simp: keys_def)

lemma lru_set_eq:
  "lru_set c k v = Some (c\<lparr>lru_items :=
     (let d = written_last k v (lru_items c) in if int (length d) > lru_max c then tl d else d)\<rparr>)"
proof (cases "k \<in> set (keys (lru_items c))")
  case True
  then obtain w where "get (lru_items c) k = Some w" by (rule keysE)
  then have "put k v (move_to_end k (lru_items c)) = written_last k v (lru_items c)"
    by (simp add: move_to_end_def written_last_def put_at_end)
  then show ?thesis using True by (simp add: lru_set_def Let_def)
next
  case False
  then show ?thesis by (simp add: lru_set_def written_last_def put_absent del_absent Let_def)
qed

lemma written_last_simps:
  assumes "wf_odict d"
  shows "wf_odict (written_last k v d)" "get (written_last k v d) = (get d)(k \<mapsto> v)"
    "length (written_last k v d) = (if k \<in> set (keys d) then length d else Suc (length d))"
proof -
  show "wf_odict (written_last k v d)" using assms keys_del [of k d]
    by (auto simp: written_last_def wf_odict_def keys_def)
  show "get (written_last k v d) = (get d)(k \<mapsto> v)"
    by (auto simp: written_last_def map_add_def fun_eq_iff split: option.splits)
  show "length (written_last k v d) = (if k \<in> set (keys d) then length d else Suc (length d))"
    using assms length_del [of d k] by (simp add: written_last_def del_absent)
qed

lemma wf_tl: "wf_odict d \<Longrightarrow> wf_odict (tl d)"
  by (cases d) (auto simp: wf_odict_def keys_def)

lemma get_tl_le: "wf_odict d \<Longrightarrow> get (tl d) \<subseteq>\<^sub>m get d"
  by (cases d) (auto simp: wf_odict_def keys_def map_le_def domIff dest: map_of_SomeD intro: rev_image_eqI)

lemma lru_set_law:
  assumes "lru_ok c"
  shows "\<exists>c'. lru_set c k v = Some c' \<and> lru_ok c' \<and> lru_max c' = lru_max c
    \<and> get (lru_items c') k = Some v \<and> get (lru_items c') \<subseteq>\<^sub>m (get (lru_items c))(k \<mapsto> v)"
proof -
  from assms have w: "wf_odict (lru_items c)" "1 \<le> lru_max c" "int (length (lru_items c)) \<le> lru_max c"
    by (simp_all add: lru_ok_def)
  let ?d = "written_last k v (lru_items c)"
  note s = written_last_simps [OF w(1), of k v]
  have k: "get (tl ?d) k = Some v" if "int (length ?d) > lru_max c"
  proof -
    have "del k (lru_items c) \<noteq> []" using that w(2) by (auto simp: written_last_def)
    moreover have "k \<notin> set (keys (tl (del k (lru_items c))))"
      by (cases "del k (lru_items c)") (use set_keys_del [of k "lru_items c"] in \<open>auto simp: keys_def\<close>)
    then have "get (tl (del k (lru_items c))) k = None" by (simp only: get_None_iff not_False_eq_True)
    ultimately show ?thesis by (simp add: written_last_def tl_append2 map_add_def)
  qed
  show ?thesis
    using w s k get_tl_le [OF s(1)] wf_tl [OF s(1)]
    by (auto simp: lru_set_eq lru_ok_def Let_def split: if_splits)
qed

interpretation lru: memory_cache lru_get lru_set "\<lambda>c k. Some (lru_delete c k)" lru_ok "\<lambda>c. get (lru_items c)" lru_max
proof (unfold_locales, goal_cases)
  case (1 c k v c')
  then show ?case
    by (auto simp: lru_get_def lru_ok_def move_to_end_simps split: option.splits)
next
  case (2 c k v)
  then show ?case by (rule lru_set_law)
next
  case (3 c k)
  have "wf_odict (lru_items c)" using 3 by (simp add: lru_ok_def)
  then show ?case using 3 length_del [of "lru_items c" k]
    by (auto simp: lru_delete_def lru_ok_def dom_get get_None_iff fun_eq_iff)
next
  case (4 c)
  then show ?case using card_dom_get [of "lru_items c"] by (simp add: lru_ok_def dom_get)
qed

text \<open>Writes alone: the cache holds exactly the most recently written keys, in that order.\<close>

fun lru_sets :: "(string \<times> json) list \<Rightarrow> lru \<Rightarrow> lru option" where
  "lru_sets [] c = Some c"
| "lru_sets ((k, v) # kvs) c = (case lru_set c k v of None \<Rightarrow> None | Some c' \<Rightarrow> lru_sets kvs c')"

lemma take_last_snoc: "0 < n \<Longrightarrow> take_last n (xs @ [x]) = take_last (n - 1) xs @ [x]"
  by (auto simp: take_last_def drop_append not_less Suc_diff_le)

lemma take_last_tl: "length ys = n \<Longrightarrow> 0 < n \<Longrightarrow> take_last (n - 1) (xs @ ys) = tl ys"
  by (cases ys) (auto simp: take_last_def)

lemma del_append: "del k (xs @ ys) = del k xs @ del k ys"
  by (simp add: AList.delete_eq)

lemma length_del_le: "length (del k d) \<le> length d"
  by (simp add: AList.delete_eq)

lemma take_last_Suc_snoc:
  assumes "wf_odict d" "0 < n"
  shows "(let e = written_last k v (take_last n d) in if length e > n then tl e else e)
     = take_last n (written_last k v d)"
proof -
  define pre where "pre = take (length d - n) d"
  define suf where "suf = take_last n d"
  have d: "d = pre @ suf" by (simp add: pre_def suf_def take_last_def)
  have len: "length suf = min n (length d)" by (simp add: suf_def)
  show ?thesis
  proof (cases "k \<in> set (keys suf)")
    case True
    then have "k \<notin> set (keys pre)" using assms(1) d by (auto simp: wf_odict_def keys_def)
    have wsuf: "wf_odict suf" using assms(1) d by (auto simp: wf_odict_def keys_def)
    have l: "Suc (length (del k suf)) = length suf" using length_del [OF wsuf True] .
    have "take_last n (written_last k v d) = del k suf @ [(k, v)]"
    proof (cases "n \<le> length d")
      case True
      then have "n - 1 = length (del k suf)" using l len by simp
      then show ?thesis using assms(2) by (simp add: written_last_def take_last_snoc d del_append)
          (simp add: take_last_def)
    next
      case False
      then have "pre = []" by (simp add: pre_def)
      then have "d = suf" using d by simp
      then show ?thesis using False l by (simp add: written_last_def take_last_def)
    qed
    then show ?thesis using l len unfolding suf_def [symmetric] by (simp add: written_last_def)
  next
    case False
    then have s: "del k suf = suf" by (rule del_absent)
    show ?thesis
    proof (cases "n \<le> length d")
      case True
      then have ls: "length suf = n" using len by simp
      have "take_last n (written_last k v d) = take_last (n - 1) (del k pre @ suf) @ [(k, v)]"
        using take_last_snoc [OF assms(2), of "del k pre @ suf" "(k, v)"]
        by (simp add: written_last_def d del_append s)
      also have "\<dots> = tl suf @ [(k, v)]" using assms(2) take_last_tl [OF ls] by simp
      finally show ?thesis using ls assms(2) s unfolding suf_def [symmetric]
        by (cases suf) (auto simp: written_last_def)
    next
      case False
      then have "pre = []" by (simp add: pre_def)
      then have ds: "d = suf" using d by simp
      have "length suf < n" using False len by simp
      then show ?thesis using s unfolding suf_def [symmetric] ds
        by (simp add: written_last_def take_last_def)
    qed
  qed
qed

lemma lru_sets_recent:
  "wf_odict d \<Longrightarrow> 0 < n \<Longrightarrow>
     lru_sets kvs \<lparr>lru_max = int n, lru_items = take_last n d\<rparr> =
       Some \<lparr>lru_max = int n, lru_items = take_last n (fold (\<lambda>(k, v). written_last k v) kvs d)\<rparr>"
proof (induction kvs arbitrary: d)
  case (Cons kv kvs)
  obtain k v where kv: "kv = (k, v)" by (cases kv)
  have "lru_set \<lparr>lru_max = int n, lru_items = take_last n d\<rparr> k v =
      Some \<lparr>lru_max = int n, lru_items = take_last n (written_last k v d)\<rparr>"
    using take_last_Suc_snoc [OF Cons.prems, of k v] by (simp add: lru_set_eq Let_def)
  then show ?case using Cons written_last_simps(1) by (simp add: kv)
qed simp

subsection \<open>The LFU cache meets the contract\<close>

definition lfu_ok :: "lfu \<Rightarrow> bool" where
  "lfu_ok c \<longleftrightarrow> wf_odict (lfu_items c) \<and> keys (lfu_freqs c) = keys (lfu_items c) \<and> 1 \<le> lfu_max c
     \<and> int (length (lfu_items c)) \<le> lfu_max c"

lemma min_key_spec:
  "wf_odict d \<Longrightarrow> d \<noteq> [] \<Longrightarrow>
     \<exists>k f. min_key d = Some k \<and> get d k = Some f \<and> (\<forall>k' f'. get d k' = Some f' \<longrightarrow> f \<le> f')"
proof (induction d)
  case (Cons p d)
  obtain k f where p: "p = (k, f)" by (cases p)
  show ?case
  proof (cases "d = []")
    case False
    then obtain k' f' where m: "min_key d = Some k'" "get d k' = Some f'"
      "\<forall>k'' f''. get d k'' = Some f'' \<longrightarrow> f' \<le> f''" using Cons by (auto simp: wf_odict_def keys_def)
    have "k \<noteq> k'" using Cons.prems(1) m(2) by (auto simp: p wf_odict_def keys_def dest!: map_of_SomeD)
        (metis fst_conv imageI)
    then show ?thesis using m by (fastforce simp: p get_default_def)
  qed (simp add: p)
qed simp

lemma min_key_None: "min_key d = None \<longleftrightarrow> d = []"
  by (cases d rule: min_key.cases) (auto split: option.split)

lemma lfu_bump_law:
  assumes "lfu_ok c" "k \<in> set (keys (lfu_items c))"
  shows "lfu_ok (bump c k)" "lfu_items (bump c k) = lfu_items c" "lfu_max (bump c k) = lfu_max c"
  using assms by (auto simp: lfu_ok_def bump_def keys_put)

text \<open>Eviction removes one key, and no remaining key was used less often.\<close>

lemma lfu_evict_law:
  assumes "lfu_ok c" "lfu_items c \<noteq> []"
  shows "\<exists>k f. lfu_evict c = Some (c\<lparr>lfu_items := del k (lfu_items c), lfu_freqs := del k (lfu_freqs c)\<rparr>)
    \<and> k \<in> set (keys (lfu_items c)) \<and> get (lfu_freqs c) k = Some f
    \<and> (\<forall>k' f'. get (lfu_freqs c) k' = Some f' \<longrightarrow> f \<le> f')"
proof -
  have "wf_odict (lfu_freqs c)" "lfu_freqs c \<noteq> []"
    using assms by (auto simp: lfu_ok_def wf_odict_def) (auto simp: keys_def)
  then obtain k f where k: "min_key (lfu_freqs c) = Some k" "get (lfu_freqs c) k = Some f"
    "\<forall>k' f'. get (lfu_freqs c) k' = Some f' \<longrightarrow> f \<le> f'" using min_key_spec by blast
  then have "k \<in> set (keys (lfu_items c))" using assms(1) by (metis in_keys_iff lfu_ok_def option.distinct(1))
  then show ?thesis using k by (auto simp: lfu_evict_def)
qed

lemma lfu_add_law:
  assumes "lfu_ok c" "k \<notin> set (keys (lfu_items c))" "int (length (lfu_items c)) < lfu_max c"
  shows "lfu_ok (c\<lparr>lfu_items := put k v (lfu_items c), lfu_freqs := put k 1 (lfu_freqs c)\<rparr>)"
  using assms by (auto simp: lfu_ok_def keys_put length_put)

lemma lfu_del_law:
  assumes "lfu_ok c" "k \<in> set (keys (lfu_items c))"
  shows "lfu_ok (c\<lparr>lfu_items := del k (lfu_items c), lfu_freqs := del k (lfu_freqs c)\<rparr>)"
    "Suc (length (del k (lfu_items c))) = length (lfu_items c)"
  using assms length_del [of "lfu_items c" k] by (auto simp: lfu_ok_def keys_del)

lemma lfu_set_law:
  assumes ok: "lfu_ok c"
  shows "\<exists>c'. lfu_set c k v = Some c' \<and> lfu_ok c' \<and> lfu_max c' = lfu_max c
    \<and> get (lfu_items c') k = Some v \<and> get (lfu_items c') \<subseteq>\<^sub>m (get (lfu_items c))(k \<mapsto> v)"
proof (cases "k \<in> set (keys (lfu_items c))")
  case True
  have "lfu_ok (c\<lparr>lfu_items := put k v (lfu_items c)\<rparr>)"
    using ok True by (auto simp: lfu_ok_def keys_put length_put)
  from lfu_bump_law [OF this, of k] True show ?thesis by (simp add: lfu_set_def)
next
  case new: False
  show ?thesis
  proof (cases "int (length (lfu_items c)) \<ge> lfu_max c")
    case True
    then have "lfu_items c \<noteq> []" using ok by (auto simp: lfu_ok_def)
    then obtain e where e: "lfu_evict c = Some (c\<lparr>lfu_items := del e (lfu_items c), lfu_freqs := del e (lfu_freqs c)\<rparr>)"
      "e \<in> set (keys (lfu_items c))" using lfu_evict_law [OF ok] by blast
    let ?c = "c\<lparr>lfu_items := del e (lfu_items c), lfu_freqs := del e (lfu_freqs c)\<rparr>"
    have "int (length (lfu_items ?c)) < lfu_max ?c"
      using lfu_del_law(2) [OF ok e(2)] ok by (simp add: lfu_ok_def)
    moreover have "k \<notin> set (keys (lfu_items ?c))" using new by simp
    ultimately have "lfu_ok (?c\<lparr>lfu_items := put k v (lfu_items ?c), lfu_freqs := put k 1 (lfu_freqs ?c)\<rparr>)"
      using lfu_add_law lfu_del_law(1) [OF ok e(2)] by blast
    then show ?thesis using new True e(1) by (auto simp: lfu_set_def map_le_def)
  next
    case False
    then show ?thesis using lfu_add_law [OF ok new, of v] new by (simp add: lfu_set_def)
  qed
qed

interpretation lfu: memory_cache lfu_get lfu_set lfu_delete lfu_ok "\<lambda>c. get (lfu_items c)" lfu_max
proof (unfold_locales, goal_cases)
  case (1 c k v c')
  then show ?case using lfu_bump_law [of c k]
    by (auto simp: lfu_get_def in_keys_iff split: option.splits)
next
  case (2 c k v)
  then show ?case by (rule lfu_set_law)
next
  case (3 c k)
  then have "keys (lfu_freqs c) = keys (lfu_items c)" by (simp add: lfu_ok_def)
  then show ?case using 3 lfu_del_law(1) [OF 3, of k]
    by (auto simp: lfu_delete_def dom_get get_None_iff fun_eq_iff)
next
  case (4 c)
  then show ?case using card_dom_get [of "lfu_items c"] by (simp add: lfu_ok_def dom_get)
qed

text \<open>an LRU cache that has seen only writes holds exactly the most recently written distinct keys, as many
  as its size allows, in the order of their last write and with their last values.\<close>

theorem lru_keeps_most_recent:
  assumes "0 < n"
  shows "lru_sets kvs \<lparr>lru_max = int n, lru_items = []\<rparr> =
    Some \<lparr>lru_max = int n, lru_items = take_last n (fold (\<lambda>(k, v) d. del k d @ [(k, v)]) kvs [])\<rparr>"
proof -
  have "(\<lambda>(k, v). written_last k v) = (\<lambda>(k, v) d. del k d @ [(k, v)])"
    by (auto simp: written_last_def fun_eq_iff)
  then show ?thesis using lru_sets_recent [of "[]" n kvs] assms by (simp add: take_last_def)
qed

theorem lru_keeps_most_recent_witness:
  "lru_sets [(''a'', JInt 1), (''b'', JInt 2), (''a'', JInt 3), (''c'', JInt 4)] \<lparr>lru_max = 2, lru_items = []\<rparr>
     = Some \<lparr>lru_max = 2, lru_items = [(''a'', JInt 3), (''c'', JInt 4)]\<rparr>"
  using lru_keeps_most_recent [of 2 "[(''a'', JInt 1), (''b'', JInt 2), (''a'', JInt 3), (''c'', JInt 4)]"]
  by (simp add: AList.delete_eq take_last_def)

text \<open>an LFU cache within its bound never raises on a write of a new key; when it is full it evicts one key,
  no other key had a smaller use count, and everything else stays.\<close>

theorem lfu_evicts_least_used:
  assumes "lfu_ok c" "k \<notin> set (keys (lfu_items c))" "int (length (lfu_items c)) = lfu_max c"
  shows "\<exists>e f c'. lfu_set c k v = Some c' \<and> get (lfu_freqs c) e = Some f
    \<and> (\<forall>k' f'. get (lfu_freqs c) k' = Some f' \<longrightarrow> f \<le> f')
    \<and> get (lfu_items c') = (get (lfu_items c))(e := None, k \<mapsto> v) \<and> get (lfu_freqs c') k = Some 1"
proof -
  have "lfu_items c \<noteq> []" using assms by (auto simp: lfu_ok_def)
  from lfu_evict_law [OF assms(1) this] obtain e f where
    "lfu_evict c = Some (c\<lparr>lfu_items := del e (lfu_items c), lfu_freqs := del e (lfu_freqs c)\<rparr>)"
    "get (lfu_freqs c) e = Some f" "\<forall>k' f'. get (lfu_freqs c) k' = Some f' \<longrightarrow> f \<le> f'" by blast
  then show ?thesis using assms by (auto simp: lfu_set_def)
qed

theorem lfu_evicts_least_used_witness:
  "\<exists>c'. lfu_set \<lparr>lfu_max = 1, lfu_items = [(''a'', JNull)], lfu_freqs = [(''a'', 3)]\<rparr> ''b'' JNull = Some c'"
  using lfu_evicts_least_used [of "\<lparr>lfu_max = 1, lfu_items = [(''a'', JNull)], lfu_freqs = [(''a'', 3)]\<rparr>" "''b''" JNull]
  by (simp add: lfu_ok_def wf_odict_def keys_def) blast

end
