(* ===== verification/Cache_Manager.thy ===== *)
theory Cache_Manager
  imports Caches
begin

text \<open>
  The cache configuration hierarchy (\<open>src/src/config/cache_models.py\<close>), the JSON accessors of the
  Redis wrapper (\<open>src/src/infrastructure/cache.py\<close>) and the read and write paths of
  \<open>CacheManager\<close> (\<open>src/src/infrastructure/cache_manager.py\<close>).  The Redis client and the JSON codec
  are third-party code: they are the fields of the parameter \<open>redis_client\<close>.
\<close>

subsection \<open>Configuration\<close>

datatype cache_type = LLM_RESPONSE | EMBEDDING | SESSION | AGENT_RESULT

datatype eviction_policy = LRU | LFU | TTL

record layer_config =
  lc_enabled :: bool
  lc_ttl :: nat
  lc_max_size :: "nat option"
  lc_policy :: eviction_policy

text \<open>\<open>max_size: int | None = Field(ge=1)\<close>.\<close>

definition layer_ok :: "layer_config \<Rightarrow> bool" where
  "layer_ok c \<longleftrightarrow> (case lc_max_size c of None \<Rightarrow> True | Some n \<Rightarrow> 1 \<le> n)"

record workflow_cache_config =
  wc_llm_response :: "layer_config option"
  wc_embedding :: "layer_config option"
  wc_session :: "layer_config option"
  wc_agent_result :: "layer_config option"

record agent_cache_config =
  ac_llm_response :: "layer_config option"
  ac_embedding :: "layer_config option"
  ac_agent_result :: "layer_config option"

text \<open>\<open>getattr(override, cache_type.value, None)\<close>; agents have no session override.\<close>

fun wc_layer :: "workflow_cache_config \<Rightarrow> cache_type \<Rightarrow> layer_config option" where
  "wc_layer c LLM_RESPONSE = wc_llm_response c"
| "wc_layer c EMBEDDING = wc_embedding c"
| "wc_layer c SESSION = wc_session c"
| "wc_layer c AGENT_RESULT = wc_agent_result c"

fun ac_layer :: "agent_cache_config \<Rightarrow> cache_type \<Rightarrow> layer_config option" where
  "ac_layer c LLM_RESPONSE = ac_llm_response c"
| "ac_layer c EMBEDDING = ac_embedding c"
| "ac_layer c SESSION = None"
| "ac_layer c AGENT_RESULT = ac_agent_result c"

record cache_config =
  cc_global_enabled :: bool
  cc_layers :: "(cache_type, layer_config) odict"
  cc_workflows :: "(string, workflow_cache_config) odict"
  cc_agents :: "(string, agent_cache_config) odict"

definition workflow_override :: "cache_config \<Rightarrow> cache_type \<Rightarrow> string option \<Rightarrow> layer_config option" where
  "workflow_override cfg ty w = (case w of None \<Rightarrow> None | Some i \<Rightarrow>
     if i = [] then None else (case get (cc_workflows cfg) i of None \<Rightarrow> None | Some o' \<Rightarrow> wc_layer o' ty))"

definition agent_override :: "cache_config \<Rightarrow> cache_type \<Rightarrow> string option \<Rightarrow> layer_config option" where
  "agent_override cfg ty a = (case a of None \<Rightarrow> None | Some i \<Rightarrow>
     if i = [] then None else (case get (cc_agents cfg) i of None \<Rightarrow> None | Some o' \<Rightarrow> ac_layer o' ty))"

definition is_cache_enabled :: "cache_config \<Rightarrow> cache_type \<Rightarrow> string option \<Rightarrow> string option \<Rightarrow> bool" where
  "is_cache_enabled cfg ty w a =
     (if \<not> cc_global_enabled cfg then False
      else case agent_override cfg ty a of Some l \<Rightarrow> lc_enabled l
      | None \<Rightarrow> (case workflow_override cfg ty w of Some l \<Rightarrow> lc_enabled l
      | None \<Rightarrow> (case get (cc_layers cfg) ty of Some l \<Rightarrow> lc_enabled l | None \<Rightarrow> False)))"

text \<open>The override takes precedence; its size only when given.\<close>

definition override_with :: "layer_config option \<Rightarrow> layer_config \<Rightarrow> layer_config" where
  "override_with o' c = (case o' of None \<Rightarrow> c
     | Some l \<Rightarrow> \<lparr>lc_enabled = lc_enabled l, lc_ttl = lc_ttl l,
         lc_max_size = (if lc_max_size l \<noteq> None then lc_max_size l else lc_max_size c),
         lc_policy = lc_policy l\<rparr>)"

definition get_effective_layer_config ::
  "cache_config \<Rightarrow> cache_type \<Rightarrow> string option \<Rightarrow> string option \<Rightarrow> layer_config option"
where
  "get_effective_layer_config cfg ty w a =
     (if \<not> is_cache_enabled cfg ty w a then None
      else map_option (\<lambda>c. override_with (agent_override cfg ty a) (override_with (workflow_override cfg ty w) c))
        (get (cc_layers cfg) ty))"

subsection \<open>The Redis wrapper\<close>

text \<open>\<open>None\<close> as the result of a client call is a connection, timeout or Redis error, which the wrapper
  logs and swallows; \<open>dumps\<close> and \<open>loads\<close> are \<open>None\<close> where the codec raises.\<close>

record 'r redis_client =
  rc_get :: "'r \<Rightarrow> string \<Rightarrow> string option option"
  rc_set :: "'r \<Rightarrow> string \<Rightarrow> string \<Rightarrow> (bool \<times> 'r) option"
  rc_setex :: "'r \<Rightarrow> string \<Rightarrow> int \<Rightarrow> string \<Rightarrow> (bool \<times> 'r) option"
  rc_dumps :: "json \<Rightarrow> string option"
  rc_loads :: "string \<Rightarrow> json option"

definition redis_get :: "'r redis_client \<Rightarrow> 'r \<Rightarrow> string \<Rightarrow> string option" where
  "redis_get rc r k = (case rc_get rc r k of None \<Rightarrow> None | Some v \<Rightarrow> v)"

definition redis_set :: "'r redis_client \<Rightarrow> 'r \<Rightarrow> string \<Rightarrow> string \<Rightarrow> int option \<Rightarrow> bool \<times> 'r" where
  "redis_set rc r k v ttl =
     (case (case ttl of Some t \<Rightarrow> if t \<noteq> 0 then rc_setex rc r k t v else rc_set rc r k v
            | None \<Rightarrow> rc_set rc r k v)
      of None \<Rightarrow> (False, r) | Some res \<Rightarrow> res)"

definition get_json :: "'r redis_client \<Rightarrow> 'r \<Rightarrow> string \<Rightarrow> json" where
  "get_json rc r k = (let v = redis_get rc r k in
     if opt_truthy v then (case rc_loads rc (the v) of None \<Rightarrow> JNull | Some j \<Rightarrow> j) else JNull)"

definition set_json :: "'r redis_client \<Rightarrow> 'r \<Rightarrow> string \<Rightarrow> json \<Rightarrow> int option \<Rightarrow> bool \<times> 'r" where
  "set_json rc r k v ttl = (case rc_dumps rc v of None \<Rightarrow> (False, r) | Some s \<Rightarrow> redis_set rc r k s ttl)"

subsection \<open>The manager's memory caches\<close>

datatype mem = Lru lru | Lfu lfu

fun mem_get :: "mem \<Rightarrow> string \<Rightarrow> json \<times> mem" where
  "mem_get (Lru c) k = (let (v, c') = lru_get c k in (v, Lru c'))"
| "mem_get (Lfu c) k = (let (v, c') = lfu_get c k in (v, Lfu c'))"

fun mem_set :: "mem \<Rightarrow> string \<Rightarrow> json \<Rightarrow> mem option" where
  "mem_set (Lru c) k v = map_option Lru (lru_set c k v)"
| "mem_set (Lfu c) k v = map_option Lfu (lfu_set c k v)"

fun mem_delete :: "mem \<Rightarrow> string \<Rightarrow> (bool \<times> mem) option" where
  "mem_delete (Lru c) k = (let (b, c') = lru_delete c k in Some (b, Lru c'))"
| "mem_delete (Lfu c) k = map_option (\<lambda>(b, c'). (b, Lfu c')) (lfu_delete c k)"

record counters =
  n_hits :: nat
  n_misses :: nat
  n_sets :: nat
  n_bypasses :: nat

record 'r manager =
  mg_config :: cache_config
  mg_memory :: "(string, mem) odict"
  mg_metrics :: "cache_type \<Rightarrow> counters"
  mg_redis :: 'r

definition new_memory :: "layer_config \<Rightarrow> mem option" where
  "new_memory l = (case lc_max_size l of None \<Rightarrow> None
     | Some n \<Rightarrow> (case lc_policy l of
         LRU \<Rightarrow> Some (Lru \<lparr>lru_max = int n, lru_items = []\<rparr>)
       | LFU \<Rightarrow> Some (Lfu \<lparr>lfu_max = int n, lfu_items = [], lfu_freqs = []\<rparr>)
       | TTL \<Rightarrow> None))"

definition get_memory_cache :: "string \<Rightarrow> layer_config \<Rightarrow> (string, mem) odict \<Rightarrow> mem option \<times> (string, mem) odict" where
  "get_memory_cache mk l ms =
     (if lc_max_size l = None then (None, ms)
      else case get ms mk of Some c \<Rightarrow> (Some c, ms)
      | None \<Rightarrow> (case new_memory l of None \<Rightarrow> (None, ms) | Some c \<Rightarrow> (Some c, put mk c ms)))"

fun type_value :: "cache_type \<Rightarrow> string" where
  "type_value LLM_RESPONSE = ''llm_response''"
| "type_value EMBEDDING = ''embedding''"
| "type_value SESSION = ''session''"
| "type_value AGENT_RESULT = ''agent_result''"

definition scope_key :: "cache_type \<Rightarrow> string option \<Rightarrow> string option \<Rightarrow> string" where
  "scope_key ty w a = type_value ty @ '':'' @ opt_or w ''global'' @ '':'' @ opt_or a ''global''"

definition count_as :: "(counters \<Rightarrow> counters) \<Rightarrow> cache_type \<Rightarrow> 'r manager \<Rightarrow> 'r manager" where
  "count_as f ty m = m\<lparr>mg_metrics := (mg_metrics m)(ty := f (mg_metrics m ty))\<rparr>"

abbreviation bypass :: "cache_type \<Rightarrow> 'r manager \<Rightarrow> 'r manager" where
  "bypass \<equiv> count_as (n_bypasses_update Suc)"

abbreviation hit :: "cache_type \<Rightarrow> 'r manager \<Rightarrow> 'r manager" where
  "hit \<equiv> count_as (n_hits_update Suc)"

text \<open>\<open>memory_cache.set(key, value)\<close> on the cache the dictionary holds.\<close>

definition store_memory :: "string \<Rightarrow> mem option \<Rightarrow> string \<Rightarrow> json \<Rightarrow> 'r manager \<Rightarrow> 'r manager option" where
  "store_memory mk c k v m = (case c of None \<Rightarrow> Some m
     | Some c \<Rightarrow> map_option (\<lambda>c'. m\<lparr>mg_memory := put mk c' (mg_memory m)\<rparr>) (mem_set c k v))"

definition read_redis :: "'r redis_client \<Rightarrow> string \<Rightarrow> mem option \<Rightarrow> string \<Rightarrow> cache_type \<Rightarrow> 'r manager
    \<Rightarrow> (json \<times> 'r manager) option" where
  "read_redis rc mk c k ty m =
     (let v = get_json rc (mg_redis m) k
      in if v \<noteq> JNull then map_option (Pair v) (store_memory mk c k v (hit ty m))
         else Some (JNull, count_as (n_misses_update Suc) ty m))"

definition get_cached_response ::
  "'r redis_client \<Rightarrow> string \<Rightarrow> cache_type \<Rightarrow> string option \<Rightarrow> string option \<Rightarrow> 'r manager \<Rightarrow> (json \<times> 'r manager) option"
where
  "get_cached_response rc k ty w a m =
     (if \<not> is_cache_enabled (mg_config m) ty w a then Some (JNull, bypass ty m)
      else case get_effective_layer_config (mg_config m) ty w a of
        None \<Rightarrow> Some (JNull, bypass ty m)
      | Some l \<Rightarrow>
         (let mk = scope_key ty w a; (c, ms) = get_memory_cache mk l (mg_memory m);
              m = m\<lparr>mg_memory := ms\<rparr>
          in case c of None \<Rightarrow> read_redis rc mk None k ty m
             | Some mc \<Rightarrow> (let (v, mc') = mem_get mc k; m = m\<lparr>mg_memory := put mk mc' (mg_memory m)\<rparr>
                 in if v \<noteq> JNull then Some (v, hit ty m) else read_redis rc mk (Some mc') k ty m)))"

definition cache_response ::
  "'r redis_client \<Rightarrow> string \<Rightarrow> json \<Rightarrow> cache_type \<Rightarrow> string option \<Rightarrow> string option \<Rightarrow> int option \<Rightarrow> 'r manager
     \<Rightarrow> (bool \<times> 'r manager) option"
where
  "cache_response rc k v ty w a ttl m =
     (if \<not> is_cache_enabled (mg_config m) ty w a then Some (False, bypass ty m)
      else case get_effective_layer_config (mg_config m) ty w a of
        None \<Rightarrow> Some (False, bypass ty m)
      | Some l \<Rightarrow>
         (let eff = (case ttl of Some t \<Rightarrow> t | None \<Rightarrow> int (lc_ttl l));
              (success, r) = set_json rc (mg_redis m) k v (if eff = 0 then None else Some eff);
              m = m\<lparr>mg_redis := r\<rparr>
          in if success then
               (let m = count_as (n_sets_update Suc) ty m; mk = scope_key ty w a;
                    (c, ms) = get_memory_cache mk l (mg_memory m); m = m\<lparr>mg_memory := ms\<rparr>
                in map_option (Pair True) (store_memory mk c k v m))
             else Some (False, m)))"

definition update_cache_config :: "cache_config \<Rightarrow> 'r manager \<Rightarrow> 'r manager" where
  "update_cache_config cfg m = m\<lparr>mg_config := cfg, mg_memory := []\<rparr>"

subsection \<open>The manager's caches meet the contract\<close>

fun mem_ok :: "mem \<Rightarrow> bool" where
  "mem_ok (Lru c) = lru_ok c"
| "mem_ok (Lfu c) = lfu_ok c"

fun mem_look :: "mem \<Rightarrow> string \<Rightarrow> json option" where
  "mem_look (Lru c) = get (lru_items c)"
| "mem_look (Lfu c) = get (lfu_items c)"

fun mem_cap :: "mem \<Rightarrow> int" where
  "mem_cap (Lru c) = lru_max c"
| "mem_cap (Lfu c) = lfu_max c"

interpretation mem: memory_cache mem_get mem_set mem_delete mem_ok mem_look mem_cap
proof (unfold_locales, goal_cases)
  case (1 c k v c')
  then show ?case by (cases c) (auto split: prod.splits dest: lru.get_ok lfu.get_ok)
next
  case (2 c k v)
  then show ?case by (cases c) (auto dest: lru.set_ok [of _ k v] lfu.set_ok [of _ k v])
next
  case (3 c k)
  then show ?case
  proof (cases c)
    case (Lru d)
    then show ?thesis using 3 lru.delete_ok [of d k] by (auto split: prod.splits)
  next
    case (Lfu d)
    then obtain e where "lfu_delete d k = Some (k \<in> dom (get (lfu_items d)), e)" "lfu_ok e"
      "lfu_max e = lfu_max d" "get (lfu_items e) = (get (lfu_items d))(k := None)"
      using 3 lfu.delete_ok [of d k] by auto
    then show ?thesis using Lfu by (simp add: in_keys_iff dom_def)
  qed
next
  case (4 c)
  then show ?case by (cases c) (auto dest: lru.bounded lfu.bounded)
qed

definition config_ok :: "cache_config \<Rightarrow> bool" where
  "config_ok cfg \<longleftrightarrow> (\<forall>l. l \<in> ran (get (cc_layers cfg))
       \<or> (\<exists>o' ty. o' \<in> ran (get (cc_workflows cfg)) \<and> wc_layer o' ty = Some l)
       \<or> (\<exists>o' ty. o' \<in> ran (get (cc_agents cfg)) \<and> ac_layer o' ty = Some l) \<longrightarrow> layer_ok l)"

definition mems_ok :: "(string, mem) odict \<Rightarrow> bool" where
  "mems_ok ms \<longleftrightarrow> (\<forall>mk c. get ms mk = Some c \<longrightarrow> mem_ok c)"

lemma mems_ok_put [intro]: "mems_ok ms \<Longrightarrow> mem_ok c \<Longrightarrow> mems_ok (put mk c ms)"
  by (auto simp: mems_ok_def)

definition manager_ok :: "'r manager \<Rightarrow> bool" where
  "manager_ok m \<longleftrightarrow> config_ok (mg_config m) \<and> mems_ok (mg_memory m)"

lemma override_with_ok: "layer_ok c \<Longrightarrow> (\<And>l. o' = Some l \<Longrightarrow> layer_ok l) \<Longrightarrow> layer_ok (override_with o' c)"
  by (auto simp: override_with_def layer_ok_def split: option.splits)

lemma override_SomeD:
  "workflow_override cfg ty w = Some l \<Longrightarrow> \<exists>o' \<in> ran (get (cc_workflows cfg)). wc_layer o' ty = Some l"
  "agent_override cfg ty a = Some l \<Longrightarrow> \<exists>o' \<in> ran (get (cc_agents cfg)). ac_layer o' ty = Some l"
  by (auto simp: workflow_override_def agent_override_def ran_def split: option.splits if_splits)

lemma effective_ok: "config_ok cfg \<Longrightarrow> get_effective_layer_config cfg ty w a = Some l \<Longrightarrow> layer_ok l"
proof -
  assume ok: "config_ok cfg" and e: "get_effective_layer_config cfg ty w a = Some l"
  from e obtain c where c: "get (cc_layers cfg) ty = Some c"
    "l = override_with (agent_override cfg ty a) (override_with (workflow_override cfg ty w) c)"
    by (auto simp: get_effective_layer_config_def split: if_splits)
  have "layer_ok c" using ok c(1) unfolding config_ok_def by (blast intro: ranI)
  moreover have "layer_ok l'" if "workflow_override cfg ty w = Some l'" for l'
    using override_SomeD(1) [OF that] ok unfolding config_ok_def by blast
  moreover have "layer_ok l'" if "agent_override cfg ty a = Some l'" for l'
    using override_SomeD(2) [OF that] ok unfolding config_ok_def by blast
  ultimately show ?thesis unfolding c(2) by (intro override_with_ok)
qed

lemma get_memory_ok:
  assumes "layer_ok l" "mems_ok ms" "get_memory_cache mk l ms = (c, ms')"
  shows "mems_ok ms' \<and> c = (if lc_max_size l = None then None else get ms' mk)
    \<and> (\<forall>d. c = Some d \<longrightarrow> mem_ok d)
    \<and> (c = None \<longleftrightarrow> lc_max_size l = None \<or> get ms mk = None \<and> lc_policy l = TTL)"
  using assms
  by (auto simp: get_memory_cache_def new_memory_def layer_ok_def lru_ok_def lfu_ok_def mems_ok_def keys_def
      split: option.splits eviction_policy.splits if_splits)

text \<open>A second look-up of the same memory cache finds the one that is there.\<close>

lemma get_memory_again: "get ms mk = Some c \<Longrightarrow> lc_max_size l \<noteq> None \<Longrightarrow> get_memory_cache mk l ms = (Some c, ms)"
  by (simp add: get_memory_cache_def)

text \<open>the effective layer configuration exists exactly when the cache is enabled and the layer is
  configured globally, it is always an enabled configuration, its lifetime and policy come from the
  agent override, else the workflow override, else the global layer, and its size from the first of
  these that gives one.\<close>

theorem effective_config_precedence:
  "get_effective_layer_config cfg ty w a =
     (if is_cache_enabled cfg ty w a then
        map_option (\<lambda>g. let ls = List.map_filter id [agent_override cfg ty a, workflow_override cfg ty w, Some g]
           in \<lparr>lc_enabled = True, lc_ttl = lc_ttl (hd ls),
               lc_max_size = (case List.find (\<lambda>s. s \<noteq> None) (map lc_max_size ls) of None \<Rightarrow> None | Some s \<Rightarrow> s),
               lc_policy = lc_policy (hd ls)\<rparr>) (get (cc_layers cfg) ty)
      else None)"
proof (cases "get (cc_layers cfg) ty")
  case (Some g)
  then show ?thesis
    by (cases "agent_override cfg ty a"; cases "workflow_override cfg ty w"; cases g)
      (simp_all add: get_effective_layer_config_def is_cache_enabled_def override_with_def List.map_filter_def)
qed (simp add: get_effective_layer_config_def)

lemma counted:
  "mg_memory (count_as f ty m) = mg_memory m" "mg_redis (count_as f ty m) = mg_redis m"
  "mg_config (count_as f ty m) = mg_config m"
  "mg_metrics (count_as f ty m) = (mg_metrics m)(ty := f (mg_metrics m ty))"
  by (simp_all add: count_as_def)

text \<open>once a response has been cached through a scope with a memory cache, reading it in that scope returns
  it whatever happens to Redis in between: an expired lifetime, an invalidation or a lost connection
  does not reach the memory copy.\<close>

theorem memory_copy_outlives_redis:
  assumes "manager_ok m" "cache_response rc k v ty w a ttl m = Some (True, m')" "v \<noteq> JNull"
    "get_effective_layer_config (mg_config m) ty w a = Some l" "lc_max_size l \<noteq> None" "lc_policy l \<noteq> TTL"
  shows "\<exists>m''. get_cached_response rc k ty w a (m'\<lparr>mg_redis := r\<rparr>) = Some (v, m'')"
proof -
  let ?mk = "scope_key ty w a"
  have en: "is_cache_enabled (mg_config m) ty w a" using assms(4)
    by (auto simp: get_effective_layer_config_def split: if_splits)
  have lok: "layer_ok l" using effective_ok assms(1,4) by (auto simp: manager_ok_def)
  obtain c ms where g: "get_memory_cache ?mk l (mg_memory m) = (c, ms)" by fastforce
  note ok = get_memory_ok [OF lok _ g]
  from ok assms obtain d where d: "c = Some d" "mem_ok d" by (auto simp: manager_ok_def)
  obtain d' where d': "mem_set d k v = Some d'" "mem_ok d'" "mem_look d' k = Some v"
    using mem.set_ok [OF d(2), of k v] by blast
  have m': "mg_config m' = mg_config m" "get (mg_memory m') ?mk = Some d'"
    using assms(2,4) en g d d'
    by (auto simp: cache_response_def Let_def counted store_memory_def split: prod.splits if_splits)
  obtain u d'' where u: "mem_get d' k = (u, d'')" by fastforce
  then have "u = v" using mem.get_ok [OF d'(2) u] d'(3) by simp
  then show ?thesis using en assms(3,4) m' get_memory_again [OF m'(2) assms(5)] u
    by (simp add: get_cached_response_def Let_def)
qed

text \<open>a read never raises, never changes the configuration or Redis, keeps the caches well formed,
  and counts exactly one hit, miss or bypass for its cache type.\<close>

theorem get_cached_response_counts_once:
  assumes "manager_ok m"
  shows "\<exists>v m'. get_cached_response rc k ty w a m = Some (v, m') \<and> manager_ok m'
    \<and> mg_redis m' = mg_redis m
    \<and> n_hits (mg_metrics m' ty) + n_misses (mg_metrics m' ty) + n_bypasses (mg_metrics m' ty)
      = Suc (n_hits (mg_metrics m ty) + n_misses (mg_metrics m ty) + n_bypasses (mg_metrics m ty))
    \<and> (v \<noteq> JNull \<longleftrightarrow> n_hits (mg_metrics m' ty) = Suc (n_hits (mg_metrics m ty)))"
proof (cases "get_effective_layer_config (mg_config m) ty w a")
  case None
  then show ?thesis using assms by (auto simp: get_cached_response_def counted manager_ok_def)
next
  case (Some l)
  let ?mk = "scope_key ty w a"
  have en: "is_cache_enabled (mg_config m) ty w a" using Some
    by (auto simp: get_effective_layer_config_def split: if_splits)
  have lok: "layer_ok l" using effective_ok assms(1) Some by (auto simp: manager_ok_def)
  obtain c ms where g: "get_memory_cache ?mk l (mg_memory m) = (c, ms)" by fastforce
  note ok = get_memory_ok [OF lok _ g]
  have ms: "mems_ok ms" using ok assms by (simp add: manager_ok_def)
  show ?thesis
  proof (cases c)
    case None
    then show ?thesis using assms en Some g ms
      by (auto simp: get_cached_response_def read_redis_def Let_def store_memory_def counted manager_ok_def)
  next
    case c: (Some d)
    then have d: "mem_ok d" using ok assms by (simp add: manager_ok_def)
    obtain v d' where v: "mem_get d k = (v, d')" by fastforce
    then have d': "mem_ok d'" using mem.get_ok [OF d v] by simp
    define w' where "w' = get_json rc (mg_redis m) k"
    obtain e where e: "mem_set d' k w' = Some e" "mem_ok e" using mem.set_ok [OF d'] by blast
    show ?thesis using assms en Some g c v e ms d'
      by (auto simp: get_cached_response_def read_redis_def Let_def store_memory_def counted manager_ok_def
          w'_def [symmetric])
  qed
qed

subsection \<open>A concrete client and manager\<close>

text \<open>A dictionary for Redis and the strings themselves as their own notation.\<close>

definition map_client :: "((string, string) odict) redis_client" where
  "map_client = \<lparr>rc_get = (\<lambda>r k. Some (get r k)), rc_set = (\<lambda>r k v. Some (True, put k v r)),
     rc_setex = (\<lambda>r k t v. Some (True, put k v r)),
     rc_dumps = (\<lambda>j. case j of JStr s \<Rightarrow> Some s | _ \<Rightarrow> None), rc_loads = (\<lambda>s. Some (JStr s))\<rparr>"

definition demo_layer :: layer_config where
  "demo_layer = \<lparr>lc_enabled = True, lc_ttl = 60, lc_max_size = Some 2, lc_policy = LRU\<rparr>"

definition demo_manager :: "((string, string) odict) manager" where
  "demo_manager = \<lparr>mg_config = \<lparr>cc_global_enabled = True, cc_layers = [(SESSION, demo_layer)], cc_workflows = [], cc_agents = []\<rparr>,
     mg_memory = [], mg_metrics = (\<lambda>_. \<lparr>n_hits = 0, n_misses = 0, n_sets = 0, n_bypasses = 0\<rparr>), mg_redis = []\<rparr>"

lemma demo_ok: "manager_ok demo_manager"
  by (auto simp: manager_ok_def demo_manager_def config_ok_def mems_ok_def ran_def layer_ok_def demo_layer_def
      split: if_splits)

lemma demo_effective: "get_effective_layer_config (mg_config demo_manager) SESSION None None = Some demo_layer"
  by (simp add: demo_manager_def get_effective_layer_config_def is_cache_enabled_def agent_override_def
      workflow_override_def override_with_def demo_layer_def)

lemma demo_memory:
  "get_memory_cache mk demo_layer [] = (Some (Lru \<lparr>lru_max = 2, lru_items = []\<rparr>), [(mk, Lru \<lparr>lru_max = 2, lru_items = []\<rparr>)])"
  by (simp add: get_memory_cache_def new_memory_def demo_layer_def)

theorem memory_copy_outlives_redis_witness:
  "\<exists>m' m''. cache_response map_client ''k'' (JStr ''x'') SESSION None None None demo_manager = Some (True, m')
    \<and> get_cached_response map_client ''k'' SESSION None None (m'\<lparr>mg_redis := []\<rparr>) = Some (JStr ''x'', m'')"
proof -
  have "is_cache_enabled (mg_config demo_manager) SESSION None None"
    by (simp add: demo_manager_def is_cache_enabled_def agent_override_def workflow_override_def demo_layer_def)
  then obtain m' where m': "cache_response map_client ''k'' (JStr ''x'') SESSION None None None demo_manager = Some (True, m')"
    using demo_effective
    using demo_memory
    by (simp add: cache_response_def map_client_def set_json_def redis_set_def Let_def store_memory_def lru_set_def
        counted demo_manager_def)
      (simp add: demo_layer_def Let_def store_memory_def lru_set_def counted)
  show ?thesis using m'
    memory_copy_outlives_redis [OF demo_ok m' _ demo_effective, of "[]"] by (simp add: demo_layer_def)
qed

theorem get_cached_response_counts_once_witness:
  "\<exists>v m'. get_cached_response map_client ''k'' SESSION None None demo_manager = Some (v, m') \<and> manager_ok m'"
  using get_cached_response_counts_once [OF demo_ok, of map_client "''k''" SESSION None None] by blast

end
