(* ===== verification/Rate_Limit.thy ===== *)
theory Rate_Limit
  imports Prelude
begin

text \<open>
  The sliding-window rate limiter, \<open>src/src/api/rate_limiting.py\<close>: who a request is charged to, the
  window test \<open>_is_rate_limited\<close>, and the middleware's \<open>__call__\<close>.  \<open>time.time()\<close> is an argument.
  A stored request has the key \<open>f"{now}:{hash(str(now))}"\<close>; the notation of a float determines the
  float, so the key is the time itself.
\<close>

subsection \<open>Identifying the caller\<close>

record caller =
  api_key_id :: "string option"
  user_id :: "string option"

record request =
  rq_user :: "caller option"
  rq_remote :: string
  rq_path :: string
  rq_method :: string

definition user_key :: "request \<Rightarrow> string" where
  "user_key r = (case rq_user r of
      None \<Rightarrow> ''ip:'' @ rq_remote r
    | Some u \<Rightarrow> if opt_truthy (api_key_id u) then ''api_key:'' @ the (api_key_id u)
        else if opt_truthy (user_id u) then ''user:'' @ the (user_id u)
        else ''ip:'' @ rq_remote r)"

definition request_api_key :: "request \<Rightarrow> string option" where
  "request_api_key r = (case rq_user r of None \<Rightarrow> None
     | Some u \<Rightarrow> if opt_truthy (api_key_id u) then api_key_id u else None)"

subsection \<open>The sliding window\<close>

type_synonym stamps = "(rat, rat) odict"

type_synonym rate_store = "(string, stamps) odict"

definition live_stamps :: "rat \<Rightarrow> rat \<Rightarrow> stamps \<Rightarrow> stamps" where
  "live_stamps now win d = filter (\<lambda>(k, v). v > now - win) d"

definition is_rate_limited :: "string \<Rightarrow> int \<Rightarrow> rat \<Rightarrow> rat \<Rightarrow> rate_store \<Rightarrow> bool \<times> rate_store" where
  "is_rate_limited i limit win now st =
     (let st = (if i \<notin> set (keys st) then put i [] st else st);
          st = put i (live_stamps now win (get_default st i [])) st
      in if int (length (get_default st i [])) \<ge> limit then (True, st)
         else (False, put i (put now now (get_default st i [])) st))"

subsection \<open>The middleware\<close>

record rate_settings =
  per_minute :: int
  per_hour :: int
  key_per_minute :: int
  key_per_hour :: int
  read_per_minute :: int
  read_per_hour :: int

datatype rate_window = Minute | Hour

text \<open>\<open>Too_many\<close> is the 429 response: its limit, its window and its \<open>Retry-After\<close>.\<close>

datatype outcome = Forwarded | Too_many int rate_window nat

definition exempt :: "request \<Rightarrow> bool" where
  "exempt r \<longleftrightarrow> rq_path r \<in> {''/health'', ''/metrics''} \<or> starts_with ''/static'' (rq_path r)"

definition is_read :: "request \<Rightarrow> bool" where
  "is_read r \<longleftrightarrow> rq_method r \<in> {''GET'', ''HEAD'', ''OPTIONS''}"

definition limits_for :: "rate_settings \<Rightarrow> request \<Rightarrow> int \<times> int" where
  "limits_for s r = (if is_read r then (read_per_minute s, read_per_hour s)
     else if opt_truthy (request_api_key r) then (key_per_minute s, key_per_hour s)
     else (per_minute s, per_hour s))"

definition bucket :: "request \<Rightarrow> string" where
  "bucket r = (if is_read r then user_key r @ '':read'' else user_key r)"

definition throttle :: "rate_settings \<Rightarrow> request \<Rightarrow> rat \<Rightarrow> rat \<Rightarrow> rate_store \<Rightarrow> outcome \<times> rate_store" where
  "throttle s r now now' st =
     (if exempt r then (Forwarded, st)
      else let (m, h) = limits_for s r; (limited, st) = is_rate_limited (bucket r @ '':minute'') m 60 now st
       in if limited then (Too_many m Minute 60, st)
          else let (limited, st) = is_rate_limited (bucket r @ '':hour'') h 3600 now' st
           in if limited then (Too_many h Hour 3600, st) else (Forwarded, st))"

subsection \<open>One identifier alone\<close>

definition admit :: "int \<Rightarrow> rat \<Rightarrow> rat \<Rightarrow> stamps \<Rightarrow> bool \<times> stamps" where
  "admit limit win now d = (let d = live_stamps now win d in
     if int (length d) \<ge> limit then (False, d) else (True, put now now d))"

lemma get_default_other: "j \<noteq> i \<Longrightarrow> get_default (put i v d) j w = get_default d j w"
  by (simp add: get_default_put)

lemma is_rate_limited_admit:
  assumes "admit limit win now (get_default st i []) = (ok, d)"
  shows "\<exists>st'. is_rate_limited i limit win now st = (\<not> ok, st') \<and> get_default st' i [] = d
    \<and> (\<forall>j. j \<noteq> i \<longrightarrow> get_default st' j [] = get_default st j [])"
proof -
  have "get_default (if i \<notin> set (keys st) then put i [] st else st) i [] = get_default st i []"
    by (auto simp: get_default_put) (simp add: get_default_def get_None_iff [THEN iffD2])
  then show ?thesis using assms
    by (auto simp: is_rate_limited_def admit_def Let_def get_default_put split: if_splits)
qed

fun admit_all :: "int \<Rightarrow> rat \<Rightarrow> rat list \<Rightarrow> stamps \<Rightarrow> rat list" where
  "admit_all limit win [] d = []"
| "admit_all limit win (t # ts) d =
     (let (ok, d) = admit limit win t d in (if ok then [t] else []) @ admit_all limit win ts d)"

definition in_window :: "rat set \<Rightarrow> rat \<Rightarrow> rat \<Rightarrow> rat set" where
  "in_window A win t = {a \<in> A. t - win < a \<and> a \<le> t}"

text \<open>The stored stamps are distinct, each is its own key, and they hold every admitted time of the window
  that ends at the prev call.\<close>

definition stamps_inv :: "int \<Rightarrow> rat \<Rightarrow> rat set \<Rightarrow> rat \<Rightarrow> stamps \<Rightarrow> bool" where
  "stamps_inv limit win A prev d \<longleftrightarrow> finite A \<and> wf_odict d \<and> (\<forall>(k, v) \<in> set d. v = k) \<and> (\<forall>a \<in> A. a \<le> prev)
     \<and> in_window A win prev \<subseteq> set (keys d) \<and> (\<forall>t. int (card (in_window A win t)) \<le> limit)"

lemma live_stamps_simps:
  assumes "wf_odict d" "\<forall>(k, v) \<in> set d. v = k"
  shows "wf_odict (live_stamps now win d)" "\<forall>(k, v) \<in> set (live_stamps now win d). v = k"
    "set (keys (live_stamps now win d)) = {k \<in> set (keys d). k > now - win}"
  using assms
  by (auto simp: live_stamps_def wf_odict_def keys_def distinct_map_filter intro: rev_image_eqI)

lemma put_diagonal: "\<forall>(k, v) \<in> set d. v = k \<Longrightarrow> \<forall>(k, v) \<in> set (put t t d). v = k"
  by (induction d) auto

lemma stamps_inv_admit:
  assumes inv: "stamps_inv limit win A prev d" and now: "prev \<le> now" and ad: "admit limit win now d = (ok, d')"
  shows "stamps_inv limit win (if ok then insert now A else A) now d'"
proof -
  let ?e = "live_stamps now win d"
  from inv have A: "finite A" "wf_odict d" "\<forall>(k, v) \<in> set d. v = k" "\<forall>a \<in> A. a \<le> prev"
    "in_window A win prev \<subseteq> set (keys d)" "\<forall>t. int (card (in_window A win t)) \<le> limit"
    by (auto simp: stamps_inv_def)
  note e = live_stamps_simps [OF A(2,3), of now win]
  have sub: "in_window A win now \<subseteq> set (keys ?e)"
    using A(4,5) now unfolding e(3) by (fastforce simp: in_window_def)
  show ?thesis
  proof (cases ok)
    case False
    then have "d' = ?e" using ad by (auto simp: admit_def Let_def split: if_splits)
    then show ?thesis using False A e(1,2) sub now by (auto simp: stamps_inv_def)
  next
    case True
    then have d': "d' = put now now ?e" and len: "int (length ?e) < limit"
      using ad by (auto simp: admit_def Let_def split: if_splits)
    have "int (card (in_window (insert now A) win t)) \<le> limit" for t
    proof (cases "t < now")
      case True
      then have "in_window (insert now A) win t = in_window A win t" by (auto simp: in_window_def)
      then show ?thesis using A(6) by simp
    next
      case False
      then have "in_window (insert now A) win t \<subseteq> insert now (set (keys ?e))"
        using sub A(4) now by (fastforce simp: in_window_def)
      then have "card (in_window (insert now A) win t) \<le> card (insert now (set (keys ?e)))"
        by (intro card_mono) auto
      also have "\<dots> \<le> Suc (length ?e)"
        using card_length [of "keys ?e"] card_insert_le_m1 [of "Suc (length ?e)" "set (keys ?e)" now] by simp
      finally show ?thesis using len by simp
    qed
    moreover have "\<forall>(k, v) \<in> set (put now now ?e). v = k"
      by (rule put_diagonal [OF e(2)])
    moreover have "in_window (insert now A) win now \<subseteq> set (keys (put now now ?e))"
      using sub by (auto simp: in_window_def)
    ultimately show ?thesis using True d' A e(1) now by (auto simp: stamps_inv_def)
  qed
qed

lemma admit_all_inv:
  "stamps_inv limit win A prev d \<Longrightarrow> sorted (prev # ts) \<Longrightarrow>
     int (card (in_window (A \<union> set (admit_all limit win ts d)) win t)) \<le> limit"
proof (induction ts arbitrary: A prev d)
  case (Cons u ts)
  obtain ok d' where ad: "admit limit win u d = (ok, d')" by fastforce
  have "stamps_inv limit win (if ok then insert u A else A) u d'"
    using stamps_inv_admit [OF Cons.prems(1) _ ad] Cons.prems(2) by simp
  from Cons.IH [OF this] Cons.prems(2) show ?case by (cases ok) (auto simp: ad)
qed (simp add: stamps_inv_def)

subsection \<open>The whole middleware\<close>

fun throttle_all :: "rate_settings \<Rightarrow> (request \<times> rat \<times> rat) list \<Rightarrow> rate_store \<Rightarrow> outcome list" where
  "throttle_all s [] st = []"
| "throttle_all s ((r, now, now') # rs) st =
     (let (out, st) = throttle s r now now' st in out # throttle_all s rs st)"

definition charged :: "string \<Rightarrow> request \<Rightarrow> bool" where
  "charged b r \<longleftrightarrow> \<not> exempt r \<and> bucket r = b"

fun charged_times :: "string \<Rightarrow> (request \<times> rat \<times> rat) list \<Rightarrow> rat list" where
  "charged_times b [] = []"
| "charged_times b ((r, t, t') # rs) = (if charged b r then t # charged_times b rs else charged_times b rs)"

definition forwarded_at :: "string \<Rightarrow> (request \<times> rat \<times> rat) list \<Rightarrow> outcome list \<Rightarrow> rat set" where
  "forwarded_at b rs outs = {now. \<exists>r now'. ((r, now, now'), Forwarded) \<in> set (zip rs outs) \<and> charged b r}"

lemma minute_hour_keys [simp]: "b @ '':minute'' \<noteq> c @ '':hour''" "b @ '':hour'' \<noteq> c @ '':minute''"
proof -
  have "rev (b @ '':minute'') \<noteq> rev (c @ '':hour'')" "rev (b @ '':hour'') \<noteq> rev (c @ '':minute'')" by simp_all
  then show "b @ '':minute'' \<noteq> c @ '':hour''" "b @ '':hour'' \<noteq> c @ '':minute''" by (blast, blast)
qed

text \<open>One request moves the minute window of its own bucket by one admission step and no other.\<close>

lemma throttle_minute:
  assumes "admit (fst (limits_for s r)) 60 now (get_default st (bucket r @ '':minute'') []) = (ok, d)"
    "throttle s r now now' st = (out, st')"
  shows "get_default st' (b @ '':minute'') [] = (if charged b r then d else get_default st (b @ '':minute'') [])"
    "out = Forwarded \<Longrightarrow> \<not> exempt r \<Longrightarrow> ok"
proof -
  obtain m h where l: "limits_for s r = (m, h)" by fastforce
  obtain st1 where s1: "is_rate_limited (bucket r @ '':minute'') m 60 now st = (\<not> ok, st1)"
    "get_default st1 (bucket r @ '':minute'') [] = d"
    "\<forall>j. j \<noteq> bucket r @ '':minute'' \<longrightarrow> get_default st1 j [] = get_default st j []"
    using is_rate_limited_admit [of m 60 now st "bucket r @ '':minute''" ok d] assms(1) l by auto
  obtain ok2 d2 where a2: "admit h 3600 now' (get_default st1 (bucket r @ '':hour'') []) = (ok2, d2)" by fastforce
  obtain st2 where s2: "is_rate_limited (bucket r @ '':hour'') h 3600 now' st1 = (\<not> ok2, st2)"
    "\<forall>j. j \<noteq> bucket r @ '':hour'' \<longrightarrow> get_default st2 j [] = get_default st1 j []"
    using is_rate_limited_admit [OF a2] by blast
  have st': "st' = (if exempt r then st else if ok then st2 else st1)" "out = Forwarded \<Longrightarrow> \<not> exempt r \<Longrightarrow> ok"
    using assms(2) l s1(1) s2(1) by (auto simp: throttle_def Let_def split: if_splits)
  show "get_default st' (b @ '':minute'') [] = (if charged b r then d else get_default st (b @ '':minute'') [])"
    using st'(1) s1(2,3) s2(2) by (auto simp: charged_def)
  show "out = Forwarded \<Longrightarrow> \<not> exempt r \<Longrightarrow> ok" by (rule st'(2))
qed

lemma forwarded_admitted:
  "\<forall>(r, t, t') \<in> set rs. charged b r \<longrightarrow> fst (limits_for s r) = m \<Longrightarrow>
     forwarded_at b rs (throttle_all s rs st) \<subseteq>
       set (admit_all m 60 (charged_times b rs) (get_default st (b @ '':minute'') []))"
proof (induction rs arbitrary: st)
  case (Cons q rs)
  obtain r now now' where q: "q = (r, now, now')" by (cases q)
  obtain out st' where t: "throttle s r now now' st = (out, st')" by fastforce
  obtain ok d where a: "admit (fst (limits_for s r)) 60 now (get_default st (bucket r @ '':minute'') []) = (ok, d)"
    by fastforce
  note step = throttle_minute [OF a t]
  have IH: "forwarded_at b rs (throttle_all s rs st') \<subseteq> set (admit_all m 60 (charged_times b rs)
      (get_default st' (b @ '':minute'') []))"
    using Cons.prems by (intro Cons.IH) (simp add: q)
  have split: "forwarded_at b (q # rs) (throttle_all s (q # rs) st) =
      (if out = Forwarded \<and> charged b r then {now} else {}) \<union> forwarded_at b rs (throttle_all s rs st')"
    by (auto simp: forwarded_at_def q t)
  show ?case
  proof (cases "charged b r")
    case True
    then have "admit m 60 now (get_default st (b @ '':minute'') []) = (ok, d)" "get_default st' (b @ '':minute'') [] = d"
      "out = Forwarded \<Longrightarrow> ok"
      using a Cons.prems step by (auto simp: q charged_def)
    then show ?thesis using IH True unfolding split by (auto simp: q)
  next
    case False
    then show ?thesis using IH step(1) unfolding split by (simp add: q)
  qed
qed (simp add: forwarded_at_def)

text \<open>C20: whatever the mix of callers, the requests of one bucket (one caller, reads apart from writes) that
  are forwarded have at most the bucket's limit of clock readings in any 60-second window, provided
  the clock does not run backwards.\<close>

theorem minute_window_bound:
  assumes "\<forall>(r, t, t') \<in> set rs. charged b r \<longrightarrow> fst (limits_for s r) = m"
    "sorted (charged_times b rs)" "0 \<le> m"
  shows "int (card (in_window (forwarded_at b rs (throttle_all s rs [])) 60 t)) \<le> m"
proof -
  let ?ts = "charged_times b rs"
  let ?A = "set (admit_all m 60 ?ts [])"
  have "int (card (in_window ({} \<union> ?A) 60 t)) \<le> m"
  proof (cases ?ts)
    case (Cons u us)
    have "stamps_inv m 60 {} u []" using assms(3) by (simp add: stamps_inv_def in_window_def)
    moreover have "sorted (u # ?ts)" using assms(2) Cons by simp
    ultimately show ?thesis by (rule admit_all_inv)
  qed (simp add: assms(3) in_window_def)
  moreover have "in_window (forwarded_at b rs (throttle_all s rs [])) 60 t \<subseteq> in_window ?A 60 t"
    using forwarded_admitted [OF assms(1), of "[]"] by (auto simp: in_window_def get_default_def)
  then have "card (in_window (forwarded_at b rs (throttle_all s rs [])) 60 t) \<le> card (in_window ?A 60 t)"
    by (intro card_mono) (auto simp: in_window_def)
  ultimately show ?thesis by simp
qed

definition anonymous :: request where
  "anonymous = \<lparr>rq_user = None, rq_remote = ''h'', rq_path = ''/x'', rq_method = ''POST''\<rparr>"

definition demo_limits :: rate_settings where
  "demo_limits = \<lparr>per_minute = 1, per_hour = 9, key_per_minute = 5, key_per_hour = 9, read_per_minute = 5, read_per_hour = 9\<rparr>"

lemma anonymous_limit: "fst (limits_for demo_limits anonymous) = 1"
  by (simp add: limits_for_def is_read_def anonymous_def demo_limits_def request_api_key_def opt_truthy_def)

lemma anonymous_charged: "charged (bucket anonymous) anonymous"
  by (simp add: charged_def exempt_def anonymous_def starts_with_def)

theorem minute_window_bound_witness:
  "int (card (in_window (forwarded_at (bucket anonymous) [(anonymous, 0, 0), (anonymous, 5, 5)]
     (throttle_all demo_limits [(anonymous, 0, 0), (anonymous, 5, 5)] [])) 60 30)) \<le> 1"
proof (rule minute_window_bound)
  show "\<forall>(r, t, t') \<in> set [(anonymous, 0, 0), (anonymous, 5, 5)]. charged (bucket anonymous) r
      \<longrightarrow> fst (limits_for demo_limits r) = 1"
    by (simp add: anonymous_limit)
qed (simp_all add: anonymous_charged)

lemma admit_same_time:
  "2 \<le> limit \<Longrightarrow> 0 < win \<Longrightarrow> d = [] \<or> d = [(t, t)] \<Longrightarrow> admit_all limit win (replicate n t) d = replicate n t"
proof (induction n arbitrary: d)
  case (Suc n)
  have "live_stamps t win d = d" using Suc.prems(2,3) by (auto simp: live_stamps_def)
  moreover have "int (length d) < limit" "put t t d = [(t, t)]" using Suc.prems(1,3) by auto
  ultimately have "admit limit win t d = (True, [(t, t)])" by (simp add: admit_def Let_def)
  then show ?case using Suc.IH [of "[(t, t)]"] Suc.prems by simp
qed simp

text \<open>Requests that read the same clock value share one stamp, so with a limit of two or more any number of
  them is admitted.\<close>

theorem same_clock_burst_unbounded:
  assumes "2 \<le> limit" "0 < win"
  shows "admit_all limit win (replicate n t) [] = replicate n t"
  using admit_same_time [OF assms, of "[]"] by simp

theorem same_clock_burst_unbounded_witness:
  "length (admit_all 60 60 (replicate 1000 0) []) = 1000"
  using same_clock_burst_unbounded [of 60 60 1000 0] by simp

end
