(* ===== verification/Audit_Trail.thy ===== *)
theory Audit_Trail
  imports Prelude
begin

text \<open>
  The append-only, hash-chained audit trail, \<open>src/src/tools/audit_trail.py\<close>.  The SQLite table is the list of
  its rows in the order of their ids, with the next id of \<open>AUTOINCREMENT\<close>.  SHA-256 over the canonical
  JSON is the parameter \<open>hash\<close>, of which nothing is assumed: the tamper theorem says "equal records or an
  explicit collision".  The JSON codec, the clock and the ambient actor are parameters too.
\<close>

subsection \<open>Records and rows\<close>

record audit_record =
  ts :: string
  category :: string
  action :: string
  actor :: "string option"
  resource :: "string option"
  outcome :: string
  severity :: string
  detail :: "string option"
  session_id :: "string option"
  workflow_id :: "string option"

record audit_row = audit_record +
  row_id :: nat
  prev_hash :: string
  entry_hash :: string

record audit_db =
  rows :: "audit_row list"
  next_id :: nat

type_synonym hasher = "audit_record \<Rightarrow> string \<Rightarrow> string"

definition genesis :: string where
  "genesis = replicate 64 (CHR ''0'')"

definition severities :: "string list" where
  "severities = [''debug'', ''info'', ''notice'', ''warning'', ''error'', ''critical'']"

definition content :: "audit_row \<Rightarrow> audit_record" where
  "content r = audit_record.truncate r"

definition empty_db :: audit_db where
  "empty_db = \<lparr>rows = [], next_id = 1\<rparr>"

subsection \<open>Appending\<close>

datatype audit_error = Empty_action | Unknown_severity string

record entry_request =
  en_action :: string
  en_category :: string
  en_actor :: "string option"
  en_resource :: "string option"
  en_outcome :: string
  en_severity :: string
  en_detail :: "(string, json) odict option"
  en_session_id :: "string option"
  en_workflow_id :: "string option"

definition make_record :: "((string, json) odict \<Rightarrow> string) \<Rightarrow> string \<Rightarrow> string option \<Rightarrow> entry_request \<Rightarrow> audit_record" where
  "make_record dumps now ambient e =
     \<lparr>ts = now, category = str_or (strip (en_category e)) ''custom'', action = strip (en_action e),
      actor = (if en_actor e \<noteq> None then en_actor e else ambient), resource = en_resource e,
      outcome = en_outcome e, severity = strip (lower (en_severity e)),
      detail = (if opt_truthy (en_detail e) then Some (dumps (the (en_detail e))) else None),
      session_id = en_session_id e, workflow_id = en_workflow_id e\<rparr>"

definition tail_hash :: "audit_row list \<Rightarrow> string" where
  "tail_hash rs = (if rs = [] then genesis else entry_hash (last rs))"

definition insert_row :: "hasher \<Rightarrow> audit_record \<Rightarrow> audit_db \<Rightarrow> audit_row \<times> audit_db" where
  "insert_row hash rec db =
     (let prev = tail_hash (rows db);
          row = audit_record.extend rec \<lparr>row_id = next_id db, prev_hash = prev, entry_hash = hash rec prev\<rparr>
      in (row, \<lparr>rows = rows db @ [row], next_id = Suc (next_id db)\<rparr>))"

definition append_audit_entry ::
  "hasher \<Rightarrow> ((string, json) odict \<Rightarrow> string) \<Rightarrow> string \<Rightarrow> string option \<Rightarrow> entry_request \<Rightarrow> audit_db
     \<Rightarrow> (audit_error + audit_row) \<times> audit_db"
where
  "append_audit_entry hash dumps now ambient e db =
     (if strip (en_action e) = [] then (Inl Empty_action, db)
      else if strip (lower (en_severity e)) \<notin> set severities
        then (Inl (Unknown_severity (strip (lower (en_severity e)))), db)
      else (let (row, db) = insert_row hash (make_record dumps now ambient e) db in (Inr row, db)))"

subsection \<open>Verification\<close>

datatype chain_report = Valid nat string | Broken_link nat nat | Altered_row nat nat

fun verify_rows :: "hasher \<Rightarrow> nat \<Rightarrow> string \<Rightarrow> audit_row list \<Rightarrow> chain_report" where
  "verify_rows hash n expected [] = Valid n expected"
| "verify_rows hash n expected (r # rs) =
     (if prev_hash r \<noteq> expected then Broken_link n (row_id r)
      else if hash (content r) expected \<noteq> entry_hash r then Altered_row n (row_id r)
      else verify_rows hash n (entry_hash r) rs)"

definition verify_audit_chain :: "hasher \<Rightarrow> int option \<Rightarrow> audit_db \<Rightarrow> chain_report" where
  "verify_audit_chain hash limit db =
     (let rs = (case limit of None \<Rightarrow> rows db
        | Some l \<Rightarrow> if l = 0 then rows db else take (nat (max 1 l)) (rows db))
      in verify_rows hash (length rs) genesis rs)"

subsection \<open>Querying\<close>

text \<open>SQLite's \<open>LIKE\<close>: \<open>%\<close> matches any text, \<open>_\<close> any character, letters without regard to case.
  Text is compared by code points.\<close>

definition ascii_lower :: "char \<Rightarrow> char" where
  "ascii_lower c = (if 65 \<le> code c \<and> code c \<le> 90 then char_of (code c + 32) else c)"

fun like :: "string \<Rightarrow> string \<Rightarrow> bool" where
  "like [] s = (s = [])"
| "like (p # ps) s =
     (if p = CHR ''%'' then like ps s \<or> (case s of [] \<Rightarrow> False | _ # t \<Rightarrow> like (p # ps) t)
      else (case s of [] \<Rightarrow> False
        | c # t \<Rightarrow> (p = CHR ''_'' \<or> ascii_lower p = ascii_lower c) \<and> like ps t))"

fun str_le :: "string \<Rightarrow> string \<Rightarrow> bool" where
  "str_le [] t = True"
| "str_le (c # s) [] = False"
| "str_le (c # s) (d # t) = (code c < code d \<or> c = d \<and> str_le s t)"

record audit_query =
  q_category :: "string option"
  q_actor :: "string option"
  q_resource :: "string option"
  q_action :: "string option"
  q_outcome :: "string option"
  q_min_severity :: "string option"
  q_since :: "string option"
  q_until :: "string option"
  q_limit :: int
  q_offset :: int

definition given :: "string option \<Rightarrow> (string \<Rightarrow> bool) \<Rightarrow> bool" where
  "given x p \<longleftrightarrow> (opt_truthy x \<longrightarrow> p (the x))"

definition severities_from :: "string \<Rightarrow> string list" where
  "severities_from s = dropWhile (\<lambda>x. x \<noteq> s) severities"

definition matches :: "audit_query \<Rightarrow> audit_row \<Rightarrow> bool" where
  "matches q r \<longleftrightarrow> given (q_category q) (\<lambda>v. category r = v)
     \<and> given (q_actor q) (\<lambda>v. actor r = Some v)
     \<and> given (q_outcome q) (\<lambda>v. outcome r = v)
     \<and> given (q_resource q) (\<lambda>v. case resource r of None \<Rightarrow> False | Some x \<Rightarrow> like (v @ ''%'') x)
     \<and> given (q_action q) (\<lambda>v. like (v @ ''%'') (action r))
     \<and> given (q_min_severity q) (\<lambda>v. severity r \<in> set (severities_from (strip (lower v))))
     \<and> given (q_since q) (\<lambda>v. str_le v (ts r))
     \<and> given (q_until q) (\<lambda>v. str_le (ts r) v)"

definition read_audit_entries :: "audit_query \<Rightarrow> audit_db \<Rightarrow> audit_error + audit_row list" where
  "read_audit_entries q db =
     (if opt_truthy (q_min_severity q) \<and> strip (lower (the (q_min_severity q))) \<notin> set severities
      then Inl (Unknown_severity (the (q_min_severity q)))
      else Inr (take (nat (max 1 (min (q_limit q) 500)))
                 (drop (nat (max 0 (q_offset q))) (rev (filter (matches q) (rows db))))))"

definition row_detail :: "(string \<Rightarrow> json option) \<Rightarrow> audit_row \<Rightarrow> json" where
  "row_detail loads r = (case detail r of None \<Rightarrow> JNull
     | Some d \<Rightarrow> if d = [] then JStr d else (case loads d of Some j \<Rightarrow> j | None \<Rightarrow> JStr d))"

subsection \<open>The tool entry point\<close>

definition parse_detail :: "(string \<Rightarrow> json option) \<Rightarrow> string \<Rightarrow> (string, json) odict option" where
  "parse_detail loads d = (if d = [] then None
     else case loads d of None \<Rightarrow> Some [(''note'', JStr d)]
       | Some (JObj kvs) \<Rightarrow> Some kvs | Some v \<Rightarrow> Some [(''value'', v)])"

definition record_audit_event ::
  "hasher \<Rightarrow> ((string, json) odict \<Rightarrow> string) \<Rightarrow> (string \<Rightarrow> json option) \<Rightarrow> string \<Rightarrow> string option
    \<Rightarrow> string \<Rightarrow> string \<Rightarrow> string \<Rightarrow> string \<Rightarrow> string \<Rightarrow> string \<Rightarrow> audit_db
    \<Rightarrow> (audit_error + nat \<times> string \<times> string) \<times> audit_db"
where
  "record_audit_event hash dumps loads now ambient act cat res out sev det db =
     (case append_audit_entry hash dumps now ambient
         \<lparr>en_action = act, en_category = cat, en_actor = None, en_resource = (if res = [] then None else Some res),
          en_outcome = out, en_severity = sev, en_detail = parse_detail loads det,
          en_session_id = None, en_workflow_id = None\<rparr> db
      of (Inl err, db) \<Rightarrow> (Inl err, db)
       | (Inr row, db) \<Rightarrow> (Inr (row_id row, ts row, entry_hash row), db))"

subsection \<open>Statistics\<close>

definition count_by :: "(audit_row \<Rightarrow> string) \<Rightarrow> audit_db \<Rightarrow> (string, nat) odict" where
  "count_by f db = fold (\<lambda>r d. put (f r) (Suc (get_default d (f r) 0)) d) (rows db) []"

definition audit_statistics :: "audit_db \<Rightarrow> nat \<times> (string, nat) odict \<times> (string, nat) odict \<times> (string, nat) odict" where
  "audit_statistics db = (length (rows db), count_by category db, count_by outcome db, count_by severity db)"

subsection \<open>Chains\<close>

fun chained :: "hasher \<Rightarrow> string \<Rightarrow> audit_row list \<Rightarrow> bool" where
  "chained hash p [] = True"
| "chained hash p (r # rs) \<longleftrightarrow> prev_hash r = p \<and> entry_hash r = hash (content r) p \<and> chained hash (entry_hash r) rs"

definition head_from :: "string \<Rightarrow> audit_row list \<Rightarrow> string" where
  "head_from p rs = (if rs = [] then p else entry_hash (last rs))"

lemma verify_chained: "verify_rows hash n p rs = Valid m h \<longleftrightarrow> chained hash p rs \<and> m = n \<and> h = head_from p rs"
  by (induction rs arbitrary: p) (auto simp: head_from_def)

lemma verify_all: "verify_audit_chain hash None db = verify_rows hash (length (rows db)) genesis (rows db)"
  by (simp add: verify_audit_chain_def Let_def)

lemma chained_append: "chained hash p (xs @ ys) \<longleftrightarrow> chained hash p xs \<and> chained hash (head_from p xs) ys"
  by (induction xs arbitrary: p) (auto simp: head_from_def)

lemma head_from_snoc [simp]: "head_from p (xs @ [r]) = entry_hash r"
  by (simp add: head_from_def)

lemma content_extend: "content (audit_record.extend rec x) = rec"
  by (simp add: content_def audit_record.defs)

lemma insert_row_chained:
  assumes "chained hash genesis (rows db)" "insert_row hash rec db = (row, db')"
  shows "chained hash genesis (rows db')" "rows db' = rows db @ [row]" "content row = rec"
    "row_id row = next_id db" "next_id db' = Suc (next_id db)"
  using assms
  by (auto simp: insert_row_def Let_def chained_append content_extend tail_hash_def head_from_def)
    (auto simp: audit_record.defs)

definition db_ok :: "hasher \<Rightarrow> audit_db \<Rightarrow> bool" where
  "db_ok hash db \<longleftrightarrow> chained hash genesis (rows db) \<and> sorted_wrt (\<lambda>r s. row_id r < row_id s) (rows db)
     \<and> (\<forall>r \<in> set (rows db). row_id r < next_id db \<and> severity r \<in> set severities \<and> action r \<noteq> [])"

lemma append_audit_entry_ok:
  assumes "db_ok hash db" "append_audit_entry hash dumps now ambient e db = (res, db')"
  shows "db_ok hash db' \<and> (case res of Inl _ \<Rightarrow> db' = db | Inr row \<Rightarrow> rows db' = rows db @ [row])"
proof -
  let ?rec = "make_record dumps now ambient e"
  obtain row db2 where i: "insert_row hash ?rec db = (row, db2)" by fastforce
  have c: "chained hash genesis (rows db)" using assms(1) by (simp add: db_ok_def)
  note s = insert_row_chained [OF c i]
  have sel: "severity row = strip (lower (en_severity e))" "action row = strip (en_action e)"
    using s(3) by (auto simp: content_def audit_record.defs make_record_def)
  show ?thesis
  proof (cases "strip (en_action e) = [] \<or> strip (lower (en_severity e)) \<notin> set severities")
    case True
    then show ?thesis using assms by (auto simp: append_audit_entry_def split: if_splits)
  next
    case False
    then have "res = Inr row" "db' = db2" using assms(2) i by (simp_all add: append_audit_entry_def)
    then show ?thesis using assms(1) s sel False
      by (auto simp: db_ok_def sorted_wrt_append less_Suc_eq)
  qed
qed

fun append_all ::
  "hasher \<Rightarrow> ((string, json) odict \<Rightarrow> string) \<Rightarrow> (string \<times> string option \<times> entry_request) list \<Rightarrow> audit_db \<Rightarrow> audit_db"
where
  "append_all hash dumps [] db = db"
| "append_all hash dumps ((now, ambient, e) # es) db =
     append_all hash dumps es (snd (append_audit_entry hash dumps now ambient e db))"

lemma append_all_ok:
  "db_ok hash db \<Longrightarrow> db_ok hash (append_all hash dumps es db)
     \<and> (\<exists>new. rows (append_all hash dumps es db) = rows db @ new)"
proof (induction es arbitrary: db)
  case (Cons x es)
  obtain now ambient e where x: "x = (now, ambient, e)" by (cases x)
  obtain res db' where r: "append_audit_entry hash dumps now ambient e db = (res, db')" by fastforce
  have ok: "db_ok hash db'" "\<exists>new. rows db' = rows db @ new"
    using append_audit_entry_ok [OF Cons.prems r] by (auto split: sum.splits)
  from Cons.IH [OF ok(1)] ok(2) show ?case by (auto simp: x r)
qed simp

lemma empty_db_ok [simp]: "db_ok hash empty_db"
  by (simp add: db_ok_def empty_db_def)

lemma db_ok_valid:
  "db_ok hash db \<Longrightarrow> verify_audit_chain hash None db = Valid (length (rows db)) (tail_hash (rows db))"
  using verify_chained [of hash "length (rows db)" genesis "rows db"]
  by (auto simp: verify_all db_ok_def head_from_def tail_hash_def)

text \<open>C19: the trail is append-only and its chain always verifies: after any sequence of appends, rejected
  ones included, the earlier rows are an unchanged prefix of the table, ids are increasing, and
  verification reports the whole table as valid with the hash of its last row as head.\<close>

theorem appends_verify:
  "\<exists>new. rows (append_all hash dumps (es @ fs) empty_db) = rows (append_all hash dumps es empty_db) @ new
    \<and> sorted_wrt (\<lambda>r s. row_id r < row_id s) (rows (append_all hash dumps es empty_db))
    \<and> verify_audit_chain hash None (append_all hash dumps es empty_db)
        = Valid (length (rows (append_all hash dumps es empty_db))) (tail_hash (rows (append_all hash dumps es empty_db)))"
proof -
  have app: "append_all hash dumps (es @ fs) db = append_all hash dumps fs (append_all hash dumps es db)" for db
    by (induction es arbitrary: db) auto
  let ?db = "append_all hash dumps es empty_db"
  have ok: "db_ok hash ?db" using append_all_ok by simp
  then show ?thesis using db_ok_valid [OF ok] append_all_ok [OF ok, of dumps fs] ok by (auto simp: app db_ok_def)
qed

subsection \<open>Tampering\<close>

definition collision :: "hasher \<Rightarrow> bool" where
  "collision hash \<longleftrightarrow> (\<exists>r p r' p'. (r, p) \<noteq> (r', p') \<and> hash r p = hash r' p')"

definition hits_genesis :: "hasher \<Rightarrow> bool" where
  "hits_genesis hash \<longleftrightarrow> (\<exists>r p. hash r p = genesis)"

lemma chained_snoc:
  "chained hash p (xs @ [r]) \<longleftrightarrow> chained hash p xs \<and> prev_hash r = head_from p xs
     \<and> entry_hash r = hash (content r) (head_from p xs)"
  by (simp add: chained_append)

lemma same_head:
  "chained hash genesis xs \<Longrightarrow> chained hash genesis ys \<Longrightarrow> head_from genesis xs = head_from genesis ys \<Longrightarrow>
     map content xs = map content ys \<or> collision hash \<or> hits_genesis hash"
proof (induction xs arbitrary: ys rule: rev_induct)
  case Nil
  show ?case
  proof (cases ys rule: rev_cases)
    case (snoc zs r)
    then have "hash (content r) (head_from genesis zs) = genesis"
      using Nil by (simp add: chained_snoc) (simp add: head_from_def)
    then show ?thesis by (auto simp: hits_genesis_def)
  qed simp
next
  case (snoc r xs)
  show ?case
  proof (cases ys rule: rev_cases)
    case Nil
    then have "hash (content r) (head_from genesis xs) = genesis"
      using snoc.prems by (simp add: chained_snoc) (simp add: head_from_def)
    then show ?thesis by (auto simp: hits_genesis_def)
  next
    case (snoc zs r')
    have eq: "hash (content r) (head_from genesis xs) = hash (content r') (head_from genesis zs)"
      using snoc.prems snoc by (simp add: chained_snoc)
    show ?thesis
    proof (cases "(content r, head_from genesis xs) = (content r', head_from genesis zs)")
      case True
      then show ?thesis using snoc.IH [of zs] snoc.prems snoc by (auto simp: chained_snoc)
    next
      case False
      then show ?thesis using eq by (auto simp: collision_def)
    qed
  qed
qed

text \<open>two databases that both verify with the same head hash hold the same records in the same order,
  unless the hash function has an explicit collision or maps something to the all-zero genesis
  value: so an edit, an insertion, a reordering or a removal that keeps the last row is detected.\<close>

theorem same_head_same_records:
  assumes "verify_audit_chain hash None db = Valid n h" "verify_audit_chain hash None db' = Valid n' h"
  shows "map content (rows db) = map content (rows db')
    \<or> (\<exists>r p r' p'. (r, p) \<noteq> (r', p') \<and> hash r p = hash r' p') \<or> (\<exists>r p. hash r p = genesis)"
  using same_head [of hash "rows db" "rows db'"] assms
  by (auto simp: verify_all verify_chained collision_def hits_genesis_def)

text \<open>Removing rows from the end is not detected: if a database verifies, so does the one that keeps
  only its first \<open>k\<close> rows.\<close>

theorem truncation_undetected:
  assumes "verify_audit_chain hash None db = Valid n h"
  shows "\<exists>h'. verify_audit_chain hash None (db\<lparr>rows := take k (rows db)\<rparr>) = Valid (min k n) h'"
proof -
  from assms have c: "chained hash genesis (rows db)" "n = length (rows db)"
    by (auto simp: verify_all verify_chained)
  then have "chained hash genesis (take k (rows db))"
    using chained_append [of hash genesis "take k (rows db)" "drop k (rows db)"] by simp
  then show ?thesis by (auto simp: verify_all verify_chained c(2))
qed

subsection \<open>Queries\<close>

text \<open>a query that succeeds returns at most 500 matching rows, newest first, and with offset 0 it misses
  a matching row only when it returns as many rows as its clamped limit, all of them newer.\<close>

theorem query_newest_matching:
  assumes "db_ok hash db" "read_audit_entries q db = Inr res" "q_offset q \<le> 0"
  shows "length res \<le> 500 \<and> (\<forall>r \<in> set res. r \<in> set (rows db) \<and> matches q r)
    \<and> sorted_wrt (\<lambda>r s. row_id r > row_id s) res
    \<and> (\<forall>r \<in> set (rows db). matches q r \<longrightarrow> r \<in> set res
         \<or> int (length res) = max 1 (min (q_limit q) 500) \<and> (\<forall>s \<in> set res. row_id s > row_id r))"
proof -
  let ?all = "rev (filter (matches q) (rows db))" and ?n = "nat (max 1 (min (q_limit q) 500))"
  have res: "res = take ?n ?all" using assms(2,3) by (auto simp: read_audit_entries_def split: if_splits)
  have "sorted_wrt (\<lambda>r s. row_id r < row_id s) (filter (matches q) (rows db))"
    using assms(1) by (auto simp: db_ok_def intro: sorted_wrt_filter)
  then have sorted: "sorted_wrt (\<lambda>r s. row_id r > row_id s) ?all" by (simp add: sorted_wrt_rev)
  have n: "?n \<le> 500" "int ?n = max 1 (min (q_limit q) 500)" by auto
  have "r \<in> set res \<or> int (length res) = max 1 (min (q_limit q) 500) \<and> (\<forall>s \<in> set res. row_id s > row_id r)"
    if "r \<in> set (rows db)" "matches q r" for r
  proof -
    have "r \<in> set (take ?n ?all) \<union> set (drop ?n ?all)"
      unfolding set_append [symmetric] append_take_drop_id using that by simp
    moreover have "int (length res) = int ?n \<and> (\<forall>s \<in> set res. row_id s > row_id r)" if d: "r \<in> set (drop ?n ?all)"
    proof -
      have "?n < length ?all" using d by (metis drop_all empty_iff empty_set not_le_imp_less)
      moreover have "sorted_wrt (\<lambda>r s. row_id r > row_id s) (take ?n ?all @ drop ?n ?all)" using sorted by simp
      ultimately show ?thesis using d unfolding res sorted_wrt_append by auto
    qed
    ultimately show ?thesis using n(2) res by auto
  qed
  moreover have "length res \<le> 500" using n(1) unfolding res by simp
  moreover have "sorted_wrt (\<lambda>r s. row_id r > row_id s) res" unfolding res by (rule sorted_wrt_take [OF sorted])
  moreover have "\<forall>r \<in> set res. r \<in> set (rows db) \<and> matches q r"
    using set_take_subset [of ?n ?all] unfolding res by auto
  ultimately show ?thesis by blast
qed

subsection \<open>Concrete tables\<close>

text \<open>A toy hash that writes the action in front of the previous hash: it has no collision on the tables below.\<close>

definition toy_hash :: hasher where
  "toy_hash r p = action r @ p"

definition demo_entry :: "string \<Rightarrow> entry_request" where
  "demo_entry a = \<lparr>en_action = a, en_category = ''tool'', en_actor = Some ''ann'', en_resource = None,
     en_outcome = ''success'', en_severity = ''info'', en_detail = None, en_session_id = None, en_workflow_id = None\<rparr>"

definition demo_trail :: audit_db where
  "demo_trail = append_all toy_hash (\<lambda>_. []) [(''t1'', None, demo_entry ''login''), (''t2'', None, demo_entry ''deploy'')] empty_db"

lemma demo_trail_ok: "db_ok toy_hash demo_trail"
  unfolding demo_trail_def using append_all_ok [OF empty_db_ok] by blast

lemma demo_trail_rows: "length (rows demo_trail) = 2"
  by (simp add: demo_trail_def append_audit_entry_def demo_entry_def empty_db_def insert_row_def Let_def
      severities_def strip_def lower_def lower_char_def is_space_def is_upper_def code_def)

theorem same_head_same_records_witness:
  "map content (rows demo_trail) = map content (rows demo_trail)
    \<or> (\<exists>r p r' p'. (r, p) \<noteq> (r', p') \<and> toy_hash r p = toy_hash r' p') \<or> (\<exists>r p. toy_hash r p = genesis)"
  by (rule same_head_same_records [OF db_ok_valid [OF demo_trail_ok] db_ok_valid [OF demo_trail_ok]])

theorem truncation_undetected_witness:
  "\<exists>h. verify_audit_chain toy_hash None (demo_trail\<lparr>rows := take 1 (rows demo_trail)\<rparr>) = Valid 1 h"
  using truncation_undetected [OF db_ok_valid [OF demo_trail_ok], of 1] by (simp add: demo_trail_rows)

definition any_entry :: audit_query where
  "any_entry = \<lparr>q_category = None, q_actor = None, q_resource = None, q_action = None, q_outcome = None,
     q_min_severity = None, q_since = None, q_until = None, q_limit = 1, q_offset = 0\<rparr>"

theorem query_newest_matching_witness:
  "\<exists>res. read_audit_entries any_entry demo_trail = Inr res \<and> length res \<le> 500"
proof -
  obtain res where r: "read_audit_entries any_entry demo_trail = Inr res"
    by (simp add: read_audit_entries_def any_entry_def opt_truthy_def)
  from query_newest_matching [OF demo_trail_ok r] show ?thesis using r by (simp add: any_entry_def)
qed

end
