(* ===== verification/Spans.thy ===== *)
theory Spans
  imports Prelude
begin

text \<open>
  Character spans: the greedy choice of non-conflicting candidates that the PII detector and the secret
  scanner share, and the rebuilding of a text with its spans replaced.  The locale \<open>conflict\<close> proves
  the choice once for any symmetric conflict; \<open>spans\<close> extends it to overlapping character ranges.
\<close>

definition slice :: "nat \<Rightarrow> nat \<Rightarrow> string \<Rightarrow> string" where
  "slice i j s = take (j - i) (drop i s)"

definition overlaps :: "nat \<times> nat \<Rightarrow> nat \<times> nat \<Rightarrow> bool" where
  "overlaps x y \<longleftrightarrow> fst x < snd y \<and> fst y < snd x"

text \<open>Take each candidate in turn unless it conflicts with one already kept.\<close>

definition keep :: "('a \<Rightarrow> 'a \<Rightarrow> bool) \<Rightarrow> 'a \<Rightarrow> 'a list \<Rightarrow> 'a list" where
  "keep ov c kept = (if \<exists>k \<in> set kept. ov c k then kept else kept @ [c])"

definition greedy :: "('a \<Rightarrow> 'a \<Rightarrow> bool) \<Rightarrow> 'a list \<Rightarrow> 'a list" where
  "greedy ov xs = fold (keep ov) xs []"

text \<open>Gaps and replacements in alternation.\<close>

fun weave :: "string list \<Rightarrow> string list \<Rightarrow> string" where
  "weave (g # gs) (x # xs) = g @ x @ weave gs xs"
| "weave [g] [] = g"
| "weave _ _ = []"

text \<open>The gaps between spans, from a cursor on.\<close>

fun gaps :: "string \<Rightarrow> nat \<Rightarrow> (nat \<times> nat) list \<Rightarrow> string list" where
  "gaps s cur [] = [drop cur s]"
| "gaps s cur ((i, j) # ps) = slice cur i s # gaps s j ps"

text \<open>Spans in order, each starting after the one before it.\<close>

fun apart :: "nat \<Rightarrow> nat \<Rightarrow> (nat \<times> nat) list \<Rightarrow> bool" where
  "apart cur n [] \<longleftrightarrow> cur \<le> n"
| "apart cur n ((i, j) # ps) \<longleftrightarrow> cur \<le> i \<and> i \<le> j \<and> apart j n ps"

lemma apart_le: "apart cur n ps \<Longrightarrow> cur \<le> n"
  by (induction cur n ps rule: apart.induct) auto

lemma slice_drop: "i \<le> j \<Longrightarrow> slice i j s @ drop j s = drop i s"
  by (simp add: slice_def) (metis append_take_drop_id drop_drop le_add_diff_inverse2)

lemma weave_gaps: "apart cur n ps \<Longrightarrow> weave (gaps s cur ps) (map (\<lambda>(i, j). slice i j s) ps) = drop cur s"
proof (induction s cur ps rule: gaps.induct)
  case (2 s cur i j ps)
  then show ?case using slice_drop [of i j s] slice_drop [of cur i s] by simp
qed simp

locale conflict =
  fixes ov :: "'a \<Rightarrow> 'a \<Rightarrow> bool"
  assumes sym: "ov x y \<Longrightarrow> ov y x"
begin

lemma keep_pairwise:
  "pairwise (\<lambda>x y. \<not> ov x y) (set kept) \<Longrightarrow> pairwise (\<lambda>x y. \<not> ov x y) (set (fold (keep ov) xs kept))"
proof (induction xs arbitrary: kept)
  case (Cons x xs)
  have "pairwise (\<lambda>x y. \<not> ov x y) (set (keep ov x kept))"
    using Cons.prems sym by (auto simp: keep_def pairwise_def)
  then show ?case using Cons.IH by simp
qed simp

lemma keep_grows: "set kept \<subseteq> set (fold (keep ov) xs kept)" "set (fold (keep ov) xs kept) \<subseteq> set kept \<union> set xs"
proof (induction xs arbitrary: kept)
  case (Cons x xs)
  {
    case 1
    show ?case using Cons(1) [of "keep ov x kept"] by (auto simp: keep_def split: if_splits)
  next
    case 2
    show ?case using Cons(2) [of "keep ov x kept"] by (auto simp: keep_def split: if_splits)
  }
qed auto

lemma keep_distinct: "(\<And>x. x \<in> set xs \<Longrightarrow> ov x x) \<Longrightarrow> distinct kept \<Longrightarrow> distinct (fold (keep ov) xs kept)"
proof (induction xs arbitrary: kept)
  case (Cons x xs)
  have "distinct (keep ov x kept)" using Cons.prems(1) [of x] Cons.prems(2) by (auto simp: keep_def)
  then show ?case using Cons.IH Cons.prems(1) by simp
qed simp

lemma greedy_pairwise: "pairwise (\<lambda>x y. \<not> ov x y) (set (greedy ov xs))"
  unfolding greedy_def by (rule keep_pairwise) simp

lemma greedy_subset: "set (greedy ov xs) \<subseteq> set xs"
  unfolding greedy_def using keep_grows(2) [of xs "[]"] by simp

text \<open>Whatever is dropped conflicts with something kept that came before it.\<close>

lemma greedy_covers:
  assumes "xs = ys @ x # zs"
  shows "x \<in> set (greedy ov xs) \<or> (\<exists>k \<in> set (greedy ov xs). ov x k \<and> k \<in> set ys)"
proof -
  let ?k = "fold (keep ov) ys []"
  have g: "greedy ov xs = fold (keep ov) zs (keep ov x ?k)" by (simp add: assms greedy_def)
  have "set ?k \<subseteq> set ys" using keep_grows(2) [of ys "[]"] by simp
  then show ?thesis unfolding g using keep_grows(1) [of "keep ov x ?k" zs] by (auto simp: keep_def split: if_splits)
qed

end

locale spans = conflict ov for ov :: "'a \<Rightarrow> 'a \<Rightarrow> bool" +
  fixes pos :: "'a \<Rightarrow> nat \<times> nat"
  assumes ov_pos: "ov x y \<longleftrightarrow> overlaps (pos x) (pos y)"
begin

lemma sorted_apart:
  assumes "sorted (map (\<lambda>x. fst (pos x)) xs)" "pairwise (\<lambda>x y. \<not> ov x y) (set xs)" "distinct xs"
    "\<forall>x \<in> set xs. fst (pos x) < snd (pos x) \<and> snd (pos x) \<le> n" "\<forall>x \<in> set xs. cur \<le> fst (pos x)" "cur \<le> n"
  shows "apart cur n (map pos xs)"
  using assms
proof (induction xs arbitrary: cur)
  case (Cons x xs)
  obtain i j where p: "pos x = (i, j)" by fastforce
  have "j \<le> fst (pos y)" if "y \<in> set xs" for y
  proof -
    have "\<not> ov x y" using Cons.prems(2,3) that by (auto simp: pairwise_def)
    moreover have "i < snd (pos y)" "i \<le> fst (pos y)" using Cons.prems(1,4) that p by fastforce+
    ultimately show ?thesis using ov_pos p by (auto simp: overlaps_def)
  qed
  then have "apart j n (map pos xs)" using Cons p by (simp add: pairwise_insert)
  then show ?case using Cons.prems p by simp
qed simp

end

interpretation position: spans overlaps "\<lambda>p. p"
  by unfold_locales (auto simp: overlaps_def)

subsection \<open>Replacing from the end\<close>

text \<open>\<open>s[:i] + t + s[j:]\<close> for the spans from last to first: every span still has the offsets of the original.\<close>

definition replace_span :: "nat \<times> nat \<Rightarrow> string \<Rightarrow> string \<Rightarrow> string" where
  "replace_span p t s = take (fst p) s @ t @ drop (snd p) s"

definition replace_back :: "((nat \<times> nat) \<times> string) list \<Rightarrow> string \<Rightarrow> string" where
  "replace_back xs s = fold (\<lambda>(p, t). replace_span p t) (rev xs) s"

lemma take_slice: "i \<le> j \<Longrightarrow> take i s @ slice i j s = take j s"
  by (metis le_add_diff_inverse slice_def take_add)

lemma replace_span_pair: "replace_span (i, j) t s = take i s @ t @ drop j s"
  by (simp add: replace_span_def)

lemma replace_back_from:
  "apart cur (length s) (map fst xs) \<Longrightarrow>
     foldr (\<lambda>(p, t). replace_span p t) xs s = take cur s @ weave (gaps s cur (map fst xs)) (map snd xs)"
proof (induction xs arbitrary: cur)
  case (Cons x xs)
  obtain i j t where x: "x = ((i, j), t)" by (metis surj_pair)
  have a: "cur \<le> i" "i \<le> j" "apart j (length s) (map fst xs)" using Cons.prems by (auto simp: x)
  then have "j \<le> length s" using apart_le by blast
  then have "foldr (\<lambda>(p, t). replace_span p t) (x # xs) s
      = take i s @ t @ weave (gaps s j (map fst xs)) (map snd xs)"
    using Cons.IH [OF a(3)] a(2) by (simp add: x replace_span_pair min_def)
  then show ?case using take_slice [OF a(1), of s] by (simp add: x flip: append_assoc)
qed simp

lemma replace_back_weave:
  "apart 0 (length s) (map fst xs) \<Longrightarrow> replace_back xs s = weave (gaps s 0 (map fst xs)) (map snd xs)"
  using replace_back_from [of 0 s xs] by (simp add: replace_back_def foldr_conv_fold)

end
