(* ===== verification/Pii.thy ===== *)
theory Pii
  imports Spans "HOL-Library.Product_Lexorder"
begin

text \<open>
  PII detection and redaction, \<open>src/src/tools/pii.py\<close>: the checksum validators, the pattern pass, the
  choice of the strongest non-overlapping matches, the redaction strategies and the tool functions.
  The regular-expression engine and the optional NER analyser are parameters that give spans; SHA-256
  is the parameter \<open>digest\<close>.  Confidences are rationals.
\<close>

subsection \<open>Matches\<close>

record pii_match =
  pm_type :: string
  pm_start :: nat
  pm_end :: nat
  pm_value :: string
  pm_conf :: rat
  pm_ner :: bool

definition pm_span :: "pii_match \<Rightarrow> nat \<times> nat" where
  "pm_span m = (pm_start m, pm_end m)"

definition pm_overlaps :: "pii_match \<Rightarrow> pii_match \<Rightarrow> bool" where
  "pm_overlaps a b \<longleftrightarrow> pm_start a < pm_end b \<and> pm_start b < pm_end a"

subsection \<open>Validators\<close>

text \<open>The candidates come from \<open>\d\<close>, so the digits are decimal digits.\<close>

definition digit_val :: "char \<Rightarrow> nat" where
  "digit_val c = code c - 48"

definition luhn_term :: "nat \<Rightarrow> nat \<Rightarrow> nat \<Rightarrow> nat" where
  "luhn_term parity i d = (if i mod 2 = parity then (if 2 * d > 9 then 2 * d - 9 else 2 * d) else d)"

fun luhn_sum :: "nat \<Rightarrow> nat \<Rightarrow> nat list \<Rightarrow> nat" where
  "luhn_sum parity i [] = 0"
| "luhn_sum parity i (d # ds) = luhn_term parity i d + luhn_sum parity (Suc i) ds"

definition luhn_ok :: "string \<Rightarrow> bool" where
  "luhn_ok s = (let nums = map digit_val (filter is_digit s) in
     if length nums < 12 then False else luhn_sum (length nums mod 2) 0 nums mod 10 = 0)"

definition decimal :: "string \<Rightarrow> nat" where
  "decimal s = foldl (\<lambda>n c. 10 * n + digit_val c) 0 s"

definition iban_ok :: "string \<Rightarrow> bool" where
  "iban_ok candidate =
     (let compact = upper (filter (\<lambda>c. \<not> is_space c) candidate) in
      if \<not> (15 \<le> length compact \<and> length compact \<le> 34) then False
      else let converted = concat (map (\<lambda>c. if is_alpha c then int_str (int (code c) - 55) else [c])
                 (drop 4 compact @ take 4 compact))
       in if converted = [] \<or> \<not> list_all is_digit converted then False else decimal converted mod 97 = 1)"

definition us_ssn_ok :: "string \<Rightarrow> bool" where
  "us_ssn_ok candidate =
     (let digits = filter is_digit candidate in
      if length digits \<noteq> 9 then False
      else let area = take 3 digits; group = slice 3 5 digits; serial = drop 5 digits
       in if area \<in> {''000'', ''666''} \<or> starts_with ''9'' area then False
          else group \<noteq> ''00'' \<and> serial \<noteq> ''0000'')"

definition always :: "string \<Rightarrow> bool" where
  "always s = True"

subsection \<open>The pattern table\<close>

record pattern =
  pt_type :: string
  pt_conf :: rat
  pt_valid :: "string \<Rightarrow> bool"

abbreviation pat :: "string \<Rightarrow> rat \<Rightarrow> pattern" where
  "pat t c \<equiv> \<lparr>pt_type = t, pt_conf = c, pt_valid = always\<rparr>"

definition patterns :: "pattern list" where
  "patterns = [pat ''EMAIL_ADDRESS'' (95/100),
     \<lparr>pt_type = ''CREDIT_CARD'', pt_conf = 9/10, pt_valid = luhn_ok\<rparr>,
     \<lparr>pt_type = ''US_SSN'', pt_conf = 85/100, pt_valid = us_ssn_ok\<rparr>,
     \<lparr>pt_type = ''IBAN'', pt_conf = 9/10, pt_valid = iban_ok\<rparr>,
     pat ''PHONE_NUMBER'' (6/10), pat ''PHONE_NUMBER'' (7/10), pat ''IP_ADDRESS'' (7/10),
     pat ''IP_ADDRESS'' (8/10), pat ''DATE_OF_BIRTH'' (8/10), pat ''US_PASSPORT'' (7/10),
     pat ''BD_NID'' (8/10), pat ''AWS_ACCESS_KEY'' (95/100), pat ''API_KEY'' (75/100),
     pat ''PRIVATE_KEY'' (99/100), pat ''JWT'' (9/10), pat ''MEDICAL_RECORD_NUMBER'' (7/10)]"

definition supported_entities :: "string list" where
  "supported_entities = fold (\<lambda>p. append_new (pt_type p)) patterns []"

subsection \<open>Detection\<close>

text \<open>\<open>finder n text\<close> gives the spans of the reported group of the \<open>n\<close>-th pattern, in the order of
  \<open>finditer\<close>; \<open>ner\<close> gives nothing when Presidio is absent or raises.\<close>

type_synonym finder = "nat \<Rightarrow> string \<Rightarrow> (nat \<times> nat) list"

type_synonym analyser = "string \<Rightarrow> string set option \<Rightarrow> (string \<times> nat \<times> nat \<times> rat) list"

definition pattern_matches :: "finder \<Rightarrow> string \<Rightarrow> string set option \<Rightarrow> pii_match list" where
  "pattern_matches re text wanted =
     concat (map (\<lambda>(n, p).
       if (case wanted of None \<Rightarrow> False | Some w \<Rightarrow> pt_type p \<notin> w) then []
       else map (\<lambda>(i, j). \<lparr>pm_type = pt_type p, pm_start = i, pm_end = j, pm_value = slice i j text,
                    pm_conf = pt_conf p, pm_ner = False\<rparr>)
              (filter (\<lambda>(i, j). slice i j text \<noteq> [] \<and> pt_valid p (slice i j text)) (re n text)))
       (enumerate 0 patterns))"

definition ner_matches :: "analyser \<Rightarrow> string \<Rightarrow> string set option \<Rightarrow> pii_match list" where
  "ner_matches ner text wanted =
     map (\<lambda>(ty, i, j, score). \<lparr>pm_type = ty, pm_start = i, pm_end = j, pm_value = slice i j text,
            pm_conf = score, pm_ner = True\<rparr>) (ner text wanted)"

definition strength :: "pii_match \<Rightarrow> rat \<times> nat \<times> int" where
  "strength m = (- pm_conf m, pm_start m, - (int (pm_end m) - int (pm_start m)))"

definition dedupe :: "pii_match list \<Rightarrow> pii_match list" where
  "dedupe ms = sort_key pm_start (greedy pm_overlaps (sort_key strength ms))"

definition wanted_types :: "string list option \<Rightarrow> string set option" where
  "wanted_types tys = (if opt_truthy tys then
      (let w = (\<lambda>t. upper (strip t)) ` {t \<in> set (the tys). strip t \<noteq> []} in if w = {} then None else Some w)
    else None)"

definition find_pii :: "finder \<Rightarrow> analyser \<Rightarrow> string \<Rightarrow> string list option \<Rightarrow> rat \<Rightarrow> bool \<Rightarrow> pii_match list" where
  "find_pii re ner text tys min_conf use_ner =
     (if text = [] then []
      else let wanted = wanted_types tys;
               found = pattern_matches re text wanted @ (if use_ner then ner_matches ner text wanted else [])
       in filter (\<lambda>m. pm_conf m \<ge> min_conf) (dedupe found))"

subsection \<open>Redaction\<close>

definition stars :: "nat \<Rightarrow> string" where
  "stars n = replicate n (CHR ''*'')"

definition mask :: "string \<Rightarrow> nat \<Rightarrow> string" where
  "mask v n = (if n = 0 then stars (length v) else stars (length v - n) @ take_last n v)"

definition tag :: "string \<Rightarrow> string" where
  "tag s = ''<'' @ s @ ''>''"

datatype strategy = Mask | Label | Hash | Remove | Placeholder

fun parse_strategy :: "string \<Rightarrow> strategy option" where
  "parse_strategy s = map_of [(''mask'', Mask), (''label'', Label), (''hash'', Hash), (''remove'', Remove),
     (''placeholder'', Placeholder)] s"

type_synonym tally = "(string, nat) odict"

definition bump_tally :: "string \<Rightarrow> tally \<Rightarrow> tally" where
  "bump_tally k t = put k (get_default t k 0 + 1) t"

definition apply_strategy :: "(string \<Rightarrow> string) \<Rightarrow> strategy \<Rightarrow> pii_match \<Rightarrow> tally \<Rightarrow> string \<times> tally" where
  "apply_strategy digest st m cs = (case st of
      Remove \<Rightarrow> ([], cs)
    | Mask \<Rightarrow> (mask (pm_value m) (if pm_type m \<in> {''CREDIT_CARD'', ''PHONE_NUMBER''} then 4 else 0), cs)
    | Hash \<Rightarrow> (tag (pm_type m @ '':'' @ take 12 (digest (pm_value m))), cs)
    | Label \<Rightarrow> (let cs = bump_tally (pm_type m) cs
                in (tag (pm_type m @ ''_'' @ nat_str (get_default cs (pm_type m) 0)), cs))
    | Placeholder \<Rightarrow> (tag (pm_type m), cs))"

fun redact_loop :: "(string \<Rightarrow> string) \<Rightarrow> strategy \<Rightarrow> string \<Rightarrow> nat \<Rightarrow> tally \<Rightarrow> tally \<Rightarrow> pii_match list \<Rightarrow> string \<times> tally" where
  "redact_loop digest st text cur cs summary [] = (drop cur text, summary)"
| "redact_loop digest st text cur cs summary (m # ms) =
     (let (r, cs) = apply_strategy digest st m cs;
          (rest, summary) = redact_loop digest st text (pm_end m) cs (bump_tally (pm_type m) summary) ms
      in (slice cur (pm_start m) text @ r @ rest, summary))"

definition requested_types :: "string \<Rightarrow> string list option" where
  "requested_types s = (if s = [] then None else Some (filter (\<lambda>p. strip p \<noteq> []) (split_on (CHR '','') s)))"

text \<open>\<open>redact_pii\<close>: the text, the number of redactions and the summary, or an error for an unknown strategy.\<close>

definition redact_pii ::
  "finder \<Rightarrow> analyser \<Rightarrow> (string \<Rightarrow> string) \<Rightarrow> string \<Rightarrow> string \<Rightarrow> string \<Rightarrow> rat \<Rightarrow> (string \<times> nat \<times> tally) option"
where
  "redact_pii re ner digest text strat tys min_conf =
     (case parse_strategy strat of None \<Rightarrow> None
      | Some st \<Rightarrow>
         (let ms = find_pii re ner text (requested_types tys) min_conf True;
              (out, summary) = redact_loop digest st text 0 [] [] ms
          in Some (out, length ms, summary)))"

record pii_entity =
  pe_type :: string
  pe_start :: nat
  pe_end :: nat
  pe_conf :: rat
  pe_ner :: bool
  pe_preview :: string

definition detect_pii :: "finder \<Rightarrow> analyser \<Rightarrow> string \<Rightarrow> string \<Rightarrow> rat \<Rightarrow> pii_entity list \<times> tally" where
  "detect_pii re ner text tys min_conf =
     (let ms = find_pii re ner text (requested_types tys) min_conf True in
      (map (\<lambda>m. \<lparr>pe_type = pm_type m, pe_start = pm_start m, pe_end = pm_end m, pe_conf = pm_conf m,
              pe_ner = pm_ner m, pe_preview = mask (pm_value m) (min 2 (length (pm_value m)))\<rparr>) ms,
       fold (\<lambda>m. bump_tally (pm_type m)) ms []))"

subsection \<open>The choice of matches\<close>

interpretation match: spans pm_overlaps pm_span
  by unfold_locales (auto simp: pm_overlaps_def pm_span_def overlaps_def)

definition match_ok :: "string \<Rightarrow> pii_match \<Rightarrow> bool" where
  "match_ok text m \<longleftrightarrow> pm_start m < pm_end m \<and> pm_end m \<le> length text
     \<and> pm_value m = slice (pm_start m) (pm_end m) text"

text \<open>What the engine and the analyser promise: spans inside the text, and no empty entity from NER.\<close>

definition finder_ok :: "finder \<Rightarrow> bool" where
  "finder_ok re \<longleftrightarrow> (\<forall>n text i j. (i, j) \<in> set (re n text) \<longrightarrow> i \<le> j \<and> j \<le> length text)"

definition analyser_ok :: "analyser \<Rightarrow> bool" where
  "analyser_ok ner \<longleftrightarrow> (\<forall>text w ty i j sc. (ty, i, j, sc) \<in> set (ner text w) \<longrightarrow> i < j \<and> j \<le> length text)"

definition candidates :: "finder \<Rightarrow> analyser \<Rightarrow> string \<Rightarrow> string list option \<Rightarrow> bool \<Rightarrow> pii_match list" where
  "candidates re ner text tys use_ner =
     pattern_matches re text (wanted_types tys) @ (if use_ner then ner_matches ner text (wanted_types tys) else [])"

lemma find_pii_eq: "text \<noteq> [] \<Longrightarrow>
   find_pii re ner text tys mc un = filter (\<lambda>m. pm_conf m \<ge> mc) (dedupe (candidates re ner text tys un))"
  by (simp add: find_pii_def candidates_def Let_def)

lemma slice_Nil_iff: "slice i j s = [] \<longleftrightarrow> j \<le> i \<or> length s \<le> i"
  by (auto simp: slice_def)

lemma candidates_ok:
  assumes "finder_ok re" "analyser_ok ner" "m \<in> set (candidates re ner text tys un)"
  shows "match_ok text m"
proof -
  from assms(3) consider
      (p) "m \<in> set (pattern_matches re text (wanted_types tys))"
    | (n) "m \<in> set (ner_matches ner text (wanted_types tys))"
    by (auto simp: candidates_def split: if_splits)
  then show ?thesis
  proof cases
    case p
    then obtain n i j where "(i, j) \<in> set (re n text)" "slice i j text \<noteq> []" "pm_start m = i" "pm_end m = j"
      "pm_value m = slice i j text" by (auto simp: pattern_matches_def split: if_splits)
    then show ?thesis using assms(1) by (fastforce simp: match_ok_def finder_ok_def slice_Nil_iff)
  next
    case n
    then obtain ty i j sc where "(ty, i, j, sc) \<in> set (ner text (wanted_types tys))" "pm_start m = i" "pm_end m = j"
      "pm_value m = slice i j text" by (auto simp: ner_matches_def)
    then show ?thesis using assms(2) by (fastforce simp: match_ok_def analyser_ok_def)
  qed
qed

lemma dedupe_set: "set (dedupe ms) = set (greedy pm_overlaps (sort_key strength ms))"
  by (simp add: dedupe_def)

lemma dedupe_apart:
  assumes "\<forall>m \<in> set ms. match_ok text m"
  shows "apart 0 (length text) (map pm_span (filter P (dedupe ms)))" "sorted (map pm_start (dedupe ms))"
proof -
  have sub: "set (dedupe ms) \<subseteq> set ms" using match.greedy_subset [of "sort_key strength ms"] by (simp add: dedupe_set)
  have "pairwise (\<lambda>x y. \<not> pm_overlaps x y) (set (dedupe ms))"
    using match.greedy_pairwise by (simp add: dedupe_set)
  moreover have "distinct (dedupe ms)"
  proof -
    have "pm_overlaps m m" if "m \<in> set (sort_key strength ms)" for m
      using assms that by (auto simp: match_ok_def pm_overlaps_def)
    then show ?thesis using match.keep_distinct [of "sort_key strength ms" "[]"] by (simp add: dedupe_def greedy_def)
  qed
  moreover have "sorted (map pm_start (dedupe ms))" by (simp add: dedupe_def)
  ultimately show "apart 0 (length text) (map pm_span (filter P (dedupe ms)))" "sorted (map pm_start (dedupe ms))"
    using assms sub
    by (auto intro!: match.sorted_apart sorted_filter simp: match_ok_def pm_span_def pairwise_def)
qed

lemma dedupe_covers:
  assumes "m \<in> set ms" "m \<notin> set (dedupe ms)"
  shows "\<exists>k \<in> set (dedupe ms). pm_overlaps m k \<and> pm_conf m \<le> pm_conf k"
proof -
  let ?xs = "sort_key strength ms"
  have "m \<in> set ?xs" using assms(1) by simp
  then obtain ys zs where xs: "?xs = ys @ m # zs" by (meson split_list)
  with match.greedy_covers [OF xs] assms(2) obtain k where
    k: "k \<in> set (dedupe ms)" "pm_overlaps m k" "k \<in> set ys" by (auto simp: dedupe_set)
  have "sorted (map strength ?xs)" by simp
  then have "strength k \<le> strength m" using k(3) unfolding xs by (auto simp: sorted_append)
  then have "pm_conf m \<le> pm_conf k" by (auto simp: strength_def less_eq_prod_simp)
  with k show ?thesis by blast
qed

text \<open>the detector returns spans inside the text, in order and without overlap, each a candidate of at
  least the requested confidence; and every candidate of at least that confidence is returned or
  overlaps a returned match that is at least as strong.\<close>

theorem find_pii_covers:
  assumes "finder_ok re" "analyser_ok ner" "text \<noteq> []"
  shows "apart 0 (length text) (map pm_span (find_pii re ner text tys mc un))
    \<and> set (find_pii re ner text tys mc un) \<subseteq> {m \<in> set (candidates re ner text tys un). mc \<le> pm_conf m}
    \<and> (\<forall>m \<in> set (candidates re ner text tys un). mc \<le> pm_conf m \<longrightarrow>
         m \<in> set (find_pii re ner text tys mc un)
         \<or> (\<exists>k \<in> set (find_pii re ner text tys mc un). pm_overlaps m k \<and> pm_conf m \<le> pm_conf k))"
proof -
  let ?ms = "candidates re ner text tys un"
  have ok: "\<forall>m \<in> set ?ms. match_ok text m" using candidates_ok [OF assms(1,2)] by blast
  have "set (dedupe ?ms) \<subseteq> set ?ms" using match.greedy_subset [of "sort_key strength ?ms"] by (simp add: dedupe_set)
  then show ?thesis using dedupe_apart(1) [OF ok] dedupe_covers [of _ ?ms]
    unfolding find_pii_eq [OF assms(3)] by fastforce
qed

subsection \<open>Redaction replaces exactly the matches\<close>

fun replacements :: "(string \<Rightarrow> string) \<Rightarrow> strategy \<Rightarrow> tally \<Rightarrow> pii_match list \<Rightarrow> string list" where
  "replacements digest st cs [] = []"
| "replacements digest st cs (m # ms) =
     (let (r, cs) = apply_strategy digest st m cs in r # replacements digest st cs ms)"

lemma redact_loop_weave:
  "fst (redact_loop digest st text cur cs summary ms)
     = weave (gaps text cur (map pm_span ms)) (replacements digest st cs ms)"
proof (induction ms arbitrary: cur cs summary)
  case (Cons m ms)
  obtain r cs' where r: "apply_strategy digest st m cs = (r, cs')" by fastforce
  obtain rest s where l: "redact_loop digest st text (pm_end m) cs' (bump_tally (pm_type m) summary) ms = (rest, s)"
    by fastforce
  show ?case using Cons.IH [of "pm_end m" cs' "bump_tally (pm_type m) summary"] by (simp add: r l pm_span_def)
qed simp

lemma values_weave:
  assumes "apart 0 (length text) (map pm_span ms)" "\<forall>m \<in> set ms. match_ok text m"
  shows "weave (gaps text 0 (map pm_span ms)) (map pm_value ms) = text"
proof -
  have "map pm_value ms = map (\<lambda>(i, j). slice i j text) (map pm_span ms)"
    using assms(2) by (auto simp: match_ok_def pm_span_def)
  then have "weave (gaps text 0 (map pm_span ms)) (map pm_value ms) = drop 0 text"
    using weave_gaps [OF assms(1), of "text"] by (simp only:)
  then show ?thesis by simp
qed

text \<open>redaction keeps every character outside the matches and replaces each matched value by its
  replacement: the text and the result interleave the same gaps, the one with the matched values
  and the other with the replacements.\<close>

theorem redact_pii_replaces:
  assumes "finder_ok re" "analyser_ok ner" "text \<noteq> []"
    "redact_pii re ner digest text strat tys mc = Some (out, n, summary)" "parse_strategy strat = Some st"
  shows "\<exists>gs ms. ms = find_pii re ner text (requested_types tys) mc True \<and> n = length ms
    \<and> text = weave gs (map pm_value ms) \<and> out = weave gs (replacements digest st [] ms)"
proof -
  let ?ms = "find_pii re ner text (requested_types tys) mc True"
  let ?gs = "gaps text 0 (map pm_span ?ms)"
  from find_pii_covers [OF assms(1-3)]
  have a: "apart 0 (length text) (map pm_span ?ms)" "set ?ms \<subseteq> set (candidates re ner text (requested_types tys) True)"
    by blast+
  then have "\<forall>m \<in> set ?ms. match_ok text m" using candidates_ok [OF assms(1,2)] by blast
  from values_weave [OF a(1) this] have "text = weave ?gs (map pm_value ?ms)" by simp
  moreover have "out = weave ?gs (replacements digest st [] ?ms)" "n = length ?ms"
    using assms(4,5) redact_loop_weave [of digest st "text" 0 "[]" "[]" ?ms]
    by (auto simp: redact_pii_def Let_def split: prod.splits)
  ultimately show ?thesis by blast
qed

subsection \<open>The card checksum\<close>

lemma luhn_term_inj: "d < 10 \<Longrightarrow> e < 10 \<Longrightarrow> luhn_term p i d = luhn_term p i e \<Longrightarrow> d = e"
  by (auto simp: luhn_term_def split: if_splits) presburger+

lemma luhn_term_less: "d < 10 \<Longrightarrow> luhn_term p i d < 10"
  by (auto simp: luhn_term_def)

lemma luhn_sum_update:
  "i < length ds \<Longrightarrow>
     luhn_sum p k (ds[i := d]) + luhn_term p (k + i) (ds ! i) = luhn_sum p k ds + luhn_term p (k + i) d"
proof (induction ds arbitrary: i k)
  case (Cons e ds)
  then show ?case
  proof (cases i)
    case (Suc j)
    then show ?thesis using Cons.IH [of j "Suc k"] Cons.prems by simp
  qed simp
qed simp

lemma digit_val_less: "is_digit c \<Longrightarrow> digit_val c < 10"
  by (simp add: is_digit_def digit_val_def Let_def) linarith

lemma digit_val_inj: "is_digit c \<Longrightarrow> is_digit d \<Longrightarrow> digit_val c = digit_val d \<Longrightarrow> c = d"
proof -
  assume "is_digit c" "is_digit d" "digit_val c = digit_val d"
  then have "(of_char c :: nat) = of_char d" unfolding is_digit_def digit_val_def code_def Let_def by linarith
  then show "c = d" by simp
qed

text \<open>the card check detects every single-digit error: a number that passes does not pass with one digit
  changed to another.\<close>

theorem luhn_detects_one_digit:
  assumes "luhn_ok s" "\<forall>c \<in> set s. is_digit c" "i < length s" "is_digit d" "d \<noteq> s ! i"
  shows "\<not> luhn_ok (s[i := d])"
proof
  assume ok: "luhn_ok (s[i := d])"
  let ?ds = "map digit_val s" and ?p = "length s mod 2"
  have f: "filter is_digit s = s" "filter is_digit (s[i := d]) = s[i := d]"
    using assms(2,4) set_update_subset_insert [of s i d] by (auto simp: filter_id_conv)
  have s: "luhn_sum ?p 0 ?ds mod 10 = 0" "luhn_sum ?p 0 (?ds[i := digit_val d]) mod 10 = 0"
    using assms(1) ok by (auto simp: luhn_ok_def f Let_def map_update split: if_splits)
  let ?a = "luhn_term ?p i (?ds ! i)" and ?b = "luhn_term ?p i (digit_val d)"
  have eq: "luhn_sum ?p 0 (?ds[i := digit_val d]) + ?a = luhn_sum ?p 0 ?ds + ?b"
    using luhn_sum_update [of i ?ds ?p 0 "digit_val d"] assms(3) by simp
  have lt: "?ds ! i < 10" "digit_val d < 10" using assms(2-4) by (simp_all add: digit_val_less)
  have "?a mod 10 = (luhn_sum ?p 0 (?ds[i := digit_val d]) + ?a) mod 10" using s(2) by (simp add: mod_add_left_eq [symmetric])
  also have "\<dots> = ?b mod 10" unfolding eq using s(1) by (simp add: mod_add_left_eq [symmetric])
  finally have "?a = ?b" using luhn_term_less [OF lt(1)] luhn_term_less [OF lt(2)] by simp
  then have "digit_val (s ! i) = digit_val d" using luhn_term_inj [OF lt] assms(3) by simp
  then show False using digit_val_inj assms(2-5) by (metis nth_mem)
qed

definition visa_number :: string where
  "visa_number = ''4111111111111111''"

theorem luhn_detects_one_digit_witness: "\<not> luhn_ok (visa_number[0 := CHR ''5''])"
proof (rule luhn_detects_one_digit)
  show "luhn_ok visa_number" by (simp add: luhn_ok_def visa_number_def is_digit_def digit_val_def code_def luhn_term_def)
qed (simp_all add: visa_number_def is_digit_def code_def)

subsection \<open>A concrete engine\<close>

text \<open>A finder that reports the first three characters as an e-mail address, and no analyser.\<close>

definition demo_finder :: finder where
  "demo_finder n s = (if n = 0 \<and> 3 \<le> length s then [(0, 3)] else [])"

definition no_analyser :: analyser where
  "no_analyser s w = []"

lemma demo_finder_ok: "finder_ok demo_finder"
  by (simp add: finder_ok_def demo_finder_def)

lemma no_analyser_ok: "analyser_ok no_analyser"
  by (simp add: analyser_ok_def no_analyser_def)

theorem find_pii_covers_witness:
  "apart 0 4 (map pm_span (find_pii demo_finder no_analyser ''a@bc'' None (1/2) True))"
  using find_pii_covers [OF demo_finder_ok no_analyser_ok, of "''a@bc''" None "1/2" True] by (simp add: numeral_eq_Suc)

lemma demo_redact:
  "redact_pii demo_finder no_analyser id ''a@bc'' ''remove'' [] (1/2) = Some (''c'', 1, [(''EMAIL_ADDRESS'', 1)])"
  by (simp add: redact_pii_def requested_types_def find_pii_def wanted_types_def opt_truthy_def
      pattern_matches_def patterns_def demo_finder_def ner_matches_def no_analyser_def dedupe_def greedy_def keep_def
      slice_def always_def apply_strategy_def bump_tally_def get_default_def Let_def)

theorem redact_pii_replaces_witness:
  "\<exists>gs ms. length ms = 1 \<and> ''a@bc'' = weave gs (map pm_value ms) \<and> ''c'' = weave gs (replacements id Remove [] ms)"
  using redact_pii_replaces [OF demo_finder_ok no_analyser_ok _ demo_redact, of Remove] by auto

end
