(* ===== verification/Security.thy ===== *)
theory Security
  imports Pii
begin

text \<open>
  The security scanner and the runtime guardrail, \<open>src/src/tools/security.py\<close>.  The regular expressions
  are parameters: \<open>secret_re n\<close> gives the spans of the captured group of rule \<open>n\<close>, \<open>signal_hits n\<close> the number
  of matches of injection signal \<open>n\<close>, \<open>placeholder_re\<close> the anchored placeholder pattern.  Rounded
  numbers of the reports are kept exact.
\<close>

subsection \<open>Secrets\<close>

text \<open>Bits of entropy per character.\<close>

definition shannon_entropy :: "string \<Rightarrow> real" where
  "shannon_entropy v = (if v = [] then 0 else
     - (\<Sum>c \<leftarrow> remdups v. (real (count_list v c) / real (length v)) * log 2 (real (count_list v c) / real (length v))))"

record secret_rule =
  sr_name :: string
  sr_severity :: string
  sr_min_entropy :: real

definition secret_rules :: "secret_rule list" where
  "secret_rules = map (\<lambda>(n, s, e). \<lparr>sr_name = n, sr_severity = s, sr_min_entropy = e\<rparr>)
    [(''aws_access_key_id'', ''critical'', 0), (''aws_secret_access_key'', ''critical'', 4),
     (''github_token'', ''critical'', 0), (''slack_token'', ''high'', 0), (''stripe_key'', ''critical'', 0),
     (''openai_key'', ''critical'', 0), (''anthropic_key'', ''critical'', 0), (''google_api_key'', ''critical'', 0),
     (''openrouter_key'', ''critical'', 0), (''private_key_block'', ''critical'', 0), (''jwt'', ''high'', 0),
     (''basic_auth_url'', ''high'', 0), (''connection_string_password'', ''high'', 2),
     (''generic_assigned_secret'', ''medium'', 35/10)]"

definition is_placeholder :: "(string \<Rightarrow> bool) \<Rightarrow> string \<Rightarrow> bool" where
  "is_placeholder placeholder_re v = (placeholder_re (strip v) \<or>
     (\<exists>m \<in> set [''your_'', ''yourkey'', ''example'', ''changeme'', ''placeholder'', ''xxxxx'', ''redacted''].
        contains m (lower v)))"

definition mask_secret :: "string \<Rightarrow> string" where
  "mask_secret v = (if length v \<le> 8 then stars (length v)
     else take 3 v @ stars (length v - 7) @ take_last 4 v)"

record secret =
  sc_rule :: string
  sc_severity :: string
  sc_start :: nat
  sc_end :: nat
  sc_line :: nat
  sc_entropy :: real
  sc_preview :: string

type_synonym secret_finder = "nat \<Rightarrow> string \<Rightarrow> (nat \<times> nat) list"

definition line_of :: "nat \<Rightarrow> string \<Rightarrow> nat" where
  "line_of i s = count_list (take i s) newline + 1"

text \<open>One match of one rule: the guards in the code's order; \<open>claimed\<close> holds the reported spans.\<close>

definition claim :: "(string \<Rightarrow> bool) \<Rightarrow> string \<Rightarrow> secret_rule \<times> nat \<times> nat
    \<Rightarrow> secret list \<times> (nat \<times> nat) list \<Rightarrow> secret list \<times> (nat \<times> nat) list" where
  "claim ph text c st = (case (c, st) of ((r, i, j), found, claimed) \<Rightarrow>
     (let v = slice i j text in
      if v = [] then st
      else if \<exists>(i', j') \<in> set claimed. i < j' \<and> i' < j then st
      else if is_placeholder ph v then st
      else if shannon_entropy v < sr_min_entropy r then st
      else (found @ [\<lparr>sc_rule = sr_name r, sc_severity = sr_severity r, sc_start = i, sc_end = j,
              sc_line = line_of i text, sc_entropy = shannon_entropy v, sc_preview = mask_secret v\<rparr>],
            claimed @ [(i, j)])))"

definition secret_matches :: "secret_finder \<Rightarrow> string \<Rightarrow> (secret_rule \<times> nat \<times> nat) list" where
  "secret_matches secret_re text =
     concat (map (\<lambda>(n, r). map (\<lambda>(i, j). (r, i, j)) (secret_re n text)) (enumerate 0 secret_rules))"

definition find_secrets :: "secret_finder \<Rightarrow> (string \<Rightarrow> bool) \<Rightarrow> string \<Rightarrow> secret list" where
  "find_secrets secret_re ph text = (if text = [] then []
     else sort_key sc_start (fst (fold (claim ph text) (secret_matches secret_re text) ([], []))))"

subsection \<open>Prompt injection\<close>

record signal =
  sg_name :: string
  sg_weight :: rat

definition signals :: "signal list" where
  "signals = map (\<lambda>(n, w). \<lparr>sg_name = n, sg_weight = w\<rparr>)
    [(''instruction_override'', 45/100), (''role_reassignment'', 2/10), (''system_prompt_exfiltration'', 4/10),
     (''credential_exfiltration'', 5/10), (''guardrail_bypass'', 4/10), (''fake_system_turn'', 35/100),
     (''tool_coercion'', 35/100), (''urgency_pressure'', 15/100), (''encoded_payload'', 25/100),
     (''delimiter_escape'', 3/10)]"

datatype risk = None_risk | Low | Medium | High

definition injection_risk :: "rat \<Rightarrow> risk" where
  "injection_risk score = (if score \<ge> 7/10 then High else if score \<ge> 4/10 then Medium
     else if score > 0 then Low else None_risk)"

definition contribution :: "rat \<Rightarrow> nat \<Rightarrow> rat" where
  "contribution w hits = w * (1 + of_nat (min (hits - 1) 3) * (15/100))"

record injection =
  ij_score :: rat
  ij_risk :: risk
  ij_signals :: "(string \<times> nat \<times> rat) list"

definition find_injection_signals :: "(nat \<Rightarrow> string \<Rightarrow> nat) \<Rightarrow> string \<Rightarrow> injection" where
  "find_injection_signals signal_hits text =
     (if text = [] then \<lparr>ij_score = 0, ij_risk = None_risk, ij_signals = []\<rparr>
      else let hits = filter (\<lambda>(s, h). h \<noteq> 0) (map (\<lambda>(n, s). (s, signal_hits n text)) (enumerate 0 signals));
               found = map (\<lambda>(s, h). (sg_name s, h, contribution (sg_weight s) h)) hits;
               capped = min (sum_list (map (\<lambda>(n, h, w). w) found)) 1
       in \<lparr>ij_score = capped, ij_risk = injection_risk capped, ij_signals = sort_key (\<lambda>(n, h, w). - w) found\<rparr>)"

subsection \<open>The combined scan\<close>

datatype verdict = Pass | Review | Block

fun ranking :: "verdict \<Rightarrow> nat" where
  "ranking Pass = 0"
| "ranking Review = 1"
| "ranking Block = 2"

instantiation verdict :: linorder
begin

definition less_eq_verdict :: "verdict \<Rightarrow> verdict \<Rightarrow> bool" where
  "less_eq_verdict a b \<longleftrightarrow> ranking a \<le> ranking b"

definition less_verdict :: "verdict \<Rightarrow> verdict \<Rightarrow> bool" where
  "less_verdict a b \<longleftrightarrow> ranking a < ranking b"

instance
proof
  fix x y :: verdict
  show "x \<le> y \<Longrightarrow> y \<le> x \<Longrightarrow> x = y" by (cases x; cases y) (simp_all add: less_eq_verdict_def)
qed (auto simp: less_eq_verdict_def less_verdict_def)

end

datatype reason = Credentials nat | Possible_credentials nat | Strong_injection | Possible_injection | Pii_present nat | No_issues

definition escalate :: "verdict \<Rightarrow> verdict \<Rightarrow> verdict" where
  "escalate level v = (if ranking level > ranking v then level else v)"

record scan_report =
  rp_secrets :: "secret list option"
  rp_injection :: "injection option"
  rp_pii :: "(nat \<times> tally) option"
  rp_verdict :: verdict
  rp_reasons :: "reason list"

record engines =
  en_secret_re :: secret_finder
  en_placeholder_re :: "string \<Rightarrow> bool"
  en_signal_hits :: "nat \<Rightarrow> string \<Rightarrow> nat"
  en_pii_re :: finder
  en_ner :: analyser
  en_digest :: "string \<Rightarrow> string"

definition wanted_checks :: "string \<Rightarrow> string set" where
  "wanted_checks checks =
     (let w = (\<lambda>p. lower (strip p)) ` {p \<in> set (split_on (CHR '','') checks). strip p \<noteq> []}
      in if w = {} then {''secrets'', ''injection'', ''pii''} else w)"

definition check_secrets :: "engines \<Rightarrow> string \<Rightarrow> scan_report \<Rightarrow> scan_report" where
  "check_secrets en text rp =
     (let fs = find_secrets (en_secret_re en) (en_placeholder_re en) text; rp = rp\<lparr>rp_secrets := Some fs\<rparr>
      in if \<exists>f \<in> set fs. sc_severity f \<in> {''critical'', ''high''} then
           rp\<lparr>rp_verdict := escalate Block (rp_verdict rp), rp_reasons := rp_reasons rp @ [Credentials (length fs)]\<rparr>
         else if fs \<noteq> [] then
           rp\<lparr>rp_verdict := escalate Review (rp_verdict rp), rp_reasons := rp_reasons rp @ [Possible_credentials (length fs)]\<rparr>
         else rp)"

definition check_injection :: "engines \<Rightarrow> string \<Rightarrow> scan_report \<Rightarrow> scan_report" where
  "check_injection en text rp =
     (let ij = find_injection_signals (en_signal_hits en) text; rp = rp\<lparr>rp_injection := Some ij\<rparr>
      in if ij_risk ij = High then
           rp\<lparr>rp_verdict := escalate Block (rp_verdict rp), rp_reasons := rp_reasons rp @ [Strong_injection]\<rparr>
         else if ij_risk ij = Medium then
           rp\<lparr>rp_verdict := escalate Review (rp_verdict rp), rp_reasons := rp_reasons rp @ [Possible_injection]\<rparr>
         else rp)"

definition check_pii :: "engines \<Rightarrow> string \<Rightarrow> scan_report \<Rightarrow> scan_report" where
  "check_pii en text rp =
     (let ms = find_pii (en_pii_re en) (en_ner en) text None (1/2) True;
          rp = rp\<lparr>rp_pii := Some (length ms, fold (\<lambda>m. bump_tally (pm_type m)) ms [])\<rparr>
      in if ms \<noteq> [] then
           rp\<lparr>rp_verdict := escalate Review (rp_verdict rp), rp_reasons := rp_reasons rp @ [Pii_present (length ms)]\<rparr>
         else rp)"

definition security_scan :: "engines \<Rightarrow> string \<Rightarrow> string \<Rightarrow> scan_report" where
  "security_scan en text checks =
     (let w = wanted_checks checks;
          rp = \<lparr>rp_secrets = None, rp_injection = None, rp_pii = None, rp_verdict = Pass, rp_reasons = []\<rparr>;
          rp = (if ''secrets'' \<in> w then check_secrets en text rp else rp);
          rp = (if ''injection'' \<in> w then check_injection en text rp else rp);
          rp = (if ''pii'' \<in> w then check_pii en text rp else rp)
      in if rp_reasons rp = [] then rp\<lparr>rp_reasons := [No_issues]\<rparr> else rp)"

subsection \<open>The guardrail\<close>

datatype guard_error = Unknown_mode string | Guardrail_error "reason list"

definition secret_tag :: "secret \<Rightarrow> string" where
  "secret_tag f = tag (''REDACTED:'' @ sc_rule f)"

definition redact_secrets :: "secret list \<Rightarrow> string \<Rightarrow> string" where
  "redact_secrets fs text = replace_back (map (\<lambda>f. ((sc_start f, sc_end f), secret_tag f)) fs) text"

text \<open>The result and the reports passed to \<open>on_violation\<close>.\<close>

definition enforce_guardrail ::
  "engines \<Rightarrow> string \<Rightarrow> string list \<Rightarrow> string \<Rightarrow> (guard_error + string) \<times> scan_report list"
where
  "enforce_guardrail en text checks mode =
     (if mode \<notin> {''warn'', ''redact'', ''block''} then (Inl (Unknown_mode mode), [])
      else let rp = security_scan en text (join '','' checks) in
        if rp_verdict rp = Pass then (Inr text, [])
        else if mode = ''block'' then (Inl (Guardrail_error (rp_reasons rp)), [rp])
        else if mode = ''redact'' then
          (let cleaned = redact_secrets (case rp_secrets rp of None \<Rightarrow> [] | Some fs \<Rightarrow> fs) text
           in (Inr (if rp_pii rp \<noteq> None
                 then (case redact_pii (en_pii_re en) (en_ner en) (en_digest en) cleaned ''placeholder'' [] (1/2) of
                         None \<Rightarrow> cleaned | Some (out, n, s) \<Rightarrow> out)
                 else cleaned), [rp]))
        else (Inr text, [rp]))"

subsection \<open>Secrets are chosen greedily in rule order\<close>

definition secret_ov :: "secret_rule \<times> nat \<times> nat \<Rightarrow> secret_rule \<times> nat \<times> nat \<Rightarrow> bool" where
  "secret_ov c d \<longleftrightarrow> overlaps (snd c) (snd d)"

interpretation claimed: spans secret_ov snd
  by unfold_locales (auto simp: secret_ov_def overlaps_def)

definition eligible :: "(string \<Rightarrow> bool) \<Rightarrow> string \<Rightarrow> secret_rule \<times> nat \<times> nat \<Rightarrow> bool" where
  "eligible ph text c \<longleftrightarrow> (let v = slice (fst (snd c)) (snd (snd c)) text in
     v \<noteq> [] \<and> \<not> is_placeholder ph v \<and> sr_min_entropy (fst c) \<le> shannon_entropy v)"

definition reported :: "string \<Rightarrow> secret_rule \<times> nat \<times> nat \<Rightarrow> secret" where
  "reported text c = (case c of (r, i, j) \<Rightarrow> let v = slice i j text in
     \<lparr>sc_rule = sr_name r, sc_severity = sr_severity r, sc_start = i, sc_end = j,
      sc_line = line_of i text, sc_entropy = shannon_entropy v, sc_preview = mask_secret v\<rparr>)"

lemma claim_keep:
  "claim ph text c (map (reported text) ks, map snd ks) =
     (let ks' = (if eligible ph text c then keep secret_ov c ks else ks) in (map (reported text) ks', map snd ks'))"
proof -
  obtain r i j where c: "c = (r, i, j)" by (cases c)
  have "(\<exists>(i', j') \<in> set (map snd ks). i < j' \<and> i' < j) \<longleftrightarrow> (\<exists>k \<in> set ks. secret_ov c k)"
    by (force simp: secret_ov_def overlaps_def c)
  then show ?thesis
    by (simp add: claim_def c eligible_def keep_def reported_def Let_def not_less [symmetric])
qed

lemma claim_fold:
  "fold (claim ph text) cs (map (reported text) ks, map snd ks) =
     (let ks' = fold (keep secret_ov) (filter (eligible ph text) cs) ks in (map (reported text) ks', map snd ks'))"
  by (induction cs arbitrary: ks) (simp_all add: claim_keep Let_def)

lemma find_secrets_greedy:
  "text \<noteq> [] \<Longrightarrow> find_secrets re ph text =
     sort_key sc_start (map (reported text) (greedy secret_ov (filter (eligible ph text) (secret_matches re text))))"
  using claim_fold [of ph "text" _ "[]"] by (simp add: find_secrets_def greedy_def Let_def)

definition secret_finder_ok :: "secret_finder \<Rightarrow> bool" where
  "secret_finder_ok re \<longleftrightarrow> (\<forall>n text i j. (i, j) \<in> set (re n text) \<longrightarrow> i \<le> j \<and> j \<le> length text)"

definition secret_span :: "secret \<Rightarrow> nat \<times> nat" where
  "secret_span f = (sc_start f, sc_end f)"

lemma secret_match_ok:
  assumes "secret_finder_ok re" "c \<in> set (secret_matches re text)" "eligible ph text c"
  shows "fst (snd c) < snd (snd c) \<and> snd (snd c) \<le> length text"
proof -
  obtain r i j where c: "c = (r, i, j)" by (cases c)
  with assms(2) obtain n where "(i, j) \<in> set (re n text)" by (auto simp: secret_matches_def)
  with assms c show ?thesis by (fastforce simp: secret_finder_ok_def eligible_def slice_Nil_iff Let_def)
qed

lemma find_secrets_chosen:
  "text \<noteq> [] \<Longrightarrow> find_secrets re ph text = map (reported text)
     (sort_key (\<lambda>c. fst (snd c)) (greedy secret_ov (filter (eligible ph text) (secret_matches re text))))"
proof -
  have "(\<lambda>c. sc_start (reported text c)) = (\<lambda>c. fst (snd c))" by (auto simp: reported_def fun_eq_iff Let_def)
  then show "text \<noteq> [] \<Longrightarrow> ?thesis" by (simp add: find_secrets_greedy sort_key_map)
qed

lemma span_reported: "secret_span (reported text c) = snd c"
  by (cases c) (simp add: reported_def secret_span_def Let_def)

lemma find_secrets_apart:
  assumes "secret_finder_ok re"
  shows "apart 0 (length text) (map secret_span (find_secrets re ph text))"
proof (cases "text = []")
  case False
  let ?g = "greedy secret_ov (filter (eligible ph text) (secret_matches re text))"
  have ok: "\<forall>c \<in> set ?g. fst (snd c) < snd (snd c) \<and> snd (snd c) \<le> length text"
    using claimed.greedy_subset secret_match_ok [OF assms] by fastforce
  have "secret_ov c c" if "c \<in> set (filter (eligible ph text) (secret_matches re text))" for c
    using secret_match_ok [OF assms, of c "text" ph] that by (simp add: secret_ov_def overlaps_def)
  then have "distinct ?g" unfolding greedy_def by (intro claimed.keep_distinct) auto
  then have "apart 0 (length text) (map snd (sort_key (\<lambda>c. fst (snd c)) ?g))"
    using ok claimed.greedy_pairwise by (intro claimed.sorted_apart) auto
  then show ?thesis by (simp add: find_secrets_chosen [OF False] comp_def span_reported)
qed (simp add: find_secrets_def)

text \<open>C21: the secret scanner reports ordered, non-overlapping spans of the text, every report is a match of its
  rule that is no placeholder and reaches the rule's entropy floor, and every such match is reported
  or overlaps a reported one.\<close>

theorem find_secrets_covers:
  assumes "secret_finder_ok re" "text \<noteq> []"
  shows "apart 0 (length text) (map secret_span (find_secrets re ph text))
    \<and> (\<forall>f \<in> set (find_secrets re ph text). \<exists>c \<in> set (secret_matches re text). eligible ph text c \<and> f = reported text c)
    \<and> (\<forall>c \<in> set (secret_matches re text). eligible ph text c \<longrightarrow>
         (\<exists>f \<in> set (find_secrets re ph text). overlaps (snd c) (secret_span f)))"
proof -
  let ?xs = "filter (eligible ph text) (secret_matches re text)"
  have fs: "set (find_secrets re ph text) = reported text ` set (greedy secret_ov ?xs)"
    by (simp add: find_secrets_chosen [OF assms(2)])
  have "\<exists>k \<in> set (greedy secret_ov ?xs). overlaps (snd c) (snd k)" if c: "c \<in> set ?xs" for c
  proof -
    have "secret_ov c c" using secret_match_ok [OF assms(1), of c "text" ph] c by (simp add: secret_ov_def overlaps_def)
    moreover obtain ys zs where "?xs = ys @ c # zs" using c by (meson split_list)
    ultimately show ?thesis using claimed.greedy_covers [of ?xs ys c zs] by (auto simp: secret_ov_def)
  qed
  then have "\<forall>c \<in> set (secret_matches re text). eligible ph text c \<longrightarrow>
      (\<exists>f \<in> set (find_secrets re ph text). overlaps (snd c) (secret_span f))"
    by (auto simp: fs span_reported)
  moreover have "set (greedy secret_ov ?xs) \<subseteq> set ?xs" by (rule claimed.greedy_subset)
  ultimately show ?thesis using find_secrets_apart [OF assms(1)] by (auto simp: fs)
qed

subsection \<open>The verdict\<close>

lemma escalate_max: "escalate l v = max v l"
  by (cases l; cases v) (simp_all add: escalate_def max_def less_eq_verdict_def)

text \<open>The level each requested check asks for.\<close>

definition secrets_level :: "secret list \<Rightarrow> verdict" where
  "secrets_level fs = (if \<exists>f \<in> set fs. sc_severity f \<in> {''critical'', ''high''} then Block
     else if fs \<noteq> [] then Review else Pass)"

definition injection_level :: "injection \<Rightarrow> verdict" where
  "injection_level ij = (case ij_risk ij of High \<Rightarrow> Block | Medium \<Rightarrow> Review | _ \<Rightarrow> Pass)"

lemma check_verdict:
  "rp_verdict (check_secrets en text rp)
     = max (rp_verdict rp) (secrets_level (find_secrets (en_secret_re en) (en_placeholder_re en) text))"
  "rp_verdict (check_injection en text rp)
     = max (rp_verdict rp) (injection_level (find_injection_signals (en_signal_hits en) text))"
  "rp_verdict (check_pii en text rp)
     = max (rp_verdict rp) (if find_pii (en_pii_re en) (en_ner en) text None (1/2) True = [] then Pass else Review)"
proof -
  have p: "max v Pass = v" for v by (cases v) (simp_all add: max_def less_eq_verdict_def)
  show "rp_verdict (check_secrets en text rp)
     = max (rp_verdict rp) (secrets_level (find_secrets (en_secret_re en) (en_placeholder_re en) text))"
    by (simp add: check_secrets_def secrets_level_def Let_def escalate_max p)
  show "rp_verdict (check_injection en text rp)
     = max (rp_verdict rp) (injection_level (find_injection_signals (en_signal_hits en) text))"
    by (simp add: check_injection_def injection_level_def Let_def escalate_max p split: risk.split)
  show "rp_verdict (check_pii en text rp)
     = max (rp_verdict rp) (if find_pii (en_pii_re en) (en_ner en) text None (1/2) True = [] then Pass else Review)"
    by (simp add: check_pii_def Let_def escalate_max p)
qed

lemma check_fields:
  "rp_secrets (check_injection en text rp) = rp_secrets rp" "rp_secrets (check_pii en text rp) = rp_secrets rp"
  "rp_pii (check_secrets en text rp) = rp_pii rp" "rp_pii (check_injection en text rp) = rp_pii rp"
  "rp_secrets (check_secrets en text rp) = Some (find_secrets (en_secret_re en) (en_placeholder_re en) text)"
  "rp_pii (check_pii en text rp) \<noteq> None"
  by (auto simp: check_secrets_def check_injection_def check_pii_def Let_def)

text \<open>the verdict of a scan is the most severe of the levels its requested checks ask for: block for a
  critical or high secret or a high injection risk, review for any other secret, a medium risk or
  any PII, and pass otherwise.\<close>

theorem security_scan_verdict:
  "rp_verdict (security_scan en text checks) =
     max (if ''secrets'' \<in> wanted_checks checks
          then secrets_level (find_secrets (en_secret_re en) (en_placeholder_re en) text) else Pass)
     (max (if ''injection'' \<in> wanted_checks checks
          then injection_level (find_injection_signals (en_signal_hits en) text) else Pass)
          (if ''pii'' \<in> wanted_checks checks \<and> find_pii (en_pii_re en) (en_ner en) text None (1/2) True \<noteq> []
          then Review else Pass))"
proof -
  have p: "max Pass v = v" "max v Pass = v" for v by (cases v; simp add: max_def less_eq_verdict_def)+
  show ?thesis by (simp add: security_scan_def Let_def check_verdict p max.assoc)
qed

subsection \<open>Redaction by the guardrail\<close>

lemma scan_secrets: "rp_secrets (security_scan en text checks) =
   (if ''secrets'' \<in> wanted_checks checks then Some (find_secrets (en_secret_re en) (en_placeholder_re en) text) else None)"
  by (simp add: security_scan_def Let_def check_fields)

lemma scan_pii: "rp_pii (security_scan en text checks) = None \<longleftrightarrow> ''pii'' \<notin> wanted_checks checks"
  by (simp add: security_scan_def Let_def check_fields)

text \<open>in redact mode, when the secrets check is requested and the PII check is not, a text that does not
  pass comes back with every reported secret replaced by its tag and every other character
  unchanged.\<close>

theorem guardrail_redacts_secrets:
  assumes "secret_finder_ok (en_secret_re en)" "''secrets'' \<in> wanted_checks (join '','' checks)"
    "''pii'' \<notin> wanted_checks (join '','' checks)" "rp_verdict (security_scan en text (join '','' checks)) \<noteq> Pass"
  shows "\<exists>gs out rp. enforce_guardrail en text checks ''redact'' = (Inr out, [rp])
    \<and> text = weave gs (map (\<lambda>f. slice (sc_start f) (sc_end f) text) (find_secrets (en_secret_re en) (en_placeholder_re en) text))
    \<and> out = weave gs (map secret_tag (find_secrets (en_secret_re en) (en_placeholder_re en) text))"
proof -
  let ?fs = "find_secrets (en_secret_re en) (en_placeholder_re en) text"
  let ?gs = "gaps text 0 (map secret_span ?fs)"
  have a: "apart 0 (length text) (map secret_span ?fs)" by (rule find_secrets_apart [OF assms(1)])
  have "redact_secrets ?fs text = weave ?gs (map secret_tag ?fs)"
    using replace_back_weave [of "text" "map (\<lambda>f. ((sc_start f, sc_end f), secret_tag f)) ?fs"] a
    by (simp add: redact_secrets_def comp_def secret_span_def [abs_def])
  moreover have "text = weave ?gs (map (\<lambda>f. slice (sc_start f) (sc_end f) text) ?fs)"
    using weave_gaps [OF a, of "text"] by (simp add: comp_def secret_span_def)
  moreover have "enforce_guardrail en text checks ''redact'' =
      (Inr (redact_secrets ?fs text), [security_scan en text (join '','' checks)])"
    using assms scan_secrets [of en "text" "join '','' checks"] scan_pii [of en "text" "join '','' checks"]
    by (simp add: enforce_guardrail_def Let_def)
  ultimately show ?thesis by auto
qed

subsection \<open>Concrete engines\<close>

text \<open>Engines that see a token in the first three characters, every injection signal once, and no PII.\<close>

definition demo_engines :: engines where
  "demo_engines = \<lparr>en_secret_re = (\<lambda>n s. if n = 0 \<and> 3 \<le> length s then [(0, 3)] else []),
     en_placeholder_re = (\<lambda>s. False), en_signal_hits = (\<lambda>n s. 1), en_pii_re = (\<lambda>n s. []),
     en_ner = no_analyser, en_digest = id\<rparr>"

lemma demo_secret_finder_ok: "secret_finder_ok (en_secret_re demo_engines)"
  by (simp add: secret_finder_ok_def demo_engines_def)

theorem find_secrets_covers_witness:
  "apart 0 5 (map secret_span (find_secrets (en_secret_re demo_engines) (en_placeholder_re demo_engines) ''AKIA1''))"
  using find_secrets_covers [OF demo_secret_finder_ok, of "''AKIA1''" "en_placeholder_re demo_engines"]
  by (simp add: numeral_eq_Suc)

lemma demo_checks: "wanted_checks ''secrets,injection'' = {''secrets'', ''injection''}"
  by code_simp

lemma demo_blocks: "rp_verdict (security_scan demo_engines ''AKIA1'' (join '','' [''secrets'', ''injection''])) \<noteq> Pass"
proof -
  have "injection_level (find_injection_signals (en_signal_hits demo_engines) ''AKIA1'') = Block"
    by (simp add: injection_level_def find_injection_signals_def demo_engines_def signals_def contribution_def
        injection_risk_def Let_def)
  then have "Block \<le> rp_verdict (security_scan demo_engines ''AKIA1'' (join '','' [''secrets'', ''injection'']))"
    by (simp add: security_scan_def Let_def check_verdict demo_checks)
  then show ?thesis by (auto simp: less_eq_verdict_def)
qed

theorem guardrail_redacts_secrets_witness:
  "\<exists>out rp. enforce_guardrail demo_engines ''AKIA1'' [''secrets'', ''injection''] ''redact'' = (Inr out, [rp])"
proof -
  show ?thesis using guardrail_redacts_secrets [OF demo_secret_finder_ok _ _ demo_blocks] by (auto simp: demo_checks)
qed

end
