(* ===== verification/Versioned_Config.thy ===== *)
theory Versioned_Config
  imports Prelude "HOL-Library.Char_ord" "HOL-Library.List_Lexorder"
begin

text \<open>
  Versioned configurations with optimistic locking, \<open>src/src/config/versioned_service.py\<close>.  The table
  \<open>config_snapshots\<close> is the list of its rows in insertion order; the session factory sets
  \<open>autoflush=False\<close> (\<open>src/src/infrastructure/database/connection.py\<close>), so the queries of the retention policy
  do not see the snapshot added just before.  SHA-256 over the canonical JSON is the parameter \<open>digest\<close>;
  the clock and the fresh UUID are arguments.  Calls of the audit logger are left out.
\<close>

subsection \<open>Rows\<close>

type_synonym config = "(string, json) odict"

type_synonym config_key = "string \<times> string"

record snapshot =
  sn_id :: nat
  sn_key :: config_key
  sn_version :: nat
  sn_etag :: string
  sn_data :: config
  sn_created :: int
  sn_by :: "string option"
  sn_summary :: "string option"

type_synonym snapshots = "snapshot list"

text \<open>Python equality of JSON values: booleans, integers and floats compare as numbers, dictionaries without
  regard to order.\<close>

primrec canon :: "json \<Rightarrow> json" where
  "canon JNull = JNull"
| "canon (JBool b) = JFloat (if b then 1 else 0)"
| "canon (JInt i) = JFloat (of_int i)"
| "canon (JFloat r) = JFloat r"
| "canon (JStr s) = JStr s"
| "canon (JList xs) = JList (map canon xs)"
| "canon (JObj kvs) = JObj (sort_key fst (map (map_prod id canon) kvs))"

definition json_eq :: "json \<Rightarrow> json \<Rightarrow> bool" where
  "json_eq a b \<longleftrightarrow> canon a = canon b"

subsection \<open>Reading\<close>

definition rows_of :: "config_key \<Rightarrow> snapshots \<Rightarrow> snapshots" where
  "rows_of k db = filter (\<lambda>s. sn_key s = k) db"

text \<open>\<open>order_by(desc(version)).limit(1)\<close>\<close>

definition get_config :: "config_key \<Rightarrow> snapshots \<Rightarrow> snapshot option" where
  "get_config k db = (case rev (sort_key sn_version (rows_of k db)) of [] \<Rightarrow> None | s # _ \<Rightarrow> Some s)"

definition get_config_history :: "config_key \<Rightarrow> nat \<Rightarrow> snapshots \<Rightarrow> snapshots" where
  "get_config_history k limit db = take limit (rev (sort_key sn_version (rows_of k db)))"

subsection \<open>Writing\<close>

record diff =
  df_added :: "string set"
  df_removed :: "string set"
  df_modified :: "(string \<times> json \<times> json) set"

definition compute_diff :: "config \<Rightarrow> config \<Rightarrow> diff" where
  "compute_diff cur prop =
     \<lparr>df_added = set (keys prop) - set (keys cur), df_removed = set (keys cur) - set (keys prop),
      df_modified = (\<lambda>k. (k, jget cur k, jget prop k)) `
        {k \<in> set (keys cur) \<inter> set (keys prop). \<not> json_eq (jget cur k) (jget prop k)}\<rparr>"

record conflict =
  cf_version :: nat
  cf_etag :: string
  cf_config :: config
  cf_provided_version :: "nat option"
  cf_provided_etag :: "string option"
  cf_diff :: diff

datatype update_result = Updated string | Conflicted conflict | Bad_token

text \<open>The latest \<open>max_snapshots\<close> committed rows of the key stay; the snapshot added in this session is not
  among the rows the policy sees.\<close>

definition apply_retention_policy :: "nat \<Rightarrow> config_key \<Rightarrow> snapshots \<Rightarrow> snapshots" where
  "apply_retention_policy max_snapshots k db =
     (let count = length (rows_of k db) in
      if count > max_snapshots then
        (let ids = map sn_id (take (count - max_snapshots) (sort_key sn_version (rows_of k db)))
         in filter (\<lambda>s. sn_id s \<notin> set ids) db)
      else db)"

record config_write =
  wr_key :: config_key
  wr_data :: config
  wr_user :: "string option"
  wr_summary :: "string option"
  wr_now :: int
  wr_id :: nat

definition user_str :: "string option \<Rightarrow> string option" where
  "user_str u = (if opt_truthy u then u else None)"

definition new_row :: "(config \<Rightarrow> string) \<Rightarrow> config_write \<Rightarrow> nat \<Rightarrow> string option \<Rightarrow> snapshot" where
  "new_row digest w v summary = \<lparr>sn_id = wr_id w, sn_key = wr_key w, sn_version = v, sn_etag = digest (wr_data w),
     sn_data = wr_data w, sn_created = wr_now w, sn_by = user_str (wr_user w), sn_summary = summary\<rparr>"

text \<open>\<open>str.isdigit\<close> also holds for superscript digits, on which \<open>int\<close> raises.\<close>

definition py_isdigit :: "char \<Rightarrow> bool" where
  "py_isdigit c \<longleftrightarrow> is_digit c \<or> code c \<in> {178, 179, 185}"

definition nat_of :: "string \<Rightarrow> nat" where
  "nat_of s = foldl (\<lambda>n c. 10 * n + (code c - 48)) 0 s"

datatype token_check = Token_ok | Token_conflict "nat option" "string option" | Token_bad

definition check_token :: "string option \<Rightarrow> snapshot \<Rightarrow> token_check" where
  "check_token tok cur =
     (if \<not> opt_truthy tok then Token_ok
      else if list_all py_isdigit (the tok) then
        (if \<not> list_all is_digit (the tok) then Token_bad
         else if nat_of (the tok) \<noteq> sn_version cur then Token_conflict (Some (nat_of (the tok))) None else Token_ok)
      else if the tok \<noteq> sn_etag cur then Token_conflict None tok else Token_ok)"

text \<open>\<open>update_config\<close> after its \<open>get_config\<close> has answered \<open>cur\<close>, on the table as it is when the write is made.\<close>

definition update_from ::
  "(config \<Rightarrow> string) \<Rightarrow> nat \<Rightarrow> string option \<Rightarrow> config_write \<Rightarrow> snapshot option \<Rightarrow> snapshots \<Rightarrow> update_result \<times> snapshots"
where
  "update_from digest max_snapshots tok w cur db =
     (case cur of
        None \<Rightarrow> (Updated (digest (wr_data w)),
          db @ [new_row digest w 1 (Some (opt_or (wr_summary w) ''Initial configuration''))])
      | Some c \<Rightarrow> (case check_token tok c of
            Token_bad \<Rightarrow> (Bad_token, db)
          | Token_conflict pv pe \<Rightarrow>
              (Conflicted \<lparr>cf_version = sn_version c, cf_etag = sn_etag c, cf_config = sn_data c,
                 cf_provided_version = pv, cf_provided_etag = pe, cf_diff = compute_diff (sn_data c) (wr_data w)\<rparr>, db)
          | Token_ok \<Rightarrow> (Updated (digest (wr_data w)),
              apply_retention_policy max_snapshots (wr_key w) db @ [new_row digest w (sn_version c + 1) (wr_summary w)])))"

definition update_config ::
  "(config \<Rightarrow> string) \<Rightarrow> nat \<Rightarrow> string option \<Rightarrow> config_write \<Rightarrow> snapshots \<Rightarrow> update_result \<times> snapshots"
where
  "update_config digest max_snapshots tok w db = update_from digest max_snapshots tok w (get_config (wr_key w) db) db"

datatype rollback_result = Rolled_back string | Version_not_found nat | Config_not_found | Multiple_rows

text \<open>The data of \<open>w\<close> is replaced by the target's; \<open>scalar_one_or_none\<close> raises on several rows.\<close>

definition rollback_config ::
  "(config \<Rightarrow> string) \<Rightarrow> nat \<Rightarrow> nat \<Rightarrow> config_write \<Rightarrow> snapshots \<Rightarrow> rollback_result \<times> snapshots"
where
  "rollback_config digest max_snapshots target w db =
     (case filter (\<lambda>s. sn_version s = target) (rows_of (wr_key w) db) of
        [] \<Rightarrow> (Version_not_found target, db)
      | [t] \<Rightarrow> (case get_config (wr_key w) db of
            None \<Rightarrow> (Config_not_found, db)
          | Some c \<Rightarrow> (let w = w\<lparr>wr_data := sn_data t\<rparr> in
              (Rolled_back (digest (sn_data t)),
               apply_retention_policy max_snapshots (wr_key w) db
                 @ [new_row digest w (sn_version c + 1) (Some (''Rollback to version '' @ nat_str target))])))
      | _ \<Rightarrow> (Multiple_rows, db))"

subsection \<open>The contract: a list of accepted configurations\<close>

text \<open>Abstractly a key has the list of all configurations ever accepted.  The version of the latest one is
  the length of the list; the table holds its last \<open>max_snapshots + 1\<close> entries.\<close>

type_synonym accepted = "config_key \<Rightarrow> config list"

definition numbered :: "config list \<Rightarrow> (nat \<times> config) list" where
  "numbered h = zip [1..<Suc (length h)] h"

definition sn_view :: "snapshot \<Rightarrow> nat \<times> config" where
  "sn_view s = (sn_version s, sn_data s)"

definition represents :: "(config \<Rightarrow> string) \<Rightarrow> nat \<Rightarrow> snapshots \<Rightarrow> accepted \<Rightarrow> bool" where
  "represents digest n db h \<longleftrightarrow> distinct (map sn_id db) \<and> (\<forall>s \<in> set db. sn_etag s = digest (sn_data s))
     \<and> (\<forall>k. map sn_view (rows_of k db) = take_last (Suc n) (numbered (h k)))"

definition token_accepted :: "(config \<Rightarrow> string) \<Rightarrow> string option \<Rightarrow> config list \<Rightarrow> bool" where
  "token_accepted digest tok h \<longleftrightarrow> h = [] \<or> \<not> opt_truthy tok
     \<or> (if list_all is_digit (the tok) then nat_of (the tok) = length h else the tok = digest (last h))"

definition well_formed_token :: "string option \<Rightarrow> bool" where
  "well_formed_token tok \<longleftrightarrow> (\<forall>t. tok = Some t \<longrightarrow> list_all py_isdigit t \<longrightarrow> list_all is_digit t)"

definition spec_update :: "(config \<Rightarrow> string) \<Rightarrow> string option \<Rightarrow> config_key \<Rightarrow> config \<Rightarrow> accepted \<Rightarrow> accepted option" where
  "spec_update digest tok k d h = (if token_accepted digest tok (h k) then Some (h(k := h k @ [d])) else None)"

lemma length_numbered [simp]: "length (numbered h) = length h"
  by (simp add: numbered_def del: upt_Suc)

lemma numbered_Nil_iff [simp]: "numbered h = [] \<longleftrightarrow> h = []"
  by (metis length_0_conv length_numbered)

lemma numbered_Nil [simp]: "numbered [] = []"
  by simp

lemma filter_key: "distinct (map f xs) \<Longrightarrow> s \<in> set xs \<Longrightarrow> filter (\<lambda>x. f x = f s) xs = [s]"
  by (induction xs) (auto simp: filter_empty_conv, metis imageI)

lemma numbered_snoc: "numbered (h @ [d]) = numbered h @ [(Suc (length h), d)]"
proof -
  have "[1..<Suc (length (h @ [d]))] = [1..<Suc (length h)] @ [Suc (length h)]" by simp
  then show ?thesis unfolding numbered_def by (simp del: upt_Suc)
qed

lemma last_numbered: "h \<noteq> [] \<Longrightarrow> last (numbered h) = (length h, last h)"
  by (cases h rule: rev_cases) (simp_all add: numbered_snoc)

lemma numbered_sorted: "sorted (map fst (numbered h))" "distinct (map fst (numbered h))"
  by (simp_all add: numbered_def del: upt_Suc)

lemma last_take_last: "xs \<noteq> [] \<Longrightarrow> last (take_last (Suc n) xs) = last xs"
  by (simp add: take_last_def)

lemma take_last_Nil_iff: "take_last (Suc n) xs = [] \<longleftrightarrow> xs = []"
  by (cases xs) (auto simp: take_last_def)

lemma representsD: "represents digest n db h \<Longrightarrow> map sn_view (rows_of k db) = take_last (Suc n) (numbered (h k))"
  unfolding represents_def by blast

lemma rows_versions:
  assumes "represents digest n db h"
  shows "sorted (map sn_version (rows_of k db))" "distinct (map sn_version (rows_of k db))"
proof -
  have "map sn_version (rows_of k db) = map fst (map sn_view (rows_of k db))" by (simp add: sn_view_def comp_def)
  also have "\<dots> = take_last (Suc n) (map fst (numbered (h k)))"
    unfolding representsD [OF assms] by (simp add: take_last_def drop_map)
  finally show "sorted (map sn_version (rows_of k db))" "distinct (map sn_version (rows_of k db))"
    using numbered_sorted [of "h k"] by (simp_all add: take_last_def sorted_wrt_drop distinct_drop)
qed

lemma rows_sorted: "represents digest n db h \<Longrightarrow> sort_key sn_version (rows_of k db) = rows_of k db"
  by (rule sort_key_id_if_sorted) (rule rows_versions(1))

lemma get_config_last:
  assumes "represents digest n db h"
  shows "get_config k db = (if h k = [] then None else Some (last (rows_of k db)))"
    "h k \<noteq> [] \<Longrightarrow> sn_version (last (rows_of k db)) = length (h k)"
    "h k \<noteq> [] \<Longrightarrow> sn_data (last (rows_of k db)) = last (h k)"
    "h k \<noteq> [] \<Longrightarrow> sn_etag (last (rows_of k db)) = digest (last (h k))"
proof -
  let ?r = "rows_of k db"
  have v: "map sn_view ?r = take_last (Suc n) (numbered (h k))" by (rule representsD [OF assms])
  have nil: "?r = [] \<longleftrightarrow> h k = []"
    using v take_last_Nil_iff [of n "numbered (h k)"] by auto
  show "get_config k db = (if h k = [] then None else Some (last ?r))"
    using nil unfolding get_config_def rows_sorted [OF assms] by (cases ?r rule: rev_cases) auto
  assume ne: "h k \<noteq> []"
  then have "sn_view (last ?r) = last (map sn_view ?r)" using nil by (simp add: last_map)
  also have "\<dots> = (length (h k), last (h k))"
    using ne by (simp add: v last_take_last last_numbered)
  finally show l: "sn_version (last ?r) = length (h k)" "sn_data (last ?r) = last (h k)"
    by (simp_all add: sn_view_def)
  have "last ?r \<in> set db" using ne nil last_in_set [of ?r] by (auto simp: rows_of_def)
  then show "sn_etag (last ?r) = digest (last (h k))" using assms l(2) by (simp add: represents_def)
qed

text \<open>After retention the key keeps its latest \<open>n\<close> rows and every other key keeps all of its rows.\<close>

lemma retention_rows:
  assumes "represents digest n db h"
  shows "map sn_view (rows_of k (apply_retention_policy n k db)) = take_last n (numbered (h k))"
    "k' \<noteq> k \<Longrightarrow> rows_of k' (apply_retention_policy n k db) = rows_of k' db"
    "set (apply_retention_policy n k db) \<subseteq> set db" "distinct (map sn_id (apply_retention_policy n k db))"
proof -
  let ?r = "rows_of k db" and ?db = "apply_retention_policy n k db"
  define dc where "dc = length ?r - n"
  have v: "map sn_view ?r = take_last (Suc n) (numbered (h k))" by (rule representsD [OF assms])
  have d: "distinct (map sn_id db)" using assms by (simp add: represents_def)
  have dr: "distinct (map sn_id ?r)" using d by (simp add: rows_of_def distinct_map_filter)
  have eq: "?db = filter (\<lambda>s. sn_id s \<notin> set (map sn_id (take dc ?r))) db"
    by (simp add: apply_retention_policy_def rows_sorted [OF assms] Let_def dc_def)
  have "rows_of k ?db = filter (\<lambda>s. sn_id s \<notin> set (map sn_id (take dc ?r))) ?r"
    unfolding eq rows_of_def filter_filter by (rule filter_cong) auto
  also have "\<dots> = drop dc ?r"
  proof -
    have "filter (\<lambda>s. sn_id s \<notin> set (map sn_id (take dc ?r))) (take dc ?r @ drop dc ?r) = drop dc ?r"
    proof -
      have "distinct (map sn_id (take dc ?r @ drop dc ?r))" using dr by simp
      then have "set (map sn_id (take dc ?r)) \<inter> set (map sn_id (drop dc ?r)) = {}"
        unfolding map_append distinct_append by blast
      then show ?thesis unfolding filter_append by (auto simp: filter_empty_conv filter_id_conv)
    qed
    then show ?thesis by simp
  qed
  finally have rk: "rows_of k ?db = drop dc ?r" .
  have len: "length ?r = min (Suc n) (length (h k))" using v length_map [of sn_view ?r] by simp
  have "map sn_view (drop dc ?r) = drop dc (take_last (Suc n) (numbered (h k)))" by (simp add: v flip: drop_map)
  also have "\<dots> = take_last n (numbered (h k))"
    unfolding dc_def len take_last_def by (simp add: min_def Suc_diff_Suc Suc_le_eq)
  finally show "map sn_view (rows_of k ?db) = take_last n (numbered (h k))" unfolding rk .
  show "set ?db \<subseteq> set db" "distinct (map sn_id ?db)" unfolding eq using d by (auto simp: distinct_map_filter)
  show "rows_of k' ?db = rows_of k' db" if "k' \<noteq> k"
  proof -
    have "sn_id s \<notin> set (map sn_id (take dc ?r))" if s: "s \<in> set db" "sn_key s = k'" for s
    proof
      assume "sn_id s \<in> set (map sn_id (take dc ?r))"
      then obtain t where t: "t \<in> set ?r" "sn_id t = sn_id s" by (auto dest: in_set_takeD)
      then have "t \<in> set db" "sn_key t = k" by (auto simp: rows_of_def)
      then have "t = s" using d s(1) t(2) by (simp add: distinct_map inj_on_def)
      with \<open>sn_key t = k\<close> s(2) \<open>k' \<noteq> k\<close> show False by simp
    qed
    then show ?thesis unfolding eq rows_of_def filter_filter by (intro filter_cong) auto
  qed
qed

lemma represents_write:
  assumes "represents digest n db h" "wr_id w \<notin> set (map sn_id db)" "v = Suc (length (h (wr_key w)))"
    "kept = (if h (wr_key w) = [] then db else apply_retention_policy n (wr_key w) db)"
  shows "represents digest n (kept @ [new_row digest w v su]) (h(wr_key w := h (wr_key w) @ [wr_data w]))"
proof -
  let ?k = "wr_key w"
  have kept: "map sn_view (rows_of ?k kept) = take_last n (numbered (h ?k)) \<and> set kept \<subseteq> set db \<and> distinct (map sn_id kept)
      \<and> (\<forall>k'. k' \<noteq> ?k \<longrightarrow> rows_of k' kept = rows_of k' db)"
  proof (cases "h ?k = []")
    case True
    then have "map sn_view (rows_of ?k db) = []" using representsD [OF assms(1), of ?k] take_last_Nil_iff [of n "[]"] by simp
    then show ?thesis using True assms(1,4) by (simp add: represents_def take_last_def)
  next
    case False
    then have "kept = apply_retention_policy n ?k db" using assms(4) by simp
    then show ?thesis using retention_rows [OF assms(1)] by simp
  qed
  have row: "sn_view (new_row digest w v su) = (Suc (length (h ?k)), wr_data w)" "sn_key (new_row digest w v su) = ?k"
    "sn_etag (new_row digest w v su) = digest (sn_data (new_row digest w v su))" "sn_id (new_row digest w v su) = wr_id w"
    by (simp_all add: new_row_def sn_view_def assms(3))
  have "map sn_view (rows_of k (kept @ [new_row digest w v su]))
      = take_last (Suc n) (numbered ((h(?k := h ?k @ [wr_data w])) k))" for k
  proof (cases "k = ?k")
    case True
    then show ?thesis using kept row(1,2)
      by (simp add: rows_of_def numbered_snoc take_last_snoc_Suc)
  next
    case False
    then have "rows_of k kept = rows_of k db" using kept by blast
    then show ?thesis using False row(2) representsD [OF assms(1), of k] by (simp add: rows_of_def)
  qed
  moreover have "wr_id w \<notin> set (map sn_id kept)" using assms(2) kept by auto
  moreover have "\<forall>s \<in> set (kept @ [new_row digest w v su]). sn_etag s = digest (sn_data s)"
    using assms(1) kept row(3) by (auto simp: represents_def)
  ultimately show ?thesis using kept row(4) unfolding represents_def by simp
qed

lemma check_token_spec:
  assumes "represents digest n db h" "h k \<noteq> []" "well_formed_token tok"
  shows "check_token tok (last (rows_of k db)) = Token_ok \<longleftrightarrow> token_accepted digest tok (h k)"
    "check_token tok (last (rows_of k db)) \<noteq> Token_bad"
proof -
  note g = get_config_last(2-4) [OF assms(1,2)]
  have digits: "list_all py_isdigit t \<longleftrightarrow> list_all is_digit t" if "tok = Some t" for t
    using assms(3) that by (auto simp: well_formed_token_def py_isdigit_def list_all_iff)
  show "check_token tok (last (rows_of k db)) = Token_ok \<longleftrightarrow> token_accepted digest tok (h k)"
    "check_token tok (last (rows_of k db)) \<noteq> Token_bad"
    using digits assms(2) by (auto simp: check_token_def token_accepted_def g opt_truthy_def split: option.splits)
qed

text \<open>C15: the versioned store refines the list of accepted configurations of each key: an update is accepted
  exactly when the key is new, no token is given, or the token is the current version number or the
  current ETag; then the new configuration becomes the latest with the next version, and a rejected
  update changes nothing.\<close>

theorem update_config_refines:
  assumes "represents digest n db h" "wr_id w \<notin> set (map sn_id db)" "well_formed_token tok"
    "update_config digest n tok w db = (res, db')"
  shows "case spec_update digest tok (wr_key w) (wr_data w) h of
      None \<Rightarrow> db' = db \<and> (\<exists>c. res = Conflicted c \<and> cf_version c = length (h (wr_key w)) \<and> cf_config c = last (h (wr_key w)))
    | Some h' \<Rightarrow> res = Updated (digest (wr_data w)) \<and> represents digest n db' h'"
proof (cases "h (wr_key w) = []")
  case True
  then have "get_config (wr_key w) db = None" using get_config_last(1) [OF assms(1)] by simp
  then show ?thesis using assms(4) represents_write [OF assms(1,2) _ refl] True
    by (auto simp: update_config_def update_from_def spec_update_def token_accepted_def)
next
  case False
  let ?c = "last (rows_of (wr_key w) db)"
  have g: "get_config (wr_key w) db = Some ?c" using get_config_last(1) [OF assms(1)] False by simp
  note v = get_config_last(2,3) [OF assms(1) False]
  note t = check_token_spec [OF assms(1) False assms(3)]
  show ?thesis
  proof (cases "check_token tok ?c")
    case Token_ok
    then show ?thesis using assms(4) represents_write [OF assms(1,2) _ refl, of "Suc (length (h (wr_key w)))"] False g v t(1)
      by (auto simp: update_config_def update_from_def spec_update_def)
  next
    case (Token_conflict pv pe)
    then show ?thesis using assms(4) g v t(1)
      by (auto simp: update_config_def update_from_def spec_update_def)
  qed (use t(2) in simp)
qed

lemma in_retained:
  assumes "represents digest n db h"
  shows "filter (\<lambda>s. sn_version s = v) (rows_of k db) = [] \<longleftrightarrow> v \<notin> fst ` set (take_last (Suc n) (numbered (h k)))"
    "\<exists>s. v \<in> fst ` set (take_last (Suc n) (numbered (h k))) \<longrightarrow>
       filter (\<lambda>s. sn_version s = v) (rows_of k db) = [s] \<and> sn_data s = h k ! (v - 1)"
proof -
  let ?r = "rows_of k db"
  have vs: "set (take_last (Suc n) (numbered (h k))) = sn_view ` set ?r"
    by (simp flip: representsD [OF assms, of k])
  show "filter (\<lambda>s. sn_version s = v) ?r = [] \<longleftrightarrow> v \<notin> fst ` set (take_last (Suc n) (numbered (h k)))"
    by (auto simp: vs filter_empty_conv sn_view_def image_image)
  show "\<exists>s. v \<in> fst ` set (take_last (Suc n) (numbered (h k))) \<longrightarrow>
       filter (\<lambda>s. sn_version s = v) ?r = [s] \<and> sn_data s = h k ! (v - 1)"
  proof (cases "v \<in> fst ` set (take_last (Suc n) (numbered (h k)))")
    case True
    then obtain s where s: "s \<in> set ?r" "sn_version s = v" by (auto simp: vs sn_view_def image_image)
    have f: "filter (\<lambda>s. sn_version s = v) ?r = [s]"
      using filter_key [OF rows_versions(2) [OF assms] s(1)] s(2) by simp
    have "(sn_version s, sn_data s) \<in> set (numbered (h k))"
      using s(1) set_take_last [of "Suc n" "numbered (h k)"] unfolding vs by (force simp: sn_view_def)
    then have "sn_data s = h k ! (v - 1)" using s(2)
      by (auto simp: numbered_def in_set_zip simp del: upt_Suc) (metis diff_Suc_Suc diff_zero)
    with f show ?thesis by auto
  qed simp
qed

text \<open>a rollback succeeds exactly for the versions still retained; it appends a new version that carries the
  target's configuration and leaves every other key alone, and otherwise it reports the missing
  version and changes nothing.\<close>

theorem rollback_config_refines:
  assumes "represents digest n db h" "wr_id w \<notin> set (map sn_id db)"
    "rollback_config digest n v w db = (res, db')"
  shows "if length (h (wr_key w)) - Suc n < v \<and> v \<le> length (h (wr_key w))
    then res = Rolled_back (digest (h (wr_key w) ! (v - 1)))
      \<and> represents digest n db' (h(wr_key w := h (wr_key w) @ [h (wr_key w) ! (v - 1)]))
    else res = Version_not_found v \<and> db' = db"
proof -
  let ?k = "wr_key w"
  let ?h = "h ?k"
  have vs: "v \<in> fst ` set (take_last (Suc n) (numbered ?h)) \<longleftrightarrow> length ?h - Suc n < v \<and> v \<le> length ?h"
  proof -
    have "fst ` set (take_last (Suc n) (numbered ?h)) = set (drop (length ?h - Suc n) [1..<Suc (length ?h)])"
      by (simp add: take_last_def numbered_def drop_zip flip: set_map del: upt_Suc)
    then show ?thesis by (auto simp del: upt_Suc)
  qed
  show ?thesis
  proof (cases "v \<in> fst ` set (take_last (Suc n) (numbered ?h))")
    case False
    then have "res = Version_not_found v \<and> db' = db"
      using in_retained(1) [OF assms(1), of v ?k] assms(3) by (simp add: rollback_config_def)
    then show ?thesis using False unfolding vs by auto
  next
    case True
    with in_retained(2) [OF assms(1), of v ?k] obtain s where
      s: "filter (\<lambda>s. sn_version s = v) (rows_of ?k db) = [s]" "sn_data s = ?h ! (v - 1)" by blast
    have ne: "?h \<noteq> []" using True vs by auto
    let ?w = "w\<lparr>wr_data := ?h ! (v - 1)\<rparr>"
    have k: "wr_key ?w = ?k" by simp
    have g: "get_config ?k db = Some (last (rows_of ?k db))" "sn_version (last (rows_of ?k db)) = length ?h"
      using get_config_last(1,2) [OF assms(1)] ne by simp_all
    have "res = Rolled_back (digest (?h ! (v - 1)))"
      "db' = apply_retention_policy n ?k db @ [new_row digest ?w (length ?h + 1) (Some (''Rollback to version '' @ nat_str v))]"
      using assms(3) s g by (auto simp: rollback_config_def Let_def)
    moreover have "represents digest n (apply_retention_policy n ?k db
        @ [new_row digest ?w (length ?h + 1) (Some (''Rollback to version '' @ nat_str v))])
        (h(wr_key ?w := h (wr_key ?w) @ [wr_data ?w]))"
      by (rule represents_write [OF assms(1)]) (use assms(2) ne in simp_all)
    ultimately show ?thesis using True unfolding vs by simp
  qed
qed

text \<open>The retention policy does not see the snapshot it is run for: with a limit of \<open>n\<close> snapshots per
  configuration, a key that has been written more than \<open>n\<close> times keeps \<open>n + 1\<close> of them.\<close>

theorem retention_keeps_one_more:
  assumes "represents digest n db h"
  shows "length (rows_of k db) = min (n + 1) (length (h k))"
  using representsD [OF assms, of k] length_map [of sn_view "rows_of k db"] by simp

text \<open>the check and the write are not one step: two updates that read the same version before either
  writes both succeed, and the table then holds two different rows of the key with the same version,
  so one of the two changes is lost to readers.\<close>

theorem concurrent_updates_both_accepted:
  assumes "get_config k db = Some c" "check_token tok c = Token_ok" "wr_key a = k" "wr_key b = k" "wr_id a \<noteq> wr_id b"
    "1 < n"
    "length (rows_of k db) < n"
    "update_from digest n tok a (get_config k db) db = (ra, db1)"
    "update_from digest n tok b (get_config k db) db1 = (rb, db2)"
  shows "ra = Updated (digest (wr_data a)) \<and> rb = Updated (digest (wr_data b))
    \<and> (\<exists>s t. s \<in> set (rows_of k db2) \<and> t \<in> set (rows_of k db2) \<and> sn_id s \<noteq> sn_id t
         \<and> sn_version s = sn_version c + 1 \<and> sn_version t = sn_version c + 1 \<and> sn_data s = wr_data a \<and> sn_data t = wr_data b)"
proof -
  have "apply_retention_policy n k db = db" using assms(7) by (simp add: apply_retention_policy_def Let_def)
  then have db1: "db1 = db @ [new_row digest a (sn_version c + 1) (wr_summary a)]" "ra = Updated (digest (wr_data a))"
    using assms(1-4,8) by (auto simp: update_from_def)
  then have "length (rows_of k db1) \<le> n" using assms(3,7) by (simp add: rows_of_def new_row_def)
  then have "apply_retention_policy n k db1 = db1" by (simp add: apply_retention_policy_def Let_def)
  then have db2: "db2 = db1 @ [new_row digest b (sn_version c + 1) (wr_summary b)]" "rb = Updated (digest (wr_data b))"
    using assms(1-4,9) by (auto simp: update_from_def)
  let ?s = "new_row digest a (sn_version c + 1) (wr_summary a)"
  let ?t = "new_row digest b (sn_version c + 1) (wr_summary b)"
  have "?s \<in> set (rows_of k db2)" "?t \<in> set (rows_of k db2)"
    unfolding db1(1) db2(1) rows_of_def using assms(3,4) by (simp_all add: new_row_def)
  moreover have "sn_id ?s \<noteq> sn_id ?t" using assms(5) by (simp add: new_row_def)
  moreover have "sn_version ?s = sn_version c + 1" "sn_version ?t = sn_version c + 1" "sn_data ?s = wr_data a" "sn_data ?t = wr_data b"
    by (simp_all add: new_row_def)
  ultimately show ?thesis using db1(2) db2(2) by blast
qed

subsection \<open>Concrete tables\<close>

lemma represents_empty: "represents digest n [] (\<lambda>k. [])"
  by (simp add: represents_def rows_of_def take_last_def)

definition demo_write :: "nat \<Rightarrow> json \<Rightarrow> config_write" where
  "demo_write i v = \<lparr>wr_key = (''agent'', ''a''), wr_data = [(''m'', v)], wr_user = None, wr_summary = None, wr_now = 0, wr_id = i\<rparr>"

definition const_digest :: "config \<Rightarrow> string" where
  "const_digest c = ''e'' @ nat_str (length c)"

definition demo_row :: "nat \<Rightarrow> json \<Rightarrow> snapshot" where
  "demo_row i v = new_row const_digest (demo_write i v) 1 None"

lemma represents_demo: "represents const_digest 5 [demo_row 0 JNull] (\<lambda>k. if k = (''agent'', ''a'') then [ [(''m'', JNull)] ] else [])"
  by (simp add: represents_def rows_of_def demo_row_def new_row_def demo_write_def take_last_def numbered_def sn_view_def)

theorem update_config_refines_witness:
  "\<exists>db'. update_config const_digest 5 (Some ''1'') (demo_write 1 (JInt 7)) [demo_row 0 JNull]
      = (Updated (const_digest [(''m'', JInt 7)]), db')"
proof -
  obtain res db' where u: "update_config const_digest 5 (Some ''1'') (demo_write 1 (JInt 7)) [demo_row 0 JNull] = (res, db')"
    by fastforce
  have "token_accepted const_digest (Some ''1'') [ [(''m'', JNull)] ]"
    by (simp add: token_accepted_def opt_truthy_def is_digit_def code_def nat_of_def)
  moreover have "well_formed_token (Some ''1'')" by (simp add: well_formed_token_def is_digit_def code_def)
  moreover have "wr_id (demo_write 1 (JInt 7)) \<notin> set (map sn_id [demo_row 0 JNull])"
    by (simp add: demo_write_def demo_row_def new_row_def)
  ultimately show ?thesis using update_config_refines [OF represents_demo _ _ u] u
    by (simp add: spec_update_def demo_write_def)
qed

theorem rollback_config_refines_witness:
  "\<exists>db'. rollback_config const_digest 5 1 (demo_write 1 JNull) [demo_row 0 JNull]
      = (Rolled_back (const_digest [(''m'', JNull)]), db')"
proof -
  obtain res db' where u: "rollback_config const_digest 5 1 (demo_write 1 JNull) [demo_row 0 JNull] = (res, db')"
    by fastforce
  have "wr_id (demo_write 1 JNull) \<notin> set (map sn_id [demo_row 0 JNull])"
    by (simp add: demo_write_def demo_row_def new_row_def)
  then show ?thesis using rollback_config_refines [OF represents_demo _ u] u by (simp add: demo_write_def)
qed

theorem retention_keeps_one_more_witness: "length (rows_of (''agent'', ''a'') [demo_row 0 JNull]) = min (5 + 1) 1"
  using retention_keeps_one_more [OF represents_demo, of "(''agent'', ''a'')"] by simp

theorem concurrent_updates_both_accepted_witness:
  "\<exists>ra db1 rb db2. update_from const_digest 5 (Some ''1'') (demo_write 1 (JInt 1)) (Some (demo_row 0 JNull)) [demo_row 0 JNull] = (ra, db1)
    \<and> update_from const_digest 5 (Some ''1'') (demo_write 2 (JInt 2)) (Some (demo_row 0 JNull)) db1 = (rb, db2)
    \<and> (\<exists>(s :: snapshot) (t :: snapshot). sn_id s \<noteq> sn_id t \<and> sn_version s = sn_version t)"
proof -
  let ?k = "(''agent'', ''a'')"
  have g: "get_config ?k [demo_row 0 JNull] = Some (demo_row 0 JNull)"
    by (simp add: get_config_def rows_of_def demo_row_def new_row_def demo_write_def)
  obtain ra db1 where a: "update_from const_digest 5 (Some ''1'') (demo_write 1 (JInt 1)) (get_config ?k [demo_row 0 JNull]) [demo_row 0 JNull] = (ra, db1)"
    by fastforce
  obtain rb db2 where b: "update_from const_digest 5 (Some ''1'') (demo_write 2 (JInt 2)) (get_config ?k [demo_row 0 JNull]) db1 = (rb, db2)"
    by fastforce
  have tok: "check_token (Some ''1'') (demo_row 0 JNull) = Token_ok"
    by (simp add: check_token_def opt_truthy_def is_digit_def py_isdigit_def code_def nat_of_def demo_row_def new_row_def)
  have w: "wr_key (demo_write 1 (JInt 1)) = ?k" "wr_key (demo_write 2 (JInt 2)) = ?k"
    "wr_id (demo_write 1 (JInt 1)) \<noteq> wr_id (demo_write 2 (JInt 2))" "1 < (5::nat)" "length (rows_of ?k [demo_row 0 JNull]) < 5"
    by (simp_all add: demo_write_def rows_of_def)
  from concurrent_updates_both_accepted [OF g tok w a b] obtain s t :: snapshot where
    st: "sn_id s \<noteq> sn_id t" "sn_version s = sn_version (demo_row 0 JNull) + 1"
      "sn_version t = sn_version (demo_row 0 JNull) + 1" by blast
  then have "sn_version s = sn_version t" by simp
  with st(1) have "\<exists>(s :: snapshot) (t :: snapshot). sn_id s \<noteq> sn_id t \<and> sn_version s = sn_version t" by auto
  then show ?thesis using a [unfolded g] b [unfolded g] by auto
qed

end
