(* ===== verification/Conversations.thy ===== *)
theory Conversations
  imports Prelude
begin

text \<open>
  Conversations (\<open>src/src/memory/models.py\<close>) and the ordered stream of events of a run
  (\<open>src/src/core/events.py\<close>).  Times are microseconds; one reading of the clock serves all the times that one
  operation stores.  The random ids of messages and notes, which nothing reads, are left out; ids of
  sessions and spans are naturals and strings given from outside.
\<close>

subsection \<open>Conversations\<close>

datatype message_role = USER | ASSISTANT | SYSTEM | AGENT

datatype note_author = ORCHESTRATOR | REASONING | KNOWLEDGE | RESPONSE

record message =
  ms_role :: message_role
  ms_content :: string
  ms_time :: int
  ms_meta :: "(string, json) odict"

record agent_note =
  no_author :: note_author
  no_type :: string
  no_content :: string
  no_time :: int
  no_meta :: "(string, json) odict"

record conversation =
  cv_id :: nat
  cv_messages :: "message list"
  cv_notes :: "agent_note list"
  cv_turns :: nat
  cv_active :: bool
  cv_created :: int
  cv_updated :: int
  cv_meta :: "(string, json) odict"

definition add_message ::
  "int \<Rightarrow> message_role \<Rightarrow> string \<Rightarrow> (string, json) odict \<Rightarrow> conversation \<Rightarrow> conversation" where
  "add_message now r content meta c = c\<lparr>
     cv_messages := cv_messages c @ [\<lparr>ms_role = r, ms_content = content, ms_time = now, ms_meta = meta\<rparr>],
     cv_updated := now\<rparr>"

definition add_agent_note ::
  "int \<Rightarrow> note_author \<Rightarrow> string \<Rightarrow> string \<Rightarrow> (string, json) odict \<Rightarrow> conversation \<Rightarrow> conversation" where
  "add_agent_note now a ty content meta c = c\<lparr>
     cv_notes := cv_notes c @ [\<lparr>no_author = a, no_type = ty, no_content = content, no_time = now, no_meta = meta\<rparr>],
     cv_updated := now\<rparr>"

definition increment_turn :: "int \<Rightarrow> conversation \<Rightarrow> conversation" where
  "increment_turn now c = c\<lparr>cv_turns := cv_turns c + 1, cv_updated := now\<rparr>"

definition get_messages_by_role :: "message_role \<Rightarrow> conversation \<Rightarrow> message list" where
  "get_messages_by_role r c = filter (\<lambda>m. ms_role m = r) (cv_messages c)"

definition get_notes_by_agent :: "note_author \<Rightarrow> conversation \<Rightarrow> agent_note list" where
  "get_notes_by_agent a c = filter (\<lambda>n. no_author n = a) (cv_notes c)"

definition role_value :: "message_role \<Rightarrow> string" where
  "role_value r = (case r of USER \<Rightarrow> ''user'' | ASSISTANT \<Rightarrow> ''assistant'' | SYSTEM \<Rightarrow> ''system'' | AGENT \<Rightarrow> ''agent'')"

definition author_value :: "note_author \<Rightarrow> string" where
  "author_value a = (case a of ORCHESTRATOR \<Rightarrow> ''orchestrator'' | REASONING \<Rightarrow> ''reasoning''
     | KNOWLEDGE \<Rightarrow> ''knowledge'' | RESPONSE \<Rightarrow> ''response'')"

text \<open>\<open>fmt\<close>: \<open>datetime.isoformat\<close>.\<close>

definition history_entry :: "(int \<Rightarrow> string) \<Rightarrow> message \<Rightarrow> json" where
  "history_entry fmt m = JObj [(''role'', JStr (role_value (ms_role m))), (''content'', JStr (ms_content m)),
     (''timestamp'', JStr (fmt (ms_time m)))]"

definition conversation_history :: "(int \<Rightarrow> string) \<Rightarrow> conversation \<Rightarrow> json list" where
  "conversation_history fmt c = map (history_entry fmt) (cv_messages c)"

lemma add_message_simps [simp]:
  "cv_id (add_message now r t m c) = cv_id c" "cv_turns (add_message now r t m c) = cv_turns c"
  "cv_active (add_message now r t m c) = cv_active c" "cv_meta (add_message now r t m c) = cv_meta c"
  "cv_notes (add_message now r t m c) = cv_notes c" "cv_updated (add_message now r t m c) = now"
  "cv_messages (add_message now r t m c) = cv_messages c @ [\<lparr>ms_role = r, ms_content = t, ms_time = now, ms_meta = m\<rparr>]"
  by (simp_all add: add_message_def)

lemma increment_turn_simps [simp]:
  "cv_id (increment_turn now c) = cv_id c" "cv_turns (increment_turn now c) = Suc (cv_turns c)"
  "cv_active (increment_turn now c) = cv_active c" "cv_meta (increment_turn now c) = cv_meta c"
  "cv_messages (increment_turn now c) = cv_messages c" "cv_notes (increment_turn now c) = cv_notes c"
  by (simp_all add: increment_turn_def)

subsection \<open>Streams\<close>

datatype delta_type = START | TOKEN | REASONING_DELTA | NODE_STARTED | NODE_INPUT | NODE_OUTPUT | TOOL_CALL_START
  | TOOL_CALL_ARGS | TOOL_CALL_RESULT | AGENT_TRANSFER | CITATION | ERROR | DONE

definition delta_values :: "(string \<times> delta_type) list" where
  "delta_values = [(''start'', START), (''token'', TOKEN), (''reasoning_delta'', REASONING_DELTA),
     (''node_started'', NODE_STARTED), (''node_input'', NODE_INPUT), (''node_output'', NODE_OUTPUT),
     (''tool_call_start'', TOOL_CALL_START), (''tool_call_args'', TOOL_CALL_ARGS),
     (''tool_call_result'', TOOL_CALL_RESULT), (''agent_transfer'', AGENT_TRANSFER), (''citation'', CITATION),
     (''error'', ERROR), (''done'', DONE)]"

record delta =
  de_type :: delta_type
  de_session :: string
  de_sequence :: nat
  de_payload :: "(string, json) odict"
  de_agent :: "string option"
  de_correlation :: string
  de_span :: "string option"

record builder =
  bu_session :: string
  bu_correlation :: string
  bu_sequence :: nat

text \<open>\<open>StreamEventBuilder(session_id, correlation_id)\<close>; \<open>fresh\<close> is the generated id used when none is given.\<close>

definition new_builder :: "string \<Rightarrow> string \<Rightarrow> string option \<Rightarrow> builder" where
  "new_builder fresh sid corr = \<lparr>bu_session = sid, bu_correlation = opt_or corr fresh, bu_sequence = 0\<rparr>"

definition make_delta :: "delta_type \<Rightarrow> (string, json) odict \<Rightarrow> string option \<Rightarrow> string option \<Rightarrow> builder \<Rightarrow> delta \<times> builder" where
  "make_delta ty payload agent sp b =
     (\<lparr>de_type = ty, de_session = bu_session b, de_sequence = bu_sequence b, de_payload = payload, de_agent = agent,
       de_correlation = bu_correlation b, de_span = sp\<rparr>, b\<lparr>bu_sequence := bu_sequence b + 1\<rparr>)"

text \<open>The deltas a stream yields for a list of frames.\<close>

fun deltas :: "(delta_type \<times> (string, json) odict \<times> string option) list \<Rightarrow> builder \<Rightarrow> delta list \<times> builder" where
  "deltas [] b = ([], b)"
| "deltas ((ty, p, a) # fs) b =
     (let (d, b') = make_delta ty p a None b; (ds, b'') = deltas fs b' in (d # ds, b''))"

lemma deltas_spec:
  "map de_sequence (fst (deltas fs b)) = [bu_sequence b..<bu_sequence b + length fs]
    \<and> map (\<lambda>d. (de_type d, de_payload d, de_agent d)) (fst (deltas fs b)) = fs
    \<and> (\<forall>d \<in> set (fst (deltas fs b)). de_session d = bu_session b \<and> de_correlation d = bu_correlation b)"
proof (induction fs arbitrary: b)
  case (Cons f fs)
  obtain ty p a where f: "f = (ty, p, a)" by (cases f)
  from Cons.IH [of "snd (make_delta ty p a None b)"] show ?case
    by (auto simp: f make_delta_def split_beta upt_conv_Cons simp del: upt_Suc)
qed simp

end
