(* ===== verification/Run_History.thy ===== *)
theory Run_History
  imports Prelude "HOL-Library.Product_Lexorder"
begin

text \<open>
  The run history, \<open>src/src/infrastructure/database/run_store.py\<close>: the cut of recorded values, the recorder that
  collects the frames of a run, and the store of finished runs.  The table \<open>workflow_runs\<close> is a list of
  rows; UUIDs are naturals in their order, times are microseconds.  The Python \<open>repr\<close> of a nested
  container is a parameter.
\<close>

subsection \<open>Bounded values\<close>

definition max_text :: nat where "max_text = 4000"

definition max_depth :: nat where "max_depth = 6"

definition max_events :: nat where "max_events = 500"

definition cut_text :: "string \<Rightarrow> string" where
  "cut_text s = (if length s > max_text
     then take max_text s @ [ellipsis] @ '' ['' @ nat_str (length s - max_text) @ '' more characters]'' else s)"

text \<open>JSON values only: every other type is turned into text by the code before it is cut.\<close>

fun bounded :: "(json \<Rightarrow> string) \<Rightarrow> nat \<Rightarrow> json \<Rightarrow> json" where
  "bounded repr d (JStr s) = JStr (cut_text s)"
| "bounded repr d (JList xs) = (if d \<ge> max_depth then JStr (cut_text (repr (JList xs)))
     else JList (map (bounded repr (Suc d)) xs))"
| "bounded repr d (JObj kvs) = (if d \<ge> max_depth then JStr (cut_text (repr (JObj kvs)))
     else JObj (map (\<lambda>(k, v). (k, bounded repr (Suc d) v)) kvs))"
| "bounded repr d v = v"

subsection \<open>The recorder\<close>

record frame =
  fr_type :: string
  fr_payload :: json
  fr_agent :: "string option"
  fr_sequence :: nat
  fr_time :: int

record recorder =
  rc_events :: "frame list"
  rc_dropped :: nat

definition new_recorder :: recorder where
  "new_recorder = \<lparr>rc_events = [], rc_dropped = 0\<rparr>"

definition record_frame ::
  "(json \<Rightarrow> string) \<Rightarrow> int \<Rightarrow> string \<Rightarrow> (string, json) odict \<Rightarrow> string option \<Rightarrow> recorder \<Rightarrow> recorder"
where
  "record_frame repr now ty payload agent r =
     (if length (rc_events r) \<ge> max_events then r\<lparr>rc_dropped := rc_dropped r + 1\<rparr>
      else r\<lparr>rc_events := rc_events r @ [\<lparr>fr_type = ty, fr_payload = bounded repr 0 (JObj payload), fr_agent = agent,
               fr_sequence = length (rc_events r), fr_time = now\<rparr>]\<rparr>)"

subsection \<open>The store\<close>

datatype status = Running | Succeeded | Failed

fun parse_status :: "string \<Rightarrow> status option" where
  "parse_status s = map_of [(''running'', Running), (''succeeded'', Succeeded), (''failed'', Failed)] s"

record run =
  ru_id :: nat
  ru_workflow :: string
  ru_session :: "string option"
  ru_user :: "string option"
  ru_source :: string
  ru_status :: status
  ru_message :: string
  ru_response :: "string option"
  ru_error :: "string option"
  ru_agents :: "string list"
  ru_tools :: "string list"
  ru_usage :: json
  ru_cost :: "rat option"
  ru_events :: "frame list"
  ru_replay_of :: "nat option"
  ru_started :: int
  ru_finished :: "int option"
  ru_duration :: "int option"
  ru_meta :: json

type_synonym runs = "run list"

record run_request =
  rr_workflow :: string
  rr_message :: string
  rr_session :: "string option"
  rr_user :: "string option"
  rr_source :: string
  rr_replay_of :: "nat option"
  rr_meta :: "(string, json) odict"

definition start_run :: "(json \<Rightarrow> string) \<Rightarrow> nat \<Rightarrow> int \<Rightarrow> run_request \<Rightarrow> runs \<Rightarrow> nat \<times> runs" where
  "start_run repr i now q db = (i, db @ [\<lparr>ru_id = i, ru_workflow = rr_workflow q, ru_session = rr_session q,
     ru_user = rr_user q, ru_source = rr_source q, ru_status = Running, ru_message = rr_message q,
     ru_response = None, ru_error = None, ru_agents = [], ru_tools = [], ru_usage = JObj [], ru_cost = None,
     ru_events = [], ru_replay_of = rr_replay_of q, ru_started = now, ru_finished = None, ru_duration = None,
     ru_meta = bounded repr 0 (JObj (rr_meta q))\<rparr>])"

record run_outcome =
  ro_status :: string
  ro_events :: "frame list"
  ro_response :: "string option"
  ro_error :: "string option"
  ro_agents :: "string list"
  ro_tools :: "string list"
  ro_usage :: "(string, json) odict"
  ro_cost :: "rat option"

datatype store_error = Unknown_status string | Run_not_found nat

text \<open>\<open>int(seconds * 1000)\<close> truncates towards zero.\<close>

definition millis :: "int \<Rightarrow> int" where
  "millis us = (if us < 0 then - (- us div 1000) else us div 1000)"

definition finish_row :: "(json \<Rightarrow> string) \<Rightarrow> int \<Rightarrow> run_outcome \<Rightarrow> status \<Rightarrow> run \<Rightarrow> run" where
  "finish_row repr now out st r = r\<lparr>ru_status := st, ru_response := ro_response out, ru_error := ro_error out,
     ru_agents := ro_agents out, ru_tools := ro_tools out, ru_usage := bounded repr 0 (JObj (ro_usage out)),
     ru_cost := ro_cost out, ru_events := ro_events out, ru_finished := Some now,
     ru_duration := Some (millis (now - ru_started r))\<rparr>"

definition finish_run :: "(json \<Rightarrow> string) \<Rightarrow> nat \<Rightarrow> int \<Rightarrow> run_outcome \<Rightarrow> runs \<Rightarrow> store_error + runs" where
  "finish_run repr i now out db = (case parse_status (ro_status out) of
      None \<Rightarrow> Inl (Unknown_status (ro_status out))
    | Some st \<Rightarrow> if i \<notin> ru_id ` set db then Inl (Run_not_found i)
        else Inr (map (\<lambda>r. if ru_id r = i then finish_row repr now out st r else r) db))"

definition get_run :: "nat \<Rightarrow> runs \<Rightarrow> run option" where
  "get_run i db = List.find (\<lambda>r. ru_id r = i) db"

record run_filter =
  rf_workflow :: "string option"
  rf_status :: "string option"
  rf_source :: "string option"
  rf_session :: "string option"

definition status_str :: "status \<Rightarrow> string" where
  "status_str st = (case st of Running \<Rightarrow> ''running'' | Succeeded \<Rightarrow> ''succeeded'' | Failed \<Rightarrow> ''failed'')"

definition run_matches :: "run_filter \<Rightarrow> run \<Rightarrow> bool" where
  "run_matches f r \<longleftrightarrow>
     (opt_truthy (rf_workflow f) \<longrightarrow> Some (ru_workflow r) = rf_workflow f)
     \<and> (opt_truthy (rf_status f) \<longrightarrow> Some (status_str (ru_status r)) = rf_status f)
     \<and> (opt_truthy (rf_source f) \<longrightarrow> Some (ru_source r) = rf_source f)
     \<and> (opt_truthy (rf_session f) \<longrightarrow> ru_session r = rf_session f)"

text \<open>\<open>order_by(started_at.desc(), id)\<close>\<close>

definition newest_first :: "runs \<Rightarrow> runs" where
  "newest_first db = sort_key (\<lambda>r. (- ru_started r, ru_id r)) db"

definition list_runs :: "run_filter \<Rightarrow> nat \<Rightarrow> nat \<Rightarrow> runs \<Rightarrow> runs \<times> nat" where
  "list_runs f limit offset db =
     (let m = filter (run_matches f) db in (take limit (drop offset (newest_first m)), length m))"

definition delete_run :: "nat \<Rightarrow> runs \<Rightarrow> bool \<times> runs" where
  "delete_run i db = (i \<in> ru_id ` set db, filter (\<lambda>r. ru_id r \<noteq> i) db)"

definition prune :: "nat \<Rightarrow> runs \<Rightarrow> nat \<times> runs" where
  "prune n db =
     (let stale = ru_id ` set (drop n (newest_first db)); db' = filter (\<lambda>r. ru_id r \<notin> stale) db
      in (length db - length db', db'))"

definition interrupted_error :: string where
  "interrupted_error = ''The server stopped before this run finished.''"

definition mark_interrupted :: "int \<Rightarrow> runs \<Rightarrow> nat \<times> runs" where
  "mark_interrupted now db =
     (length (filter (\<lambda>r. ru_status r = Running) db),
      map (\<lambda>r. if ru_status r = Running
        then r\<lparr>ru_status := Failed, ru_error := Some interrupted_error, ru_finished := Some now\<rparr> else r) db)"

subsection \<open>The size of a recorded value\<close>

fun json_depth :: "json \<Rightarrow> nat" where
  "json_depth (JList xs) = Suc (Max (insert 0 (json_depth ` set xs)))"
| "json_depth (JObj kvs) = Suc (Max (insert 0 ((\<lambda>kv. json_depth (snd kv)) ` set kvs)))"
| "json_depth v = 0"

fun strings_within :: "nat \<Rightarrow> json \<Rightarrow> bool" where
  "strings_within n (JStr s) = (length s \<le> n)"
| "strings_within n (JList xs) = (\<forall>x \<in> set xs. strings_within n x)"
| "strings_within n (JObj kvs) = (\<forall>kv \<in> set kvs. strings_within n (snd kv))"
| "strings_within n v = True"

lemma finite_depths [simp]: "finite (insert 0 (f ` set xs))"
  by simp

lemma json_depth_list: "json_depth (JList xs) \<le> Suc n \<longleftrightarrow> (\<forall>x \<in> set xs. json_depth x \<le> n)"
  by auto

lemma json_depth_obj: "json_depth (JObj kvs) \<le> Suc n \<longleftrightarrow> (\<forall>kv \<in> set kvs. json_depth (snd kv) \<le> n)"
  by auto

lemma bounded_depth: "d \<le> max_depth \<Longrightarrow> json_depth (bounded repr d v) \<le> max_depth - d"
proof (induction repr d v rule: bounded.induct)
  case (2 repr d xs)
  show ?case
  proof (cases "d \<ge> max_depth")
    case False
    then obtain n where n: "max_depth - d = Suc n" "max_depth - Suc d = n" by (metis Suc_diff_Suc not_le)
    have "json_depth (bounded repr (Suc d) x) \<le> n" if "x \<in> set xs" for x
      using 2(1) [OF False that] False n(2) by simp
    then show ?thesis using False n by (simp add: json_depth_list del: json_depth.simps)
  qed simp
next
  case (3 repr d kvs)
  show ?case
  proof (cases "d \<ge> max_depth")
    case False
    then obtain n where n: "max_depth - d = Suc n" "max_depth - Suc d = n" by (metis Suc_diff_Suc not_le)
    have "json_depth (bounded repr (Suc d) (snd kv)) \<le> n" if "kv \<in> set kvs" for kv
      using 3(1) [OF False that, of "fst kv" "snd kv"] False n(2) by simp
    then show ?thesis using False n by (auto simp add: json_depth_obj simp del: json_depth.simps)
  qed simp
qed simp_all

lemma bounded_id:
  "d + json_depth v \<le> max_depth \<Longrightarrow> strings_within max_text v \<Longrightarrow> bounded repr d v = v"
proof (induction repr d v rule: bounded.induct)
  case (1 repr d s)
  then show ?case by (simp add: cut_text_def)
next
  case (2 repr d xs)
  have "Suc 0 \<le> json_depth (JList xs)" by simp
  then have lt: "\<not> d \<ge> max_depth" using 2(2) by linarith
  then obtain n where n: "max_depth - d = Suc n" by (metis Suc_diff_Suc not_le)
  then have "json_depth (JList xs) \<le> Suc n" using 2(2) by linarith
  then have "\<forall>x \<in> set xs. json_depth x \<le> n" by (simp only: json_depth_list)
  then have "bounded repr (Suc d) x = x" if "x \<in> set xs" for x
    using 2(1) [OF lt that] 2(3) that n by force
  then show ?case using lt by (simp add: map_idI)
next
  case (3 repr d kvs)
  have "Suc 0 \<le> json_depth (JObj kvs)" by simp
  then have lt: "\<not> d \<ge> max_depth" using 3(2) by linarith
  then obtain n where n: "max_depth - d = Suc n" by (metis Suc_diff_Suc not_le)
  then have "json_depth (JObj kvs) \<le> Suc n" using 3(2) by linarith
  then have "\<forall>kv \<in> set kvs. json_depth (snd kv) \<le> n" by (simp only: json_depth_obj)
  then have "bounded repr (Suc d) (snd kv) = snd kv" if "kv \<in> set kvs" for kv
    using 3(1) [OF lt that, of "fst kv" "snd kv"] 3(3) that n by force
  then show ?case using lt by (auto intro!: map_idI)
qed simp_all

text \<open>a recorded value is nested at most six levels deep, whatever was recorded, and a value within the
  limits (six levels, strings of at most 4000 characters) is recorded unchanged.\<close>

theorem bounded_limits:
  "json_depth (bounded repr 0 v) \<le> 6 \<and> (json_depth v \<le> 6 \<and> strings_within 4000 v \<longrightarrow> bounded repr 0 v = v)"
  using bounded_depth [of 0 repr v] bounded_id [of 0 v repr] by (simp add: max_depth_def max_text_def)

theorem bounded_limits_witness: "bounded (\<lambda>j. []) 0 (JList [JInt 3, JStr ''x'']) = JList [JInt 3, JStr ''x'']"
  using bounded_limits [of "\<lambda>j. []" "JList [JInt 3, JStr ''x'']"] by simp

subsection \<open>The recorder keeps the first frames\<close>

fun record_all :: "(json \<Rightarrow> string) \<Rightarrow> (int \<times> string \<times> (string, json) odict \<times> string option) list \<Rightarrow> recorder \<Rightarrow> recorder" where
  "record_all repr [] r = r"
| "record_all repr ((now, ty, p, a) # fs) r = record_all repr fs (record_frame repr now ty p a r)"

definition frame_key :: "frame \<Rightarrow> int \<times> string \<times> string option" where
  "frame_key f = (fr_time f, fr_type f, fr_agent f)"

lemma record_all_spec:
  assumes "length (rc_events r) \<le> max_events" "map fr_sequence (rc_events r) = [0..<length (rc_events r)]"
  shows "length (rc_events (record_all repr fs r)) = min max_events (length (rc_events r) + length fs)
    \<and> map fr_sequence (rc_events (record_all repr fs r)) = [0..<length (rc_events (record_all repr fs r))]
    \<and> map frame_key (rc_events (record_all repr fs r)) =
        map frame_key (rc_events r) @ take (max_events - length (rc_events r)) (map (\<lambda>(now, ty, p, a). (now, ty, a)) fs)
    \<and> rc_dropped (record_all repr fs r) = rc_dropped r + (length fs - (max_events - length (rc_events r)))"
  using assms
proof (induction fs arbitrary: r)
  case (Cons f fs)
  obtain now ty p a where f: "f = (now, ty, p, a)" by (metis surj_pair)
  show ?case
  proof (cases "length (rc_events r) \<ge> max_events")
    case True
    then have "record_frame repr now ty p a r = r\<lparr>rc_dropped := rc_dropped r + 1\<rparr>" by (simp add: record_frame_def)
    then show ?thesis using Cons.IH [of "r\<lparr>rc_dropped := rc_dropped r + 1\<rparr>"] Cons.prems True by (simp add: f)
  next
    case False
    let ?r = "record_frame repr now ty p a r"
    have r: "length (rc_events ?r) = Suc (length (rc_events r))" "rc_dropped ?r = rc_dropped r"
      "map frame_key (rc_events ?r) = map frame_key (rc_events r) @ [(now, ty, a)]"
      "map fr_sequence (rc_events ?r) = [0..<length (rc_events ?r)]"
      using False Cons.prems(2) by (simp_all add: record_frame_def frame_key_def)
    obtain k where k: "max_events - length (rc_events r) = Suc k" "max_events - Suc (length (rc_events r)) = k"
      using False by (metis Suc_diff_Suc not_le)
    show ?thesis using Cons.IH [of ?r] r k False by (simp add: f)
  qed
qed simp

text \<open>the recorder keeps exactly the first 500 frames, numbered from zero without gaps, and counts the rest
  as dropped.\<close>

theorem recorder_keeps_first:
  "map frame_key (rc_events (record_all repr fs new_recorder)) = take 500 (map (\<lambda>(now, ty, p, a). (now, ty, a)) fs)
    \<and> map fr_sequence (rc_events (record_all repr fs new_recorder)) = [0..<min 500 (length fs)]
    \<and> rc_dropped (record_all repr fs new_recorder) = length fs - 500"
  using record_all_spec [of new_recorder repr fs] by (simp add: new_recorder_def max_events_def)

text \<open>The closing frame of a long run is lost: once 500 frames are recorded, recording \<open>done\<close> (or \<open>error\<close>)
  leaves the events as they are, so the stored stream has no end.\<close>

theorem long_run_loses_its_end:
  assumes "500 \<le> length fs"
  shows "rc_events (record_frame repr now ''done'' p a (record_all repr fs new_recorder))
    = rc_events (record_all repr fs new_recorder)"
  using record_all_spec [of new_recorder repr fs] assms
  by (simp add: new_recorder_def max_events_def record_frame_def)

theorem long_run_loses_its_end_witness:
  "rc_events (record_frame (\<lambda>j. []) 1 ''done'' [] None (record_all (\<lambda>j. []) (replicate 500 (0, ''token'', [], None)) new_recorder))
    = rc_events (record_all (\<lambda>j. []) (replicate 500 (0, ''token'', [], None)) new_recorder)"
  by (rule long_run_loses_its_end) simp

subsection \<open>The table\<close>

lemma newest_first_set [simp]: "set (newest_first db) = set db" "length (newest_first db) = length db"
  by (simp_all add: newest_first_def)

lemma newest_first_distinct: "distinct (map ru_id db) \<Longrightarrow> distinct (map ru_id (newest_first db))"
  by (simp add: newest_first_def distinct_map)

text \<open>pruning keeps exactly the \<open>n\<close> newest runs, unchanged, and reports how many it removed.\<close>

theorem prune_keeps_newest:
  assumes "distinct (map ru_id db)" "prune n db = (removed, db')"
  shows "set db' = set (take n (newest_first db)) \<and> length db' = min n (length db) \<and> removed = length db - n"
proof -
  let ?o = "newest_first db"
  have d: "distinct (map ru_id (take n ?o @ drop n ?o))" using newest_first_distinct [OF assms(1)] by simp
  have db': "db' = filter (\<lambda>r. ru_id r \<notin> ru_id ` set (drop n ?o)) db" "removed = length db - length db'"
    using assms(2) by (auto simp: prune_def Let_def)
  have "set db = set (take n ?o) \<union> set (drop n ?o)" by (metis append_take_drop_id newest_first_set(1) set_append)
  moreover have "ru_id ` set (take n ?o) \<inter> ru_id ` set (drop n ?o) = {}"
    using d unfolding map_append distinct_append set_map by blast
  ultimately have s: "set db' = set (take n ?o)" unfolding db'(1) by auto
  have "distinct db'" "distinct ?o"
    using assms(1) newest_first_distinct [OF assms(1)] by (auto simp: db'(1) distinct_map)
  then have "length db' = length (take n ?o)" using s by (metis distinct_card distinct_take)
  then show ?thesis using s db'(2) by (auto simp: min_def)
qed

definition demo_request :: run_request where
  "demo_request = \<lparr>rr_workflow = ''w'', rr_message = ''hi'', rr_session = None, rr_user = None, rr_source = ''chat'',
     rr_replay_of = None, rr_meta = []\<rparr>"

definition demo_runs :: runs where
  "demo_runs = snd (start_run (\<lambda>j. []) 1 5 demo_request (snd (start_run (\<lambda>j. []) 0 3 demo_request [])))"

theorem prune_keeps_newest_witness:
  "\<exists>removed db'. prune 1 demo_runs = (removed, db') \<and> length db' = 1 \<and> removed = 1"
proof -
  obtain removed db' where p: "prune 1 demo_runs = (removed, db')" by fastforce
  have "distinct (map ru_id demo_runs)" "length demo_runs = 2" by (simp_all add: demo_runs_def start_run_def)
  with prune_keeps_newest [OF _ p] show ?thesis using p by simp
qed

end
