(* ===== verification/Run_Order.thy ===== *)
theory Run_Order
  imports Workflows
begin

text \<open>
  The order in which a crew runs the nodes of a workflow, \<open>_ordered_nodes\<close> of
  \<open>src/src/crewai_runtime/runtime.py\<close>: a depth-first walk from the entry node along the edges in their
  order, then the nodes it did not reach.  The recursive inner function is given fuel; more than the number
  of nodes is always enough.
\<close>

subsection \<open>The walk\<close>

text \<open>\<open>{node.id: node for node in topology.nodes}\<close>: of two nodes with the same id the later one stays.\<close>

definition node_by_id :: "topology \<Rightarrow> string \<Rightarrow> agent_node option" where
  "node_by_id t i = map_of (rev (map (\<lambda>n. (an_id n, n)) (tp_nodes t))) i"

fun visit :: "nat \<Rightarrow> topology \<Rightarrow> string \<Rightarrow> string set \<times> agent_node list \<Rightarrow> (string set \<times> agent_node list) option"
  and visit_edges :: "nat \<Rightarrow> topology \<Rightarrow> string \<Rightarrow> agent_edge list \<Rightarrow> string set \<times> agent_node list
    \<Rightarrow> (string set \<times> agent_node list) option" where
  "visit 0 t n s = None"
| "visit (Suc f) t n (seen, ordered) =
     (if n \<in> seen then Some (seen, ordered)
      else case node_by_id t n of
        None \<Rightarrow> Some (seen, ordered)
      | Some x \<Rightarrow> visit_edges f t n (tp_edges t) (insert n seen, ordered @ [x]))"
| "visit_edges f t n [] s = Some s"
| "visit_edges f t n (e # es) s =
     (if ae_from e = n then
        (case visit f t (ae_to e) s of None \<Rightarrow> None | Some s' \<Rightarrow> visit_edges f t n es s')
      else visit_edges f t n es s)"

definition order_fuel :: "topology \<Rightarrow> nat" where
  "order_fuel t = Suc (length (tp_nodes t))"

definition ordered_nodes :: "topology \<Rightarrow> agent_node list option" where
  "ordered_nodes t =
     (if tp_edges t = [] then
        Some ((case node_by_id t (tp_entry t) of None \<Rightarrow> [] | Some x \<Rightarrow> [x])
          @ filter (\<lambda>x. an_id x \<noteq> tp_entry t) (tp_nodes t))
      else case visit (order_fuel t) t (tp_entry t) ({}, []) of
        None \<Rightarrow> None
      | Some (seen, ordered) \<Rightarrow> Some (ordered @ filter (\<lambda>x. an_id x \<notin> seen) (tp_nodes t)))"

subsection \<open>Facts about the walk\<close>

lemma topo_rel_iff: "(u, v) \<in> topo_rel t \<longleftrightarrow> (\<exists>e \<in> set (tp_edges t). ae_from e = u \<and> ae_to e = v)"
  by (auto simp: topo_rel_def edge_pairs_def)

lemma node_by_id_SomeD: "node_by_id t i = Some x \<Longrightarrow> x \<in> set (tp_nodes t) \<and> an_id x = i"
  unfolding node_by_id_def by (drule map_of_SomeD) auto

lemma node_by_id_None_iff: "node_by_id t i = None \<longleftrightarrow> i \<notin> set (node_ids t)"
  by (auto simp: node_by_id_def map_of_eq_None_iff node_ids_def image_image)

lemma node_by_id_distinct:
  assumes "distinct (node_ids t)" "x \<in> set (tp_nodes t)"
  shows "node_by_id t (an_id x) = Some x"
proof -
  have "distinct (map fst (rev (map (\<lambda>n. (an_id n, n)) (tp_nodes t))))"
    using assms(1) by (simp add: o_def node_ids_def flip: rev_map)
  then show ?thesis unfolding node_by_id_def by (rule map_of_is_SomeI) (use assms(2) in simp)
qed

text \<open>Every element other than the root comes after one of its predecessors.\<close>

definition parent_before :: "(string \<times> string) set \<Rightarrow> string \<Rightarrow> string list \<Rightarrow> bool" where
  "parent_before E r xs \<longleftrightarrow> (\<forall>ys x zs. xs = ys @ x # zs \<longrightarrow> x = r \<or> (\<exists>u \<in> set ys. (u, x) \<in> E))"

lemma parent_before_Nil [simp]: "parent_before E r []"
  by (simp add: parent_before_def)

lemma parent_before_snoc:
  "parent_before E r (xs @ [x]) \<longleftrightarrow> parent_before E r xs \<and> (x = r \<or> (\<exists>u \<in> set xs. (u, x) \<in> E))"
  unfolding parent_before_def by (rule all_splits_snoc)

definition walk_ok :: "topology \<Rightarrow> string set \<times> agent_node list \<Rightarrow> bool" where
  "walk_ok t s \<longleftrightarrow> fst s = set (map an_id (snd s)) \<and> distinct (map an_id (snd s))
     \<and> (\<forall>x \<in> set (snd s). node_by_id t (an_id x) = Some x)
     \<and> parent_before (topo_rel t) (tp_entry t) (map an_id (snd s))"

definition may_visit :: "topology \<Rightarrow> string \<Rightarrow> string set \<times> agent_node list \<Rightarrow> bool" where
  "may_visit t n s \<longleftrightarrow> n = tp_entry t \<or> (\<exists>u \<in> fst s. (u, n) \<in> topo_rel t)"

definition unvisited :: "topology \<Rightarrow> string set \<times> agent_node list \<Rightarrow> nat" where
  "unvisited t s = card (set (node_ids t) - fst s)"

definition closed_from :: "topology \<Rightarrow> string set \<Rightarrow> string set \<Rightarrow> bool" where
  "closed_from t old new \<longleftrightarrow> (\<forall>u v. u \<in> new \<longrightarrow> u \<notin> old \<longrightarrow> (u, v) \<in> topo_rel t \<longrightarrow> v \<in> set (node_ids t) \<longrightarrow> v \<in> new)"

text \<open>What a call establishes: it extends the walk, keeps its invariant, and leaves no new node with an
  unvisited successor.\<close>

definition extends :: "topology \<Rightarrow> string set \<times> agent_node list \<Rightarrow> string set \<times> agent_node list \<Rightarrow> bool" where
  "extends t s s' \<longleftrightarrow> walk_ok t s' \<and> fst s \<subseteq> fst s' \<and> closed_from t (fst s) (fst s') \<and> (\<exists>new. snd s' = snd s @ new)"

lemma extends_refl [simp]: "walk_ok t s \<Longrightarrow> extends t s s"
  by (simp add: extends_def closed_from_def)

lemma extends_trans: "extends t s s' \<Longrightarrow> extends t s' s'' \<Longrightarrow> extends t s s''"
  unfolding extends_def closed_from_def by (auto 0 4)

lemma unvisited_mono: "extends t s s' \<Longrightarrow> unvisited t s' \<le> unvisited t s"
  unfolding unvisited_def extends_def by (intro card_mono) auto

lemma unvisited_enter:
  assumes "n \<in> set (node_ids t)" "n \<notin> fst s"
  shows "unvisited t (insert n (fst s), xs) < unvisited t s"
  unfolding unvisited_def using assms by (intro psubset_card_mono) auto

lemma walk_ok_enter:
  assumes "walk_ok t s" "n \<notin> fst s" "node_by_id t n = Some x" "may_visit t n s"
  shows "walk_ok t (insert n (fst s), snd s @ [x])"
proof -
  have "an_id x = n" using node_by_id_SomeD [OF assms(3)] by simp
  then show ?thesis using assms by (auto simp: walk_ok_def may_visit_def parent_before_snoc)
qed

lemma may_visit_mono: "may_visit t n s \<Longrightarrow> extends t s s' \<Longrightarrow> may_visit t n s'"
  by (auto simp: may_visit_def extends_def)

lemma visit_spec:
  "walk_ok t s \<Longrightarrow> may_visit t n s \<Longrightarrow> unvisited t s < f \<Longrightarrow>
     \<exists>s'. visit f t n s = Some s' \<and> extends t s s' \<and> (n \<in> set (node_ids t) \<longrightarrow> n \<in> fst s')"
  "walk_ok t s \<Longrightarrow> n \<in> fst s \<Longrightarrow> set es \<subseteq> set (tp_edges t) \<Longrightarrow> unvisited t s < f \<Longrightarrow>
     \<exists>s'. visit_edges f t n es s = Some s' \<and> extends t s s'
       \<and> (\<forall>e \<in> set es. ae_from e = n \<longrightarrow> ae_to e \<in> set (node_ids t) \<longrightarrow> ae_to e \<in> fst s')"
proof (induction f t n s and f t n es s rule: visit_visit_edges.induct)
  case (2 f t n seen ordered)
  let ?s = "(seen, ordered)"
  show ?case
  proof (cases "n \<in> seen \<or> node_by_id t n = None")
    case True
    then have "visit (Suc f) t n ?s = Some ?s" by auto
    then show ?thesis using "2.prems" True by (auto simp: node_by_id_None_iff)
  next
    case False
    then obtain x where x: "node_by_id t n = Some x" "n \<notin> seen" by auto
    let ?e = "(insert n seen, ordered @ [x])"
    have n: "n \<in> set (node_ids t)" using x(1) node_by_id_None_iff [of t n] by simp
    have w: "walk_ok t ?e" using walk_ok_enter [OF "2.prems"(1) _ x(1) "2.prems"(2)] x(2) by simp
    have u: "unvisited t ?e < f" using unvisited_enter [OF n, of ?s "ordered @ [x]"] x(2) "2.prems"(3) by simp
    from "2.IH" [OF x(2) x(1) w _ _ u] obtain s' where s': "visit_edges f t n (tp_edges t) ?e = Some s'" "extends t ?e s'"
        "\<forall>e \<in> set (tp_edges t). ae_from e = n \<longrightarrow> ae_to e \<in> set (node_ids t) \<longrightarrow> ae_to e \<in> fst s'" by auto
    have "closed_from t seen (fst s')"
      unfolding closed_from_def
    proof (intro allI impI)
      fix u v assume h: "u \<in> fst s'" "u \<notin> seen" "(u, v) \<in> topo_rel t" "v \<in> set (node_ids t)"
      show "v \<in> fst s'"
      proof (cases "u = n")
        case True
        then show ?thesis using h(3,4) s'(3) by (auto simp: topo_rel_iff)
      next
        case False
        then show ?thesis using h s'(2) by (simp add: extends_def closed_from_def)
      qed
    qed
    then have "extends t ?s s'" using s'(2) by (auto simp: extends_def)
    moreover have "n \<in> fst s'" using s'(2) by (auto simp: extends_def)
    ultimately show ?thesis using s'(1) x by simp
  qed
next
  case (4 f t n e es s)
  show ?case
  proof (cases "ae_from e = n")
    case True
    have m: "may_visit t (ae_to e) s" using "4.prems"(2,3) True by (auto simp: may_visit_def topo_rel_iff)
    from "4.IH"(1) [OF True "4.prems"(1) m "4.prems"(4)] obtain s1 where s1: "visit f t (ae_to e) s = Some s1"
        "extends t s s1" "ae_to e \<in> set (node_ids t) \<longrightarrow> ae_to e \<in> fst s1" by blast
    have p: "walk_ok t s1" "n \<in> fst s1" "unvisited t s1 < f"
      using s1(2) "4.prems"(2,4) unvisited_mono [OF s1(2)] by (auto simp: extends_def)
    from "4.IH"(2) [OF True s1(1) p(1,2) _ p(3)] "4.prems"(3) obtain s2 where s2: "visit_edges f t n es s1 = Some s2"
        "extends t s1 s2" "\<forall>e \<in> set es. ae_from e = n \<longrightarrow> ae_to e \<in> set (node_ids t) \<longrightarrow> ae_to e \<in> fst s2" by auto
    have "extends t s s2" using s1(2) s2(2) by (rule extends_trans)
    moreover have "fst s1 \<subseteq> fst s2" using s2(2) by (simp add: extends_def)
    ultimately show ?thesis using True s1(1,3) s2(1,3) by auto
  next
    case False
    then show ?thesis using "4.IH"(3) [OF False] "4.prems" by auto
  qed
qed auto

subsection \<open>The order of a constructed topology\<close>

lemma walk_from_entry:
  assumes "make_topology t = Inr t"
  shows "\<exists>s. visit (order_fuel t) t (tp_entry t) ({}, []) = Some s \<and> walk_ok t s \<and> closed_from t {} (fst s)
    \<and> tp_entry t \<in> fst s"
proof -
  have e: "tp_entry t \<in> set (node_ids t)" using assms by (simp add: make_topology_Inr)
  have "unvisited t ({}, []) < order_fuel t"
    using card_length [of "node_ids t"] by (simp add: unvisited_def order_fuel_def node_ids_def)
  from visit_spec(1) [of t "({}, [])" "tp_entry t", OF _ _ this] obtain s
    where "visit (order_fuel t) t (tp_entry t) ({}, []) = Some s" "extends t ({}, []) s"
      "tp_entry t \<in> set (node_ids t) \<longrightarrow> tp_entry t \<in> fst s"
    by (auto simp: walk_ok_def may_visit_def)
  then show ?thesis using e by (auto simp: extends_def)
qed

lemma ordered_nodes_walk:
  assumes "make_topology t = Inr t" "tp_edges t \<noteq> []"
  obtains s where "walk_ok t s" "closed_from t {} (fst s)" "tp_entry t \<in> fst s"
    "ordered_nodes t = Some (snd s @ filter (\<lambda>x. an_id x \<notin> fst s) (tp_nodes t))"
  using walk_from_entry [OF assms(1)] assms(2) by (auto simp: ordered_nodes_def)

lemma parent_before_hd: "parent_before E r xs \<Longrightarrow> xs \<noteq> [] \<Longrightarrow> hd xs = r"
  unfolding parent_before_def by (metis append_Nil empty_iff empty_set list.exhaust_sel)

lemma ordered_nodes_permutes:
  assumes "make_topology t = Inr t" "distinct (node_ids t)"
  shows "\<exists>ns. ordered_nodes t = Some ns \<and> distinct (map an_id ns) \<and> set ns = set (tp_nodes t)
    \<and> ns \<noteq> [] \<and> an_id (hd ns) = tp_entry t"
proof (cases "tp_edges t = []")
  case True
  have "tp_entry t \<in> set (node_ids t)" using assms(1) by (simp add: make_topology_Inr)
  then obtain x where x: "node_by_id t (tp_entry t) = Some x" using node_by_id_None_iff by fastforce
  let ?rest = "filter (\<lambda>y. an_id y \<noteq> tp_entry t) (tp_nodes t)"
  have o: "ordered_nodes t = Some (x # ?rest)" using True x by (simp add: ordered_nodes_def)
  have i: "an_id x = tp_entry t" "x \<in> set (tp_nodes t)" using node_by_id_SomeD [OF x] by auto
  have "y \<in> set (x # ?rest)" if "y \<in> set (tp_nodes t)" for y
    using that node_by_id_distinct [OF assms(2) that] x by (cases "an_id y = tp_entry t") auto
  then have "set (x # ?rest) = set (tp_nodes t)" using i(2) by auto
  moreover have "distinct (map an_id (x # ?rest))"
    using assms(2) i(1) by (auto simp: node_ids_def distinct_map filter_map intro: inj_on_subset)
  ultimately show ?thesis using o i(1) by simp
next
  case False
  from ordered_nodes_walk [OF assms(1) False] obtain s where w: "walk_ok t s" "tp_entry t \<in> fst s"
    and o: "ordered_nodes t = Some (snd s @ filter (\<lambda>x. an_id x \<notin> fst s) (tp_nodes t))" by blast
  let ?rest = "filter (\<lambda>x. an_id x \<notin> fst s) (tp_nodes t)"
  have f: "fst s = set (map an_id (snd s))" "distinct (map an_id (snd s))" using w(1) by (auto simp: walk_ok_def)
  have sub: "set (snd s) \<subseteq> set (tp_nodes t)" using w(1) node_by_id_SomeD by (auto simp: walk_ok_def)
  have "y \<in> set (snd s @ ?rest)" if "y \<in> set (tp_nodes t)" for y
  proof (cases "an_id y \<in> fst s")
    case True
    then obtain z where "z \<in> set (snd s)" "an_id z = an_id y" using f(1) by auto
    moreover from this have "node_by_id t (an_id y) = Some z" using w(1) by (auto simp: walk_ok_def)
    then have "z = y" using node_by_id_distinct [OF assms(2) that] by simp
    ultimately show ?thesis by simp
  qed (use that in auto)
  then have "set (snd s @ ?rest) = set (tp_nodes t)" using sub by auto
  moreover have "distinct (map an_id ?rest)"
    using assms(2) by (auto simp: node_ids_def distinct_map intro: inj_on_subset)
  moreover have "set (map an_id (snd s)) \<inter> set (map an_id ?rest) = {}" unfolding f(1) [symmetric] by auto
  ultimately have d: "set (snd s @ ?rest) = set (tp_nodes t)" "distinct (map an_id (snd s @ ?rest))"
    using f(2) by (auto simp del: set_map)
  have n: "snd s \<noteq> []" using w(2) f(1) by auto
  then have "an_id (hd (snd s)) = tp_entry t"
    using parent_before_hd [of "topo_rel t" "tp_entry t" "map an_id (snd s)"] w(1) by (simp add: walk_ok_def hd_map)
  then show ?thesis using o n d by simp
qed

text \<open>C5: the execution order of a constructed topology with distinct node ids always exists, starts with the
  entry node and contains every node exactly once.\<close>

theorem ordered_nodes_complete:
  assumes "make_topology t = Inr t" "distinct (node_ids t)"
  shows "\<exists>ns. ordered_nodes t = Some ns \<and> distinct (map an_id ns) \<and> set ns = set (tp_nodes t)
    \<and> ns \<noteq> [] \<and> an_id (hd ns) = tp_entry t"
  using ordered_nodes_permutes [OF assms] .

subsection \<open>Predecessors\<close>

lemma closed_reachable:
  assumes "closed_from t {} S" "tp_entry t \<in> S" "snd ` topo_rel t \<subseteq> set (node_ids t)" "(tp_entry t, u) \<in> (topo_rel t)\<^sup>*"
  shows "u \<in> S"
  using assms(4,1-3) by (induction rule: rtrancl_induct) (force simp: closed_from_def)+

text \<open>A node that is not the entry and has one predecessor, reachable from the entry, comes after it.\<close>

lemma lone_predecessor_first:
  assumes "make_topology t = Inr t" "(tp_entry t, u) \<in> (topo_rel t)\<^sup>*" "(u, v) \<in> topo_rel t" "v \<noteq> tp_entry t"
    "\<forall>w. (w, v) \<in> topo_rel t \<longrightarrow> w = u" "ordered_nodes t = Some ns"
  shows "\<exists>xs x ys y zs. ns = xs @ x # ys @ y # zs \<and> an_id x = u \<and> an_id y = v"
proof -
  have "tp_edges t \<noteq> []" using assms(3) by (auto simp: topo_rel_iff)
  from ordered_nodes_walk [OF assms(1) this] obtain s where s: "walk_ok t s" "closed_from t {} (fst s)" "tp_entry t \<in> fst s"
    and o: "ordered_nodes t = Some (snd s @ filter (\<lambda>x. an_id x \<notin> fst s) (tp_nodes t))" by blast
  have sub: "snd ` topo_rel t \<subseteq> set (node_ids t)" using assms(1) by (auto simp: make_topology_Inr topo_rel_iff)
  have "u \<in> fst s" by (rule closed_reachable [OF s(2,3) sub assms(2)])
  then have "v \<in> fst s" using s(2) assms(3) sub by (force simp: closed_from_def)
  then obtain y where "y \<in> set (snd s)" "an_id y = v" using s(1) by (auto simp: walk_ok_def)
  then obtain as zs where y: "snd s = as @ y # zs" "an_id y = v" by (meson split_list)
  then have "map an_id (snd s) = map an_id as @ v # map an_id zs" by simp
  then have "v = tp_entry t \<or> (\<exists>w \<in> set (map an_id as). (w, v) \<in> topo_rel t)"
    using s(1) unfolding walk_ok_def parent_before_def by blast
  then obtain x where "x \<in> set as" "an_id x = u" using assms(4,5) by auto
  then obtain xs ys where "as = xs @ x # ys" by (meson split_list)
  then have "ns = xs @ x # ys @ y # (zs @ filter (\<lambda>x. an_id x \<notin> fst s) (tp_nodes t))"
    using o assms(6) y(1) by simp
  then show ?thesis using \<open>an_id x = u\<close> y(2) by blast
qed

theorem ordered_nodes_complete_witness: "\<exists>ns. ordered_nodes fork = Some ns \<and> length ns = 3"
proof -
  have d: "distinct (node_ids fork)" by (simp add: fork_def node_ids_def fork_node_def)
  from ordered_nodes_complete [OF fork_made this] obtain ns
    where n: "ordered_nodes fork = Some ns" "distinct (map an_id ns)" "set ns = set (tp_nodes fork)" by blast
  then have "length ns = card (set (tp_nodes fork))" by (metis distinct_card distinct_map)
  also have "\<dots> = 3" by (simp add: fork_def fork_node_def)
  finally show ?thesis using n(1) by blast
qed

end
