(* ===== verification/Runtime_Plan.thy ===== *)
theory Runtime_Plan
  imports Run_Order Agents
begin

text \<open>
  Turning a workflow and a message into a crew: \<open>CrewAIWorkflowRuntime\<close> in
  \<open>src/src/crewai_runtime/runtime.py\<close>.  CrewAI's \<open>Agent\<close>, \<open>Task\<close> and \<open>Crew\<close> are third-party classes;
  the records here hold the arguments the code passes to them.  The text Python gives a value that is
  no string (\<open>str(v)\<close>) is the parameter \<open>show\<close>, and a step that raises is \<open>None\<close> or an error.
\<close>

subsection \<open>Attachments\<close>

record attachments =
  at_tools :: "(string, string list) odict"
  at_memory :: "string set"
  at_knowledge :: "string set"
  at_routers :: "string set"

definition attach_tool :: "string \<Rightarrow> string \<Rightarrow> (string, string list) odict \<Rightarrow> (string, string list) odict" where
  "attach_tool a tool d = put a (append_new tool (get_default d a [])) d"

definition attach_node :: "agent_node \<Rightarrow> attachments \<Rightarrow> attachments" where
  "attach_node n acc = (let a = an_agent_id n in
     \<lparr>at_tools = fold (attach_tool a) (an_tools n) (at_tools acc),
      at_memory = (if an_memory n = Some True then insert a (at_memory acc) else at_memory acc),
      at_knowledge = (if an_knowledge n = Some True then insert a (at_knowledge acc) else at_knowledge acc),
      at_routers = (if an_is_router n then insert a (at_routers acc) else at_routers acc)\<rparr>)"

definition node_attachments :: "agent_node list \<Rightarrow> attachments" where
  "node_attachments ns = fold attach_node ns \<lparr>at_tools = [], at_memory = {}, at_knowledge = {}, at_routers = {}\<rparr>"

subsection \<open>Process and manager\<close>

definition process_value :: "crewai_process \<Rightarrow> string" where
  "process_value p = (case p of Sequential \<Rightarrow> ''sequential'' | Hierarchical \<Rightarrow> ''hierarchical'')"

text \<open>The \<open>or\<close> chain stops at \<open>workflow.process\<close>, whose value is never empty.\<close>

definition resolve_process :: "workflow \<Rightarrow> crewai_process" where
  "resolve_process w =
     (let raw = lower (process_value (wf_process w)) in
      if raw \<in> {''hierarchical'', ''selector'', ''group_chat''} then Hierarchical else Sequential)"

lemma resolve_process_is_field: "resolve_process w = wf_process w"
  by (cases "wf_process w") (simp_all add: resolve_process_def process_value_def lower_def lower_char_def is_upper_def code_def Let_def)

definition manages :: "agent list \<Rightarrow> agent_node \<Rightarrow> bool" where
  "manages agents n \<longleftrightarrow> (case get_agent agents (an_agent_id n) of None \<Rightarrow> False
     | Some c \<Rightarrow> an_is_router n \<or> ag_is_selector c)"

definition manager_node :: "agent_node list \<Rightarrow> agent list \<Rightarrow> agent_node option" where
  "manager_node ns agents = List.find (manages agents) ns"

subsection \<open>Model settings of an agent\<close>

definition drop_nulls :: "(string, json) odict \<Rightarrow> (string, json) odict" where
  "drop_nulls d = filter (\<lambda>(k, v). v \<noteq> JNull) d"

definition effective_model_config :: "agent \<Rightarrow> (string, json) odict" where
  "effective_model_config a =
     (let base = (case ag_llm a of
            Llm c \<Rightarrow> dump_llm c
          | _ \<Rightarrow> (case ag_client a of
              Some m \<Rightarrow> dump_client m
            | None \<Rightarrow> (case get_effective_model_config a of Some m \<Rightarrow> dump_client m | None \<Rightarrow> [])));
          settled = (case ag_settings a of None \<Rightarrow> base | Some s \<Rightarrow> merge base (dump_settings s))
      in merge settled (drop_nulls (case ag_model_override a of None \<Rightarrow> [] | Some d \<Rightarrow> d)))"

definition crew_llm_config :: "(string, json) odict option \<Rightarrow> agent list \<Rightarrow> string list \<Rightarrow> (string, json) odict" where
  "crew_llm_config explicit agents ids = (if opt_truthy explicit then the explicit
     else case List.find (\<lambda>d. truthy (jget d ''model'')) (map effective_model_config (List.map_filter (get_agent agents) ids)) of
       None \<Rightarrow> [] | Some d \<Rightarrow> d)"

text \<open>\<open>int(value)\<close> on a JSON value: \<open>None\<close> where it raises.  Strings may carry a sign, surrounding space and
  single underscores between digits.\<close>

definition digits_value :: "string \<Rightarrow> int option" where
  "digits_value s =
     (let parts = split_on (CHR ''_'') s in
      if list_all (\<lambda>p. p \<noteq> [] \<and> list_all is_digit p) parts
      then Some (foldl (\<lambda>n c. 10 * n + (int (code c) - 48)) 0 (concat parts)) else None)"

fun py_int :: "json \<Rightarrow> int option" where
  "py_int (JInt i) = Some i"
| "py_int (JBool b) = Some (if b then 1 else 0)"
| "py_int (JFloat r) = Some (if r < 0 then - \<lfloor>- r\<rfloor> else \<lfloor>r\<rfloor>)"
| "py_int (JStr s) = (case strip s of
      [] \<Rightarrow> None
    | c # cs \<Rightarrow> if c = CHR ''-'' then map_option uminus (digits_value cs)
        else if c = CHR ''+'' then digits_value cs else digits_value (c # cs))"
| "py_int _ = None"

definition int_params :: "string list" where
  "int_params = [''max_iter'', ''max_rpm'', ''max_execution_time'', ''max_retry_limit'']"

definition agent_param_keys :: "string list" where
  "agent_param_keys = int_params @ [''allow_delegation'', ''respect_context_window'', ''cache'', ''verbose'',
     ''inject_date'', ''use_system_prompt'']"

fun set_params :: "(string, json) odict \<Rightarrow> string list \<Rightarrow> (string, json) odict \<Rightarrow> (string, json) odict option" where
  "set_params d [] ps = Some ps"
| "set_params d (k # ks) ps =
     (let v = jget d k in
      if v = JNull then set_params d ks ps
      else if k \<in> set int_params then (case py_int v of None \<Rightarrow> None | Some i \<Rightarrow> set_params d ks (put k (JInt i) ps))
      else set_params d ks (put k (JBool (truthy v)) ps))"

definition agent_params :: "agent \<Rightarrow> (string, json) odict \<Rightarrow> (string, json) odict option" where
  "agent_params a d = set_params d agent_param_keys
     [(''allow_delegation'', JBool (ag_is_selector a)), (''max_iter'', JInt 20), (''verbose'', JBool False)]"

subsection \<open>Crew agents\<close>

record crew_agent =
  ca_id :: string
  ca_role :: string
  ca_goal :: string
  ca_backstory :: string
  ca_llm :: "(string, json) odict"
  ca_tools :: "string list"
  ca_search :: bool
  ca_params :: "(string, json) odict"
  ca_memory :: bool
  ca_sources :: nat
  ca_delegated_from :: "string option"

text \<open>\<open>search\<close> says whether the knowledge tools are given, \<open>sources\<close> how many knowledge sources, \<open>from\<close> the node
  that the step callback names as delegating.\<close>

definition create_agent ::
  "agent \<Rightarrow> string list \<Rightarrow> bool \<Rightarrow> nat \<Rightarrow> bool \<Rightarrow> bool \<Rightarrow> (string, json) odict \<Rightarrow> string option \<Rightarrow> crew_agent option" where
  "create_agent a extra memory sources search delegates override from =
     (let d = merge (effective_model_config a) override in
      map_option (\<lambda>ps. \<lparr>ca_id = ag_id a, ca_role = ag_name a,
          ca_goal = opt_or (ag_description a) (''Help users with '' @ ag_name a @ '' requests.''),
          ca_backstory = opt_or (ag_system_message a) (opt_or (ag_description a) ''You are a highly capable enterprise AI assistant.''),
          ca_llm = d, ca_tools = fold append_new extra (ag_tools a), ca_search = search,
          ca_params = (if delegates then put ''allow_delegation'' (JBool True) ps else ps),
          ca_memory = memory, ca_sources = sources, ca_delegated_from = from\<rparr>) (agent_params a d))"

text \<open>Retrieval over the configured collections (\<open>rag\<close>: whether the RAG service is on), and the number of
  knowledge sources built from the workflow's description.\<close>

definition knowledge_retrieval_tools :: "bool \<Rightarrow> workflow \<Rightarrow> bool" where
  "knowledge_retrieval_tools rag w \<longleftrightarrow> list_ex (\<lambda>c. strip c \<noteq> []) (ck_collections (wf_knowledge w)) \<and> rag"

definition resolve_knowledge_sources :: "workflow \<Rightarrow> bool \<Rightarrow> nat" where
  "resolve_knowledge_sources w force =
     (if \<not> ck_enabled (wf_knowledge w) \<and> \<not> force then 0 else if wf_description w \<noteq> [] then 1 else 0)"

subsection \<open>The text of a step\<close>

definition paragraph_break :: string where
  "paragraph_break = [newline, newline]"

definition request_placeholder :: string where
  "request_placeholder = ''{request}''"

definition task_description :: "string option \<Rightarrow> bool \<Rightarrow> string" where
  "task_description d final = join paragraph_break
     ([strip (opt_or d ''Respond to the user's request.'')]
      @ (if final then [''Your output is the reply the user reads. Answer what they asked, in the '' @
           ''form and at the length they asked for. Do not describe this workflow.''] else [])
      @ [request_placeholder])"

text \<open>Turns of the conversation are JSON values, since a client may send its own \<open>history\<close>.\<close>

definition turn_of :: "(json \<Rightarrow> string) \<Rightarrow> json \<Rightarrow> (string, json) odict option" where
  "turn_of show v = (case v of
      JObj d \<Rightarrow> let c = jget d ''content'' in
        if strip (if truthy c then text_of show c else []) \<noteq> [] then Some d else None
    | _ \<Rightarrow> None)"

definition turn_line :: "(json \<Rightarrow> string) \<Rightarrow> (string, json) odict \<Rightarrow> string" where
  "turn_line show d = text_of show (get_default d ''role'' (JStr ''user'')) @ '': '' @ text_of show (jget d ''content'')"

text \<open>\<open>metadata.get("history") or []\<close> as the list that the loop runs over; a number or \<open>True\<close> raises.\<close>

definition history_items :: "json \<Rightarrow> json list option" where
  "history_items v = (case v of
      JList xs \<Rightarrow> Some xs
    | JStr s \<Rightarrow> Some (map (\<lambda>c. JStr [c]) s)
    | JObj d \<Rightarrow> Some (map JStr (keys d))
    | _ \<Rightarrow> if truthy v then None else Some [])"

definition drop_current :: "string \<Rightarrow> (string, json) odict list \<Rightarrow> (string, json) odict list" where
  "drop_current message turns =
     (if turns \<noteq> [] \<and> jget (last turns) ''role'' = JStr ''user'' \<and> jget (last turns) ''content'' = JStr message
      then butlast turns else turns)"

definition request_lines :: "(json \<Rightarrow> string) \<Rightarrow> string \<Rightarrow> (string, json) odict list \<Rightarrow> string list" where
  "request_lines show message turns =
     (if turns \<noteq> [] then ''Conversation so far (oldest first):'' # map (turn_line show) turns @ [ [] ] else [])
     @ [''The user's message:'', message]"

definition request_text :: "(json \<Rightarrow> string) \<Rightarrow> string \<Rightarrow> (string, json) odict \<Rightarrow> string option" where
  "request_text show message metadata =
     map_option (\<lambda>items. join [newline] (request_lines show message
         (drop_current message (List.map_filter (turn_of show) items))))
       (history_items (jget metadata ''history''))"

subsection \<open>Tasks\<close>

record task =
  ta_name :: string
  ta_description :: string
  ta_expected :: json
  ta_agent :: "string option"
  ta_context :: "nat list"
  ta_human_input :: bool
  ta_guardrail :: "string option"

record task_meta =
  me_node :: string
  me_agent :: string
  me_index :: nat
  me_description :: string
  me_expected :: json
  me_upstream :: "string list"

text \<open>\<open>allow\<close>: \<open>DELAXIS_ALLOW_HUMAN_INPUT\<close> is \<open>true\<close>.\<close>

definition human_input_enabled :: "bool \<Rightarrow> agent \<Rightarrow> bool" where
  "human_input_enabled allow a \<longleftrightarrow> ag_human_input a = ALWAYS \<and> allow"

definition task_extras :: "bool \<Rightarrow> workflow \<Rightarrow> agent option \<Rightarrow> bool \<Rightarrow> task \<Rightarrow> task" where
  "task_extras allow w config final ta = ta\<lparr>
     ta_human_input := (case config of None \<Rightarrow> False | Some a \<Rightarrow> human_input_enabled allow a),
     ta_guardrail := (if final \<and> cg_enabled (wf_guardrails w) then Some (cg_output_schema (wf_guardrails w)) else None)\<rparr>"

definition override_of :: "agent_node \<Rightarrow> (string, json) odict" where
  "override_of n = (case an_config_override n of None \<Rightarrow> [] | Some d \<Rightarrow> d)"

text \<open>A step's wording must be a string: another truthy value has no \<open>strip\<close> and cannot be joined.\<close>

definition wording :: "json \<Rightarrow> string option option" where
  "wording v = (case v of JStr s \<Rightarrow> Some (if s = [] then None else Some s) | _ \<Rightarrow> if truthy v then None else Some None)"

definition set_default :: "string \<Rightarrow> json \<Rightarrow> (string, json) odict \<Rightarrow> (string, json) odict" where
  "set_default k v d = (if get d k = None then put k v d else d)"

definition own_task :: "agent_node \<Rightarrow> task_config list \<Rightarrow> task_config option" where
  "own_task m ts = List.find (\<lambda>tk. tk_node tk = Some (an_id m) \<or> tk_agent tk = an_agent_id m) ts"

definition rstrip_in :: "string \<Rightarrow> string \<Rightarrow> string" where
  "rstrip_in cs s = rev (dropWhile (\<lambda>c. c \<in> set cs) (rev s))"

definition roster :: "agent_node \<Rightarrow> (string, crew_agent) odict \<Rightarrow> string" where
  "roster m crew = join [newline] (map (\<lambda>(i, a). rstrip_in '': '' (''- '' @ ca_role a @ '': '' @ ca_goal a))
     (filter (\<lambda>(i, a). i \<noteq> an_agent_id m) crew))"

definition routing_text :: "agent_node \<Rightarrow> (string, crew_agent) odict \<Rightarrow> string" where
  "routing_text m crew = ''Your coworkers, and what each is for:'' @ [newline] @ roster m crew @ paragraph_break
     @ ''Delegate the request to the coworker whose purpose covers it, even when you ''
     @ ''could answer yourself: they have the tools to get it right. Answer directly only ''
     @ ''when no coworker's purpose applies. Give the final answer in your own words.''"

definition manager_task ::
  "bool \<Rightarrow> workflow \<Rightarrow> agent_node \<Rightarrow> (string, crew_agent) odict \<Rightarrow> string \<Rightarrow> (task list \<times> task_meta list) option" where
  "manager_task allow w m crew req =
     (let override = (case own_task m (wf_tasks w) of
            None \<Rightarrow> override_of m
          | Some tk \<Rightarrow> set_default ''expected_output'' (JStr (tk_expected_output tk))
              (set_default ''task'' (JStr (tk_description tk)) (override_of m)));
          expected = get_default override ''expected_output'' (JStr ''A direct, complete answer to the user's request.'')
      in map_option (\<lambda>goal.
           let d = task_description (Some (opt_or goal ''Answer the user's request.'' @ paragraph_break @ routing_text m crew)) True
           in ([task_extras allow w None True \<lparr>ta_name = an_id m, ta_description = d, ta_expected = expected,
                  ta_agent = None, ta_context = [], ta_human_input = False, ta_guardrail = None\<rparr>],
               [\<lparr>me_node = an_id m, me_agent = an_agent_id m, me_index = 0,
                  me_description = replace_all request_placeholder req d, me_expected = expected, me_upstream = []\<rparr>]))
         (wording (jget override ''task'')))"

fun explicit_tasks ::
  "bool \<Rightarrow> workflow \<Rightarrow> agent list \<Rightarrow> (string, crew_agent) odict \<Rightarrow> string \<Rightarrow> nat \<Rightarrow> task_config list
    \<Rightarrow> task list \<times> task_meta list \<Rightarrow> task list \<times> task_meta list" where
  "explicit_tasks allow w agents crew req k [] acc = acc"
| "explicit_tasks allow w agents crew req k (tk # tks) (tasks, metas) =
     (if get crew (tk_agent tk) = None then explicit_tasks allow w agents crew req (Suc k) tks (tasks, metas)
      else let final = (tks = []);
          node = opt_or (tk_node tk) (str_or (tk_id tk) (''task-'' @ nat_str (Suc k)));
          d = task_description (Some (tk_description tk)) final;
          ta = task_extras allow w (if tk_agent tk = [] then None else get_agent agents (tk_agent tk)) final
            \<lparr>ta_name = node, ta_description = d, ta_expected = JStr (tk_expected_output tk), ta_agent = Some (tk_agent tk),
             ta_context = [0..<length tasks], ta_human_input = False, ta_guardrail = None\<rparr>;
          me = \<lparr>me_node = node, me_agent = tk_agent tk, me_index = length tasks,
             me_description = replace_all request_placeholder req d, me_expected = JStr (tk_expected_output tk),
             me_upstream = map me_node metas\<rparr>
        in explicit_tasks allow w agents crew req (Suc k) tks (tasks @ [ta], metas @ [me]))"

text \<open>The (meta, task) pairs a step takes its context from, as the indices of the tasks.\<close>

definition upstream :: "topology \<Rightarrow> string \<Rightarrow> task_meta list \<Rightarrow> nat list" where
  "upstream t node metas =
     (if tp_edges t = [] then (if metas = [] then [] else [length metas - 1])
      else filter (\<lambda>i. \<exists>e \<in> set (tp_edges t). ae_to e = node \<and> ae_from e = me_node (metas ! i)) [0..<length metas])"

fun node_tasks ::
  "bool \<Rightarrow> workflow \<Rightarrow> agent list \<Rightarrow> (string, crew_agent) odict \<Rightarrow> string \<Rightarrow> agent_node list
    \<Rightarrow> task list \<times> task_meta list \<Rightarrow> (task list \<times> task_meta list) option" where
  "node_tasks allow w agents crew req [] acc = Some acc"
| "node_tasks allow w agents crew req (n # ns) (tasks, metas) =
     (if get crew (an_agent_id n) = None then node_tasks allow w agents crew req ns (tasks, metas)
      else case wording (jget (override_of n) ''task'') of
        None \<Rightarrow> None
      | Some goal \<Rightarrow>
        (let final = (ns = []);
          config = get_agent agents (an_agent_id n);
          role_goal = (case config of None \<Rightarrow> None | Some a \<Rightarrow> ag_description a);
          d = task_description (if opt_truthy goal then goal
                else if opt_truthy role_goal then Some (''Do your part of this workflow: '' @ the role_goal) else None) final;
          expected = get_default (override_of n) ''expected_output''
            (JStr (if final then ''The reply to the user.'' else ''Your contribution, in the form the next step needs.''));
          ups = upstream (wf_topology w) (an_id n) metas;
          ta = task_extras allow w config final
            \<lparr>ta_name = an_id n, ta_description = d, ta_expected = expected, ta_agent = Some (an_agent_id n),
             ta_context = ups, ta_human_input = False, ta_guardrail = None\<rparr>;
          me = \<lparr>me_node = an_id n, me_agent = an_agent_id n, me_index = length tasks,
             me_description = replace_all request_placeholder req d, me_expected = expected,
             me_upstream = map (\<lambda>i. me_node (metas ! i)) ups\<rparr>
         in node_tasks allow w agents crew req ns (tasks @ [ta], metas @ [me])))"

definition create_tasks ::
  "bool \<Rightarrow> workflow \<Rightarrow> agent_node list \<Rightarrow> (string, crew_agent) odict \<Rightarrow> string \<Rightarrow> agent list \<Rightarrow> agent_node option
    \<Rightarrow> (task list \<times> task_meta list) option" where
  "create_tasks allow w ns crew req agents manager = (case manager of
      Some m \<Rightarrow> manager_task allow w m crew req
    | None \<Rightarrow> (let (tasks, metas) = explicit_tasks allow w agents crew req 0 (wf_tasks w) ([], [])
        in if tasks \<noteq> [] then Some (tasks, metas) else node_tasks allow w agents crew req ns ([], [])))"

subsection \<open>The crew of a run\<close>

record run_env =
  re_rag :: bool
  re_allow_human :: bool
  re_agents :: "agent list"

datatype run_error = No_agents | No_specialists string | No_valid_agents | Selector_has_tools string "string list" | Raised

record plan =
  pl_process :: crewai_process
  pl_agents :: "crew_agent list"
  pl_manager :: "crew_agent option"
  pl_tasks :: "task list"
  pl_metas :: "task_meta list"
  pl_memory :: bool
  pl_sources :: nat
  pl_planning_llm :: "(string, json) odict option"
  pl_max_rpm :: "int option"
  pl_manager_llm :: "(string, json) odict option"
  pl_inputs :: "(string, json) odict"

text \<open>What one pass of the loop over the agents of the ordered nodes hands to \<open>_create_agent\<close>.\<close>

definition member_agent ::
  "run_env \<Rightarrow> workflow \<Rightarrow> agent_node list \<Rightarrow> agent_node option \<Rightarrow> (string, json) odict \<Rightarrow> agent \<Rightarrow> crew_agent option" where
  "member_agent env w ns manager override a =
     (let att = node_attachments ns; i = ag_id a;
          search = knowledge_retrieval_tools (re_rag env) w;
          everywhere = at_knowledge att = {} \<and> ck_enabled (wf_knowledge w)
      in create_agent a (get_default (at_tools att) i []) (i \<in> at_memory att)
           (if i \<in> at_knowledge att then resolve_knowledge_sources w True else 0)
           (search \<and> (everywhere \<or> i \<in> at_knowledge att)) (i \<in> at_routers att) override
           (case manager of Some m \<Rightarrow> if i \<noteq> an_agent_id m then Some (an_id m) else None | None \<Rightarrow> None))"

fun build_crew ::
  "(agent \<Rightarrow> crew_agent option) \<Rightarrow> agent list \<Rightarrow> agent_node option \<Rightarrow> string list
    \<Rightarrow> crew_agent list \<times> (string, crew_agent) odict \<Rightarrow> (crew_agent list \<times> (string, crew_agent) odict) option" where
  "build_crew mk agents manager [] acc = Some acc"
| "build_crew mk agents manager (i # is) (crew, d) =
     (if map_option an_agent_id manager = Some i then build_crew mk agents manager is (crew, d)
      else case get_agent agents i of
        None \<Rightarrow> build_crew mk agents manager is (crew, d)
      | Some a \<Rightarrow> (case mk a of None \<Rightarrow> None
          | Some c \<Rightarrow> build_crew mk agents manager is (crew @ [c], put i c d)))"

definition manager_agent ::
  "attachments \<Rightarrow> agent list \<Rightarrow> (string, json) odict \<Rightarrow> agent_node option \<Rightarrow> run_error + crew_agent option" where
  "manager_agent att agents override manager = (case manager of
      None \<Rightarrow> Inr None
    | Some m \<Rightarrow> (case get_agent agents (an_agent_id m) of
        None \<Rightarrow> Inl Raised
      | Some a \<Rightarrow> (let tools = ag_tools a @ get_default (at_tools att) (an_agent_id m) [] in
          if tools \<noteq> [] then Inl (Selector_has_tools (an_agent_id m) tools)
          else case create_agent a [] (an_agent_id m \<in> at_memory att) 0 False True override None of
            None \<Rightarrow> Inl Raised | Some c \<Rightarrow> Inr (Some c))))"

definition kickoff_inputs :: "workflow \<Rightarrow> string \<Rightarrow> string \<Rightarrow> string \<Rightarrow> (string, json) odict \<Rightarrow> string \<Rightarrow> (string, json) odict" where
  "kickoff_inputs w message sid uid metadata req =
     put ''request'' (JStr req) (merge [(''message'', JStr message), (''session_id'', JStr sid), (''user_id'', JStr uid),
       (''workflow_id'', JStr (wf_id w))] metadata)"

definition prepare_run ::
  "(json \<Rightarrow> string) \<Rightarrow> run_env \<Rightarrow> workflow \<Rightarrow> string \<Rightarrow> string \<Rightarrow> string \<Rightarrow> (string, json) odict \<Rightarrow> run_error + plan" where
  "prepare_run show env w message sid uid metadata =
    (case ordered_nodes (wf_topology w) of None \<Rightarrow> Inl Raised
     | Some ns \<Rightarrow>
      (let agents = re_agents env; ids = map an_agent_id ns; att = node_attachments ns;
           override = (case jget metadata ''model_override'' of JObj d \<Rightarrow> d | _ \<Rightarrow> []);
           process = resolve_process w;
           manager = (if process = Hierarchical then manager_node ns agents else None)
       in if ids = [] then Inl No_agents
       else case build_crew (member_agent env w ns manager override) agents manager ids ([], []) of
         None \<Rightarrow> Inl Raised
       | Some (crew, by_id) \<Rightarrow>
         if crew = [] then Inl (case manager of Some m \<Rightarrow> No_specialists (an_agent_id m) | None \<Rightarrow> No_valid_agents)
         else case manager_agent att agents override manager of
           Inl e \<Rightarrow> Inl e
         | Inr mgr \<Rightarrow> (case request_text show message metadata of
             None \<Rightarrow> Inl Raised
           | Some req \<Rightarrow> (case create_tasks (re_allow_human env) w ns by_id req agents manager of
               None \<Rightarrow> Inl Raised
             | Some (tasks, metas) \<Rightarrow> Inr
                 \<lparr>pl_process = process, pl_agents = crew, pl_manager = mgr, pl_tasks = tasks, pl_metas = metas,
                  pl_memory = cm_enabled (wf_memory w), pl_sources = resolve_knowledge_sources w False,
                  pl_planning_llm = (if wf_planning w then Some (crew_llm_config (wf_planning_llm w) agents ids) else None),
                  pl_max_rpm = wf_max_rpm w,
                  pl_manager_llm = (if mgr = None \<and> process = Hierarchical
                    then Some (crew_llm_config (wf_manager_llm w) agents ids) else None),
                  pl_inputs = kickoff_inputs w message sid uid metadata req\<rparr>))))"

subsection \<open>A run\<close>

text \<open>\<open>crew.kickoff\<close> is CrewAI's: \<open>kick\<close> gives the text of an exception, or the raw output, the text of the
  result and its token usage.  Trace steps, timings and the approximate cost are left out.\<close>

record kickoff_result =
  ki_raw :: "string option"
  ki_text :: string
  ki_usage :: "(string, json) odict"

record run_result =
  rz_response :: string
  rz_agent_count :: nat
  rz_task_count :: nat
  rz_memory_enabled :: bool
  rz_sources :: nat
  rz_process :: string
  rz_usage :: "(string, json) odict"

definition kickoff_response :: "string + kickoff_result \<Rightarrow> string" where
  "kickoff_response k = strip (case k of
      Inl e \<Rightarrow> ''Error during CrewAI execution: '' @ e
    | Inr r \<Rightarrow> opt_or (ki_raw r) (ki_text r))"

definition run_message ::
  "(plan \<Rightarrow> string + kickoff_result) \<Rightarrow> (json \<Rightarrow> string) \<Rightarrow> run_env \<Rightarrow> workflow \<Rightarrow> string \<Rightarrow> string \<Rightarrow> string
    \<Rightarrow> (string, json) odict \<Rightarrow> run_error + run_result" where
  "run_message kick show env w message sid uid metadata = (case prepare_run show env w message sid uid metadata of
      Inl e \<Rightarrow> Inl e
    | Inr p \<Rightarrow> Inr \<lparr>rz_response = kickoff_response (kick p),
        rz_agent_count = length (pl_agents p) + (if pl_manager p = None then 0 else 1),
        rz_task_count = length (pl_tasks p), rz_memory_enabled = pl_memory p, rz_sources = pl_sources p,
        rz_process = process_value (pl_process p),
        rz_usage = (case kick p of Inl _ \<Rightarrow> [] | Inr r \<Rightarrow> ki_usage r)\<rparr>)"

subsection \<open>Well-formed plans\<close>

text \<open>Task and metadata lists are aligned, and a task takes its context from earlier tasks only.\<close>

definition aligned :: "task list \<Rightarrow> task_meta list \<Rightarrow> bool" where
  "aligned ts ms \<longleftrightarrow> length ts = length ms \<and> (\<forall>i < length ts.
     ta_name (ts ! i) = me_node (ms ! i) \<and> ta_description (ts ! i) \<noteq> [] \<and> me_index (ms ! i) = i
     \<and> (\<forall>j \<in> set (ta_context (ts ! i)). j < i)
     \<and> me_upstream (ms ! i) = map (\<lambda>j. me_node (ms ! j)) (ta_context (ts ! i)))"

definition guarded_last :: "task list \<Rightarrow> bool" where
  "guarded_last ts \<longleftrightarrow> (\<forall>t \<in> set (butlast ts). ta_guardrail t = None)"

lemma aligned_Nil [simp]: "aligned [] []"
  by (simp add: aligned_def)

lemma aligned_snoc:
  assumes "aligned ts ms" "ta_name ta = me_node me" "ta_description ta \<noteq> []" "me_index me = length ts"
    "\<forall>j \<in> set (ta_context ta). j < length ms" "me_upstream me = map (\<lambda>j. me_node (ms ! j)) (ta_context ta)"
  shows "aligned (ts @ [ta]) (ms @ [me])"
proof -
  have "\<forall>i < length ms. \<forall>j \<in> set (ta_context (ts ! i)). j < length ms"
    using assms(1) unfolding aligned_def by (metis order.strict_trans)
  then show ?thesis using assms by (auto simp: aligned_def nth_append less_Suc_eq)
qed

lemma task_extras_simps [simp]:
  "ta_name (task_extras al w c f ta) = ta_name ta"
  "ta_description (task_extras al w c f ta) = ta_description ta"
  "ta_context (task_extras al w c f ta) = ta_context ta"
  "ta_agent (task_extras al w c f ta) = ta_agent ta"
  "ta_guardrail (task_extras al w c False ta) = None"
  by (simp_all add: task_extras_def)

lemma task_description_not_Nil [simp]: "task_description d f \<noteq> []"
  by (cases f) (simp_all add: task_description_def request_placeholder_def paragraph_break_def)

lemma upstream_lt: "\<forall>j \<in> set (upstream t n ms). j < length ms"
  by (auto simp: upstream_def)

lemma guarded_last_snoc: "guarded_last (ts @ [t]) \<longleftrightarrow> (\<forall>t \<in> set ts. ta_guardrail t = None)"
  by (simp add: guarded_last_def)

lemma unguarded_last: "\<forall>t \<in> set ts. ta_guardrail t = None \<Longrightarrow> guarded_last ts"
  by (auto simp: guarded_last_def dest: in_set_butlastD)

definition tasks_ok :: "(string, crew_agent) odict \<Rightarrow> task list \<times> task_meta list \<Rightarrow> bool" where
  "tasks_ok crew s \<longleftrightarrow> aligned (fst s) (snd s) \<and> guarded_last (fst s)
     \<and> (\<forall>t \<in> set (fst s). \<forall>a. ta_agent t = Some a \<longrightarrow> get crew a \<noteq> None)"

lemma explicit_tasks_ok:
  "tasks_ok crew (ts, ms) \<Longrightarrow> \<forall>t \<in> set ts. ta_guardrail t = None \<Longrightarrow>
     tasks_ok crew (explicit_tasks allow w agents crew req k tks (ts, ms))"
proof (induction tks arbitrary: k ts ms)
  case (Cons tk tks)
  show ?case
  proof (cases "get crew (tk_agent tk) = None")
    case True
    then show ?thesis using Cons by simp
  next
    case False
    let ?c = "if tk_agent tk = [] then None else get_agent agents (tk_agent tk)"
    let ?n = "opt_or (tk_node tk) (str_or (tk_id tk) (''task-'' @ nat_str (Suc k)))"
    let ?d = "task_description (Some (tk_description tk)) (tks = [])"
    let ?ta = "task_extras allow w ?c (tks = []) \<lparr>ta_name = ?n, ta_description = ?d,
        ta_expected = JStr (tk_expected_output tk), ta_agent = Some (tk_agent tk), ta_context = [0..<length ts],
        ta_human_input = False, ta_guardrail = None\<rparr>"
    let ?me = "\<lparr>me_node = ?n, me_agent = tk_agent tk, me_index = length ts,
        me_description = replace_all request_placeholder req ?d, me_expected = JStr (tk_expected_output tk),
        me_upstream = map me_node ms\<rparr>"
    have l: "length ts = length ms" using Cons.prems(1) by (simp add: tasks_ok_def aligned_def)
    have "map me_node ms = map (\<lambda>j. me_node (ms ! j)) [0..<length ts]" by (rule nth_equalityI) (simp_all add: l)
    then have a: "aligned (ts @ [?ta]) (ms @ [?me])"
      using Cons.prems(1) l by (intro aligned_snoc) (simp_all add: tasks_ok_def)
    have ok: "tasks_ok crew (ts @ [?ta], ms @ [?me])"
      using a Cons.prems False by (auto simp: tasks_ok_def guarded_last_snoc)
    show ?thesis
    proof (cases "tks = []")
      case True
      then show ?thesis using ok False by (auto simp: Let_def)
    next
      case F: False
      have "\<forall>t \<in> set (ts @ [?ta]). ta_guardrail t = None" using Cons.prems(2) F by simp
      from Cons.IH [OF ok this, of "Suc k"] show ?thesis using False by (auto simp: Let_def)
    qed
  qed
qed simp

lemma node_tasks_ok:
  "tasks_ok crew (ts, ms) \<Longrightarrow> \<forall>t \<in> set ts. ta_guardrail t = None \<Longrightarrow>
     node_tasks allow w agents crew req ns (ts, ms) = Some r \<Longrightarrow> tasks_ok crew r"
proof (induction ns arbitrary: ts ms)
  case (Cons n ns)
  show ?case
  proof (cases "get crew (an_agent_id n) = None")
    case True
    then show ?thesis using Cons by simp
  next
    case False
    then obtain goal ta me where s: "node_tasks allow w agents crew req ns (ts @ [ta], ms @ [me]) = Some r"
        "ta_name ta = me_node me" "ta_description ta \<noteq> []" "me_index me = length ts" "ta_agent ta = Some (an_agent_id n)"
        "ta_context ta = upstream (wf_topology w) (an_id n) ms"
        "me_upstream me = map (\<lambda>j. me_node (ms ! j)) (ta_context ta)" "ns \<noteq> [] \<Longrightarrow> ta_guardrail ta = None"
      using Cons.prems(3) by (auto simp: Let_def split: option.splits)
    have a: "aligned (ts @ [ta]) (ms @ [me])"
      using Cons.prems(1) s upstream_lt by (intro aligned_snoc) (simp_all add: tasks_ok_def)
    have ok: "tasks_ok crew (ts @ [ta], ms @ [me])"
      using a Cons.prems(1,2) False s(5) by (auto simp: tasks_ok_def guarded_last_snoc)
    show ?thesis
    proof (cases "ns = []")
      case True
      then show ?thesis using ok s(1) by simp
    next
      case F: False
      have "\<forall>t \<in> set (ts @ [ta]). ta_guardrail t = None" using Cons.prems(2) s(8) F by simp
      from Cons.IH [OF ok this s(1)] show ?thesis .
    qed
  qed
qed simp

lemma tasks_ok_Nil [simp]: "tasks_ok crew ([], [])"
  by (simp add: tasks_ok_def guarded_last_def)

lemma create_tasks_ok:
  assumes "create_tasks allow w ns crew req agents manager = Some (ts, ms)"
  shows "tasks_ok crew (ts, ms) \<and> (manager \<noteq> None \<longrightarrow> length ts = 1)"
proof (cases manager)
  case None
  obtain es em where e: "explicit_tasks allow w agents crew req 0 (wf_tasks w) ([], []) = (es, em)" by fastforce
  show ?thesis
  proof (cases "es = []")
    case True
    then have "node_tasks allow w agents crew req ns ([], []) = Some (ts, ms)"
      using assms None e by (simp add: create_tasks_def)
    from node_tasks_ok [OF _ _ this] None show ?thesis by simp
  next
    case False
    then have "(ts, ms) = (es, em)" using assms None e by (simp add: create_tasks_def)
    then show ?thesis using explicit_tasks_ok [of crew "[]" "[]" allow w agents req 0 "wf_tasks w"] e None by simp
  qed
next
  case (Some m)
  then show ?thesis using assms
    by (auto simp: create_tasks_def manager_task_def Let_def tasks_ok_def aligned_def guarded_last_def split: option.splits)
qed

lemma create_agent_id: "create_agent a extra mem src search dg ov from = Some c \<Longrightarrow> ca_id c = ag_id a"
  by (auto simp: create_agent_def Let_def)

lemma build_crew_ids:
  assumes mk: "\<And>a c. mk a = Some c \<Longrightarrow> ca_id c = ag_id a"
  shows "build_crew mk agents manager is (crew, d) = Some (crew', d') \<Longrightarrow> set (keys d) \<subseteq> ca_id ` set crew
    \<Longrightarrow> set (keys d') \<subseteq> ca_id ` set crew'"
proof (induction "is" arbitrary: crew d)
  case (Cons i "is")
  show ?case
  proof (cases "map_option an_agent_id manager = Some i \<or> get_agent agents i = None")
    case True
    then show ?thesis using Cons by (auto split: if_splits)
  next
    case False
    then obtain a where a: "get_agent agents i = Some a" "map_option an_agent_id manager \<noteq> Some i" by auto
    then obtain c where c: "mk a = Some c" "build_crew mk agents manager is (crew @ [c], put i c d) = Some (crew', d')"
      using Cons.prems(1) by (auto split: option.splits if_splits)
    have "ca_id c = i" using mk [OF c(1)] get_agent_SomeD [OF a(1)] by simp
    then show ?thesis using Cons.IH [OF c(2)] Cons.prems(2) by auto
  qed
qed simp

lemma prepare_runE:
  assumes "prepare_run show env w message sid uid metadata = Inr p"
  obtains ns manager override crew by_id mgr req where
    "ordered_nodes (wf_topology w) = Some ns"
    "manager = (if resolve_process w = Hierarchical then manager_node ns (re_agents env) else None)"
    "build_crew (member_agent env w ns manager override) (re_agents env) manager (map an_agent_id ns) ([], []) = Some (crew, by_id)"
    "crew \<noteq> []" "manager_agent (node_attachments ns) (re_agents env) override manager = Inr mgr"
    "request_text show message metadata = Some req"
    "create_tasks (re_allow_human env) w ns by_id req (re_agents env) manager = Some (pl_tasks p, pl_metas p)"
    "pl_agents p = crew" "pl_manager p = mgr" "pl_inputs p = kickoff_inputs w message sid uid metadata req"
proof -
  obtain ns where ns: "ordered_nodes (wf_topology w) = Some ns"
    using assms by (cases "ordered_nodes (wf_topology w)") (simp_all add: prepare_run_def)
  show thesis using assms unfolding prepare_run_def ns
    by (auto simp: Let_def split: if_splits option.splits sum.splits prod.splits intro!: that [OF ns])
qed

lemma manager_agent_Some: "manager_agent att agents override manager = Inr mgr \<Longrightarrow> mgr \<noteq> None \<Longrightarrow> manager \<noteq> None"
  by (cases manager) (simp_all add: manager_agent_def)

text \<open>C6: a plan that is handed to CrewAI has an agent; its tasks match the recorded steps one to one, take their
  context from earlier tasks only, belong to agents of the crew, and carry an output guardrail at most
  on the last one; a manager gets one task; and no client metadata replaces the request.\<close>

theorem plan_well_formed:
  assumes "prepare_run show env w message sid uid metadata = Inr p"
  shows "pl_agents p \<noteq> [] \<and> aligned (pl_tasks p) (pl_metas p) \<and> guarded_last (pl_tasks p)
    \<and> (\<forall>t \<in> set (pl_tasks p). ta_agent t = None \<or> (\<exists>c \<in> set (pl_agents p). ta_agent t = Some (ca_id c)))
    \<and> (pl_manager p \<noteq> None \<longrightarrow> length (pl_tasks p) = 1)
    \<and> (\<exists>req. request_text show message metadata = Some req \<and> get (pl_inputs p) ''request'' = Some (JStr req))"
  using assms
proof (rule prepare_runE)
  fix ns manager override crew by_id mgr req
  assume b: "build_crew (member_agent env w ns manager override) (re_agents env) manager (map an_agent_id ns) ([], []) = Some (crew, by_id)"
    and c: "crew \<noteq> []" "manager_agent (node_attachments ns) (re_agents env) override manager = Inr mgr"
    and r: "request_text show message metadata = Some req"
    and t: "create_tasks (re_allow_human env) w ns by_id req (re_agents env) manager = Some (pl_tasks p, pl_metas p)"
    and p: "pl_agents p = crew" "pl_manager p = mgr" "pl_inputs p = kickoff_inputs w message sid uid metadata req"
  have "set (keys by_id) \<subseteq> ca_id ` set crew"
    by (rule build_crew_ids [OF _ b]) (auto simp: member_agent_def Let_def keys_def dest: create_agent_id)
  note ids = this
  from create_tasks_ok [OF t] have ok: "tasks_ok by_id (pl_tasks p, pl_metas p)" "manager \<noteq> None \<Longrightarrow> length (pl_tasks p) = 1"
    by auto
  have "ta_agent x = None \<or> (\<exists>c \<in> set crew. ta_agent x = Some (ca_id c))" if x: "x \<in> set (pl_tasks p)" for x
  proof (cases "ta_agent x")
    case (Some a)
    then have "a \<in> set (keys by_id)" using ok(1) x by (simp add: tasks_ok_def in_keys_iff)
    then show ?thesis using ids Some by auto
  qed simp
  then show ?thesis using c(1) p r ok manager_agent_Some [OF c(2)]
    by (simp add: tasks_ok_def kickoff_inputs_def)
qed

definition demo_agent :: "string \<Rightarrow> agent" where
  "demo_agent i = \<lparr>ag_id = i, ag_type = ASSISTANT, ag_name = ''Helper'', ag_output_key = None, ag_system_message = None,
     ag_is_selector = False, ag_model_override = None, ag_settings = None, ag_llm = Llm_none, ag_client = None,
     ag_memory = None, ag_reflect_on_tool_use = True, ag_human_input = NEVER, ag_code_execution = Code_flag False,
     ag_tools = [], ag_max_auto_reply = 10, ag_retrieve = None, ag_description = Some ''answers'', ag_behavior = None,
     ag_version = 1, ag_updated = 0\<rparr>"

definition demo_env :: run_env where
  "demo_env = \<lparr>re_rag = False, re_allow_human = False, re_agents = [demo_agent ''a'']\<rparr>"

definition one_node :: topology where
  "one_node = \<lparr>tp_type = topology_type.SINGLE, tp_nodes = [default_node ''n'' ''a''], tp_edges = [], tp_entry = ''n'',
     tp_conditions = []\<rparr>"

definition demo_workflow :: workflow where
  "demo_workflow = default_workflow ''w'' one_node"

lemma demo_ordered [simp]: "ordered_nodes one_node = Some [default_node ''n'' ''a'']"
  by (simp add: ordered_nodes_def one_node_def node_by_id_def default_node_def)

lemma demo_workflow_fields [simp]: "wf_topology demo_workflow = one_node" "wf_tasks demo_workflow = []" "wf_process demo_workflow = Sequential"
  by (simp_all add: demo_workflow_def default_workflow_def)

lemma demo_plan: "\<exists>p. prepare_run show demo_env demo_workflow message sid uid [] = Inr p \<and> length (pl_tasks p) = 1"
  by (simp add: prepare_run_def Let_def resolve_process_is_field demo_env_def default_node_def get_agent_def demo_agent_def member_agent_def
      create_agent_def agent_params_def agent_param_keys_def int_params_def jget_def get_default_def effective_model_config_def
      drop_nulls_def merge_def get_effective_model_config_def opt_truthy_def manager_agent_def request_text_def history_items_def
      create_tasks_def wording_def override_of_def)

theorem plan_well_formed_witness:
  "\<exists>p. prepare_run (\<lambda>v. []) demo_env demo_workflow ''hi'' ''s'' ''u'' [] = Inr p \<and> length (pl_tasks p) = 1 \<and> aligned (pl_tasks p) (pl_metas p)"
  using demo_plan [of "\<lambda>v. []" "''hi''" "''s''" "''u''"]
    plan_well_formed [of "\<lambda>v. []" demo_env demo_workflow "''hi''" "''s''" "''u''" "[]"] by auto

subsection \<open>The context of a step\<close>

definition sources :: "topology \<Rightarrow> string list \<Rightarrow> string \<Rightarrow> string list" where
  "sources t before n = (if tp_edges t = [] then take_last 1 before else filter (\<lambda>x. (x, n) \<in> topo_rel t) before)"

lemma upstream_names: "map (\<lambda>i. me_node (ms ! i)) (upstream t n ms) = sources t (map me_node ms) n"
proof -
  have "map me_node ms = map (\<lambda>i. me_node (ms ! i)) [0..<length ms]" by (rule nth_equalityI) simp_all
  then have f: "map (\<lambda>i. me_node (ms ! i)) (filter (\<lambda>i. P (me_node (ms ! i))) [0..<length ms]) = filter P (map me_node ms)" for P
    by (simp only: filter_map o_def)
  have "take_last 1 (map me_node ms) = (if ms = [] then [] else [me_node (ms ! (length ms - 1))])"
    by (cases ms rule: rev_cases) (simp_all add: take_last_def)
  then show ?thesis
    using f [of "\<lambda>x. (x, n) \<in> topo_rel t"] by (auto simp: upstream_def sources_def topo_rel_iff conj_commute)
qed

lemma node_tasks_total:
  "\<forall>n \<in> set ns. wording (jget (override_of n) ''task'') \<noteq> None \<Longrightarrow> \<exists>ts' ms'. node_tasks allow w agents crew req ns (ts, ms) = Some (ts', ms')"
proof (induction ns arbitrary: ts ms)
  case (Cons n ns)
  from Cons.prems obtain g where g: "wording (jget (override_of n) ''task'') = Some g" by auto
  show ?case using Cons g by (cases "get crew (an_agent_id n)") (simp_all add: Let_def)
qed simp

lemma node_tasks_names:
  assumes "node_tasks allow w agents crew req ns (ts, ms) = Some (ts', ms')"
  shows "map me_node ms' = map me_node ms @ map an_id (filter (\<lambda>n. get crew (an_agent_id n) \<noteq> None) ns)
    \<and> (\<forall>j. length ms \<le> j \<longrightarrow> j < length ms' \<longrightarrow>
          me_upstream (ms' ! j) = sources (wf_topology w) (map me_node (take j ms')) (me_node (ms' ! j)))
    \<and> take (length ms) ms' = ms"
  using assms
proof (induction ns arbitrary: ts ms)
  case (Cons n ns)
  show ?case
  proof (cases "get crew (an_agent_id n) = None")
    case True
    then show ?thesis using Cons by simp
  next
    case False
    then obtain ta me where s: "node_tasks allow w agents crew req ns (ts @ [ta], ms @ [me]) = Some (ts', ms')"
        "me_node me = an_id n" "me_upstream me = map (\<lambda>i. me_node (ms ! i)) (upstream (wf_topology w) (an_id n) ms)"
      using Cons.prems by (auto simp: Let_def split: option.splits)
    from Cons.IH [OF s(1)] have ih: "map me_node ms' = map me_node (ms @ [me]) @ map an_id (filter (\<lambda>n. get crew (an_agent_id n) \<noteq> None) ns)"
      "\<forall>j. Suc (length ms) \<le> j \<longrightarrow> j < length ms' \<longrightarrow>
          me_upstream (ms' ! j) = sources (wf_topology w) (map me_node (take j ms')) (me_node (ms' ! j))"
      "take (Suc (length ms)) ms' = ms @ [me]" by auto
    have t: "take (length ms) ms' = ms" using arg_cong [OF ih(3), of "take (length ms)"] by (simp add: min_def)
    have "length ms < length ms'" using arg_cong [OF ih(1), of length] by simp
    then have n: "ms' ! length ms = me" using arg_cong [OF ih(3), of "\<lambda>x. x ! length ms"] by simp
    have "me_upstream (ms' ! length ms) = sources (wf_topology w) (map me_node (take (length ms) ms')) (me_node (ms' ! length ms))"
      using s(2,3) by (simp add: n t upstream_names)
    then have "me_upstream (ms' ! j) = sources (wf_topology w) (map me_node (take j ms')) (me_node (ms' ! j))"
      if "length ms \<le> j" "j < length ms'" for j
      using ih(2) that by (cases "j = length ms") auto
    then show ?thesis using ih(1) t s(2) False by simp
  qed
qed simp

text \<open>in a workflow whose tasks come from its nodes, a node other than the entry that has one predecessor,
  reachable from the entry, runs after it and gets exactly its output as context, if both agents exist.\<close>

theorem lone_predecessor_context:
  assumes "make_topology (wf_topology w) = Inr (wf_topology w)" "distinct (node_ids (wf_topology w))"
    "(tp_entry (wf_topology w), u) \<in> (topo_rel (wf_topology w))\<^sup>*" "(u, v) \<in> topo_rel (wf_topology w)"
    "v \<noteq> tp_entry (wf_topology w)" "\<forall>x. (x, v) \<in> topo_rel (wf_topology w) \<longrightarrow> x = u"
    "\<forall>n \<in> set (tp_nodes (wf_topology w)). an_id n \<in> {u, v} \<longrightarrow> get crew (an_agent_id n) \<noteq> None"
    "ordered_nodes (wf_topology w) = Some ns" "node_tasks allow w agents crew req ns ([], []) = Some (ts, ms)"
  shows "\<exists>i j. i < j \<and> j < length ms \<and> me_node (ms ! i) = u \<and> me_node (ms ! j) = v \<and> me_upstream (ms ! j) = [u]"
proof -
  let ?t = "wf_topology w"
  let ?P = "\<lambda>n. get crew (an_agent_id n) \<noteq> None"
  have ns: "set ns = set (tp_nodes ?t)" "distinct (map an_id ns)"
    using ordered_nodes_permutes [OF assms(1,2)] assms(8) by auto
  obtain xs x ys y zs where o: "ns = xs @ x # ys @ y # zs" "an_id x = u" "an_id y = v"
    using lone_predecessor_first [OF assms(1,3-6,8)] by blast
  have px: "?P x" "?P y" using assms(7) ns(1) o by auto
  let ?as = "map an_id (filter ?P xs)" and ?bs = "map an_id (filter ?P ys)" and ?cs = "map an_id (filter ?P zs)"
  from node_tasks_names [OF assms(9)] have m: "map me_node ms = ?as @ u # ?bs @ v # ?cs"
    and up: "\<And>j. j < length ms \<Longrightarrow> me_upstream (ms ! j) = sources ?t (map me_node (take j ms)) (me_node (ms ! j))"
    using px o by auto
  define i where "i = length ?as"
  define j where "j = Suc (length ?as + length ?bs)"
  have l: "length ms = Suc (j + length ?cs)" using arg_cong [OF m, of length] by (simp add: j_def)
  have nth: "me_node (ms ! k) = (?as @ u # ?bs @ v # ?cs) ! k" if "k < length ms" for k
    using that m nth_map [of k ms me_node] by simp
  have i: "me_node (ms ! i) = u" "i < j" using nth [of i] l by (simp_all add: i_def j_def nth_append)
  have j: "me_node (ms ! j) = v" using nth [of j] l by (simp add: j_def nth_append)
  have t: "map me_node (take j ms) = ?as @ u # ?bs" using m by (simp add: take_map [symmetric] j_def)
  have "u \<notin> set ?as \<union> set ?bs" using ns(2) o by auto
  then have none: "filter (\<lambda>x. (x, v) \<in> topo_rel ?t) ?as = []" "filter (\<lambda>x. (x, v) \<in> topo_rel ?t) ?bs = []"
    using assms(6) by (auto simp: filter_empty_conv simp del: set_map)
  have "tp_edges ?t \<noteq> []" using assms(4) by (auto simp: topo_rel_iff)
  then have "me_upstream (ms ! j) = [u]"
    using up [of j] l none assms(4) by (simp only: t j sources_def) simp
  then show ?thesis using i j l by (intro exI [of _ i] exI [of _ j]) simp
qed

definition demo_worker :: crew_agent where
  "demo_worker = \<lparr>ca_id = ''worker'', ca_role = ''Worker'', ca_goal = ''work'', ca_backstory = ''worker'',
     ca_llm = [], ca_tools = [], ca_search = False, ca_params = [], ca_memory = False, ca_sources = 0, ca_delegated_from = None\<rparr>"

definition demo_crew :: "(string, crew_agent) odict" where
  "demo_crew = [(''worker'', demo_worker)]"

lemma demo_crew_worker [simp]: "get demo_crew ''worker'' = Some demo_worker" "an_agent_id (fork_node i) = ''worker''" "an_id (fork_node i) = i"
  "an_config_override (fork_node i) = None"
  by (simp_all add: demo_crew_def fork_node_def)

lemma default_workflow_topology [simp]: "wf_topology (default_workflow i t) = t"
  by (simp add: default_workflow_def)

lemma wording_demo [simp]: "wording (jget (override_of (fork_node i)) ''task'') = Some None"
  by (simp add: override_of_def jget_def get_default_def wording_def)

lemma wording_demo_all: "\<forall>n \<in> set [fork_node x, fork_node y, fork_node z]. wording (jget (override_of n) ''task'') \<noteq> None"
  by simp

lemma fork_ordered: "ordered_nodes fork = Some [fork_node ''a'', fork_node ''b'', fork_node ''c'']"
  by code_simp

theorem lone_predecessor_context_witness:
  "\<exists>ts ms. node_tasks False (default_workflow ''w'' fork) [] demo_crew [] [fork_node ''a'', fork_node ''b'', fork_node ''c''] ([], [])
      = Some (ts, ms) \<and> (\<exists>i j. i < j \<and> j < length ms \<and> me_node (ms ! i) = ''a'' \<and> me_node (ms ! j) = ''b'' \<and> me_upstream (ms ! j) = [''a''])"
proof -
  let ?w = "default_workflow ''w'' fork"
  obtain ts ms where n: "node_tasks False ?w [] demo_crew [] [fork_node ''a'', fork_node ''b'', fork_node ''c''] ([], []) = Some (ts, ms)"
    using node_tasks_total [of "[fork_node ''a'', fork_node ''b'', fork_node ''c'']"] by (metis wording_demo_all)
  have t: "topo_rel fork = {(''a'', ''b''), (''a'', ''c'')}" by (simp add: topo_rel_def edge_pairs_def fork_def fork_edge_def)
  have e: "tp_entry fork = ''a''" "node_ids fork = [''a'', ''b'', ''c'']" by (simp_all add: fork_def node_ids_def fork_node_def)
  have h: "make_topology (wf_topology ?w) = Inr (wf_topology ?w)" "distinct (node_ids (wf_topology ?w))"
    "(tp_entry (wf_topology ?w), ''a'') \<in> (topo_rel (wf_topology ?w))\<^sup>*" "(''a'', ''b'') \<in> topo_rel (wf_topology ?w)"
    "''b'' \<noteq> tp_entry (wf_topology ?w)" "\<forall>x. (x, ''b'') \<in> topo_rel (wf_topology ?w) \<longrightarrow> x = ''a''"
    "\<forall>n \<in> set (tp_nodes (wf_topology ?w)). an_id n \<in> {''a'', ''b''} \<longrightarrow> get demo_crew (an_agent_id n) \<noteq> None"
    "ordered_nodes (wf_topology ?w) = Some [fork_node ''a'', fork_node ''b'', fork_node ''c'']"
    by (simp_all add: fork_made fork_ordered e t) (simp add: fork_def)
  from n lone_predecessor_context [OF h n] show ?thesis by blast
qed

subsection \<open>A join\<close>

definition diamond :: topology where
  "diamond = \<lparr>tp_type = topology_type.GRAPH,
     tp_nodes = [fork_node ''a'', fork_node ''b'', fork_node ''c'', fork_node ''d''],
     tp_edges = [fork_edge ''a'' ''b'', fork_edge ''b'' ''d'', fork_edge ''a'' ''c'', fork_edge ''c'' ''d''],
     tp_entry = ''a'', tp_conditions = []\<rparr>"

lemma diamond_ordered: "ordered_nodes diamond = Some [fork_node ''a'', fork_node ''b'', fork_node ''d'', fork_node ''c'']"
  by code_simp


end
