(* ===== verification/Run_Slots.thy ===== *)
theory Run_Slots
  imports Prelude
begin

text \<open>
  Admission of runs, \<open>SessionManager._run_slot\<close> in \<open>src/src/api/session_manager.py\<close>: at most
  \<open>max_concurrent_runs\<close> runs of one workflow execute at a time, the others wait on an
  \<open>asyncio.Semaphore\<close>.  A step of the machine is what one task does between two suspension points, with
  the semaphore of the standard library (Python 3.11) written out: its counter, the waiters that have not
  been woken, and the woken ones whose task has not resumed yet.  Runs are numbered.
\<close>

subsection \<open>State and steps\<close>

record slots =
  ss_max :: nat
  ss_value :: nat
  ss_queue :: "nat list"
  ss_granted :: "nat list"
  ss_running :: "nat list"
  ss_waiting_count :: int
  ss_active_count :: int

definition new_slots :: "nat \<Rightarrow> slots" where
  "new_slots n = \<lparr>ss_max = n, ss_value = n, ss_queue = [], ss_granted = [], ss_running = [],
     ss_waiting_count = 0, ss_active_count = 0\<rparr>"

text \<open>\<open>Semaphore.locked\<close>: a waiter that was woken counts until its task has resumed.\<close>

definition locked :: "slots \<Rightarrow> bool" where
  "locked s \<longleftrightarrow> ss_value s = 0 \<or> ss_granted s @ ss_queue s \<noteq> []"

definition wake_up_next :: "slots \<Rightarrow> slots" where
  "wake_up_next s = (case ss_queue s of [] \<Rightarrow> s
    | r # q \<Rightarrow> s\<lparr>ss_value := ss_value s - 1, ss_queue := q, ss_granted := ss_granted s @ [r]\<rparr>)"

definition release :: "slots \<Rightarrow> slots" where
  "release s = wake_up_next (s\<lparr>ss_value := ss_value s + 1\<rparr>)"

definition start_running :: "nat \<Rightarrow> slots \<Rightarrow> slots" where
  "start_running r s = s\<lparr>ss_running := ss_running s @ [r], ss_waiting_count := ss_waiting_count s - 1,
     ss_active_count := ss_active_count s + 1\<rparr>"

text \<open>A run arrives; it goes on at once, or is suspended in the queue.\<close>

definition arrive :: "nat \<Rightarrow> slots \<Rightarrow> slots" where
  "arrive r s = (let s' = s\<lparr>ss_waiting_count := ss_waiting_count s + 1\<rparr> in
     if \<not> locked s then start_running r (s'\<lparr>ss_value := ss_value s - 1\<rparr>)
     else s'\<lparr>ss_queue := ss_queue s @ [r]\<rparr>)"

text \<open>A woken run resumes: it leaves the waiters, wakes another if the counter is positive, and runs.\<close>

definition resume :: "nat \<Rightarrow> slots \<Rightarrow> slots" where
  "resume r s = (let s' = s\<lparr>ss_granted := remove1 r (ss_granted s)\<rparr> in
     start_running r (if ss_value s > 0 then wake_up_next s' else s'))"

text \<open>The task is cancelled while it waits: not yet woken, or woken.\<close>

definition cancel_queued :: "nat \<Rightarrow> slots \<Rightarrow> slots" where
  "cancel_queued r s = s\<lparr>ss_queue := remove1 r (ss_queue s), ss_waiting_count := ss_waiting_count s - 1\<rparr>"

definition cancel_granted :: "nat \<Rightarrow> slots \<Rightarrow> slots" where
  "cancel_granted r s = (let s' = wake_up_next (s\<lparr>ss_granted := remove1 r (ss_granted s), ss_value := ss_value s + 1\<rparr>)
     in s'\<lparr>ss_waiting_count := ss_waiting_count s' - 1\<rparr>)"

text \<open>A run ends, by returning, raising or being cancelled.\<close>

definition finish :: "nat \<Rightarrow> slots \<Rightarrow> slots" where
  "finish r s = release (s\<lparr>ss_running := remove1 r (ss_running s), ss_active_count := ss_active_count s - 1\<rparr>)"

definition members :: "slots \<Rightarrow> nat list" where
  "members s = ss_running s @ ss_granted s @ ss_queue s"

inductive slot_step :: "slots \<Rightarrow> slots \<Rightarrow> bool" where
  arrives: "r \<notin> set (members s) \<Longrightarrow> slot_step s (arrive r s)"
| resumes: "r \<in> set (ss_granted s) \<Longrightarrow> slot_step s (resume r s)"
| cancels_queued: "r \<in> set (ss_queue s) \<Longrightarrow> slot_step s (cancel_queued r s)"
| cancels_granted: "r \<in> set (ss_granted s) \<Longrightarrow> slot_step s (cancel_granted r s)"
| finishes: "r \<in> set (ss_running s) \<Longrightarrow> slot_step s (finish r s)"

inductive_cases slot_stepE: "slot_step s t"

inductive reachable :: "nat \<Rightarrow> slots \<Rightarrow> bool" for n where
  start: "reachable n (new_slots n)"
| step: "reachable n s \<Longrightarrow> slot_step s t \<Longrightarrow> reachable n t"

text \<open>\<open>run_status\<close>: what \<open>GET /topologies/{id}/status\<close> reports.\<close>

definition run_status :: "slots \<Rightarrow> int \<times> int \<times> nat" where
  "run_status s = (ss_active_count s, ss_waiting_count s, ss_max s)"

subsection \<open>The invariant\<close>

definition slots_ok :: "nat \<Rightarrow> slots \<Rightarrow> bool" where
  "slots_ok n s \<longleftrightarrow> ss_max s = n \<and> distinct (members s)
     \<and> ss_value s + length (ss_granted s) + length (ss_running s) = n
     \<and> (ss_value s > 0 \<longrightarrow> ss_queue s \<noteq> [] \<longrightarrow> ss_granted s \<noteq> [])
     \<and> ss_waiting_count s = int (length (ss_granted s) + length (ss_queue s))
     \<and> ss_active_count s = int (length (ss_running s))"

lemma slots_ok_new: "slots_ok n (new_slots n)"
  by (simp add: slots_ok_def new_slots_def members_def)

lemmas slots_simps = slots_ok_def members_def Let_def

lemma arrive_ok: "slots_ok n s \<Longrightarrow> r \<notin> set (members s) \<Longrightarrow> slots_ok n (arrive r s)"
  by (auto simp: slots_simps arrive_def start_running_def locked_def)

lemma wake_up_next_ok:
  assumes "ss_value s > 0" "distinct (members s)"
  shows "distinct (members (wake_up_next s)) \<and> ss_max (wake_up_next s) = ss_max s
    \<and> set (members (wake_up_next s)) = set (members s)
    \<and> ss_value (wake_up_next s) + length (ss_granted (wake_up_next s)) = ss_value s + length (ss_granted s)
    \<and> ss_running (wake_up_next s) = ss_running s
    \<and> (ss_queue (wake_up_next s) \<noteq> [] \<longrightarrow> ss_granted (wake_up_next s) \<noteq> [])
    \<and> length (ss_granted (wake_up_next s)) + length (ss_queue (wake_up_next s)) = length (ss_granted s) + length (ss_queue s)
    \<and> ss_waiting_count (wake_up_next s) = ss_waiting_count s \<and> ss_active_count (wake_up_next s) = ss_active_count s"
  using assms by (cases "ss_queue s") (auto simp: wake_up_next_def members_def)

lemma length_remove1_Suc: "x \<in> set xs \<Longrightarrow> length xs = Suc (length (remove1 x xs))"
  by (induction xs) auto

lemma resume_ok:
  assumes "slots_ok n s" "r \<in> set (ss_granted s)"
  shows "slots_ok n (resume r s)"
proof -
  let ?s = "s\<lparr>ss_granted := remove1 r (ss_granted s)\<rparr>"
  have l: "length (ss_granted s) = Suc (length (remove1 r (ss_granted s)))" by (rule length_remove1_Suc [OF assms(2)])
  have d: "distinct (members ?s)" "r \<notin> set (members ?s)"
    using assms by (auto simp: slots_simps set_remove1_eq)
  show ?thesis
  proof (cases "ss_value s > 0")
    case True
    then show ?thesis using wake_up_next_ok [of ?s] d assms(1) l
      by (auto simp: slots_simps resume_def start_running_def)
  next
    case False
    then show ?thesis using d assms(1) l by (auto simp: slots_simps resume_def start_running_def)
  qed
qed

lemma finish_ok:
  assumes "slots_ok n s" "r \<in> set (ss_running s)"
  shows "slots_ok n (finish r s)"
proof -
  let ?s = "s\<lparr>ss_running := remove1 r (ss_running s), ss_active_count := ss_active_count s - 1, ss_value := ss_value s + 1\<rparr>"
  have l: "length (ss_running s) = Suc (length (remove1 r (ss_running s)))" by (rule length_remove1_Suc [OF assms(2)])
  have d: "distinct (members ?s)" using assms by (auto simp: slots_simps set_remove1_eq)
  show ?thesis using wake_up_next_ok [of ?s] d assms(1) l
    by (auto simp: slots_simps finish_def release_def)
qed

lemma cancel_queued_ok:
  assumes "slots_ok n s" "r \<in> set (ss_queue s)"
  shows "slots_ok n (cancel_queued r s)"
proof -
  have "length (ss_queue s) = Suc (length (remove1 r (ss_queue s)))" by (rule length_remove1_Suc [OF assms(2)])
  moreover from this have "ss_queue s \<noteq> []" by auto
  ultimately show ?thesis using assms by (auto simp: slots_simps cancel_queued_def set_remove1_eq)
qed

lemma cancel_granted_ok:
  assumes "slots_ok n s" "r \<in> set (ss_granted s)"
  shows "slots_ok n (cancel_granted r s)"
proof -
  let ?s = "s\<lparr>ss_granted := remove1 r (ss_granted s), ss_value := ss_value s + 1\<rparr>"
  have l: "length (ss_granted s) = Suc (length (remove1 r (ss_granted s)))" by (rule length_remove1_Suc [OF assms(2)])
  have d: "distinct (members ?s)" using assms by (auto simp: slots_simps set_remove1_eq)
  show ?thesis using wake_up_next_ok [of ?s] d assms(1) l
    by (auto simp: slots_simps cancel_granted_def)
qed

lemmas slots_preserved = arrive_ok resume_ok finish_ok cancel_queued_ok cancel_granted_ok

lemma slot_step_ok: "slot_step s t \<Longrightarrow> slots_ok n s \<Longrightarrow> slots_ok n t"
  by (erule slot_stepE) (simp_all add: slots_preserved)

lemma reachable_ok: "reachable n s \<Longrightarrow> slots_ok n s"
  by (induction rule: reachable.induct) (auto intro: slots_ok_new slot_step_ok)

text \<open>C12: in every reachable state at most the configured number of runs execute, the status reports exactly the
  running and the waiting ones, no run is counted twice, and no slot is lost: a run waits only while
  every slot is taken or a woken run has still to resume.\<close>

theorem admission_safe:
  assumes "reachable n s"
  shows "length (ss_running s) \<le> n
    \<and> run_status s = (int (length (ss_running s)), int (length (ss_granted s @ ss_queue s)), n)
    \<and> distinct (members s)
    \<and> (ss_queue s \<noteq> [] \<longrightarrow> length (ss_running s) + length (ss_granted s) = n \<or> ss_granted s \<noteq> [])"
  using reachable_ok [OF assms] by (auto simp: slots_ok_def run_status_def)

subsection \<open>Progress\<close>

text \<open>The position of a waiting run: how many runs are ahead of it.\<close>

fun position :: "nat \<Rightarrow> nat list \<Rightarrow> nat" where
  "position r [] = 0"
| "position r (x # xs) = (if x = r then 0 else Suc (position r xs))"

lemma position_remove1_hd: "r \<noteq> x \<Longrightarrow> position r (x # xs) = Suc (position r xs)"
  by simp

text \<open>Steps that need no new arrival and no cancellation.\<close>

inductive drains :: "slots \<Rightarrow> slots \<Rightarrow> bool" where
  drain_resume: "ss_granted s = r # g \<Longrightarrow> drains s (resume r s)"
| drain_finish: "ss_granted s = [] \<Longrightarrow> ss_running s = r # rs \<Longrightarrow> drains s (finish r s)"

lemma drains_step: "drains s t \<Longrightarrow> slot_step s t"
  by (induction rule: drains.induct) (auto intro: resumes finishes)

text \<open>A drain step either lets the waiting run start or brings it closer to the front.\<close>

definition waits :: "nat \<Rightarrow> slots \<Rightarrow> bool" where
  "waits r s \<longleftrightarrow> r \<in> set (ss_granted s @ ss_queue s)"

definition distance :: "nat \<Rightarrow> slots \<Rightarrow> nat" where
  "distance r s = 2 * position r (ss_granted s @ ss_queue s) + (if ss_granted s = [] then 1 else 0)"

lemma wake_up_next_waiters: "ss_granted (wake_up_next s) @ ss_queue (wake_up_next s) = ss_granted s @ ss_queue s"
  "ss_running (wake_up_next s) = ss_running s"
  by (cases "ss_queue s"; simp add: wake_up_next_def)+

lemma drain_progress:
  assumes "slots_ok n s" "0 < n" "waits r s"
  shows "\<exists>t. drains s t \<and> (r \<in> set (ss_running t) \<or> waits r t \<and> distance r t < distance r s)"
proof (cases "ss_granted s")
  case (Cons g gs)
  let ?s = "s\<lparr>ss_granted := gs\<rparr>"
  have d: "drains s (resume g s)" using Cons by (rule drain_resume)
  have w: "ss_granted (resume g s) @ ss_queue (resume g s) = gs @ ss_queue s" "ss_running (resume g s) = ss_running s @ [g]"
    using Cons by (auto simp: resume_def start_running_def Let_def wake_up_next_waiters)
  show ?thesis
  proof (cases "r = g")
    case True
    then show ?thesis using d w by auto
  next
    case False
    then have "waits r (resume g s)" using assms(3) w(1) Cons unfolding waits_def by auto
    moreover have "distance r (resume g s) < distance r s"
      using False Cons unfolding distance_def w(1) by simp
    ultimately show ?thesis using d by blast
  qed
next
  case Nil
  then have q: "ss_queue s \<noteq> []" using assms(3) by (auto simp: waits_def)
  then have "ss_value s = 0" using assms(1) Nil by (auto simp: slots_ok_def)
  then have "ss_running s \<noteq> []" using assms(1,2) Nil by (auto simp: slots_ok_def)
  then obtain x xs where x: "ss_running s = x # xs" by (cases "ss_running s") auto
  have d: "drains s (finish x s)" using Nil x by (rule drain_finish)
  have "ss_granted (finish x s) @ ss_queue (finish x s) = ss_granted s @ ss_queue s"
    by (simp add: finish_def release_def wake_up_next_waiters)
  moreover have "ss_granted (finish x s) \<noteq> []"
    using q by (cases "ss_queue s") (auto simp: finish_def release_def wake_up_next_def)
  ultimately have "waits r (finish x s)" "distance r (finish x s) < distance r s"
    using assms(3) Nil by (auto simp: waits_def distance_def)
  then show ?thesis using d by blast
qed

text \<open>C13: no waiting run starves: with at least one slot, from every reachable state in which a run waits,
  letting the woken runs resume and the running ones end leads to a state in which it runs, in at most
  twice as many steps as there are runs ahead of it, plus two.\<close>

theorem waiting_run_starts:
  assumes "reachable n s" "0 < n" "r \<in> set (ss_granted s @ ss_queue s)"
  shows "\<exists>k t. k \<le> 2 * position r (ss_granted s @ ss_queue s) + 2 \<and> (drains ^^ k) s t \<and> r \<in> set (ss_running t)"
proof -
  have "slots_ok n s \<Longrightarrow> waits r s \<Longrightarrow> \<exists>k t. k \<le> Suc (distance r s) \<and> (drains ^^ k) s t \<and> r \<in> set (ss_running t)" for s
  proof (induction "distance r s" arbitrary: s rule: less_induct)
    case less
    from drain_progress [OF less.prems(1) assms(2) less.prems(2)] obtain t
      where t: "drains s t" "r \<in> set (ss_running t) \<or> waits r t \<and> distance r t < distance r s" by blast
    show ?case
    proof (cases "r \<in> set (ss_running t)")
      case True
      then show ?thesis using t(1) by (intro exI [of _ 1] exI [of _ t]) auto
    next
      case False
      then have w: "waits r t" "distance r t < distance r s" using t(2) by auto
      have "slots_ok n t" using slot_step_ok drains_step t(1) less.prems(1) by blast
      from less.hyps [OF w(2) this w(1)] obtain k u where "k \<le> Suc (distance r t)" "(drains ^^ k) t u" "r \<in> set (ss_running u)"
        by blast
      moreover from this have "(drains ^^ Suc k) s u" using relpowp_Suc_I2 t(1) by metis
      ultimately show ?thesis using w(2) by (intro exI [of _ "Suc k"] exI [of _ u]) simp
    qed
  qed
  from this [of s] reachable_ok [OF assms(1)] assms(3) obtain k t
    where k: "k \<le> Suc (distance r s)" "(drains ^^ k) s t" "r \<in> set (ss_running t)" by (auto simp: waits_def)
  then have "k \<le> 2 * position r (ss_granted s @ ss_queue s) + 2" by (simp add: distance_def split: if_splits)
  then show ?thesis using k by blast
qed

subsection \<open>A run that waits\<close>

definition two_runs :: slots where
  "two_runs = arrive 1 (arrive 0 (new_slots 1))"

lemma two_runs_reachable: "reachable 1 two_runs"
proof -
  have "slot_step (new_slots 1) (arrive 0 (new_slots 1))" by (rule arrives) (simp add: members_def new_slots_def)
  moreover have "slot_step (arrive 0 (new_slots 1)) two_runs" unfolding two_runs_def
    by (rule arrives) (simp add: members_def arrive_def new_slots_def locked_def start_running_def Let_def)
  ultimately show ?thesis using reachable.start reachable.step by metis
qed

lemma two_runs_waiters: "ss_granted two_runs @ ss_queue two_runs = [1]" "ss_running two_runs = [0]"
  by (simp_all add: two_runs_def arrive_def new_slots_def locked_def start_running_def Let_def)

theorem admission_safe_witness: "length (ss_running two_runs) \<le> 1 \<and> run_status two_runs = (1, 1, 1)"
  using admission_safe [OF two_runs_reachable] two_runs_waiters by simp

theorem waiting_run_starts_witness: "\<exists>k t. k \<le> 2 \<and> (drains ^^ k) two_runs t \<and> 1 \<in> set (ss_running t)"
  using waiting_run_starts [OF two_runs_reachable, of 1] two_runs_waiters by (simp add: numeral_2_eq_2)

end
