(* ===== verification/Sessions.thy ===== *)
theory Sessions
  imports Conversations Run_History Runtime_Plan Workflow_Registry Run_Slots "HOL-Library.Multiset"
begin

text \<open>
  The session manager, \<open>src/src/api/session_manager.py\<close>: the index of sessions and its file, one message from
  its arrival to the reply and the record of its run, the frames of a streamed message, and voice turns.
  The runtime's work on a message is a parameter \<open>run\<close>: the frames it emits and then either an exception or
  a result; \<open>Runtime_Plan\<close> models how that result comes about.  Two messages of the same session that overlap
  are not modelled here; how runs of one workflow share its slots is in \<open>Run_Slots\<close>.
\<close>

subsection \<open>State\<close>

text \<open>\<open>sessions.json\<close>, and the effects whose success the model is given: \<open>fs_ok\<close> (the file can be written),
  \<open>db_ok\<close> (the calls to the run store succeed).\<close>

datatype session_file = No_file | Unreadable | Saved "conversation list"

record session_manager =
  sg_sessions :: "(nat, conversation) odict"
  sg_file :: session_file
  sg_registry :: registry
  sg_runs :: runs
  sg_since_prune :: nat
  sg_limit :: int

record world =
  wo_now :: int
  wo_fs_ok :: bool
  wo_db_ok :: bool
  wo_show :: "json \<Rightarrow> string"
  wo_repr :: "json \<Rightarrow> string"
  wo_iso :: "int \<Rightarrow> string"
  wo_uuid :: "string \<Rightarrow> nat option"
  wo_id_text :: "nat \<Rightarrow> string"
  wo_override :: "string \<Rightarrow> (string, json) odict option"

definition prune_every :: nat where "prune_every = 50"

definition save_sessions :: "world \<Rightarrow> session_manager \<Rightarrow> session_manager" where
  "save_sessions wo m = (if wo_fs_ok wo then m\<lparr>sg_file := Saved (sort_key cv_updated (map snd (sg_sessions m)))\<rparr> else m)"

definition load_sessions :: "session_manager \<Rightarrow> session_manager" where
  "load_sessions m = (case sg_file m of
      Saved cs \<Rightarrow> m\<lparr>sg_sessions := fold (\<lambda>c. put (cv_id c) c) cs (sg_sessions m)\<rparr>
    | _ \<Rightarrow> m)"

subsection \<open>Sessions\<close>

datatype chat_error = Workflow_not_found string | Session_not_found nat | Session_inactive nat | Run_failed string string

definition create_session ::
  "world \<Rightarrow> nat \<Rightarrow> string \<Rightarrow> string option \<Rightarrow> (string, json) odict \<Rightarrow> session_manager \<Rightarrow> (chat_error + conversation) \<times> session_manager" where
  "create_session wo i wid user meta m = (case find_workflow (sg_registry m) wid of
      None \<Rightarrow> (Inl (Workflow_not_found wid), m)
    | Some _ \<Rightarrow>
       (let c = \<lparr>cv_id = i, cv_messages = [], cv_notes = [], cv_turns = 0, cv_active = True,
            cv_created = wo_now wo, cv_updated = wo_now wo,
            cv_meta = merge [(''workflow_id'', JStr wid), (''user_id'', JStr (opt_or user ''default_user'')),
              (''runtime'', JStr ''crewai'')] meta\<rparr>
        in (Inr c, save_sessions wo (m\<lparr>sg_sessions := put i c (sg_sessions m)\<rparr>))))"

definition get_session :: "nat \<Rightarrow> session_manager \<Rightarrow> conversation option" where
  "get_session i m = get (sg_sessions m) i"

definition list_sessions :: "string option \<Rightarrow> bool \<Rightarrow> session_manager \<Rightarrow> conversation list" where
  "list_sessions user active_only m = sort_key (\<lambda>c. - cv_updated c)
     (filter (\<lambda>c. active_only \<longrightarrow> cv_active c)
       (filter (\<lambda>c. opt_truthy user \<longrightarrow> jget (cv_meta c) ''user_id'' = JStr (the user)) (map snd (sg_sessions m))))"

definition delete_session :: "world \<Rightarrow> nat \<Rightarrow> session_manager \<Rightarrow> bool \<times> session_manager" where
  "delete_session wo i m = (if get (sg_sessions m) i \<noteq> None
     then (True, save_sessions wo (m\<lparr>sg_sessions := del i (sg_sessions m)\<rparr>)) else (False, m))"

definition store_session :: "conversation \<Rightarrow> session_manager \<Rightarrow> session_manager" where
  "store_session c m = m\<lparr>sg_sessions := put (cv_id c) c (sg_sessions m)\<rparr>"

subsection \<open>The record of a run\<close>

definition run_source :: "(json \<Rightarrow> string) \<Rightarrow> (string, json) odict \<Rightarrow> (string, json) odict \<Rightarrow> string" where
  "run_source show meta smeta =
     (if truthy (jget meta ''test_case_id'') then ''test''
      else if truthy (jget smeta ''deployment'') then ''deployment''
      else let e = (if truthy (jget meta ''source'') then jget meta ''source'' else jget smeta ''source'') in
        if truthy e then take 50 (text_of show e) else ''chat'')"

definition as_uuid :: "world \<Rightarrow> json \<Rightarrow> nat option" where
  "as_uuid wo v = (if truthy v then wo_uuid wo (text_of (wo_show wo) v) else None)"

definition user_of :: "(json \<Rightarrow> string) \<Rightarrow> (string, json) odict \<Rightarrow> string option" where
  "user_of show smeta = (case get_default smeta ''user_id'' (JStr ''default_user'') of
      JNull \<Rightarrow> None | v \<Rightarrow> Some (text_of show v))"

definition start_run_record ::
  "world \<Rightarrow> nat \<Rightarrow> string \<Rightarrow> conversation \<Rightarrow> string \<Rightarrow> (string, json) odict \<Rightarrow> session_manager \<Rightarrow> (nat \<times> recorder) option \<times> session_manager" where
  "start_run_record wo i wid c message meta m =
     (if sg_limit m \<le> 0 then (None, m)
      else let replay = as_uuid wo (jget meta ''replay_of'');
           source = (if replay \<noteq> None then ''replay'' else run_source (wo_show wo) meta (cv_meta c)) in
        if \<not> wo_db_ok wo then (None, m)
        else let (j, db) = start_run (wo_repr wo) i (wo_now wo)
               \<lparr>rr_workflow = wid, rr_message = message, rr_session = Some (wo_id_text wo (cv_id c)),
                rr_user = user_of (wo_show wo) (cv_meta c), rr_source = source, rr_replay_of = replay,
                rr_meta = filter (\<lambda>(k, v). k \<in> {''source'', ''replay_of'', ''test_run_id'', ''test_case_id''}) meta\<rparr> (sg_runs m);
             rec = record_frame (wo_repr wo) (wo_now wo) ''start''
               [(''runtime'', JStr ''crewai''), (''message'', JStr message), (''source'', JStr source)] None new_recorder
          in (Some (j, rec), m\<lparr>sg_runs := db\<rparr>))"

fun json_items :: "json \<Rightarrow> json list" where
  "json_items (JList xs) = xs"
| "json_items _ = []"

definition outcome_of ::
  "world \<Rightarrow> string \<Rightarrow> recorder \<Rightarrow> string option \<Rightarrow> string option \<Rightarrow> (string, json) odict \<Rightarrow> run_outcome" where
  "outcome_of wo status rec response error meta = \<lparr>ro_status = status, ro_events = rc_events rec, ro_response = response,
     ro_error = error, ro_agents = map (text_of (wo_show wo)) (json_items (jget meta ''agents_called'')),
     ro_tools = map (text_of (wo_show wo)) (json_items (jget meta ''tools_called'')),
     ro_usage = (case jget meta ''usage'' of JObj d \<Rightarrow> d | _ \<Rightarrow> []),
     ro_cost = (case jget meta ''cost_usd'' of JFloat r \<Rightarrow> Some r | JInt k \<Rightarrow> Some (of_int k) | _ \<Rightarrow> None)\<rparr>"

definition finish_run_record :: "world \<Rightarrow> nat \<Rightarrow> run_outcome \<Rightarrow> session_manager \<Rightarrow> session_manager" where
  "finish_run_record wo i out m =
     (if \<not> wo_db_ok wo then m
      else case finish_run (wo_repr wo) i (wo_now wo) out (sg_runs m) of
        Inl _ \<Rightarrow> m
      | Inr db \<Rightarrow>
         if sg_since_prune m + 1 \<ge> prune_every
         then m\<lparr>sg_runs := snd (prune (nat (sg_limit m)) db), sg_since_prune := 0\<rparr>
         else m\<lparr>sg_runs := db, sg_since_prune := sg_since_prune m + 1\<rparr>)"

subsection \<open>One message\<close>

record success =
  sc_response :: string
  sc_trace :: json
  sc_meta :: "(string, json) odict"

text \<open>What the runtime does with a message: the frames it sends to the sink, then an exception (its type and
  text, \<open>CancelledError\<close> included) or a result.\<close>

record runtime_outcome =
  oc_frames :: "(string \<times> (string, json) odict \<times> string option) list"
  oc_result :: "(string \<times> string) + success"

record run_args =
  ra_workflow :: workflow
  ra_message :: string
  ra_session :: string
  ra_user :: "string option"
  ra_metadata :: "(string, json) odict"

record chat_reply =
  cr_session :: nat
  cr_response :: string
  cr_turns :: nat
  cr_history :: "json list"
  cr_cost :: "(string, json) odict"
  cr_metadata :: "(string, json) odict"

definition reply :: "world \<Rightarrow> conversation \<Rightarrow> string \<Rightarrow> (string, json) odict \<Rightarrow> chat_reply" where
  "reply wo c response meta = \<lparr>cr_session = cv_id c, cr_response = response, cr_turns = cv_turns c,
     cr_history = conversation_history (wo_iso wo) c,
     cr_cost = [(''cost_usd'', get_default meta ''cost_usd'' (JFloat 0)), (''usage'', get_default meta ''usage'' (JObj []))],
     cr_metadata = merge [(''runtime'', JStr ''crewai'')] meta\<rparr>"

text \<open>The metadata of the run: the client's keys override \<open>session_metadata\<close> and \<open>history\<close>, but a
  \<open>model_override\<close> comes from the deployment record alone.\<close>

definition run_metadata :: "world \<Rightarrow> conversation \<Rightarrow> (string, json) odict \<Rightarrow> (string, json) odict" where
  "run_metadata wo c meta =
     (let base = del ''model_override'' (merge [(''session_metadata'', JObj (cv_meta c)),
            (''history'', JList (take_last 20 (conversation_history (wo_iso wo) c)))] meta);
          dep = jget (cv_meta c) ''deployment''
      in if truthy dep then (case wo_override wo (text_of (wo_show wo) dep) of
           None \<Rightarrow> base | Some d \<Rightarrow> if d = [] then base else put ''model_override'' (JObj d) base)
         else base)"

definition limit_reply :: string where
  "limit_reply = ''This session reached the configured turn limit. Start a new session to continue.''"

definition record_frames :: "world \<Rightarrow> (string \<times> (string, json) odict \<times> string option) list \<Rightarrow> recorder \<Rightarrow> recorder" where
  "record_frames wo fs r = fold (\<lambda>(ty, p, a). record_frame (wo_repr wo) (wo_now wo) ty p a) fs r"

definition error_text :: "string \<times> string \<Rightarrow> string" where
  "error_text e = (if fst e = ''CancelledError'' then ''The run was cancelled.'' else str_or (snd e) (fst e))"

definition done_frame :: "conversation \<Rightarrow> (string, json) odict \<Rightarrow> (string, json) odict" where
  "done_frame c meta = [(''runtime'', JStr ''crewai''), (''turn_count'', JInt (int (cv_turns c))),
     (''metadata'', JObj (merge [(''runtime'', JStr ''crewai'')] meta))]"

text \<open>After the runtime has failed: the record is closed, the exception is raised again.\<close>

definition fail_message :: "world \<Rightarrow> (nat \<times> recorder) option \<Rightarrow> string \<times> string \<Rightarrow> session_manager \<Rightarrow> session_manager" where
  "fail_message wo rec e m = (case rec of
      None \<Rightarrow> m
    | Some (i, r) \<Rightarrow> finish_run_record wo i (outcome_of wo ''failed''
        (record_frame (wo_repr wo) (wo_now wo) ''error''
          [(''error_type'', JStr (fst e)), (''error_message'', JStr (error_text e))] None r)
        None (Some (error_text e)) []) m)"

definition complete_message ::
  "world \<Rightarrow> (nat \<times> recorder) option \<Rightarrow> conversation \<Rightarrow> success \<Rightarrow> session_manager \<Rightarrow> chat_reply \<times> session_manager" where
  "complete_message wo rec c res m =
     (let response_text = str_or (sc_response res) ''I could not generate a response.'';
          c1 = add_message (wo_now wo) message_role.ASSISTANT response_text
                 [(''runtime'', JStr ''crewai''), (''trace_steps'', sc_trace res)] c;
          c2 = c1\<lparr>cv_meta := put ''last_run'' (JObj (sc_meta res)) (put ''last_trace_steps'' (sc_trace res) (cv_meta c1)),
                 cv_updated := wo_now wo\<rparr>;
          m1 = save_sessions wo (store_session c2 m);
          meta = put ''trace_steps'' (sc_trace res) (sc_meta res)
      in case rec of
        None \<Rightarrow> (reply wo c2 response_text meta, m1)
      | Some (i, r) \<Rightarrow>
         (let r' = record_frames wo [(''token'', [(''text'', JStr response_text)], None), (''done'', done_frame c2 meta, None)] r
          in (reply wo c2 response_text (put ''run_id'' (JStr (wo_id_text wo i)) meta),
              finish_run_record wo i (outcome_of wo ''succeeded'' r' (Some response_text) None (sc_meta res)) m1)))"

text \<open>An accepted message \<open>c\<close> already holds: the record is opened, the runtime works, and its outcome is stored.\<close>

definition run_accepted ::
  "(run_args \<Rightarrow> runtime_outcome) \<Rightarrow> world \<Rightarrow> nat \<Rightarrow> workflow \<Rightarrow> string \<Rightarrow> conversation \<Rightarrow> string \<Rightarrow> (string, json) odict
    \<Rightarrow> session_manager \<Rightarrow> (chat_error + chat_reply) \<times> session_manager" where
  "run_accepted run wo i workflow wid c message meta m =
     (let (rec, m1) = start_run_record wo i wid c message meta m;
          out = run \<lparr>ra_workflow = workflow, ra_message = message, ra_session = wo_id_text wo (cv_id c),
                ra_user = user_of (wo_show wo) (cv_meta c), ra_metadata = run_metadata wo c meta\<rparr>;
          rec1 = map_option (\<lambda>(j, r). (j, record_frames wo (oc_frames out) r)) rec
      in case oc_result out of
        Inl e \<Rightarrow> (Inl (Run_failed (fst e) (snd e)), fail_message wo rec1 e m1)
      | Inr res \<Rightarrow> (let (r, m2) = complete_message wo rec1 c res m1 in (Inr r, m2)))"

definition process_message ::
  "(run_args \<Rightarrow> runtime_outcome) \<Rightarrow> world \<Rightarrow> nat \<Rightarrow> nat \<Rightarrow> string \<Rightarrow> int option \<Rightarrow> (string, json) odict \<Rightarrow> session_manager
    \<Rightarrow> (chat_error + chat_reply) \<times> session_manager" where
  "process_message run wo i sid message max_turns meta m = (case get_session sid m of
      None \<Rightarrow> (Inl (Session_not_found sid), m)
    | Some c \<Rightarrow>
      if \<not> cv_active c then (Inl (Session_inactive sid), m)
      else let w = jget (cv_meta c) ''workflow_id''; wid = (if truthy w then text_of (wo_show wo) w else []) in
        (case find_workflow (sg_registry m) wid of
          None \<Rightarrow> (Inl (Workflow_not_found wid), m)
        | Some workflow \<Rightarrow>
          (let c1 = increment_turn (wo_now wo) (add_message (wo_now wo) message_role.USER message [(''runtime'', JStr ''crewai'')] c) in
           if (case max_turns of None \<Rightarrow> False | Some n \<Rightarrow> n \<noteq> 0 \<and> int (cv_turns c1) > n) then
             (let c2 = add_message (wo_now wo) message_role.ASSISTANT limit_reply
                    [(''runtime'', JStr ''crewai''), (''limited'', JBool True)] (c1\<lparr>cv_active := False\<rparr>)
              in (Inr (reply wo c2 limit_reply [(''runtime'', JStr ''crewai''), (''limited'', JBool True)]),
                  save_sessions wo (store_session c2 m)))
           else
             run_accepted run wo i workflow wid c1 message meta (store_session c1 m))))"

subsection \<open>Streaming, history and voice\<close>

definition delta_type_of :: "string \<Rightarrow> delta_type" where
  "delta_type_of s = (case map_of delta_values s of None \<Rightarrow> REASONING_DELTA | Some t \<Rightarrow> t)"

text \<open>The frames of a streamed message: the first, the ones the run sends, and the closing ones.  \<open>result\<close> is
  what \<open>process_message\<close> gives; an exception is its type and text.\<close>

definition closing_frames :: "(string \<times> string) + chat_reply \<Rightarrow> (delta_type \<times> (string, json) odict \<times> string option) list" where
  "closing_frames result = (case result of
      Inl (ty, msg) \<Rightarrow> [(ERROR, [(''error_type'', JStr ty), (''error_message'', JStr msg), (''runtime'', JStr ''crewai'')], None)]
    | Inr r \<Rightarrow> (if cr_response r \<noteq> [] then [(TOKEN, [(''text'', JStr (cr_response r))], None)] else [])
        @ [(DONE, [(''runtime'', JStr ''crewai''), (''turn_count'', JInt (int (cr_turns r))),
             (''metadata'', JObj (cr_metadata r))], None)])"

definition stream_message ::
  "string \<Rightarrow> string \<Rightarrow> string option \<Rightarrow> string \<Rightarrow> (string, json) odict
    \<Rightarrow> (string \<times> (string, json) odict \<times> string option) list \<Rightarrow> (string \<times> string) + chat_reply \<Rightarrow> delta list" where
  "stream_message fresh sid corr message meta events result =
     fst (deltas ((START, [(''runtime'', JStr ''crewai''), (''message_length'', JInt (int (length message))), (''metadata'', JObj meta)], None)
        # map (\<lambda>(ty, p, a). (delta_type_of ty, p, a)) events @ closing_frames result) (new_builder fresh sid corr))"

record chat_history =
  ch_session :: nat
  ch_messages :: "(string \<times> string \<times> int \<times> (string, json) odict) list"
  ch_notes :: "(string \<times> string \<times> string \<times> int \<times> (string, json) odict) list"
  ch_turns :: nat
  ch_active :: bool
  ch_metadata :: "(string, json) odict"

definition get_chat_history :: "nat \<Rightarrow> session_manager \<Rightarrow> chat_error + chat_history" where
  "get_chat_history sid m = (case get_session sid m of
      None \<Rightarrow> Inl (Session_not_found sid)
    | Some c \<Rightarrow> Inr \<lparr>ch_session = cv_id c,
        ch_messages = map (\<lambda>x. (role_value (ms_role x), ms_content x, ms_time x, ms_meta x)) (cv_messages c),
        ch_notes = map (\<lambda>x. (author_value (no_author x), no_type x, no_content x, no_time x, no_meta x)) (cv_notes c),
        ch_turns = cv_turns c, ch_active = cv_active c, ch_metadata = cv_meta c\<rparr>)"

definition record_voice_turn :: "world \<Rightarrow> nat \<Rightarrow> string \<Rightarrow> string \<Rightarrow> (string, json) odict \<Rightarrow> session_manager \<Rightarrow> bool \<times> session_manager" where
  "record_voice_turn wo sid user_text agent_text meta m =
     (let u = strip user_text; a = strip agent_text in
      if u = [] \<and> a = [] then (False, m)
      else case get_session sid m of
        None \<Rightarrow> (False, m)
      | Some c \<Rightarrow>
         (let common = merge [(''modality'', JStr ''voice'')] meta;
              c1 = (if u \<noteq> [] then add_message (wo_now wo) message_role.USER u common c else c);
              c2 = (if a \<noteq> [] then add_message (wo_now wo) message_role.ASSISTANT a common c1 else c1)
          in (True, save_sessions wo (store_session (increment_turn (wo_now wo) c2) m))))"

subsection \<open>Well-formed managers\<close>

definition manager_ok :: "session_manager \<Rightarrow> bool" where
  "manager_ok m \<longleftrightarrow> wf_odict (sg_sessions m) \<and> (\<forall>k c. get (sg_sessions m) k = Some c \<longrightarrow> cv_id c = k)"

lemma save_sessions_simps [simp]:
  "sg_sessions (save_sessions wo m) = sg_sessions m" "sg_runs (save_sessions wo m) = sg_runs m"
  "sg_since_prune (save_sessions wo m) = sg_since_prune m" "sg_limit (save_sessions wo m) = sg_limit m"
  "sg_registry (save_sessions wo m) = sg_registry m"
  by (simp_all add: save_sessions_def)

lemma store_session_simps [simp]:
  "sg_sessions (store_session c m) = put (cv_id c) c (sg_sessions m)" "sg_runs (store_session c m) = sg_runs m"
  "sg_since_prune (store_session c m) = sg_since_prune m" "sg_limit (store_session c m) = sg_limit m"
  "sg_registry (store_session c m) = sg_registry m"
  by (simp_all add: store_session_def)

lemma manager_ok_put: "manager_ok m \<Longrightarrow> sg_sessions m' = put (cv_id c) c (sg_sessions m) \<Longrightarrow> manager_ok m'"
  by (auto simp: manager_ok_def)

lemma manager_ok_same: "manager_ok m \<Longrightarrow> sg_sessions m' = sg_sessions m \<Longrightarrow> manager_ok m'"
  by (simp add: manager_ok_def)

lemma start_run_record_sessions: "start_run_record wo i wid c message meta m = (rec, m') \<Longrightarrow> sg_sessions m' = sg_sessions m"
  by (auto simp: start_run_record_def Let_def split: if_splits prod.splits)

lemma finish_run_record_sessions [simp]: "sg_sessions (finish_run_record wo i out m) = sg_sessions m"
  by (simp add: finish_run_record_def split: sum.splits)

lemma fail_message_sessions [simp]: "sg_sessions (fail_message wo rec e m) = sg_sessions m"
  by (simp add: fail_message_def split: option.splits)

text \<open>Who said what.\<close>

definition said :: "conversation \<Rightarrow> (message_role \<times> string) list" where
  "said c = map (\<lambda>x. (ms_role x, ms_content x)) (cv_messages c)"

lemma said_add [simp]: "said (add_message now r t meta c) = said c @ [(r, t)]"
  by (simp add: said_def)

lemma said_turn [simp]: "said (increment_turn now c) = said c"
  by (simp add: said_def)

lemma complete_message_spec:
  assumes "complete_message wo rec c res m = (r, m')"
  shows "\<exists>c'. sg_sessions m' = put (cv_id c) c' (sg_sessions m) \<and> cv_id c' = cv_id c \<and> said c' = said c @ [(message_role.ASSISTANT, cr_response r)]
    \<and> cv_turns c' = cv_turns c \<and> cr_turns r = cv_turns c' \<and> cr_history r = conversation_history (wo_iso wo) c'
    \<and> cr_response r = str_or (sc_response res) ''I could not generate a response.''"
  using assms
  by (intro exI [of _ "(add_message (wo_now wo) message_role.ASSISTANT (str_or (sc_response res) ''I could not generate a response.'')
        [(''runtime'', JStr ''crewai''), (''trace_steps'', sc_trace res)] c)
      \<lparr>cv_meta := put ''last_run'' (JObj (sc_meta res)) (put ''last_trace_steps'' (sc_trace res) (cv_meta c)), cv_updated := wo_now wo\<rparr>"])
    (auto simp: complete_message_def Let_def reply_def said_def split: option.splits)

text \<open>What a message leaves in its session: nothing when it is refused, the user's message when the runtime
  fails, the message and the reply otherwise.\<close>

definition after_message :: "nat \<Rightarrow> string \<Rightarrow> session_manager \<Rightarrow> (message_role \<times> string) list \<Rightarrow> session_manager \<Rightarrow> bool" where
  "after_message sid message m replies m' \<longleftrightarrow>
     (\<exists>c c'. get (sg_sessions m) sid = Some c \<and> get (sg_sessions m') sid = Some c' \<and> cv_turns c' = Suc (cv_turns c)
        \<and> said c' = said c @ (message_role.USER, message) # replies)"

definition ran :: "(run_args \<Rightarrow> runtime_outcome) \<Rightarrow> world \<Rightarrow> workflow \<Rightarrow> conversation \<Rightarrow> string \<Rightarrow> (string, json) odict \<Rightarrow> runtime_outcome" where
  "ran run wo w c message meta = run \<lparr>ra_workflow = w, ra_message = message, ra_session = wo_id_text wo (cv_id c),
     ra_user = user_of (wo_show wo) (cv_meta c), ra_metadata = run_metadata wo c meta\<rparr>"

abbreviation recorded ::
  "(run_args \<Rightarrow> runtime_outcome) \<Rightarrow> world \<Rightarrow> workflow \<Rightarrow> conversation \<Rightarrow> string \<Rightarrow> (string, json) odict \<Rightarrow> (nat \<times> recorder) option
    \<Rightarrow> (nat \<times> recorder) option" where
  "recorded run wo w c message meta rec \<equiv>
     map_option (\<lambda>(j, r). (j, record_frames wo (oc_frames (ran run wo w c message meta)) r)) rec"

lemma run_acceptedE:
  assumes "run_accepted run wo i w wid c message meta m = (res, m')"
  obtains (failed) e rec m1 where "start_run_record wo i wid c message meta m = (rec, m1)"
      "oc_result (ran run wo w c message meta) = Inl e" "res = Inl (Run_failed (fst e) (snd e))"
      "m' = fail_message wo (recorded run wo w c message meta rec) e m1"
  | (completed) sc rec m1 r where "start_run_record wo i wid c message meta m = (rec, m1)"
      "oc_result (ran run wo w c message meta) = Inr sc"
      "complete_message wo (recorded run wo w c message meta rec) c sc m1 = (r, m')" "res = Inr r"
proof -
  obtain rec m1 where s: "start_run_record wo i wid c message meta m = (rec, m1)" by fastforce
  have a: "run_accepted run wo i w wid c message meta m = (case oc_result (ran run wo w c message meta) of
        Inl e \<Rightarrow> (Inl (Run_failed (fst e) (snd e)), fail_message wo (recorded run wo w c message meta rec) e m1)
      | Inr sc \<Rightarrow> (let (r, m2) = complete_message wo (recorded run wo w c message meta rec) c sc m1 in (Inr r, m2)))"
    unfolding run_accepted_def ran_def s by (simp only: Let_def split_conv)
  show thesis
  proof (cases "oc_result (ran run wo w c message meta)")
    case (Inl e)
    then show thesis using failed [OF s Inl] assms a by simp
  next
    case (Inr sc)
    then show thesis using completed [OF s Inr] assms a by (auto split: prod.splits)
  qed
qed

text \<open>C10: a message that is refused changes nothing; otherwise exactly the user's message is added when the
  runtime fails and the message and the reply when it does not, the turn is counted, and no other
  session changes.\<close>

theorem process_message_effect:
  assumes "manager_ok m" "process_message run wo i sid message mt meta m = (res, m')"
  shows "manager_ok m' \<and> (\<forall>k. k \<noteq> sid \<longrightarrow> get (sg_sessions m') k = get (sg_sessions m) k)
    \<and> (case res of
        Inr r \<Rightarrow> after_message sid message m [(message_role.ASSISTANT, cr_response r)] m'
      | Inl (Run_failed ty e) \<Rightarrow> after_message sid message m [] m'
      | Inl _ \<Rightarrow> m' = m)"
proof (cases "get (sg_sessions m) sid")
  case None
  then show ?thesis using assms by (auto simp: process_message_def get_session_def)
next
  case (Some c)
  have id: "cv_id c = sid" using assms(1) Some by (simp add: manager_ok_def)
  let ?wid = "if truthy (jget (cv_meta c) ''workflow_id'') then text_of (wo_show wo) (jget (cv_meta c) ''workflow_id'') else []"
  show ?thesis
  proof (cases "cv_active c \<and> find_workflow (sg_registry m) ?wid \<noteq> None")
    case False
    then show ?thesis using assms Some
      by (auto simp: process_message_def get_session_def Let_def split: if_splits option.splits)
  next
    case True
    then obtain wfl where w: "find_workflow (sg_registry m) ?wid = Some wfl" by auto
    let ?c = "increment_turn (wo_now wo) (add_message (wo_now wo) message_role.USER message [(''runtime'', JStr ''crewai'')] c)"
    let ?limited = "case mt of None \<Rightarrow> False | Some n \<Rightarrow> n \<noteq> 0 \<and> int (cv_turns ?c) > n"
    show ?thesis
    proof (cases ?limited)
      case L: True
      let ?l = "add_message (wo_now wo) message_role.ASSISTANT limit_reply
        [(''runtime'', JStr ''crewai''), (''limited'', JBool True)] (?c\<lparr>cv_active := False\<rparr>)"
      have "res = Inr (reply wo ?l limit_reply [(''runtime'', JStr ''crewai''), (''limited'', JBool True)])"
        "m' = save_sessions wo (store_session ?l m)"
        using assms(2) Some True w L by (auto simp: process_message_def get_session_def Let_def)
      moreover have "said ?l = said c @ [(message_role.USER, message), (message_role.ASSISTANT, limit_reply)]" by (simp add: said_def)
      moreover have "manager_ok (save_sessions wo (store_session ?l m))" by (rule manager_ok_put [OF assms(1), of _ ?l]) simp
      ultimately show ?thesis using Some id by (simp add: after_message_def reply_def)
    next
      case NL: False
      have "run_accepted run wo i wfl ?wid ?c message meta (store_session ?c m) = (res, m')"
        using Some True w NL assms(2) by (simp add: process_message_def get_session_def Let_def)
      then show ?thesis
      proof (cases rule: run_acceptedE)
        case (failed e rec m1)
        note e = failed(3,4)
        have m1: "sg_sessions m1 = put sid ?c (sg_sessions m)" using start_run_record_sessions [OF failed(1)] id by simp
        have "sg_sessions m' = put (cv_id ?c) ?c (sg_sessions m)" using e(2) m1 id by simp
        moreover from this have "manager_ok m'" by (rule manager_ok_put [OF assms(1)])
        ultimately show ?thesis using e(1) Some id by (simp add: after_message_def)
      next
        case (completed sc rec m1 r)
        note c = completed(3,4)
        have m1: "sg_sessions m1 = put sid ?c (sg_sessions m)" using start_run_record_sessions [OF completed(1)] id by simp
        from complete_message_spec [OF c(1)] obtain c' where c': "sg_sessions m' = put sid c' (put sid ?c (sg_sessions m))"
            "cv_id c' = sid" "said c' = said ?c @ [(message_role.ASSISTANT, cr_response r)]" "cv_turns c' = cv_turns ?c"
          using id m1 by auto
        have "manager_ok m'" using assms(1) c'(1,2) by (auto simp: manager_ok_def)
        then show ?thesis using c c' Some by (auto simp: after_message_def)
      qed
    qed
  qed
qed

subsection \<open>The run history\<close>

definition workflow_of :: "world \<Rightarrow> conversation \<Rightarrow> string" where
  "workflow_of wo c = (let w = jget (cv_meta c) ''workflow_id'' in if truthy w then text_of (wo_show wo) w else [])"

definition with_user_message :: "world \<Rightarrow> string \<Rightarrow> conversation \<Rightarrow> conversation" where
  "with_user_message wo message c =
     increment_turn (wo_now wo) (add_message (wo_now wo) message_role.USER message [(''runtime'', JStr ''crewai'')] c)"

lemma process_message_accepted:
  assumes "get (sg_sessions m) sid = Some c" "cv_active c" "find_workflow (sg_registry m) (workflow_of wo c) = Some w"
  shows "process_message run wo i sid message None meta m =
    run_accepted run wo i w (workflow_of wo c) (with_user_message wo message c) message meta
      (store_session (with_user_message wo message c) m)"
  using assms by (simp add: process_message_def get_session_def workflow_of_def with_user_message_def Let_def)

lemma finish_fresh:
  assumes "i \<notin> ru_id ` set db" "ru_id row = i" "parse_status (ro_status out) = Some st"
  shows "finish_run repr i now out (db @ [row]) = Inr (db @ [finish_row repr now out st row])"
proof -
  have "map (\<lambda>r. if ru_id r = i then finish_row repr now out st r else r) db = db"
    using assms(1) by (intro map_idI) auto
  then show ?thesis using assms by (simp add: finish_run_def)
qed

lemma start_run_record_open:
  assumes "0 < sg_limit m" "wo_db_ok wo" "start_run_record wo i wid c message meta m = (rec, m')"
  shows "\<exists>r row. rec = Some (i, r) \<and> sg_runs m' = sg_runs m @ [row] \<and> ru_id row = i \<and> ru_message row = message
    \<and> ru_workflow row = wid \<and> sg_since_prune m' = sg_since_prune m \<and> sg_limit m' = sg_limit m"
  using assms by (auto simp: start_run_record_def start_run_def Let_def)

lemma finish_run_record_close:
  assumes "wo_db_ok wo" "sg_since_prune m + 1 < prune_every" "sg_runs m = db @ [row]" "ru_id row = i"
    "i \<notin> ru_id ` set db" "parse_status (ro_status out) = Some st"
  shows "sg_runs (finish_run_record wo i out m) = db @ [finish_row (wo_repr wo) (wo_now wo) out st row]"
  using assms finish_fresh [OF assms(5,4,6), of "wo_repr wo" "wo_now wo"] by (simp add: finish_run_record_def)

lemma run_row:
  assumes "get (sg_sessions m) sid = Some c" "cv_active c" "find_workflow (sg_registry m) (workflow_of wo c) = Some w"
    "0 < sg_limit m" "wo_db_ok wo" "i \<notin> ru_id ` set (sg_runs m)" "sg_since_prune m + 1 < 50"
    "process_message run wo i sid message None meta m = (res, m')"
  shows "\<exists>row. sg_runs m' = sg_runs m @ [row] \<and> ru_id row = i \<and> ru_workflow row = workflow_of wo c \<and> ru_message row = message
    \<and> ru_finished row = Some (wo_now wo) \<and> ru_status row = (if isl res then Failed else Succeeded)
    \<and> ru_response row = (case res of Inl _ \<Rightarrow> None | Inr r \<Rightarrow> Some (cr_response r))"
proof -
  let ?c = "with_user_message wo message c"
  have "run_accepted run wo i w (workflow_of wo c) ?c message meta (store_session ?c m) = (res, m')"
    using assms(8) process_message_accepted [OF assms(1-3)] by simp
  then show ?thesis
  proof (cases rule: run_acceptedE)
    case (failed e rec m1)
    from start_run_record_open [OF _ assms(5) failed(1)] assms(4) obtain r row where r: "rec = Some (i, r)"
        "sg_runs m1 = sg_runs m @ [row]" "ru_id row = i" "ru_message row = message" "ru_workflow row = workflow_of wo c"
        "sg_since_prune m1 = sg_since_prune m" by auto
    have "sg_since_prune m1 + 1 < prune_every" using r(6) assms(7) by (simp add: prune_every_def)
    note cl = finish_run_record_close [OF assms(5) this r(2,3) assms(6)]
    show ?thesis using failed(3,4) r cl
      by (auto simp: fail_message_def outcome_of_def finish_row_def)
  next
    case (completed sc rec m1 r')
    from start_run_record_open [OF _ assms(5) completed(1)] assms(4) obtain r row where r: "rec = Some (i, r)"
        "sg_runs m1 = sg_runs m @ [row]" "ru_id row = i" "ru_message row = message" "ru_workflow row = workflow_of wo c"
        "sg_since_prune m1 = sg_since_prune m" by auto
    have s: "sg_since_prune (save_sessions wo (store_session d m1)) + 1 < prune_every"
      "sg_runs (save_sessions wo (store_session d m1)) = sg_runs m @ [row]" for d
      using r(2,6) assms(7) by (simp_all add: prune_every_def)
    note cl = finish_run_record_close [OF assms(5) s r(3) assms(6)]
    show ?thesis using completed(3,4) r cl
      by (auto simp: complete_message_def Let_def outcome_of_def finish_row_def reply_def)
  qed
qed

text \<open>C11: with recording on, a database that answers and no pruning due, an accepted message adds one row to the
  run history, which is closed when the call ends: succeeded with the reply that the caller gets, or
  failed without one; the earlier rows stay as they are.\<close>

theorem run_recorded:
  assumes "get (sg_sessions m) sid = Some c" "cv_active c" "find_workflow (sg_registry m) (workflow_of wo c) = Some w"
    "0 < sg_limit m" "wo_db_ok wo" "i \<notin> ru_id ` set (sg_runs m)" "sg_since_prune m + 1 < 50"
    "process_message run wo i sid message None meta m = (res, m')"
  shows "\<exists>row. sg_runs m' = sg_runs m @ [row] \<and> ru_id row = i \<and> ru_workflow row = workflow_of wo c \<and> ru_message row = message
    \<and> ru_finished row = Some (wo_now wo) \<and> ru_status row = (if isl res then Failed else Succeeded)
    \<and> ru_response row = (case res of Inl _ \<Rightarrow> None | Inr r \<Rightarrow> Some (cr_response r))"
  using run_row [OF assms] .

subsection \<open>The runtime behind a message\<close>

definition run_error_text :: "workflow \<Rightarrow> run_error \<Rightarrow> string \<times> string" where
  "run_error_text w e = (case e of
      No_agents \<Rightarrow> (''ValueError'', ''Workflow '' @ wf_id w @ '' has no agents to execute'')
    | No_specialists s \<Rightarrow> (''ValueError'', ''Workflow '' @ wf_id w @ '': the selector '' @ [CHR 0x27] @ s @ [CHR 0x27]
        @ '' has no specialists to delegate to. Connect at least one other agent.'')
    | No_valid_agents \<Rightarrow> (''ValueError'', ''Workflow '' @ wf_id w @ '' has no valid CrewAI agents'')
    | Selector_has_tools s tools \<Rightarrow> (''ValueError'', ''Workflow '' @ wf_id w @ '': the selector '' @ [CHR 0x27] @ s @ [CHR 0x27]
        @ '' has tools ('' @ join '', '' tools @ ''). A selector only delegates; give the tools to the specialist that should use them.'')
    | Raised \<Rightarrow> (''TypeError'', []))"

definition runtime_metadata :: "workflow \<Rightarrow> run_result \<Rightarrow> (string, json) odict" where
  "runtime_metadata w z = [(''runtime'', JStr ''crewai''), (''workflow_id'', JStr (wf_id w)),
     (''agent_count'', JInt (int (rz_agent_count z))), (''task_count'', JInt (int (rz_task_count z))),
     (''memory_enabled'', JBool (rz_memory_enabled z)), (''knowledge_sources_count'', JInt (int (rz_sources z))),
     (''process'', JStr (rz_process z)), (''usage'', JObj (rz_usage z))]"

text \<open>\<open>CrewAIWorkflowRuntime.run_message\<close> as the runtime of a message; \<open>frames\<close> are the events its callbacks emit,
  and a missing user id is the empty string.\<close>

definition crew_runtime ::
  "(plan \<Rightarrow> string + kickoff_result) \<Rightarrow> (json \<Rightarrow> string) \<Rightarrow> run_env \<Rightarrow> (string \<times> (string, json) odict \<times> string option) list
    \<Rightarrow> run_args \<Rightarrow> runtime_outcome" where
  "crew_runtime kick show env frames a = \<lparr>oc_frames = frames,
     oc_result = (case run_message kick show env (ra_workflow a) (ra_message a) (ra_session a) (opt_or (ra_user a) []) (ra_metadata a) of
        Inl e \<Rightarrow> Inl (run_error_text (ra_workflow a) e)
      | Inr z \<Rightarrow> Inr \<lparr>sc_response = rz_response z, sc_trace = JList [], sc_meta = runtime_metadata (ra_workflow a) z\<rparr>)\<rparr>"

lemma failed_kickoff_reply:
  assumes "get (sg_sessions m) sid = Some c" "cv_active c" "find_workflow (sg_registry m) (workflow_of wo c) = Some w"
    "0 < sg_limit m" "wo_db_ok wo" "i \<notin> ru_id ` set (sg_runs m)" "sg_since_prune m + 1 < 50"
    "process_message (crew_runtime (\<lambda>_. Inl e) show env frames) wo i sid message None meta m = (res, m')"
    "prepare_run show env w message (wo_id_text wo (cv_id c)) (opt_or (user_of (wo_show wo) (cv_meta c)) [])
       (run_metadata wo (with_user_message wo message c) meta) = Inr p"
  shows "\<exists>r row. res = Inr r \<and> cr_response r = strip (''Error during CrewAI execution: '' @ e)
    \<and> sg_runs m' = sg_runs m @ [row] \<and> ru_id row = i \<and> ru_status row = Succeeded"
proof -
  let ?run = "crew_runtime (\<lambda>_. Inl e) show env frames"
  let ?c = "with_user_message wo message c"
  have f: "cv_id ?c = cv_id c" "cv_meta ?c = cv_meta c" by (simp_all add: with_user_message_def)
  have a: "run_accepted ?run wo i w (workflow_of wo c) ?c message meta (store_session ?c m) = (res, m')"
    using assms(8) process_message_accepted [OF assms(1-3)] by simp
  have o: "oc_result (ran ?run wo w ?c message meta) = Inr sc \<Longrightarrow> sc_response sc = strip (''Error during CrewAI execution: '' @ e)" for sc
    using assms(9) by (auto simp: ran_def crew_runtime_def run_message_def f kickoff_response_def)
  have n: "strip (''Error during CrewAI execution: '' @ e) \<noteq> []"
  proof -
    have "strip (CHR ''E'' # s) \<noteq> []" for s
      by (simp add: strip_def is_space_def code_def)
    then show ?thesis by simp
  qed
  have "\<exists>r. res = Inr r \<and> cr_response r = strip (''Error during CrewAI execution: '' @ e)"
    using a
  proof (cases rule: run_acceptedE)
    case (failed e rec m1)
    then show ?thesis using assms(9) by (auto simp: ran_def crew_runtime_def run_message_def f)
  next
    case (completed sc rec m1 r)
    then show ?thesis using complete_message_spec [OF completed(3)] o [OF completed(2)] n by (auto simp: str_or_def)
  qed
  moreover from run_row [OF assms(1-8)] obtain row where "sg_runs m' = sg_runs m @ [row]" "ru_id row = i"
    "ru_status row = (if isl res then Failed else Succeeded)" by blast
  ultimately show ?thesis by auto
qed

text \<open>an exception inside CrewAI becomes the reply: the run counts as succeeded, without an error.\<close>

theorem failed_kickoff_succeeds:
  assumes "get (sg_sessions m) sid = Some c" "cv_active c" "find_workflow (sg_registry m) (workflow_of wo c) = Some w"
    "0 < sg_limit m" "wo_db_ok wo" "i \<notin> ru_id ` set (sg_runs m)" "sg_since_prune m + 1 < 50"
    "process_message (crew_runtime (\<lambda>_. Inl e) show env frames) wo i sid message None meta m = (res, m')"
    "prepare_run show env w message (wo_id_text wo (cv_id c)) (opt_or (user_of (wo_show wo) (cv_meta c)) [])
       (run_metadata wo (with_user_message wo message c) meta) = Inr p"
  shows "\<exists>r row. res = Inr r \<and> cr_response r = strip (''Error during CrewAI execution: '' @ e)
    \<and> sg_runs m' = sg_runs m @ [row] \<and> ru_id row = i \<and> ru_status row = Succeeded"
  by (rule failed_kickoff_reply [OF assms])

subsection \<open>The conversation in the prompt\<close>

definition entry_fields :: "(int \<Rightarrow> string) \<Rightarrow> message \<Rightarrow> (string, json) odict" where
  "entry_fields fmt x = [(''role'', JStr (role_value (ms_role x))), (''content'', JStr (ms_content x)), (''timestamp'', JStr (fmt (ms_time x)))]"

lemma turn_of_entry: "turn_of show (history_entry fmt x) = (if strip (ms_content x) \<noteq> [] then Some (entry_fields fmt x) else None)"
  by (auto simp: turn_of_def history_entry_def entry_fields_def jget_def get_default_def text_of_def Let_def)

lemma turns_of_history:
  "List.map_filter (turn_of show) (map (history_entry fmt) xs) = map (entry_fields fmt) (filter (\<lambda>x. strip (ms_content x) \<noteq> []) xs)"
  by (induction xs) (auto simp: map_filter_simps turn_of_entry)

lemma run_metadata_history:
  assumes "get meta ''history'' = None" "wf_odict meta"
  shows "jget (run_metadata wo c meta) ''history'' = JList (take_last 20 (conversation_history (wo_iso wo) c))"
proof -
  have "get (merge [(''session_metadata'', x), (''history'', y)] meta) ''history'' = Some y" for x y
    using assms by (simp add: get_merge get_rev map_add_def)
  then show ?thesis
    by (simp add: run_metadata_def Let_def jget_def get_default_def split: option.splits)
qed

text \<open>unless the client sends its own history, every step is asked the user's message preceded by the last
  nineteen earlier messages that are not blank, each once and in order; the message itself is not
  repeated as part of the history.\<close>

theorem prompt_holds_history:
  assumes "get meta ''history'' = None" "wf_odict meta"
  shows "request_text show message (run_metadata wo (with_user_message wo message c) meta)
    = Some (join [newline] (request_lines show message
        (map (entry_fields (wo_iso wo)) (filter (\<lambda>x. strip (ms_content x) \<noteq> []) (take_last 19 (cv_messages c))))))"
proof -
  let ?x = "\<lparr>ms_role = message_role.USER, ms_content = message, ms_time = wo_now wo, ms_meta = [(''runtime'', JStr ''crewai'')]\<rparr>"
  let ?old = "map (entry_fields (wo_iso wo)) (filter (\<lambda>x. strip (ms_content x) \<noteq> []) (take_last 19 (cv_messages c)))"
  have "take_last 20 (conversation_history (wo_iso wo) (with_user_message wo message c))
      = map (history_entry (wo_iso wo)) (take_last 19 (cv_messages c) @ [?x])"
    using take_last_snoc_Suc [of 19 "cv_messages c" ?x]
    by (simp add: conversation_history_def with_user_message_def take_last_def drop_map)
  then have t: "List.map_filter (turn_of show) (take_last 20 (conversation_history (wo_iso wo) (with_user_message wo message c)))
      = ?old @ (if strip message \<noteq> [] then [entry_fields (wo_iso wo) ?x] else [])"
    by (simp only: turns_of_history) simp
  have j: "jget (entry_fields f y) ''role'' = JStr (role_value (ms_role y))" "jget (entry_fields f y) ''content'' = JStr (ms_content y)" for f y
    by (simp_all add: entry_fields_def jget_def get_default_def)
  have d: "drop_current message (?old @ (if strip message \<noteq> [] then [entry_fields (wo_iso wo) ?x] else [])) = ?old"
  proof (cases "strip message = []")
    case True
    have n: "jget (last ?old) ''content'' \<noteq> JStr message" if "?old \<noteq> []"
    proof -
      have "last ?old \<in> set ?old" using that by (rule last_in_set)
      then obtain y where y: "last ?old = entry_fields (wo_iso wo) y" "strip (ms_content y) \<noteq> []" by auto
      from y(2) True have "ms_content y \<noteq> message" by auto
      then show ?thesis by (simp only: y(1) j json.inject) simp
    qed
    show ?thesis
    proof (cases "?old = []")
      case False
      then show ?thesis using True n [OF False] by (simp only: drop_current_def append_Nil2 if_False not_True_eq_False) simp
    qed (use True in \<open>simp add: drop_current_def\<close>)
  next
    case False
    then show ?thesis by (simp add: drop_current_def j role_value_def)
  qed
  show ?thesis
    by (simp only: request_text_def run_metadata_history [OF assms] history_items_def json.case option.map t d)
qed

subsection \<open>Streams\<close>

text \<open>a streamed message is numbered from zero without gaps, starts with \<open>start\<close>, passes the events of the run
  on in their order with their payloads, and ends with \<open>done\<close>, or with \<open>error\<close> when the run fails.\<close>

theorem stream_message_ordered:
  "let ds = stream_message fresh sid corr message meta events result in
     map de_sequence ds = [0..<length ds] \<and> de_type (hd ds) = START
     \<and> map (\<lambda>d. (de_payload d, de_agent d)) (take (length events) (tl ds)) = map snd events
     \<and> de_type (last ds) = (if isl result then ERROR else DONE)
     \<and> (\<forall>d \<in> set ds. de_session d = sid)"
proof -
  define fs where "fs = (START, [(''runtime'', JStr ''crewai''), (''message_length'', JInt (int (length message))), (''metadata'', JObj meta)], None :: string option)
    # map (\<lambda>(ty, p, a). (delta_type_of ty, p, a)) events @ closing_frames result"
  define b where "b = new_builder fresh sid corr"
  define ds where "ds = fst (deltas fs b)"
  have s: "map de_sequence ds = [0..<length fs]" "map (\<lambda>d. (de_type d, de_payload d, de_agent d)) ds = fs" "\<forall>d \<in> set ds. de_session d = sid"
    using deltas_spec [of fs b] by (simp_all add: ds_def b_def new_builder_def)
  have l: "length ds = length fs" using arg_cong [OF s(2), of length] by (simp only: length_map)
  have ne: "ds \<noteq> []" using l by (auto simp: fs_def)
  have ty: "map de_type ds = map fst fs" using arg_cong [OF s(2), of "map fst"] by (simp add: o_def)
  have pl: "map (\<lambda>d. (de_payload d, de_agent d)) ds = map snd fs" using arg_cong [OF s(2), of "map snd"] by (simp add: o_def)
  have "de_type (hd ds) = START" using ty ne by (cases ds) (simp_all add: fs_def)
  moreover have "de_type (last ds) = fst (last fs)"
    using ty ne l by (metis last_map length_0_conv)
  moreover have "fst (last fs) = (if isl result then ERROR else DONE)"
    by (cases result) (auto simp: fs_def closing_frames_def)
  moreover have "map (\<lambda>d. (de_payload d, de_agent d)) (take (length events) (tl ds)) = map snd events"
    using arg_cong [OF pl, of "\<lambda>x. take (length events) (tl x)"]
    by (simp add: fs_def take_map map_tl [symmetric] split_beta o_def)
  moreover have "stream_message fresh sid corr message meta events result = ds"
    by (simp add: stream_message_def ds_def fs_def b_def)
  ultimately show ?thesis using s l by (simp add: Let_def)
qed

subsection \<open>A restart\<close>

lemma saved_sessions_restored:
  assumes "manager_ok m" "wo_fs_ok wo"
  shows "get (sg_sessions (load_sessions ((save_sessions wo m)\<lparr>sg_sessions := []\<rparr>))) = get (sg_sessions m)"
proof -
  let ?cs = "sort_key cv_updated (map snd (sg_sessions m))"
  have id: "map cv_id (map snd (sg_sessions m)) = keys (sg_sessions m)"
  proof -
    have "cv_id (snd x) = fst x" if "x \<in> set (sg_sessions m)" for x
      using assms(1) that by (cases x) (auto simp: manager_ok_def wf_odict_def keys_def)
    then show ?thesis by (simp add: keys_def)
  qed
  have "sg_sessions (load_sessions ((save_sessions wo m)\<lparr>sg_sessions := []\<rparr>)) = merge [] (map (\<lambda>c. (cv_id c, c)) ?cs)"
    using assms(2) by (simp add: load_sessions_def save_sessions_def merge_def fold_map o_def)
  moreover have d: "distinct (map cv_id ?cs)"
  proof -
    have "mset (map cv_id ?cs) = mset (keys (sg_sessions m))" by (simp only: id [symmetric] mset_map mset_sort)
    then show ?thesis using assms(1) unfolding manager_ok_def wf_odict_def by (metis distinct_count_atmost_1 mset_eq_imp_distinct_iff)
  qed
  then have "wf_odict (map (\<lambda>c. (cv_id c, c)) ?cs)" by (simp add: wf_odict_def keys_def o_def)
  moreover have "get (map (\<lambda>c. (cv_id c, c)) ?cs) k = get (sg_sessions m) k" for k
  proof -
    have "get (map (\<lambda>c. (cv_id c, c)) ?cs) k = Some c \<longleftrightarrow> get (sg_sessions m) k = Some c" for c
    proof -
      have "get (map (\<lambda>c. (cv_id c, c)) ?cs) k = Some c \<longleftrightarrow> c \<in> snd ` set (sg_sessions m) \<and> cv_id c = k"
        using d by (subst map_of_eq_Some_iff) (auto simp: o_def)
      also have "\<dots> \<longleftrightarrow> get (sg_sessions m) k = Some c"
        using assms(1) by (auto simp: manager_ok_def wf_odict_def keys_def map_of_eq_Some_iff intro: rev_image_eqI)
      finally show ?thesis .
    qed
    then show ?thesis by (metis option.exhaust)
  qed
  ultimately show ?thesis by (simp add: get_merge get_rev fun_eq_iff)
qed


subsection \<open>Examples\<close>

definition demo_world :: world where
  "demo_world = \<lparr>wo_now = 5, wo_fs_ok = True, wo_db_ok = True, wo_show = (\<lambda>v. []), wo_repr = (\<lambda>v. []), wo_iso = (\<lambda>t. []),
     wo_uuid = (\<lambda>s. None), wo_id_text = nat_str, wo_override = (\<lambda>s. None)\<rparr>"

definition demo_session :: conversation where
  "demo_session = \<lparr>cv_id = 1, cv_messages = [], cv_notes = [], cv_turns = 0, cv_active = True, cv_created = 0, cv_updated = 0,
     cv_meta = [(''workflow_id'', JStr ''w'')]\<rparr>"

definition demo_manager :: session_manager where
  "demo_manager = \<lparr>sg_sessions = [(1, demo_session)], sg_file = No_file,
     sg_registry = \<lparr>rg_config = Some \<lparr>root_version = ''1.0.0'', root_workflows = [demo_workflow]\<rparr>, rg_agents = None\<rparr>,
     sg_runs = [], sg_since_prune = 0, sg_limit = 10\<rparr>"

lemma demo_manager_facts: "manager_ok demo_manager" "get (sg_sessions demo_manager) 1 = Some demo_session" "cv_active demo_session"
  "workflow_of wo demo_session = ''w''" "find_workflow (sg_registry demo_manager) ''w'' = Some demo_workflow"
  "0 < sg_limit demo_manager" "wo_db_ok demo_world" "sg_runs demo_manager = []" "sg_since_prune demo_manager + 1 < 50"
  by (simp_all add: manager_ok_def demo_manager_def demo_session_def wf_odict_def keys_def workflow_of_def jget_def get_default_def
      text_of_def find_workflow_def get_workflow_def demo_workflow_def default_workflow_def demo_world_def)

lemma demo_prepare:
  assumes "jget md ''history'' = JList xs" "jget md ''model_override'' = JNull"
  shows "\<exists>p. prepare_run show demo_env demo_workflow message sid uid md = Inr p"
  using assms
  by (simp add: prepare_run_def Let_def resolve_process_is_field demo_env_def default_node_def get_agent_def demo_agent_def member_agent_def
      create_agent_def agent_params_def agent_param_keys_def int_params_def effective_model_config_def
      drop_nulls_def merge_def get_effective_model_config_def opt_truthy_def manager_agent_def request_text_def history_items_def
      create_tasks_def wording_def override_of_def jget_def [of "[]"] get_default_def)

theorem process_message_effect_witness:
  "\<exists>res m'. process_message (\<lambda>a. \<lparr>oc_frames = [], oc_result = Inl (''E'', [])\<rparr>) demo_world 0 1 ''hi'' None [] demo_manager = (res, m') \<and> manager_ok m'"
  using process_message_effect [OF demo_manager_facts(1)] by (metis surj_pair)

theorem run_recorded_witness:
  "\<exists>res m' row. process_message (\<lambda>a. \<lparr>oc_frames = [], oc_result = Inl (''E'', [])\<rparr>) demo_world 0 1 ''hi'' None [] demo_manager = (res, m')
    \<and> sg_runs m' = [row] \<and> ru_message row = ''hi''"
proof -
  obtain res m' where p: "process_message (\<lambda>a. \<lparr>oc_frames = [], oc_result = Inl (''E'', [])\<rparr>) demo_world 0 1 ''hi'' None [] demo_manager = (res, m')"
    by fastforce
  have w: "find_workflow (sg_registry demo_manager) (workflow_of demo_world demo_session) = Some demo_workflow"
    by (simp add: demo_manager_facts)
  have "0 \<notin> ru_id ` set (sg_runs demo_manager)" by (simp add: demo_manager_facts)
  from run_recorded [OF demo_manager_facts(2,3) w demo_manager_facts(6,7) this demo_manager_facts(9) p] p demo_manager_facts(8)
  show ?thesis by auto
qed

theorem failed_kickoff_succeeds_witness:
  "\<exists>res m' r row. process_message (crew_runtime (\<lambda>_. Inl ''boom'') (\<lambda>v. []) demo_env []) demo_world 0 1 ''hi'' None [] demo_manager = (res, m')
    \<and> res = Inr r \<and> sg_runs m' = [row] \<and> ru_status row = Succeeded"
proof -
  let ?md = "run_metadata demo_world (with_user_message demo_world ''hi'' demo_session) []"
  obtain res m' where p: "process_message (crew_runtime (\<lambda>_. Inl ''boom'') (\<lambda>v. []) demo_env []) demo_world 0 1 ''hi'' None [] demo_manager = (res, m')"
    by fastforce
  have w: "find_workflow (sg_registry demo_manager) (workflow_of demo_world demo_session) = Some demo_workflow"
    by (simp add: demo_manager_facts)
  have i: "0 \<notin> ru_id ` set (sg_runs demo_manager)" by (simp add: demo_manager_facts)
  have h: "jget ?md ''history'' = JList (take_last 20 (conversation_history (wo_iso demo_world) (with_user_message demo_world ''hi'' demo_session)))"
    by (rule run_metadata_history) (simp_all add: wf_odict_def keys_def)
  have o: "jget ?md ''model_override'' = JNull"
    by (simp add: run_metadata_def Let_def jget_def get_default_def with_user_message_def demo_session_def merge_def)
  from demo_prepare [OF h o] obtain q where "prepare_run (\<lambda>v. []) demo_env demo_workflow ''hi'' (wo_id_text demo_world (cv_id demo_session))
      (opt_or (user_of (wo_show demo_world) (cv_meta demo_session)) []) ?md = Inr q" by blast
  from failed_kickoff_succeeds [OF demo_manager_facts(2,3) w demo_manager_facts(6,7) i demo_manager_facts(9) p this] p demo_manager_facts(8)
  show ?thesis by auto
qed

theorem prompt_holds_history_witness:
  "request_text (\<lambda>v. []) ''hi'' (run_metadata demo_world (with_user_message demo_world ''hi'' demo_session) [])
    = Some (''The user's message:'' @ [newline] @ ''hi'')"
  using prompt_holds_history [of "[]" "\<lambda>v. []" "''hi''" demo_world demo_session]
  by (simp add: wf_odict_def keys_def demo_session_def take_last_def request_lines_def)

theorem stream_message_ordered_witness:
  "map de_sequence (stream_message [] ''s'' None ''hi'' [] [] (Inl (''E'', []))) = [0, 1]"
  using stream_message_ordered [of "[]" "''s''" None "''hi''" "[]" "[]" "Inl (''E'', [])"]
  by (simp add: stream_message_def closing_frames_def Let_def make_delta_def split_beta new_builder_def)


end
