(* ===== verification/Node_Events.thy ===== *)
theory Node_Events
  imports Runtime_Plan
begin

text \<open>
  What a run tells the canvas about its nodes, \<open>src/src/crewai_runtime/execution_events.py\<close>:
  \<open>ExecutionEventEmitter\<close> turns the callbacks of CrewAI into events of nodes and tools and keeps the
  input and output of every node.  An operation gives the new state and the frames it hands to the sink, in order;
  \<open>deliver\<close> is the sink, whose exceptions are swallowed.  An operation takes the clock readings it makes as
  arguments, in the order it makes them.  \<open>run_tool\<close> is the wrapper of
  \<open>src/src/crewai_runtime/runtime.py\<close> that reports the calls of plain tools.
\<close>

subsection \<open>Frames\<close>

type_synonym frame = "string \<times> (string, json) odict \<times> string option"

definition max_text_chars :: nat where
  "max_text_chars = 6000"

definition truncate_text :: "string \<Rightarrow> string \<times> bool" where
  "truncate_text s = (if length s > max_text_chars then (take max_text_chars s @ ellipsis # '' [truncated]'', True) else (s, False))"

fun truncate_value :: "json \<Rightarrow> json \<times> bool" where
  "truncate_value (JStr s) = (let (t, c) = truncate_text s in (JStr t, c))"
| "truncate_value v = (v, False)"

text \<open>\<open>round(x)\<close>: to the nearest integer, a tie to the even one.\<close>

definition py_round :: "rat \<Rightarrow> int" where
  "py_round x = (let f = \<lfloor>x\<rfloor>; d = x - of_int f in
     if d < 1 / 2 then f else if d > 1 / 2 then f + 1 else if even f then f else f + 1)"

definition duration_ms :: "rat option \<Rightarrow> rat \<Rightarrow> json" where
  "duration_ms started now = (case started of None \<Rightarrow> JNull | Some t \<Rightarrow> JInt (py_round ((now - t) * 1000)))"

definition flag_truncated :: "bool \<Rightarrow> (string, json) odict \<Rightarrow> (string, json) odict" where
  "flag_truncated c d = (if c then put ''truncated'' (JBool True) d else d)"

subsection \<open>The emitter\<close>

record emitter =
  em_message :: string
  em_metas :: "task_meta list"
  em_sequential :: bool
  em_inputs :: "(string, (string, json) odict) odict"
  em_outputs :: "(string, (string, json) odict) odict"
  em_started :: "(string, rat) odict"
  em_completed :: nat
  em_tool_io :: "(string, (string, json) odict) odict"
  em_agents_ran :: "string list"
  em_tools_called :: "string list"

definition new_emitter :: "string \<Rightarrow> emitter" where
  "new_emitter message = \<lparr>em_message = message, em_metas = [], em_sequential = True, em_inputs = [], em_outputs = [],
     em_started = [], em_completed = 0, em_tool_io = [], em_agents_ran = [], em_tools_called = []\<rparr>"

definition register_tasks :: "task_meta list \<Rightarrow> bool \<Rightarrow> emitter \<Rightarrow> emitter" where
  "register_tasks ms sequential e = e\<lparr>em_metas := ms, em_sequential := sequential\<rparr>"

text \<open>\<open>_record_and_emit_input\<close>.\<close>

definition known_upstream :: "(string, (string, json) odict) odict \<Rightarrow> string list \<Rightarrow> json list" where
  "known_upstream outs ups = map (\<lambda>u. JObj [(''node_id'', JStr u), (''output'', jget (get_default outs u []) ''raw'')])
     (filter (\<lambda>u. u \<in> set (keys outs)) ups)"

definition input_payload :: "emitter \<Rightarrow> task_meta \<Rightarrow> (string, json) odict" where
  "input_payload e m = (let (d, c) = truncate_text (me_description m); (msg, c_msg) = truncate_text (em_message e)
     in flag_truncated (c \<or> c_msg) [(''description'', JStr d), (''message'', JStr msg),
          (''context'', JList (known_upstream (em_outputs e) (me_upstream m)))])"

definition start_node :: "rat \<Rightarrow> task_meta \<Rightarrow> emitter \<Rightarrow> emitter \<times> frame list" where
  "start_node now m e = (let payload = input_payload e m in
     (e\<lparr>em_inputs := put (me_node m) payload (em_inputs e), em_started := put (me_node m) now (em_started e)\<rparr>,
      [(''node_started'', [(''node_id'', JStr (me_node m)), (''agent_id'', JStr (me_agent m)),
          (''task_index'', JInt (int (me_index m))), (''description_preview'', JStr (take 240 (me_description m)))], Some (me_agent m)),
       (''node_input'', [(''node_id'', JStr (me_node m)), (''agent_id'', JStr (me_agent m)), (''input'', JObj payload)],
          Some (me_agent m))]))"

definition on_kickoff_start :: "rat \<Rightarrow> emitter \<Rightarrow> emitter \<times> frame list" where
  "on_kickoff_start now e = (case em_metas e of
      m # _ \<Rightarrow> if em_sequential e then start_node now m e else (e, [])
    | [] \<Rightarrow> (e, []))"

text \<open>CrewAI's \<open>TaskOutput\<close>: \<open>to_text\<close> is \<open>str(task_output)\<close>.\<close>

record task_output =
  to_name :: "string option"
  to_raw :: "string option"
  to_text :: string
  to_description :: json
  to_agent :: json
  to_expected :: json

definition output_meta :: "task_output \<Rightarrow> emitter \<Rightarrow> task_meta option" where
  "output_meta r e = (case List.find (\<lambda>m. Some (me_node m) = to_name r) (em_metas e) of
      Some m \<Rightarrow> Some m
    | None \<Rightarrow> if em_completed e < length (em_metas e) then Some (em_metas e ! em_completed e) else None)"

definition output_payload :: "task_output \<Rightarrow> task_meta \<Rightarrow> (string, json) odict" where
  "output_payload r m = (let (raw, c) = truncate_text (opt_or (to_raw r) (to_text r)) in
     flag_truncated c [(''raw'', JStr raw), (''agent'', to_agent r),
       (''expected_output'', if truthy (to_expected r) then to_expected r else me_expected m),
       (''description'', fst (truncate_value (to_description r)))])"

definition finish_node :: "rat \<Rightarrow> task_output \<Rightarrow> task_meta \<Rightarrow> emitter \<Rightarrow> emitter \<times> frame list" where
  "finish_node now r m e =
     (e\<lparr>em_outputs := put (me_node m) (output_payload r m) (em_outputs e)\<rparr>,
      [(''node_output'', [(''node_id'', JStr (me_node m)), (''agent_id'', JStr (me_agent m)),
          (''output'', JObj (output_payload r m)), (''duration_ms'', duration_ms (get (em_started e) (me_node m)) now)],
        Some (me_agent m))])"

definition start_missed :: "rat \<Rightarrow> task_meta \<Rightarrow> emitter \<Rightarrow> emitter \<times> frame list" where
  "start_missed now m e = (if me_node m \<in> set (keys (em_inputs e)) then (e, []) else start_node now m e)"

definition start_next :: "rat \<Rightarrow> emitter \<Rightarrow> emitter \<times> frame list" where
  "start_next now e = (if \<not> em_sequential e then (e, [])
     else case List.find (\<lambda>m. me_node m \<notin> set (keys (em_inputs e))) (em_metas e) of
       None \<Rightarrow> (e, [])
     | Some m \<Rightarrow> start_node now m e)"

definition count_agent :: "string \<Rightarrow> emitter \<Rightarrow> emitter" where
  "count_agent a e = (if a = [] then e else e\<lparr>em_agents_ran := append_new a (em_agents_ran e)\<rparr>)"

text \<open>\<open>task_callback\<close> and \<open>_handle_task_output\<close>.\<close>

definition task_callback :: "rat \<Rightarrow> rat \<Rightarrow> rat \<Rightarrow> task_output \<Rightarrow> emitter \<Rightarrow> emitter \<times> frame list" where
  "task_callback t1 t2 t3 r e =
     (let e0 = e\<lparr>em_completed := Suc (em_completed e)\<rparr> in
      case output_meta r e of
        None \<Rightarrow> (e0, [])
      | Some m \<Rightarrow>
         (let (e1, fs1) = start_missed t1 m (count_agent (me_agent m) e0);
              (e2, fs2) = finish_node t2 r m e1;
              (e3, fs3) = start_next t3 e2
          in (e3, fs1 @ fs2 @ fs3)))"

text \<open>\<open>agent_step\<close>: of a step it reads whether it has an output, the text of it, and whether it is a tool call.\<close>

record step_report =
  sr_output :: "string option"
  sr_is_tool :: bool

definition agent_step :: "rat \<Rightarrow> rat \<Rightarrow> string \<Rightarrow> string option \<Rightarrow> string option \<Rightarrow> step_report \<Rightarrow> emitter \<Rightarrow> emitter \<times> frame list" where
  "agent_step t1 t2 a node from st e =
     (let first = (a \<notin> set (em_agents_ran e));
          e0 = e\<lparr>em_agents_ran := append_new a (em_agents_ran e)\<rparr>
      in case (from, node) of
        (Some d, Some n) \<Rightarrow>
          (let e1 = (if first \<and> n \<notin> set (keys (em_started e)) then e0\<lparr>em_started := put n t1 (em_started e)\<rparr> else e0);
               fs1 = (if first then [(''agent_transfer'', [(''node_id'', JStr n), (''from_node_id'', JStr d), (''target_agent'', JStr a)], Some a)]
                      else [])
           in case sr_output st of
             None \<Rightarrow> (e1, fs1)
           | Some s \<Rightarrow>
              (if sr_is_tool st then (e1, fs1)
               else (let (raw, c) = truncate_text s; payload = flag_truncated c [(''raw'', JStr raw), (''agent'', JStr a)];
                  started = (case get (em_started e1) n of Some t \<Rightarrow> if t = 0 then None else Some t | None \<Rightarrow> None)
                in (e1\<lparr>em_outputs := put n payload (em_outputs e1)\<rparr>,
                    fs1 @ [(''node_output'', [(''node_id'', JStr n), (''agent_id'', JStr a), (''output'', JObj payload),
                       (''duration_ms'', duration_ms started t2)], Some a)]))))
      | _ \<Rightarrow> (e0, []))"

subsection \<open>Tools\<close>

definition truncate_args :: "(string, json) odict \<Rightarrow> (string, json) odict" where
  "truncate_args = map (\<lambda>(k, v). (k, fst (truncate_value v)))"

definition tool_started :: "string \<Rightarrow> string \<Rightarrow> (string, json) odict \<Rightarrow> emitter \<Rightarrow> emitter \<times> frame list" where
  "tool_started i name kwargs e =
     (let payload = [(''name'', JStr name), (''tool_id'', JStr i), (''args'', JObj (truncate_args kwargs))] in
     (e\<lparr>em_tool_io := put name payload (em_tool_io e), em_tools_called := append_new i (em_tools_called e)\<rparr>,
      [(''tool_call_start'', payload, None)]))"

text \<open>\<open>result\<close> is the text of a result that is not \<open>None\<close>.\<close>

definition result_fields :: "string option \<Rightarrow> string option \<Rightarrow> int option \<Rightarrow> (string, json) odict" where
  "result_fields result error ms =
     [(''result'', case result of None \<Rightarrow> JNull | Some s \<Rightarrow> JStr (fst (truncate_text s))),
      (''duration_ms'', case ms of None \<Rightarrow> JNull | Some k \<Rightarrow> JInt k)]
     @ (case error of None \<Rightarrow> [] | Some x \<Rightarrow> if x = [] then [] else [(''error'', JStr x)])"

definition tool_finished :: "string \<Rightarrow> string \<Rightarrow> string option \<Rightarrow> string option \<Rightarrow> int option \<Rightarrow> emitter \<Rightarrow> emitter \<times> frame list" where
  "tool_finished i name result error ms e =
     (let named = [(''name'', JStr name), (''tool_id'', JStr i)] in
     (e\<lparr>em_tool_io := put name (merge (get_default (em_tool_io e) name named) (result_fields result error ms)) (em_tool_io e)\<rparr>,
      [(''tool_call_result'', named @ result_fields result error ms, None)]))"

text \<open>\<open>run_tool\<close> of \<open>_wrap_tool\<close>: \<open>f\<close> is the tool, which gives its value or the text of an
  exception; \<open>shown\<close> is the text of a value that is not \<open>None\<close>.  It starts at \<open>t0\<close> and ends at \<open>t1\<close>.\<close>

definition recorded_args :: "json list \<Rightarrow> (string, json) odict \<Rightarrow> (string, json) odict" where
  "recorded_args args kwargs = (if args = [] then kwargs else put ''_args'' (JList args) kwargs)"

definition run_tool ::
  "(json \<Rightarrow> string option) \<Rightarrow> (json list \<Rightarrow> (string, json) odict \<Rightarrow> string + json) \<Rightarrow> string \<Rightarrow> string \<Rightarrow> rat \<Rightarrow> rat
    \<Rightarrow> json list \<Rightarrow> (string, json) odict \<Rightarrow> emitter \<Rightarrow> json \<times> emitter \<times> frame list" where
  "run_tool shown f i name t0 t1 args kwargs e =
     (let (e1, fs1) = tool_started i name (recorded_args args kwargs) e; ms = Some (py_round ((t1 - t0) * 1000)) in
      case f args kwargs of
        Inr v \<Rightarrow> (let (e2, fs2) = tool_finished i name (shown v) None ms e1 in (v, e2, fs1 @ fs2))
      | Inl x \<Rightarrow> (let (e2, fs2) = tool_finished i name None (Some x) ms e1
          in (JStr (''Tool execution error: '' @ x), e2, fs1 @ fs2)))"

subsection \<open>Reports of a run\<close>

definition emit_trace :: "(string, json) odict \<Rightarrow> string option \<Rightarrow> emitter \<Rightarrow> emitter \<times> frame list" where
  "emit_trace trace agent e = (e, [(''reasoning_delta'', trace, agent)])"

definition opt_obj :: "(string, json) odict option \<Rightarrow> json" where
  "opt_obj d = (case d of None \<Rightarrow> JNull | Some x \<Rightarrow> JObj x)"

definition node_io :: "emitter \<Rightarrow> (string, json) odict" where
  "node_io e = fold (\<lambda>m d. put (me_node m) (JObj [(''input'', opt_obj (get (em_inputs e) (me_node m))),
        (''output'', opt_obj (get (em_outputs e) (me_node m)))]) d)
     (filter (\<lambda>m. me_node m \<in> set (keys (em_inputs e)) \<or> me_node m \<in> set (keys (em_outputs e))) (em_metas e)) []"

text \<open>\<open>_emit\<close>: a sink maps its state and a frame to its new state and whether it raised.\<close>

definition emit_frame :: "('s \<Rightarrow> frame \<Rightarrow> 's \<times> bool) option \<Rightarrow> frame \<Rightarrow> 's \<Rightarrow> 's" where
  "emit_frame sink f s = (case sink of None \<Rightarrow> s | Some g \<Rightarrow> fst (g s f))"

definition deliver :: "('s \<Rightarrow> frame \<Rightarrow> 's \<times> bool) option \<Rightarrow> frame list \<Rightarrow> 's \<Rightarrow> 's" where
  "deliver sink fs s = fold (emit_frame sink) fs s"


subsection \<open>A sequential run\<close>

type_synonym clocked_output = "(rat \<times> rat \<times> rat) \<times> task_output"

fun callbacks :: "clocked_output list \<Rightarrow> emitter \<Rightarrow> emitter \<times> frame list" where
  "callbacks [] e = (e, [])"
| "callbacks (((t1, t2, t3), r) # rs) e =
     (let (e1, fs1) = task_callback t1 t2 t3 r e; (e2, fs2) = callbacks rs e1 in (e2, fs1 @ fs2))"

text \<open>The callbacks of a run as the runtime wires them: register, announce the kickoff, then one callback per task.\<close>

definition reported_run :: "string \<Rightarrow> task_meta list \<Rightarrow> bool \<Rightarrow> rat \<Rightarrow> clocked_output list \<Rightarrow> emitter \<times> frame list" where
  "reported_run message ms sequential now rs =
     (let (e1, fs1) = on_kickoff_start now (register_tasks ms sequential (new_emitter message));
          (e2, fs2) = callbacks rs e1
      in (e2, fs1 @ fs2))"

text \<open>The frames without the durations, and what they should be: a node starts, shows its input with the outputs of
  its upstream nodes so far, and shows its output.\<close>

definition timeless :: "frame \<Rightarrow> frame" where
  "timeless f = (case f of (ty, d, a) \<Rightarrow> (ty, filter (\<lambda>(k, v). k \<noteq> ''duration_ms'') d, a))"

definition start_frames :: "string \<Rightarrow> (string, (string, json) odict) odict \<Rightarrow> task_meta \<Rightarrow> frame list" where
  "start_frames message outs m = snd (start_node 0 m (new_emitter message\<lparr>em_outputs := outs\<rparr>))"

definition output_frame :: "task_output \<Rightarrow> task_meta \<Rightarrow> frame" where
  "output_frame r m = (''node_output'', [(''node_id'', JStr (me_node m)), (''agent_id'', JStr (me_agent m)),
     (''output'', JObj (output_payload r m))], Some (me_agent m))"

fun story :: "string \<Rightarrow> (string, (string, json) odict) odict \<Rightarrow> (task_meta \<times> task_output) list \<Rightarrow> frame list" where
  "story message outs [] = []"
| "story message outs ((m, r) # ps) = start_frames message outs m @ output_frame r m
     # story message (outs @ [(me_node m, output_payload r m)]) ps"

lemma keys_append [simp]: "keys (d @ e) = keys d @ keys e" and keys_Cons [simp]: "keys (p # d) = fst p # keys d"
  and keys_Nil [simp]: "keys [] = []"
  by (simp_all add: keys_def)

lemma start_node_cong:
  "em_message e = em_message e' \<Longrightarrow> em_outputs e = em_outputs e' \<Longrightarrow> snd (start_node t m e) = snd (start_node t' m e')"
  by (simp add: start_node_def input_payload_def Let_def split_beta)

lemma timeless_start: "map timeless (snd (start_node t m e)) = start_frames (em_message e) (em_outputs e) m"
proof -
  have "map timeless (snd (start_node t m e)) = snd (start_node t m e)"
    by (simp add: start_node_def Let_def timeless_def)
  then show ?thesis unfolding start_frames_def by (subst start_node_cong) (simp_all add: new_emitter_def)
qed

definition agents_of :: "task_meta list \<Rightarrow> string list" where
  "agents_of ms = fold append_new (filter (\<lambda>a. a \<noteq> []) (map me_agent ms)) []"

text \<open>The tasks in \<open>ds\<close> are done, \<open>m\<close> is announced and \<open>ms\<close> are to come.\<close>

definition at_node :: "string \<Rightarrow> (task_meta \<times> task_output) list \<Rightarrow> task_meta \<Rightarrow> task_meta list \<Rightarrow> emitter \<Rightarrow> bool" where
  "at_node message ds m ms e \<longleftrightarrow> em_message e = message \<and> em_sequential e \<and> em_metas e = map fst ds @ m # ms
     \<and> keys (em_inputs e) = map (me_node \<circ> fst) ds @ [me_node m]
     \<and> em_outputs e = map (\<lambda>(m, r). (me_node m, output_payload r m)) ds
     \<and> em_agents_ran e = agents_of (map fst ds)"

lemma agents_of_snoc: "agents_of (ms @ [m]) = (if me_agent m = [] then agents_of ms else append_new (me_agent m) (agents_of ms))"
  by (simp add: agents_of_def)

definition outs_of :: "(task_meta \<times> task_output) list \<Rightarrow> (string, (string, json) odict) odict" where
  "outs_of ds = map (\<lambda>(m, r). (me_node m, output_payload r m)) ds"

definition done_run :: "string \<Rightarrow> (task_meta \<times> task_output) list \<Rightarrow> emitter \<Rightarrow> bool" where
  "done_run message ds e \<longleftrightarrow> em_message e = message \<and> em_metas e = map fst ds \<and> keys (em_inputs e) = map (me_node \<circ> fst) ds
     \<and> em_outputs e = outs_of ds \<and> em_agents_ran e = agents_of (map fst ds)"

lemma task_callback_at_node:
  assumes "at_node message ds m ms e" "distinct (map me_node (map fst ds @ m # ms))" "to_name r = Some (me_node m)"
  obtains e' fs where "task_callback t1 t2 t3 r e = (e', fs)"
    "case ms of [] \<Rightarrow> done_run message (ds @ [(m, r)]) e' \<and> map timeless fs = [output_frame r m]
       | m' # ms' \<Rightarrow> at_node message (ds @ [(m, r)]) m' ms' e'
           \<and> map timeless fs = output_frame r m # start_frames message (outs_of (ds @ [(m, r)])) m'"
proof -
  have "List.find (\<lambda>y. me_node y = me_node m) (map fst ds @ m # ms) = Some m"
    by (rule find_distinct [OF assms(2)]) simp
  then have meta: "output_meta r e = Some m"
    using assms(1,3) by (simp add: output_meta_def at_node_def)
  have new: "me_node m \<notin> set (map (me_node \<circ> fst) ds)" using assms(2) by auto
  let ?e1 = "count_agent (me_agent m) (e\<lparr>em_completed := Suc (em_completed e)\<rparr>)"
  obtain e2 f where f: "finish_node t2 r m ?e1 = (e2, [f])" "timeless f = output_frame r m"
    by (simp add: finish_node_def timeless_def output_frame_def)
  have e1: "start_missed t1 m ?e1 = (?e1, [])" using assms(1) by (simp add: start_missed_def at_node_def count_agent_def)
  have e2: "em_message e2 = message" "em_sequential e2" "em_metas e2 = map fst ds @ m # ms"
    "keys (em_inputs e2) = map (me_node \<circ> fst) ds @ [me_node m]" "em_outputs e2 = outs_of (ds @ [(m, r)])"
    "em_agents_ran e2 = agents_of (map fst (ds @ [(m, r)]))"
    using f(1) assms(1) new
    by (auto simp: finish_node_def at_node_def count_agent_def agents_of_snoc outs_of_def put_new keys_def o_def split_beta)
  obtain e3 fs3 where s: "start_next t3 e2 = (e3, fs3)" by fastforce
  have "List.find (\<lambda>x. me_node x \<notin> set (keys (em_inputs e2))) ((map fst ds @ [m]) @ ms)
      = List.find (\<lambda>x. me_node x \<notin> set (keys (em_inputs e2))) ms"
    by (rule find_skip) (auto simp: e2(4))
  then have following: "List.find (\<lambda>m. me_node m \<notin> set (keys (em_inputs e2))) (em_metas e2)
      = (case ms of [] \<Rightarrow> None | m' # _ \<Rightarrow> Some m')"
    using assms(2) unfolding e2(3,4) by (cases ms) auto
  show ?thesis
  proof (rule that)
    show "task_callback t1 t2 t3 r e = (e3, f # fs3)"
      by (simp add: task_callback_def meta Let_def e1 f s)
    show "case ms of [] \<Rightarrow> done_run message (ds @ [(m, r)]) e3 \<and> map timeless (f # fs3) = [output_frame r m]
       | m' # ms' \<Rightarrow> at_node message (ds @ [(m, r)]) m' ms' e3
           \<and> map timeless (f # fs3) = output_frame r m # start_frames message (outs_of (ds @ [(m, r)])) m'"
    proof (cases ms)
      case Nil
      then show ?thesis using s following e2 f(2) by (auto simp: start_next_def done_run_def o_def)
    next
      case (Cons m' ms')
      have n: "start_node t3 m' e2 = (e3, fs3)" using s following e2(2) Cons by (simp add: start_next_def)
      have "me_node m' \<notin> set (keys (em_inputs e2))" using assms(2) Cons unfolding e2(4) by auto
      then have "keys (em_inputs e3) = keys (em_inputs e2) @ [me_node m']" "em_outputs e3 = em_outputs e2"
        "em_message e3 = em_message e2" "em_sequential e3 = em_sequential e2" "em_metas e3 = em_metas e2"
        "em_agents_ran e3 = em_agents_ran e2"
        using n by (auto simp: start_node_def Let_def keys_put)
      moreover have "map timeless fs3 = start_frames message (outs_of (ds @ [(m, r)])) m'"
        using timeless_start [of t3 m' e2] n e2(1,5) by simp
      ultimately show ?thesis using e2 f(2) Cons by (simp add: at_node_def outs_of_def)
    qed
  qed
qed


text \<open>The frames of one callback per remaining task, after the node \<open>m\<close> was announced.\<close>

lemma callbacks_story:
  assumes "at_node message ds m (map fst ps) e" "distinct (map me_node (map fst ds @ m # map fst ps))"
    "to_name r = Some (me_node m)" "\<forall>(m, t, r) \<in> set ps. to_name r = Some (me_node m)"
    "callbacks ((t, r) # map snd ps) e = (e', fs)"
  shows "done_run message (ds @ (m, r) # map (\<lambda>(m, t, r). (m, r)) ps) e'
    \<and> map timeless fs = output_frame r m # story message (outs_of (ds @ [(m, r)])) (map (\<lambda>(m, t, r). (m, r)) ps)"
  using assms
proof (induction ps arbitrary: ds m t r e e' fs)
  case (Nil ds m t r e)
  obtain t1 t2 t3 where t: "t = (t1, t2, t3)" by (cases t) auto
  from Nil.prems(1,2,3) obtain e1 fs1 where "task_callback t1 t2 t3 r e = (e1, fs1)"
    "done_run message (ds @ [(m, r)]) e1 \<and> map timeless fs1 = [output_frame r m]"
    by (elim task_callback_at_node [where ?t1.0 = t1 and ?t2.0 = t2 and ?t3.0 = t3]) simp_all
  then show ?case using Nil.prems(5) t by (auto simp: split_beta)
next
  case (Cons p ps)
  obtain t1 t2 t3 where t: "t = (t1, t2, t3)" by (cases t) auto
  obtain m' t' r' where p: "p = (m', t', r')" by (cases p) auto
  obtain e1 fs1 where c1: "task_callback t1 t2 t3 r e = (e1, fs1)"
    "case map fst (p # ps) of [] \<Rightarrow> done_run message (ds @ [(m, r)]) e1 \<and> map timeless fs1 = [output_frame r m]
       | m' # ms' \<Rightarrow> at_node message (ds @ [(m, r)]) m' ms' e1
           \<and> map timeless fs1 = output_frame r m # start_frames message (outs_of (ds @ [(m, r)])) m'"
    by (rule task_callback_at_node [OF Cons.prems(1,2,3)])
  then have c: "at_node message (ds @ [(m, r)]) m' (map fst ps) e1"
    "map timeless fs1 = output_frame r m # start_frames message (outs_of (ds @ [(m, r)])) m'"
    by (simp_all add: p)
  obtain e2 fs2 where c2: "callbacks ((t', r') # map snd ps) e1 = (e2, fs2)" by fastforce
  have r: "e' = e2" "fs = fs1 @ fs2" using Cons.prems(5) c1(1) c2 by (simp_all add: t p split_beta)
  have "done_run message ((ds @ [(m, r)]) @ (m', r') # map (\<lambda>(m, t, r). (m, r)) ps) e2
    \<and> map timeless fs2 = output_frame r' m' # story message (outs_of ((ds @ [(m, r)]) @ [(m', r')])) (map (\<lambda>(m, t, r). (m, r)) ps)"
    by (rule Cons.IH [OF c(1) _ _ _ c2]) (use Cons.prems(2,4) p in auto)
  then show ?case using c(2) r by (simp add: p outs_of_def)
qed

proposition sequential_run_story:
  assumes "distinct (map me_node ms)" "length rs = length ms"
    "\<forall>(m, t, r) \<in> set (zip ms rs). to_name r = Some (me_node m)"
    "reported_run message ms True now rs = (e, fs)"
  shows "map timeless fs = story message [] (zip ms (map snd rs)) \<and> done_run message (zip ms (map snd rs)) e"
proof (cases ms)
  case Nil
  then show ?thesis using assms
    by (auto simp: reported_run_def on_kickoff_start_def register_tasks_def new_emitter_def done_run_def outs_of_def agents_of_def)
next
  case (Cons m ms')
  then obtain t r rs' where rs: "rs = (t, r) # rs'" using assms(2) by (cases rs) auto
  let ?e = "register_tasks ms True (new_emitter message)" and ?ps = "zip ms' rs'"
  obtain e1 fs1 where k: "on_kickoff_start now ?e = (e1, fs1)" by fastforce
  then have s: "start_node now m ?e = (e1, fs1)" using Cons by (simp add: on_kickoff_start_def register_tasks_def)
  have ps: "map fst ?ps = ms'" "map snd ?ps = rs'" using assms(2) rs Cons by simp_all
  have a: "at_node message [] m (map fst ?ps) e1"
    using s Cons ps by (auto simp: start_node_def Let_def at_node_def register_tasks_def new_emitter_def agents_of_def)
  obtain e2 fs2 where c: "callbacks ((t, r) # map snd ?ps) e1 = (e2, fs2)" by fastforce
  have x: "map (\<lambda>(m, t, r). (m, r)) ?ps = zip ms' (map snd rs')" by (simp add: zip_map2 split_beta)
  have "done_run message ([] @ (m, r) # map (\<lambda>(m, t, r). (m, r)) ?ps) e2
    \<and> map timeless fs2 = output_frame r m # story message (outs_of ([] @ [(m, r)])) (map (\<lambda>(m, t, r). (m, r)) ?ps)"
    by (rule callbacks_story [OF a _ _ _ c]) (use assms rs Cons ps in auto)
  moreover have "map timeless fs1 = start_frames message [] m"
    using timeless_start [of now m ?e] s by (simp add: register_tasks_def new_emitter_def)
  moreover have "e = e2" "fs = fs1 @ fs2" using assms(4) k c rs ps by (simp_all add: reported_run_def)
  ultimately show ?thesis using rs Cons x by (simp add: outs_of_def)
qed


subsection \<open>The shown context is the one a task gets\<close>

lemma length_start_frames [simp]: "length (start_frames message outs m) = 2"
  by (simp add: start_frames_def start_node_def Let_def)

lemma length_story [simp]: "length (story message outs ps) = 3 * length ps"
  by (induction ps arbitrary: outs) auto

lemma story_nth:
  assumes "i < length ps" "k < 2"
  shows "story message outs ps ! (3 * i + k) = start_frames message (outs @ outs_of (take i ps)) (fst (ps ! i)) ! k"
  using assms
proof (induction ps arbitrary: outs i)
  case (Cons p ps)
  obtain m r where p: "p = (m, r)" by (cases p)
  show ?case
  proof (cases i)
    case 0
    then show ?thesis using Cons.prems(2) by (simp add: p nth_append outs_of_def)
  next
    case (Suc j)
    have "3 * i + k = 2 + Suc (3 * j + k)" using Suc by simp
    then have "story message outs (p # ps) ! (3 * i + k) = story message (outs @ [(me_node m, output_payload r m)]) ps ! (3 * j + k)"
      by (simp add: p nth_append)
    then show ?thesis using Cons.IH [of j "outs @ [(me_node m, output_payload r m)]"] Cons.prems Suc by (simp add: p outs_of_def)
  qed
qed simp

definition shown_output :: "task_output \<Rightarrow> json" where
  "shown_output r = JStr (fst (truncate_text (opt_or (to_raw r) (to_text r))))"

lemma raw_payload [simp]: "jget (output_payload r m) ''raw'' = shown_output r"
  by (simp add: jget_def get_default_def output_payload_def shown_output_def flag_truncated_def Let_def split_beta)

definition context_of :: "frame \<Rightarrow> json" where
  "context_of f = (case f of (ty, d, a) \<Rightarrow> (case jget d ''input'' of JObj x \<Rightarrow> jget x ''context'' | _ \<Rightarrow> JNull))"

lemma context_of_start: "context_of (start_frames message outs m ! 1) = JList (known_upstream outs (me_upstream m))"
  "fst (start_frames message outs m ! 1) = ''node_input''"
  "jget (fst (snd (start_frames message outs m ! 1))) ''node_id'' = JStr (me_node m)"
  by (simp_all add: start_frames_def start_node_def context_of_def jget_def get_default_def input_payload_def
      flag_truncated_def new_emitter_def Let_def split_beta)

lemma timeless_input:
  "fst (timeless f) = fst f" "context_of (timeless f) = context_of f"
  "jget (fst (snd (timeless f))) ''node_id'' = jget (fst (snd f)) ''node_id''"
proof -
  have "jget (filter (\<lambda>(k, v). k \<noteq> ''duration_ms'') d) x = jget d x" if "x \<noteq> ''duration_ms''" for d x
    using that by (induction d) (auto simp: jget_def get_default_def)
  then show "fst (timeless f) = fst f" "context_of (timeless f) = context_of f"
    "jget (fst (snd (timeless f))) ''node_id'' = jget (fst (snd f)) ''node_id''"
    by (simp_all add: timeless_def context_of_def split: prod.split)
qed

lemma keys_outs_of: "keys (outs_of ds) = map (me_node \<circ> fst) ds"
  by (induction ds) (auto simp: outs_of_def)

lemma known_upstream_prefix:
  assumes "distinct (map me_node ms)" "length rs = length ms" "i < length ms" "\<forall>j \<in> set js. j < i"
  shows "known_upstream (outs_of (take i (zip ms rs))) (map (\<lambda>j. me_node (ms ! j)) js)
    = map (\<lambda>j. JObj [(''node_id'', JStr (me_node (ms ! j))), (''output'', shown_output (rs ! j))]) js"
proof -
  let ?o = "outs_of (take i (zip ms rs))"
  have "map fst (take i (zip ms rs)) = take i ms" using assms(2) by (simp add: take_map [symmetric])
  then have k: "keys ?o = map me_node (take i ms)" by (metis keys_outs_of list.map_comp)
  have g: "get ?o (me_node (ms ! j)) = Some (output_payload (rs ! j) (ms ! j))" if "j < i" for j
  proof (rule map_of_is_SomeI)
    show "distinct (map fst ?o)" using distinct_take [OF assms(1), of i] k by (simp add: keys_def take_map)
    have "zip ms rs ! j \<in> set (take i (zip ms rs))" using that assms(2,3) by (auto simp: in_set_conv_nth)
    then show "(me_node (ms ! j), output_payload (rs ! j) (ms ! j)) \<in> set ?o"
      using that assms(2,3) unfolding outs_of_def by force
  qed
  have "\<forall>j \<in> set js. me_node (ms ! j) \<in> set (keys ?o)" using assms(4) g by (auto simp: in_keys_iff)
  then show ?thesis using assms(4) g by (auto simp: known_upstream_def filter_map o_def get_default_def intro!: map_cong)
qed


lemma planned_aligned: "prepare_run show env w msg sid uid metadata = Inr p \<Longrightarrow> aligned (pl_tasks p) (pl_metas p)"
  by (erule prepare_runE) (auto dest!: create_tasks_ok simp: tasks_ok_def)



definition fork_env :: run_env where
  "fork_env = \<lparr>re_rag = False, re_allow_human = False, re_agents = [demo_agent ''worker'']\<rparr>"

lemma upstream_fork:
  "upstream fork x ms = (if x = ''b'' \<or> x = ''c'' then filter (\<lambda>i. ''a'' = me_node (ms ! i)) [0..<length ms] else [])"
  by (auto simp: upstream_def fork_def fork_edge_def)

lemma fork_plan:
  "\<exists>p. prepare_run (\<lambda>v. []) fork_env (default_workflow ''w'' fork) ''hi'' ''s'' ''u'' [] = Inr p \<and> pl_process p = Sequential
    \<and> map ta_name (pl_tasks p) = [''a'', ''b'', ''c''] \<and> map ta_context (pl_tasks p) = [[], [0], [0]]"
  by (simp add: prepare_run_def Let_def resolve_process_is_field fork_env_def get_agent_def demo_agent_def member_agent_def
      create_agent_def agent_params_def agent_param_keys_def int_params_def jget_def get_default_def effective_model_config_def
      drop_nulls_def merge_def get_effective_model_config_def opt_truthy_def manager_agent_def request_text_def history_items_def
      create_tasks_def wording_def override_of_def fork_ordered default_workflow_def upstream_fork)


subsection \<open>Any order of callbacks\<close>

text \<open>The frames of a run up to some moment, whatever the order in which CrewAI calls back: \<open>node_of\<close> is
  \<open>node_for_agent\<close> and \<open>delegate\<close> what \<open>step_callback_for\<close> finds for an agent.\<close>

inductive observed ::
  "string \<Rightarrow> task_meta list \<Rightarrow> bool \<Rightarrow> (string \<Rightarrow> string option) \<Rightarrow> (string \<Rightarrow> string option) \<Rightarrow> emitter \<Rightarrow> frame list \<Rightarrow> bool"
  for message ms sequential node_of delegate where
  kicked: "on_kickoff_start now (register_tasks ms sequential (new_emitter message)) = (e, fs)
    \<Longrightarrow> observed message ms sequential node_of delegate e fs"
| task_done: "observed message ms sequential node_of delegate e fs \<Longrightarrow> task_callback t1 t2 t3 r e = (e', fs')
    \<Longrightarrow> observed message ms sequential node_of delegate e' (fs @ fs')"
| stepped: "observed message ms sequential node_of delegate e fs \<Longrightarrow> agent_step t1 t2 a (node_of a) (delegate a) st e = (e', fs')
    \<Longrightarrow> observed message ms sequential node_of delegate e' (fs @ fs')"
| called: "observed message ms sequential node_of delegate e fs \<Longrightarrow> tool_started i name kwargs e = (e', fs')
    \<Longrightarrow> observed message ms sequential node_of delegate e' (fs @ fs')"
| returned: "observed message ms sequential node_of delegate e fs \<Longrightarrow> tool_finished i name result error dur e = (e', fs')
    \<Longrightarrow> observed message ms sequential node_of delegate e' (fs @ fs')"

definition label :: "frame \<Rightarrow> string \<times> json" where
  "label f = (fst f, jget (fst (snd f)) ''node_id'')"

definition announces :: "frame \<Rightarrow> frame \<Rightarrow> bool" where
  "announces g f \<longleftrightarrow> snd (label g) = snd (label f) \<and> fst g \<in> {''node_started'', ''agent_transfer''}"

definition announced :: "frame list \<Rightarrow> bool" where
  "announced fs \<longleftrightarrow> (\<forall>ys f zs. fs = ys @ f # zs \<longrightarrow> fst f = ''node_output'' \<longrightarrow> (\<exists>g \<in> set ys. announces g f))"

lemma announced_Nil [simp]: "announced []"
  by (simp add: announced_def)

lemma announced_snoc:
  "announced (fs @ [f]) \<longleftrightarrow> announced fs \<and> (fst f = ''node_output'' \<longrightarrow> (\<exists>g \<in> set fs. announces g f))"
  unfolding announced_def by (rule all_splits_snoc)

lemma in_mapE: "x \<in> set (map f xs) \<Longrightarrow> (\<And>y. y \<in> set xs \<Longrightarrow> f y = x \<Longrightarrow> P) \<Longrightarrow> P"
  by auto

lemma count_one: "count_list xs x = 1 \<Longrightarrow> x \<in> set xs"
  by (rule ccontr) simp

definition sound_frames :: "(string \<Rightarrow> string option) \<Rightarrow> (string \<Rightarrow> string option) \<Rightarrow> task_meta list \<Rightarrow> emitter \<Rightarrow> frame list \<Rightarrow> bool" where
  "sound_frames node_of delegate ms e fs \<longleftrightarrow> em_metas e = ms \<and> announced fs
     \<and> distinct (em_agents_ran e)
     \<and> (\<forall>n. count_list (map label fs) (''node_started'', JStr n) = (if n \<in> set (keys (em_inputs e)) then 1 else 0))
     \<and> (\<forall>a \<in> set (em_agents_ran e). a \<in> me_agent ` set ms \<or> (\<forall>d n. delegate a = Some d \<longrightarrow> node_of a = Some n
           \<longrightarrow> (''agent_transfer'', JStr n) \<in> set (map label fs)))"

lemma start_node_frames:
  "start_node t m e = (e', fs) \<Longrightarrow> \<exists>f g. fs = [f, g] \<and> label f = (''node_started'', JStr (me_node m)) \<and> label g = (''node_input'', JStr (me_node m))
    \<and> em_metas e' = em_metas e \<and> em_agents_ran e' = em_agents_ran e \<and> set (keys (em_inputs e')) = insert (me_node m) (set (keys (em_inputs e)))"
  by (auto simp: start_node_def Let_def label_def jget_def get_default_def)

lemma start_node_sound:
  assumes "start_node t m e = (e', gs)" "sound_frames node_of delegate ms e fs" "me_node m \<notin> set (keys (em_inputs e))"
  shows "sound_frames node_of delegate ms e' (fs @ gs)"
proof -
  obtain f g where g: "gs = [f, g]" "label f = (''node_started'', JStr (me_node m))" "label g = (''node_input'', JStr (me_node m))"
    "em_metas e' = em_metas e" "em_agents_ran e' = em_agents_ran e" "set (keys (em_inputs e')) = insert (me_node m) (set (keys (em_inputs e)))"
    using start_node_frames [OF assms(1)] by blast
  have t: "fst f = ''node_started''" "fst g = ''node_input''" using g(2,3) by (auto simp: label_def)
  have "announced (fs @ [f, g]) = announced fs"
    using announced_snoc [of "fs @ [f]" g] announced_snoc [of fs f] t by simp
  then show ?thesis using assms(2,3) g by (auto simp: sound_frames_def)
qed


lemma output_frame_sound:
  assumes "sound_frames node_of delegate ms e fs" "\<exists>g \<in> set fs. announces g f" "fst f = ''node_output''"
    "em_metas e' = em_metas e" "em_agents_ran e' = em_agents_ran e" "em_inputs e' = em_inputs e"
  shows "sound_frames node_of delegate ms e' (fs @ [f])"
  using assms by (auto simp: sound_frames_def announced_snoc label_def)

lemma other_frame_sound:
  assumes "sound_frames node_of delegate ms e fs" "fst f \<noteq> ''node_output''" "fst f \<noteq> ''node_started''"
    "em_metas e' = em_metas e" "em_inputs e' = em_inputs e" "distinct (em_agents_ran e')"
    "\<forall>a \<in> set (em_agents_ran e') - set (em_agents_ran e). a \<in> me_agent ` set ms \<or> (\<forall>d n. delegate a = Some d \<longrightarrow> node_of a = Some n
           \<longrightarrow> label f = (''agent_transfer'', JStr n))"
  shows "sound_frames node_of delegate ms e' (fs @ [f])"
proof -
  have a: "\<forall>a \<in> set (em_agents_ran e'). a \<in> me_agent ` set ms \<or> (\<forall>d n. delegate a = Some d \<longrightarrow> node_of a = Some n
      \<longrightarrow> (''agent_transfer'', JStr n) \<in> set (map label (fs @ [f])))"
    using assms(1,7) unfolding sound_frames_def by (simp add: Ball_def) (metis (no_types, lifting) list.set_map)
  show ?thesis using assms a unfolding sound_frames_def by (auto simp: announced_snoc label_def)
qed

lemma agents_sound:
  assumes "sound_frames node_of delegate ms e fs" "em_metas e' = em_metas e" "em_inputs e' = em_inputs e" "distinct (em_agents_ran e')"
    "\<forall>a \<in> set (em_agents_ran e') - set (em_agents_ran e). a \<in> me_agent ` set ms \<or> delegate a = None \<or> node_of a = None"
  shows "sound_frames node_of delegate ms e' fs"
  using assms unfolding sound_frames_def by (metis DiffI option.distinct(1))

lemma start_next_sound:
  assumes "start_next t e = (e', gs)" "sound_frames node_of delegate ms e fs"
  shows "sound_frames node_of delegate ms e' (fs @ gs)"
proof (cases "em_sequential e \<and> List.find (\<lambda>m. me_node m \<notin> set (keys (em_inputs e))) (em_metas e) \<noteq> None")
  case True
  then obtain m where "List.find (\<lambda>m. me_node m \<notin> set (keys (em_inputs e))) (em_metas e) = Some m" by auto
  then show ?thesis using start_node_sound [OF _ assms(2)] assms(1) True
    by (auto simp: start_next_def dest: find_SomeD)
qed (use assms in \<open>auto simp: start_next_def split: if_splits\<close>)

lemma start_missed_sound:
  assumes "start_missed t m e = (e', gs)" "sound_frames node_of delegate ms e fs"
  shows "sound_frames node_of delegate ms e' (fs @ gs) \<and> me_node m \<in> set (keys (em_inputs e'))"
proof (cases "me_node m \<in> set (keys (em_inputs e))")
  case False
  then have s: "start_node t m e = (e', gs)" using assms(1) by (simp add: start_missed_def)
  then show ?thesis using start_node_sound [OF s assms(2) False] start_node_frames [OF s] by auto
qed (use assms in \<open>auto simp: start_missed_def\<close>)

lemma task_callback_sound:
  assumes "task_callback t1 t2 t3 r e = (e', gs)" "sound_frames node_of delegate ms e fs"
  shows "sound_frames node_of delegate ms e' (fs @ gs)"
proof (cases "output_meta r e")
  case None
  then show ?thesis using assms by (auto simp: task_callback_def sound_frames_def)
next
  case (Some m)
  then have m: "m \<in> set ms" using assms(2)
    by (auto simp: output_meta_def sound_frames_def split: option.splits if_splits dest: find_SomeD)
  let ?e0 = "count_agent (me_agent m) (e\<lparr>em_completed := Suc (em_completed e)\<rparr>)"
  obtain e1 fs1 where s1: "start_missed t1 m ?e0 = (e1, fs1)" by fastforce
  obtain e2 f where s2: "finish_node t2 r m e1 = (e2, [f])" by (simp add: finish_node_def)
  obtain e3 fs3 where s3: "start_next t3 e2 = (e3, fs3)" by fastforce
  have "sound_frames node_of delegate ms ?e0 fs"
    by (rule agents_sound [OF assms(2)]) (use assms(2) m in \<open>auto simp: count_agent_def sound_frames_def\<close>)
  from start_missed_sound [OF s1 this] have i1: "sound_frames node_of delegate ms e1 (fs @ fs1)" "me_node m \<in> set (keys (em_inputs e1))" by auto
  then have "count_list (map label (fs @ fs1)) (''node_started'', JStr (me_node m)) = 1" by (simp only: sound_frames_def if_True)
  then have "(''node_started'', JStr (me_node m)) \<in> set (map label (fs @ fs1))" by (rule count_one)
  then obtain g where g: "g \<in> set (fs @ fs1)" "label g = (''node_started'', JStr (me_node m))" by (rule in_mapE)
  have "snd (label f) = JStr (me_node m)"
    using s2 by (auto simp: finish_node_def label_def jget_def get_default_def)
  then have "\<exists>g \<in> set (fs @ fs1). announces g f"
    using g by (intro bexI [of _ g]) (auto simp: announces_def label_def)
  then have "sound_frames node_of delegate ms e2 ((fs @ fs1) @ [f])"
    by (rule output_frame_sound [OF i1(1)]) (use s2 in \<open>auto simp: finish_node_def\<close>)
  from start_next_sound [OF s3 this] show ?thesis
    using assms(1) Some s1 s2 s3 by (simp add: task_callback_def Let_def)
qed


lemma agent_step_sound:
  assumes "agent_step t1 t2 a (node_of a) (delegate a) st e = (e', gs)" "sound_frames node_of delegate ms e fs"
    "delegate a \<noteq> None \<longrightarrow> a \<notin> me_agent ` set ms"
  shows "sound_frames node_of delegate ms e' (fs @ gs)"
proof (cases "delegate a = None \<or> node_of a = None")
  case True
  then have e: "e' = e\<lparr>em_agents_ran := append_new a (em_agents_ran e)\<rparr>" "gs = []"
    using assms(1) by (auto simp: agent_step_def Let_def split: option.splits)
  have "sound_frames node_of delegate ms e' fs"
    by (rule agents_sound [OF assms(2)]) (use e True assms(2) in \<open>auto simp: sound_frames_def\<close>)
  then show ?thesis using e by simp
next
  case False
  then obtain d n where dn: "delegate a = Some d" "node_of a = Some n" by auto
  let ?first = "a \<notin> set (em_agents_ran e)"
  let ?e0 = "e\<lparr>em_agents_ran := append_new a (em_agents_ran e)\<rparr>"
  let ?e1 = "if ?first \<and> n \<notin> set (keys (em_started e)) then ?e0\<lparr>em_started := put n t1 (em_started e)\<rparr> else ?e0"
  let ?t = "(''agent_transfer'', [(''node_id'', JStr n), (''from_node_id'', JStr d), (''target_agent'', JStr a)], Some a)"
  let ?fs1 = "if ?first then [?t] else []"
  have t: "label ?t = (''agent_transfer'', JStr n)" by (simp add: label_def jget_def get_default_def)
  have old: "(''agent_transfer'', JStr n) \<in> set (map label fs)" if "\<not> ?first"
    using assms(2,3) dn that unfolding sound_frames_def by (metis option.distinct(1))
  have one: "sound_frames node_of delegate ms ?e1 (fs @ ?fs1)"
  proof (cases ?first)
    case True
    have "sound_frames node_of delegate ms ?e1 (fs @ [?t])"
      by (rule other_frame_sound [OF assms(2)]) (use assms(2) t dn in \<open>auto simp: sound_frames_def\<close>)
    then show ?thesis using True by simp
  next
    case False
    then show ?thesis using assms(2) by (simp add: append_new_def)
  qed
  have "(''agent_transfer'', JStr n) \<in> set (map label (fs @ ?fs1))" using old t by auto
  then obtain g where g: "g \<in> set (fs @ ?fs1)" "label g = (''agent_transfer'', JStr n)" by (rule in_mapE)
  have an: "\<exists>g \<in> set (fs @ ?fs1). announces g f" if "snd (label f) = JStr n" for f
    using g that by (intro bexI [of _ g]) (auto simp: announces_def label_def)
  show ?thesis
  proof (cases "sr_output st = None \<or> sr_is_tool st")
    case True
    then have "e' = ?e1 \<and> gs = ?fs1" using assms(1) dn by (auto simp: agent_step_def Let_def split: option.splits)
    then show ?thesis using one by simp
  next
    case False
    then obtain outs f where r: "e' = ?e1\<lparr>em_outputs := outs\<rparr>" "gs = ?fs1 @ [f]" "fst f = ''node_output''" "snd (label f) = JStr n"
      using assms(1) dn by (auto simp: agent_step_def Let_def label_def jget_def get_default_def split_beta)
    have "sound_frames node_of delegate ms e' ((fs @ ?fs1) @ [f])"
      by (rule output_frame_sound [OF one an [OF r(4)] r(3)]) (simp_all add: r(1))
    then show ?thesis using r(2) by simp
  qed
qed

lemma tool_sound:
  assumes "tool_started i name kwargs e = (e', gs) \<or> tool_finished i name result error dur e = (e', gs)"
    "sound_frames node_of delegate ms e fs"
  shows "sound_frames node_of delegate ms e' (fs @ gs)"
proof -
  obtain f where f: "gs = [f]" "fst f \<in> {''tool_call_start'', ''tool_call_result''}" "em_metas e' = em_metas e"
    "em_inputs e' = em_inputs e" "em_agents_ran e' = em_agents_ran e"
    using assms(1) by (auto simp: tool_started_def tool_finished_def Let_def)
  have "sound_frames node_of delegate ms e' (fs @ [f])"
    by (rule other_frame_sound [OF assms(2)]) (use f assms(2) in \<open>auto simp: sound_frames_def\<close>)
  then show ?thesis using f(1) by simp
qed

lemma observed_sound:
  assumes "observed message ms sequential node_of delegate e fs" "\<forall>a. delegate a \<noteq> None \<longrightarrow> a \<notin> me_agent ` set ms"
  shows "sound_frames node_of delegate ms e fs"
  using assms(1)
proof induction
  case (kicked now e fs)
  let ?e = "register_tasks ms sequential (new_emitter message)"
  have z: "sound_frames node_of delegate ms ?e []"
    by (simp add: sound_frames_def register_tasks_def new_emitter_def)
  show ?case
  proof (cases "ms = [] \<or> \<not> sequential")
    case True
    then show ?thesis using kicked z by (auto simp: on_kickoff_start_def register_tasks_def split: list.splits)
  next
    case False
    then have "start_node now (hd ms) ?e = (e, fs)"
      using kicked by (cases ms) (auto simp: on_kickoff_start_def register_tasks_def)
    from start_node_sound [OF this z] show ?thesis by (simp add: register_tasks_def new_emitter_def)
  qed
next
  case (task_done e fs t1 t2 t3 r e' fs')
  show ?case by (rule task_callback_sound [OF task_done.hyps(2) task_done.IH])
next
  case (stepped e fs t1 t2 a st e' fs')
  show ?case by (rule agent_step_sound [OF stepped.hyps(2) stepped.IH]) (use assms(2) in blast)
next
  case (called e fs i name kwargs e' fs')
  show ?case by (rule tool_sound [OF disjI1 [OF called.hyps(2)] called.IH])
next
  case (returned e fs i name result error dur e' fs')
  show ?case by (rule tool_sound [OF disjI2 [OF returned.hyps(2)] returned.IH])
qed

text \<open>Whatever the order in which CrewAI calls back, and for any outputs, a node is announced as started at most
  once, no agent is reported twice, and the output of a node comes after a frame that announced the node: its start, or
  the transfer to the specialist behind it when a manager leads.\<close>

theorem outputs_are_announced:
  assumes "observed message ms sequential node_of delegate e fs"
    "\<forall>a. delegate a \<noteq> None \<longrightarrow> a \<notin> me_agent ` set ms"
  shows "(\<forall>n. count_list (map label fs) (''node_started'', JStr n) \<le> 1) \<and> distinct (em_agents_ran e)
    \<and> (\<forall>ys f zs. fs = ys @ f # zs \<longrightarrow> fst f = ''node_output'' \<longrightarrow> (\<exists>g \<in> set ys. announces g f))"
  using observed_sound [OF assms] by (auto simp: sound_frames_def announced_def)


definition lead_meta :: task_meta where
  "lead_meta = \<lparr>me_node = ''m'', me_agent = ''lead'', me_index = 0, me_description = ''route'', me_expected = JStr ''r'', me_upstream = []\<rparr>"

theorem outputs_are_announced_witness:
  "\<exists>e fs. observed ''hi'' [lead_meta] False (\<lambda>a. Some ''n'') (\<lambda>a. if a = ''w'' then Some ''m'' else None) e fs
     \<and> map fst fs = [''agent_transfer'', ''node_output''] \<and> announces (fs ! 0) (fs ! 1)"
proof -
  let ?node = "\<lambda>a. Some ''n''" and ?del = "\<lambda>a. if a = ''w'' then Some ''m'' else None"
  let ?st = "\<lparr>sr_output = Some ''done'', sr_is_tool = False\<rparr>"
  let ?e = "register_tasks [lead_meta] False (new_emitter ''hi'')"
  have o: "observed ''hi'' [lead_meta] False ?node ?del ?e []"
    by (rule observed.kicked [where now = 0]) (simp add: on_kickoff_start_def register_tasks_def)
  obtain e fs where s: "agent_step 1 2 ''w'' (?node ''w'') (?del ''w'') ?st ?e = (e, fs)" by fastforce
  have o': "observed ''hi'' [lead_meta] False ?node ?del e fs" using observed.stepped [OF o s] by simp
  have f: "map fst fs = [''agent_transfer'', ''node_output'']"
    using s by (auto simp: agent_step_def register_tasks_def new_emitter_def truncate_text_def max_text_chars_def Let_def)
  then obtain f g where fg: "fs = [f, g]" "fst g = ''node_output''" by auto
  have "\<forall>a. ?del a \<noteq> None \<longrightarrow> a \<notin> me_agent ` set [lead_meta]" by (simp add: lead_meta_def)
  from outputs_are_announced [OF o' this] have "fs = [f] @ g # [] \<longrightarrow> fst g = ''node_output'' \<longrightarrow> (\<exists>h \<in> set [f]. announces h g)"
    by (elim conjE allE) assumption
  then have "announces f g" using fg by simp
  then have "announces (fs ! 0) (fs ! 1)" using fg(1) by simp
  then show ?thesis using o' f by (intro exI conjI)
qed


subsection \<open>Tool records\<close>

text \<open>The record of a tool is that of its last call when calls do not overlap; the error of an earlier call that
  overlapped with it stays in the record beside the later result.\<close>

lemma last_call_recorded:
  "get (em_tool_io (fst (tool_finished i name result error ms (fst (tool_started i name kwargs e))))) name
    = Some ([(''name'', JStr name), (''tool_id'', JStr i), (''args'', JObj (truncate_args kwargs))] @ result_fields result error ms)"
  by (auto simp: tool_started_def tool_finished_def Let_def get_default_def result_fields_def merge_def split: option.splits)

theorem overlapping_call_keeps_error:
  assumes "x \<noteq> []"
  shows "let e2 = fst (tool_started i name k2 (fst (tool_started i name k1 e)));
             e4 = fst (tool_finished i name (Some s) None d2 (fst (tool_finished i name None (Some x) d1 e2)));
             rec = get_default (em_tool_io e4) name []
    in jget rec ''result'' = JStr (fst (truncate_text s)) \<and> jget rec ''error'' = JStr x"
  using assms by (auto simp: tool_started_def tool_finished_def Let_def jget_def get_default_def result_fields_def merge_def split: option.splits)

end
