(* ===== verification/Chunking.thy ===== *)
theory Chunking
  imports Prelude
begin

text \<open>
  Cutting documents into retrievable pieces, \<open>src/src/rag/chunking.py\<close>.  A regular expression is a
  matcher that is given the character before the position and the rest of the text and says how many characters
  it takes there, at least one; \<open>occurrences\<close> is \<open>re.finditer\<close> on such a matcher.  The cursor loop is
  a recursion whose measure is what is left of the text.
\<close>

subsection \<open>Normalisation\<close>

definition carriage_return :: char where
  "carriage_return = CHR 0x0D"

definition is_blank :: "char \<Rightarrow> bool" where
  "is_blank c \<longleftrightarrow> c = CHR '' '' \<or> c = CHR 0x09"

text \<open>\<open>text.replace("\r\n", "\n").replace("\r", "\n")\<close>.\<close>

fun unify_newlines :: "string \<Rightarrow> string" where
  "unify_newlines [] = []"
| "unify_newlines [c] = [if c = carriage_return then newline else c]"
| "unify_newlines (c # d # s) =
     (if c = carriage_return then newline # (if d = newline then unify_newlines s else unify_newlines (d # s))
      else c # unify_newlines (d # s))"

text \<open>\<open>re.sub(r"[ \t]+", " ", text)\<close> and \<open>re.sub(r"\n{3,}", "\n\n", text)\<close>.\<close>

function squeeze_blanks :: "string \<Rightarrow> string" where
  "squeeze_blanks [] = []"
| "squeeze_blanks (c # s) = (if is_blank c then CHR '' '' # squeeze_blanks (dropWhile is_blank s) else c # squeeze_blanks s)"
  by pat_completeness auto
termination by (relation "measure length") (auto simp: less_Suc_eq_le length_dropWhile_le)

function squeeze_newlines :: "string \<Rightarrow> string" where
  "squeeze_newlines [] = []"
| "squeeze_newlines (c # s) = (if c = newline
     then replicate (min 2 (Suc (length (takeWhile (\<lambda>d. d = newline) s)))) newline
       @ squeeze_newlines (dropWhile (\<lambda>d. d = newline) s)
     else c # squeeze_newlines s)"
  by pat_completeness auto
termination by (relation "measure length") (auto simp: less_Suc_eq_le length_dropWhile_le)

definition normalise :: "string \<Rightarrow> string" where
  "normalise s = strip (squeeze_newlines (squeeze_blanks (unify_newlines s)))"

subsection \<open>Boundaries\<close>

type_synonym matcher = "char option \<Rightarrow> string \<Rightarrow> nat option"

text \<open>A blank line: \<open>\n\s*\n\<close> takes up to the last newline of the white space after the first.\<close>

definition last_newline :: "string \<Rightarrow> nat" where
  "last_newline ws = length (dropWhile (\<lambda>c. c \<noteq> newline) (rev ws))"

definition blank_line :: matcher where
  "blank_line before s = (case s of [] \<Rightarrow> None
    | c # t \<Rightarrow> let ws = takeWhile is_space t in
        if c = newline \<and> newline \<in> set ws then Some (Suc (last_newline ws)) else None)"

definition sentence_end :: "char \<Rightarrow> bool" where
  "sentence_end c \<longleftrightarrow> c \<in> set ''.!?''"

definition sentence_start :: "char \<Rightarrow> bool" where
  "sentence_start c \<longleftrightarrow> (let n = code c in 65 \<le> n \<and> n \<le> 90 \<or> is_digit c \<or> n \<in> {34, 39, 40, 91})"

text \<open>The white space between two sentences.\<close>

definition sentence_gap :: matcher where
  "sentence_gap before s = (let ws = takeWhile is_space s in
     case before of None \<Rightarrow> None
     | Some p \<Rightarrow> if sentence_end p \<and> ws \<noteq> [] \<and> (case drop (length ws) s of [] \<Rightarrow> False | d # _ \<Rightarrow> sentence_start d)
         then Some (length ws) else None)"

definition line_break :: matcher where
  "line_break before s = (case s of [] \<Rightarrow> None | c # _ \<Rightarrow> if c = newline then Some 1 else None)"

definition white_space :: matcher where
  "white_space before s = (let ws = takeWhile is_space s in if ws = [] then None else Some (length ws))"

definition boundaries :: "matcher list" where
  "boundaries = [blank_line, sentence_gap, line_break, white_space]"

text \<open>\<open>[m.end() for m in re.finditer(...)]\<close>, from position \<open>i\<close> on.\<close>

function occurrences :: "matcher \<Rightarrow> nat \<Rightarrow> char option \<Rightarrow> string \<Rightarrow> nat list" where
  "occurrences m i before [] = []"
| "occurrences m i before (c # s) = (case m before (c # s) of
      None \<Rightarrow> occurrences m (Suc i) (Some c) s
    | Some k \<Rightarrow> (i + k) # occurrences m (i + k) (Some ((c # s) ! (k - 1))) (drop (k - 1) s))"
  by pat_completeness auto
termination by (relation "measure (\<lambda>(m, i, b, s). length s)") auto

definition match_ends :: "matcher \<Rightarrow> string \<Rightarrow> nat list" where
  "match_ends m s = occurrences m 0 None s"

fun best_cut :: "matcher list \<Rightarrow> string \<Rightarrow> nat \<Rightarrow> nat option" where
  "best_cut [] window lowest = None"
| "best_cut (m # ms) window lowest =
     (let ends = match_ends m window in
      if ends \<noteq> [] \<and> last ends \<ge> lowest then Some (last ends) else best_cut ms window lowest)"

definition split_point :: "string \<Rightarrow> nat \<Rightarrow> nat \<Rightarrow> nat" where
  "split_point s target lowest = (case best_cut boundaries (take target s) lowest of None \<Rightarrow> target | Some k \<Rightarrow> k)"

text \<open>\<open>re.search\<close> finds the first of these matches.\<close>

fun first_boundary :: "matcher list \<Rightarrow> string \<Rightarrow> nat option" where
  "first_boundary [] window = None"
| "first_boundary (m # ms) window = (case match_ends m window of [] \<Rightarrow> first_boundary ms window | k # _ \<Rightarrow> Some k)"

definition look_ahead :: nat where
  "look_ahead = 90"

definition resume_point :: "string \<Rightarrow> nat \<Rightarrow> nat" where
  "resume_point s ideal = (if ideal = 0 then 0
     else case first_boundary [sentence_gap, line_break, white_space] (take look_ahead (drop ideal s)) of
       None \<Rightarrow> ideal | Some k \<Rightarrow> ideal + k)"

subsection \<open>Chunks\<close>

record chunk =
  cu_text :: string
  cu_index :: nat
  cu_start :: nat
  cu_end :: nat
  cu_meta :: "(string, json) odict"

datatype chunk_error = Chunk_too_small | Bad_overlap

definition default_chunk_chars :: int where "default_chunk_chars = 1400"
definition default_overlap_chars :: int where "default_overlap_chars = 220"
definition min_chunk_chars :: int where "min_chunk_chars = 80"

definition piece_length :: "string \<Rightarrow> nat \<Rightarrow> nat \<Rightarrow> nat" where
  "piece_length body chars cursor = (let remaining = drop cursor body in
     if length remaining \<le> chars then length remaining else split_point remaining chars (chars div 2))"

definition next_cursor :: "string \<Rightarrow> nat \<Rightarrow> nat \<Rightarrow> nat \<Rightarrow> nat" where
  "next_cursor body overlap cursor taken =
     max (cursor + 1) (min (resume_point body (cursor + max 1 (taken - overlap))) (cursor + taken))"

definition add_piece :: "string \<Rightarrow> (string, json) odict \<Rightarrow> nat \<Rightarrow> nat \<Rightarrow> chunk list \<Rightarrow> chunk list" where
  "add_piece body meta cursor taken cs = (let stripped = strip (take taken (drop cursor body)) in
     if stripped = [] then cs
     else cs @ [\<lparr>cu_text = stripped, cu_index = length cs, cu_start = cursor, cu_end = cursor + taken, cu_meta = meta\<rparr>])"

function chunk_loop :: "string \<Rightarrow> nat \<Rightarrow> nat \<Rightarrow> (string, json) odict \<Rightarrow> nat \<Rightarrow> chunk list \<Rightarrow> chunk list" where
  "chunk_loop body chars overlap meta cursor cs =
     (if cursor \<ge> length body then cs
      else let taken = piece_length body chars cursor; cs' = add_piece body meta cursor taken cs in
        if cursor + taken \<ge> length body then cs'
        else chunk_loop body chars overlap meta (next_cursor body overlap cursor taken) cs')"
  by pat_completeness auto
termination by (relation "measure (\<lambda>(body, _, _, _, cursor, _). length body - cursor)") (auto simp: next_cursor_def max_def)

declare chunk_loop.simps [simp del]

definition chunk_text :: "int \<Rightarrow> int \<Rightarrow> (string, json) odict option \<Rightarrow> string \<Rightarrow> chunk_error + chunk list" where
  "chunk_text chars overlap meta s =
     (if chars < min_chunk_chars then Inl Chunk_too_small
      else if \<not> (0 \<le> overlap \<and> overlap < chars) then Inl Bad_overlap
      else Inr (chunk_loop (normalise s) (nat chars) (nat overlap) (opt_or meta []) 0 []))"

fun chunk_documents :: "int \<Rightarrow> int \<Rightarrow> (string \<times> (string, json) odict) list \<Rightarrow> chunk list \<Rightarrow> chunk_error + chunk list" where
  "chunk_documents chars overlap [] out = Inr out"
| "chunk_documents chars overlap ((s, meta) # docs) out = (case chunk_text chars overlap (Some meta) s of
      Inl e \<Rightarrow> Inl e
    | Inr cs \<Rightarrow> chunk_documents chars overlap docs (fold (\<lambda>c out. out @ [c\<lparr>cu_index := length out\<rparr>]) cs out))"


subsection \<open>Matchers\<close>

definition valid_matcher :: "matcher \<Rightarrow> bool" where
  "valid_matcher m \<longleftrightarrow> (\<forall>b s k. m b s = Some k \<longrightarrow> 0 < k \<and> k \<le> length s)"

lemma length_takeWhile_drop: "length (takeWhile p s) + length (dropWhile p s) = length s"
  by (metis length_append takeWhile_dropWhile_id)

lemma last_newline_le: "last_newline ws \<le> length ws"
  unfolding last_newline_def using length_dropWhile_le [of "\<lambda>c. c \<noteq> newline" "rev ws"] by simp

lemma valid_boundaries: "\<forall>m \<in> set boundaries. valid_matcher m"
proof -
  have "k \<le> length s" if "blank_line b s = Some k" for b s k
    using that last_newline_le [of "takeWhile is_space (tl s)"] length_takeWhile_le [of is_space "tl s"]
    by (auto simp: blank_line_def Let_def split: list.splits if_splits)
  then have "valid_matcher blank_line"
    by (auto simp: valid_matcher_def blank_line_def Let_def split: list.splits if_splits)
  moreover have "valid_matcher sentence_gap" "valid_matcher white_space"
    using length_takeWhile_le by (auto simp: valid_matcher_def sentence_gap_def white_space_def Let_def split: option.splits if_splits)
  moreover have "valid_matcher line_break"
    by (auto simp: valid_matcher_def line_break_def split: list.splits if_splits)
  ultimately show ?thesis by (simp add: boundaries_def)
qed

lemma occurrences_bounds:
  assumes "valid_matcher m" "k \<in> set (occurrences m i before s)"
  shows "i < k \<and> k \<le> i + length s"
  using assms
proof (induction m i before s rule: occurrences.induct)
  case (2 m i before c s)
  show ?case
  proof (cases "m before (c # s)")
    case None
    then show ?thesis using 2 by fastforce
  next
    case (Some n)
    then have "0 < n \<and> n \<le> length (c # s)" using 2(3) unfolding valid_matcher_def by blast
    then show ?thesis using 2 Some by (cases "k = i + n") auto
  qed
qed simp

lemma match_ends_bounds: "valid_matcher m \<Longrightarrow> k \<in> set (match_ends m s) \<Longrightarrow> 0 < k \<and> k \<le> length s"
  unfolding match_ends_def using occurrences_bounds by fastforce

lemma best_cut_bounds:
  "\<forall>m \<in> set ms. valid_matcher m \<Longrightarrow> best_cut ms w lowest = Some k \<Longrightarrow> lowest \<le> k \<and> 0 < k \<and> k \<le> length w"
proof (induction ms)
  case (Cons m ms)
  then show ?case
    using match_ends_bounds [of m "last (match_ends m w)" w] last_in_set [of "match_ends m w"]
    by (auto simp: Let_def split: if_splits)
qed simp

lemma split_point_bounds:
  assumes "0 < target" "lowest \<le> target"
  shows "lowest \<le> split_point s target lowest" "0 < split_point s target lowest" "split_point s target lowest \<le> target"
  using assms best_cut_bounds [OF valid_boundaries, of "take target s" lowest]
  by (auto simp: split_point_def split: option.splits)

lemma piece_length_bounds:
  assumes "0 < chars" "cursor < length body"
  shows "0 < piece_length body chars cursor" "piece_length body chars cursor \<le> chars"
    "cursor + piece_length body chars cursor \<le> length body"
  using assms split_point_bounds [of chars "chars div 2" "drop cursor body"]
  by (auto simp: piece_length_def Let_def)

lemma resume_point_ge: "ideal \<le> resume_point s ideal"
  by (auto simp: resume_point_def split: option.splits)

lemma next_cursor_bounds:
  assumes "0 < taken"
  shows "cursor < next_cursor body overlap cursor taken" "cursor + taken \<le> next_cursor body overlap cursor taken + overlap"
    "next_cursor body overlap cursor taken \<le> cursor + taken"
  using assms resume_point_ge [of "cursor + max 1 (taken - overlap)" body] by (auto simp: next_cursor_def max_def min_def)

subsection \<open>Normalisation keeps the visible characters\<close>

definition visible :: "string \<Rightarrow> string" where
  "visible s = filter (\<lambda>c. \<not> is_space c) s"

lemma visible_simps [simp]: "visible [] = []" "visible (c # s) = (if is_space c then visible s else c # visible s)"
  "visible (s @ t) = visible s @ visible t" "visible (rev s) = rev (visible s)"
  by (simp_all add: visible_def rev_filter)

lemma space_chars [simp]: "is_space newline" "is_space carriage_return" "is_space CHR '' ''" "is_blank c \<Longrightarrow> is_space c"
  by (auto simp: is_space_def code_def newline_def carriage_return_def is_blank_def)

lemma visible_dropWhile: "(\<And>c. p c \<Longrightarrow> is_space c) \<Longrightarrow> visible (dropWhile p s) = visible s"
  by (induction s) auto

lemma visible_replicate [simp]: "is_space c \<Longrightarrow> visible (replicate n c) = []"
  by (induction n) auto

lemma visible_strip [simp]: "visible (strip s) = visible s"
  by (simp add: strip_def visible_dropWhile)

lemma visible_unify [simp]: "visible (unify_newlines s) = visible s"
  by (induction s rule: unify_newlines.induct) auto

lemma visible_squeeze_blanks [simp]: "visible (squeeze_blanks s) = visible s"
  by (induction s rule: squeeze_blanks.induct) (auto simp: visible_dropWhile)

lemma visible_drop_newlines [simp]: "visible (dropWhile (\<lambda>d. d = newline) s) = visible s"
  by (rule visible_dropWhile) simp

lemma visible_squeeze_newlines [simp]: "visible (squeeze_newlines s) = visible s"
  by (induction s rule: squeeze_newlines.induct) (auto simp: visible_dropWhile)

lemma visible_normalise [simp]: "visible (normalise s) = visible s"
  by (simp add: normalise_def)


subsection \<open>What the loop has cut\<close>

definition chunk_of :: "string \<Rightarrow> nat \<Rightarrow> chunk \<Rightarrow> bool" where
  "chunk_of body chars c \<longleftrightarrow> cu_start c < cu_end c \<and> cu_end c \<le> length body \<and> cu_end c \<le> cu_start c + chars
     \<and> cu_end c = cu_start c + piece_length body chars (cu_start c)
     \<and> cu_text c = strip (take (cu_end c - cu_start c) (drop (cu_start c) body)) \<and> cu_text c \<noteq> []"

definition covers :: "string \<Rightarrow> nat \<Rightarrow> chunk list \<Rightarrow> bool" where
  "covers body n cs \<longleftrightarrow> (\<forall>k < n. \<not> is_space (body ! k) \<longrightarrow> (\<exists>c \<in> set cs. cu_start c \<le> k \<and> k < cu_end c))"

lemma covers_mono: "m \<le> n \<Longrightarrow> covers body n cs \<Longrightarrow> covers body m cs"
  by (auto simp: covers_def)

definition in_order :: "nat \<Rightarrow> chunk list \<Rightarrow> bool" where
  "in_order overlap cs \<longleftrightarrow> (\<forall>j < length cs. cu_index (cs ! j) = j
     \<and> (\<forall>i < j. cu_start (cs ! i) < cu_start (cs ! j) \<and> cu_end (cs ! i) \<le> cu_start (cs ! j) + overlap))"

definition cut_so_far :: "string \<Rightarrow> nat \<Rightarrow> nat \<Rightarrow> nat \<Rightarrow> nat \<Rightarrow> (string, json) odict \<Rightarrow> chunk list \<Rightarrow> bool" where
  "cut_so_far body chars overlap cursor bound meta cs \<longleftrightarrow> covers body bound cs \<and> in_order overlap cs
     \<and> (\<forall>c \<in> set cs. chunk_of body chars c \<and> cu_meta c = meta \<and> cu_start c < cursor \<and> cu_end c \<le> cursor + overlap)"

lemma strip_Nil_iff: "strip s = [] \<longleftrightarrow> (\<forall>c \<in> set s. is_space c)"
proof -
  have "dropWhile is_space (rev (dropWhile is_space s)) = [] \<longleftrightarrow> (\<forall>c \<in> set (dropWhile is_space s). is_space c)"
    by (simp add: dropWhile_eq_Nil_conv)
  also have "\<dots> \<longleftrightarrow> (\<forall>c \<in> set s. is_space c)"
    by (metis dropWhile_eq_Nil_conv hd_dropWhile list.set_sel(1) set_dropWhileD)
  finally show ?thesis by (simp add: strip_def)
qed

lemma in_order_snoc:
  assumes "in_order overlap cs" "cu_index c = length cs"
    "\<forall>d \<in> set cs. cu_start d < cu_start c \<and> cu_end d \<le> cu_start c + overlap"
  shows "in_order overlap (cs @ [c])"
  using assms by (auto simp: in_order_def nth_append less_Suc_eq)

lemma add_piece_cuts:
  assumes "cut_so_far body chars overlap cursor cursor meta cs" "cursor < length body"
    "taken = piece_length body chars cursor" "0 < chars" "cursor < nxt" "cursor + taken \<le> nxt + overlap"
  shows "cut_so_far body chars overlap nxt (cursor + taken) meta (add_piece body meta cursor taken cs)"
proof -
  note b = piece_length_bounds [OF assms(4,2)]
  let ?p = "take taken (drop cursor body)"
  have nth: "body ! k \<in> set ?p" if "cursor \<le> k" "k < cursor + taken" for k
    using that b(3) assms(3) by (auto simp: in_set_conv_nth intro!: exI [of _ "k - cursor"])
  show ?thesis
  proof (cases "strip ?p = []")
    case True
    then have "covers body (cursor + taken) cs"
      using assms(1) nth unfolding cut_so_far_def covers_def strip_Nil_iff by (metis linorder_not_less)
    then show ?thesis using assms(1,5) True by (fastforce simp: cut_so_far_def add_piece_def)
  next
    case False
    let ?c = "\<lparr>cu_text = strip ?p, cu_index = length cs, cu_start = cursor, cu_end = cursor + taken, cu_meta = meta\<rparr>"
    have a: "add_piece body meta cursor taken cs = cs @ [?c]" using False by (simp add: add_piece_def)
    have "covers body (cursor + taken) (cs @ [?c])"
      using assms(1) unfolding cut_so_far_def covers_def by (auto simp: not_less)
    moreover have "in_order overlap (cs @ [?c])"
      by (rule in_order_snoc) (use assms(1) in \<open>auto simp: cut_so_far_def\<close>)
    moreover have "chunk_of body chars ?c" using b assms(3) False by (simp add: chunk_of_def)
    ultimately show ?thesis using assms(1,5,6) b assms(3) unfolding a cut_so_far_def by fastforce
  qed
qed

lemma chunk_loop_cuts:
  assumes "cut_so_far body chars overlap cursor cursor meta cs" "0 < chars"
  shows "\<exists>last. cut_so_far body chars overlap last (length body) meta (chunk_loop body chars overlap meta cursor cs)"
  using assms
proof (induction body chars overlap meta cursor cs rule: chunk_loop.induct)
  case (1 body chars overlap meta cursor cs)
  let ?t = "piece_length body chars cursor"
  let ?n = "next_cursor body overlap cursor ?t"
  show ?case
  proof (cases "cursor < length body")
    case False
    then show ?thesis using 1(2) by (subst chunk_loop.simps) (auto simp: cut_so_far_def covers_def)
  next
    case True
    note b = piece_length_bounds [OF 1(3) True] and n = next_cursor_bounds [of ?t]
    have c: "cut_so_far body chars overlap ?n (cursor + ?t) meta (add_piece body meta cursor ?t cs)"
      by (rule add_piece_cuts [OF 1(2) True refl 1(3)]) (use n b(1) in simp_all)
    show ?thesis
    proof (cases "cursor + ?t \<ge> length body")
      case True
      then show ?thesis using c b(3) \<open>cursor < length body\<close> by (subst chunk_loop.simps) (auto simp: Let_def)
    next
      case False
      have "cut_so_far body chars overlap ?n ?n meta (add_piece body meta cursor ?t cs)"
        using c covers_mono [OF n(3) [OF b(1)]] unfolding cut_so_far_def by blast
      then have "\<exists>last. cut_so_far body chars overlap last (length body) meta
          (chunk_loop body chars overlap meta ?n (add_piece body meta cursor ?t cs))"
        using 1(1) [OF _ refl refl] True False 1(3) by simp
      then show ?thesis using True False by (subst chunk_loop.simps) (simp add: Let_def)
    qed
  qed
qed

lemma chunk_text_cuts:
  assumes "chunk_text chars overlap meta s = Inr cs"
  shows "80 \<le> chars" "0 \<le> overlap"
    "\<exists>last. cut_so_far (normalise s) (nat chars) (nat overlap) last (length (normalise s)) (opt_or meta []) cs"
proof -
  let ?b = "normalise s"
  from assms show p: "80 \<le> chars" "0 \<le> overlap" by (auto simp: chunk_text_def min_chunk_chars_def split: if_splits)
  have cs: "cs = chunk_loop ?b (nat chars) (nat overlap) (opt_or meta []) 0 []"
    using assms by (auto simp: chunk_text_def split: if_splits)
  have "cut_so_far ?b (nat chars) (nat overlap) 0 0 (opt_or meta []) []" by (simp add: cut_so_far_def covers_def in_order_def)
  from chunk_loop_cuts [OF this] show "\<exists>last. cut_so_far ?b (nat chars) (nat overlap) last (length ?b) (opt_or meta []) cs"
    using p cs by auto
qed

text \<open>C18: When chunking does not refuse its parameters, the chunks hold every visible character of the document: each
  chunk is a stretch of the normalised text, stripped and not empty, of at most the wanted length; every character
  that is not white space lies in one of them; they are numbered from zero, start later and later, and overlap
  earlier ones by at most the wanted overlap.\<close>

theorem chunks_cover_text:
  assumes "chunk_text chars overlap meta s = Inr cs"
  shows "visible (normalise s) = visible s
    \<and> (\<forall>k < length (normalise s). \<not> is_space (normalise s ! k) \<longrightarrow> (\<exists>c \<in> set cs. cu_start c \<le> k \<and> k < cu_end c))
    \<and> (\<forall>c \<in> set cs. chunk_of (normalise s) (nat chars) c \<and> int (length (cu_text c)) \<le> chars \<and> cu_meta c = opt_or meta [])
    \<and> map cu_index cs = [0..<length cs]
    \<and> (\<forall>i j. i < j \<longrightarrow> j < length cs \<longrightarrow> cu_start (cs ! i) < cu_start (cs ! j) \<and> int (cu_end (cs ! i)) \<le> int (cu_start (cs ! j)) + overlap)"
proof -
  let ?b = "normalise s"
  note p = chunk_text_cuts(1,2) [OF assms]
  from chunk_text_cuts(3) [OF assms] obtain last where
    c: "cut_so_far ?b (nat chars) (nat overlap) last (length ?b) (opt_or meta []) cs" by blast
  have "int (length (cu_text c)) \<le> chars" if "chunk_of ?b (nat chars) c" for c
  proof -
    have "length (cu_text c) \<le> nat chars"
      using that length_strip [of "take (cu_end c - cu_start c) (drop (cu_start c) ?b)"] by (simp add: chunk_of_def)
    then show ?thesis using p(1) by simp
  qed
  moreover have "map cu_index cs = [0..<length cs]"
    using c by (auto simp: cut_so_far_def in_order_def intro!: nth_equalityI)
  moreover have "int (cu_end (cs ! i)) \<le> int (cu_start (cs ! j)) + overlap" if "i < j" "j < length cs" for i j
    using c that p(2) unfolding cut_so_far_def in_order_def by fastforce
  ultimately show ?thesis using c by (auto simp: cut_so_far_def covers_def in_order_def)
qed


definition demo_text :: string where
  "demo_text = replicate 60 CHR ''a'' @ '' '' @ replicate 60 CHR ''b''"

theorem chunks_cover_text_witness:
  "\<exists>cs. chunk_text 80 10 None demo_text = Inr cs \<and> (\<forall>c \<in> set cs. length (cu_text c) \<le> 80) \<and> map cu_index cs = [0..<length cs]"
proof -
  obtain cs where c: "chunk_text 80 10 None demo_text = Inr cs" by (simp add: chunk_text_def min_chunk_chars_def)
  from chunks_cover_text [OF c] show ?thesis using c by auto
qed

subsection \<open>Words are not cut\<close>

definition ends_in_space :: "matcher \<Rightarrow> bool" where
  "ends_in_space m \<longleftrightarrow> (\<forall>b s k. m b s = Some k \<longrightarrow> is_space (s ! (k - 1)))"

lemma nth_takeWhile_space: "k < length (takeWhile is_space s) \<Longrightarrow> is_space (s ! k)"
  by (metis nth_mem set_takeWhileD takeWhile_nth)

lemma last_newline_space:
  assumes "newline \<in> set ws"
  shows "0 < last_newline ws" "ws ! (last_newline ws - 1) = newline"
proof -
  let ?d = "dropWhile (\<lambda>c. c \<noteq> newline) (rev ws)"
  have d: "?d \<noteq> []" using assms by (simp add: dropWhile_eq_Nil_conv)
  then show "0 < last_newline ws" by (simp add: last_newline_def)
  have "rev ws = takeWhile (\<lambda>c. c \<noteq> newline) (rev ws) @ ?d" by simp
  then have "ws = rev ?d @ rev (takeWhile (\<lambda>c. c \<noteq> newline) (rev ws))" by (metis rev_append rev_rev_ident)
  then have "ws ! (last_newline ws - 1) = rev ?d ! (length ?d - 1)" using d by (metis diff_less last_newline_def length_greater_0_conv length_rev less_numeral_extra(1) nth_append)
  also have "\<dots> = hd ?d" using d by (simp add: rev_nth hd_conv_nth)
  also have "\<dots> = newline" using hd_dropWhile [OF d] by simp
  finally show "ws ! (last_newline ws - 1) = newline" .
qed

lemma boundaries_end_in_space: "\<forall>m \<in> set boundaries. ends_in_space m"
proof -
  have "is_space (s ! (k - 1))" if bl: "blank_line b s = Some k" for b s k
  proof -
    obtain t where s: "s = newline # t" "newline \<in> set (takeWhile is_space t)" "k = Suc (last_newline (takeWhile is_space t))"
      using bl by (cases s) (auto simp: blank_line_def Let_def split: if_splits)
    note n = last_newline_space [OF s(2)] last_newline_le [of "takeWhile is_space t"]
    then have "t ! (last_newline (takeWhile is_space t) - 1) = newline"
      using takeWhile_nth [of "last_newline (takeWhile is_space t) - 1" is_space t] by simp
    then show ?thesis using n(1) s by (simp add: nth_Cons')
  qed
  moreover have "is_space (s ! (k - 1))" if "sentence_gap b s = Some k \<or> white_space b s = Some k" for b s k
  proof -
    have "k = length (takeWhile is_space s)" "k \<noteq> 0"
      using that by (auto simp: sentence_gap_def white_space_def Let_def split: option.splits if_splits)
    then show ?thesis by (intro nth_takeWhile_space) simp
  qed
  moreover have "is_space (s ! (k - 1))" if "line_break b s = Some k" for b s k
    using that by (auto simp: line_break_def split: list.splits if_splits)
  ultimately show ?thesis by (simp add: boundaries_def ends_in_space_def) blast
qed

lemma occurrences_end_in_space:
  assumes "valid_matcher m" "ends_in_space m" "e \<in> set (occurrences m i before s)"
  shows "is_space (s ! (e - i - 1))"
  using assms
proof (induction m i before s rule: occurrences.induct)
  case (2 m i before c s)
  show ?case
  proof (cases "m before (c # s)")
    case None
    then have "is_space (s ! (e - Suc i - 1))" "Suc i < e"
      using 2 occurrences_bounds [OF 2(3), of e "Suc i" "Some c" s] by auto
    then show ?thesis by (simp add: nth_Cons')
  next
    case (Some n)
    have n: "0 < n" "n \<le> Suc (length s)" using 2(3) Some unfolding valid_matcher_def by (metis length_Cons)+
    show ?thesis
    proof (cases "e = i + n")
      case True
      then show ?thesis using 2(4) Some by (simp add: ends_in_space_def)
    next
      case False
      let ?b = "Some ((c # s) ! (n - 1))"
      have e: "e \<in> set (occurrences m (i + n) ?b (drop (n - 1) s))" using 2(5) Some False by simp
      have "is_space (drop (n - 1) s ! (e - (i + n) - 1))" by (rule 2(2) [OF Some 2(3,4) e])
      moreover have "i + n < e" "e \<le> i + n + length (drop (n - 1) s)" using occurrences_bounds [OF 2(3) e] by auto
      moreover have "n - 1 + (e - (i + n) - 1) = e - i - 1 - 1" using n(1) \<open>i + n < e\<close> by simp
      ultimately show ?thesis using n by (simp add: nth_Cons' nth_drop)
    qed
  qed
qed simp

lemma occurrences_le_last:
  assumes "valid_matcher m" "e \<in> set (occurrences m i before s)"
  shows "e \<le> last (occurrences m i before s)"
  using assms
proof (induction m i before s rule: occurrences.induct)
  case (2 m i before c s)
  show ?case
  proof (cases "m before (c # s)")
    case None
    then show ?thesis using 2 by simp
  next
    case (Some n)
    let ?r = "occurrences m (i + n) (Some ((c # s) ! (n - 1))) (drop (n - 1) s)"
    have "i + n < x" if "x \<in> set ?r" for x using occurrences_bounds [OF 2(3) that] by simp
    then have "?r \<noteq> [] \<Longrightarrow> i + n < last ?r" by simp
    then show ?thesis using 2(2) [OF Some 2(3)] 2(4) Some by (auto simp: less_imp_le)
  qed
qed simp

lemma white_space_found:
  assumes "k < length s" "is_space (s ! k)"
  shows "\<exists>e \<in> set (occurrences white_space i before s). i + k < e"
  using assms
proof (induction "white_space" i before s arbitrary: k rule: occurrences.induct)
  case (2 i before c s)
  show ?case
  proof (cases "is_space c")
    case False
    then obtain j where j: "k = Suc j" using 2(4) by (cases k) auto
    have n: "white_space before (c # s) = None" using False by (simp add: white_space_def)
    have "\<exists>e \<in> set (occurrences white_space (Suc i) (Some c) s). Suc i + j < e"
      by (rule 2(1) [OF n]) (use 2(3,4) j in simp_all)
    then show ?thesis using n j by simp
  next
    case True
    let ?n = "Suc (length (takeWhile is_space s))"
    have w: "white_space before (c # s) = Some ?n" using True by (simp add: white_space_def Let_def)
    show ?thesis
    proof (cases "k < ?n")
      case True
      then show ?thesis using w by simp
    next
      case False
      have k: "drop (?n - 1) s ! (k - ?n) = (c # s) ! k" "k - ?n < length (drop (?n - 1) s)"
        using False 2(3) by (simp_all add: nth_Cons')
      have "\<exists>e \<in> set (occurrences white_space (i + ?n) (Some ((c # s) ! (?n - 1))) (drop (?n - 1) s)). i + ?n + (k - ?n) < e"
        by (rule 2(2) [OF w]) (use k 2(4) in simp_all)
      then show ?thesis using w False by auto
    qed
  qed
qed simp


lemma best_cut_space:
  "\<forall>m \<in> set ms. valid_matcher m \<and> ends_in_space m \<Longrightarrow> best_cut ms w lowest = Some k \<Longrightarrow> is_space (w ! (k - 1))"
proof (induction ms)
  case (Cons m ms)
  then show ?case
    using occurrences_end_in_space [of m "last (match_ends m w)" 0 None w]
    by (auto simp: Let_def match_ends_def split: if_splits)
qed simp

lemma best_cut_None:
  "best_cut ms w lowest = None \<Longrightarrow> m \<in> set ms \<Longrightarrow> match_ends m w \<noteq> [] \<Longrightarrow> last (match_ends m w) < lowest"
  by (induction ms) (auto simp: Let_def split: if_splits)

lemma split_point_space:
  assumes "k < target" "k < length s" "lowest \<le> Suc k" "is_space (s ! k)"
  shows "is_space (s ! (split_point s target lowest - 1))"
proof -
  let ?w = "take target s"
  obtain e where e: "e \<in> set (match_ends white_space ?w)" "k < e"
    using white_space_found [of k ?w 0 None] assms by (auto simp: match_ends_def)
  have "valid_matcher white_space" using valid_boundaries by (simp add: boundaries_def)
  from occurrences_le_last [OF this e(1) [unfolded match_ends_def]] e(2) assms(3)
  have l: "lowest \<le> last (match_ends white_space ?w)" by (simp add: match_ends_def)
  have "best_cut boundaries ?w lowest \<noteq> None"
  proof
    assume n: "best_cut boundaries ?w lowest = None"
    have "white_space \<in> set boundaries" "match_ends white_space ?w \<noteq> []" using e(1) by (auto simp: boundaries_def)
    from best_cut_None [OF n this] l show False by simp
  qed
  then obtain c where c: "best_cut boundaries ?w lowest = Some c" by auto
  have "is_space (?w ! (c - 1))"
    by (rule best_cut_space [OF _ c]) (use valid_boundaries boundaries_end_in_space in blast)
  moreover have "?w ! (c - 1) = s ! (c - 1)" using best_cut_bounds [OF valid_boundaries c] by (intro nth_take) auto
  ultimately show ?thesis using c by (simp only: split_point_def option.case)
qed

text \<open>A chunk that does not reach the end of the text is at least half as long as wanted, and it ends right
  after white space whenever there is any in the second half of its window; with none there the cut is square.\<close>

theorem words_are_not_cut:
  assumes "chunk_text chars overlap meta s = Inr cs" "c \<in> set cs" "cu_end c < length (normalise s)"
  shows "nat chars div 2 \<le> cu_end c - cu_start c
    \<and> (if \<exists>k. cu_start c + nat chars div 2 \<le> Suc k \<and> k < cu_start c + nat chars \<and> is_space (normalise s ! k)
       then is_space (normalise s ! (cu_end c - 1)) else cu_end c = cu_start c + nat chars)"
proof -
  let ?b = "normalise s"
  let ?r = "drop (cu_start c) ?b" and ?n = "nat chars"
  note p = chunk_text_cuts(1) [OF assms(1)]
  from chunk_text_cuts(3) [OF assms(1)] have c: "chunk_of ?b ?n c" using assms(2) by (auto simp: cut_so_far_def)
  then have "piece_length ?b ?n (cu_start c) = split_point ?r ?n (?n div 2)" and l: "\<not> length ?r \<le> ?n"
    using assms(3) by (auto simp: chunk_of_def piece_length_def Let_def split: if_splits)
  then have e: "cu_end c = cu_start c + split_point ?r ?n (?n div 2)" using c by (simp add: chunk_of_def)
  note b = split_point_bounds [of ?n "?n div 2" ?r]
  have s: "cu_start c \<le> length ?b" using c by (simp add: chunk_of_def)
  show ?thesis
  proof (intro conjI)
    show "?n div 2 \<le> cu_end c - cu_start c" using b(1) e p by simp
    show "if \<exists>k. cu_start c + ?n div 2 \<le> Suc k \<and> k < cu_start c + ?n \<and> is_space (?b ! k)
       then is_space (?b ! (cu_end c - 1)) else cu_end c = cu_start c + ?n"
    proof (cases "\<exists>k. cu_start c + ?n div 2 \<le> Suc k \<and> k < cu_start c + ?n \<and> is_space (?b ! k)")
      case True
      then obtain k where k: "cu_start c + ?n div 2 \<le> Suc k" "k < cu_start c + ?n" "is_space (?b ! k)" by blast
      then have "cu_start c \<le> k" using p by auto
      then have "is_space (?r ! (split_point ?r ?n (?n div 2) - 1))"
        using k l s by (intro split_point_space [of "k - cu_start c"]) auto
      then show ?thesis using True e s b(2) p by (simp add: nth_drop)
    next
      case False
      have "best_cut boundaries (take ?n ?r) (?n div 2) = None"
      proof (rule ccontr)
        assume "best_cut boundaries (take ?n ?r) (?n div 2) \<noteq> None"
        then obtain k where k: "best_cut boundaries (take ?n ?r) (?n div 2) = Some k" by auto
        have "is_space (take ?n ?r ! (k - 1))"
          by (rule best_cut_space [OF _ k]) (use valid_boundaries boundaries_end_in_space in blast)
        moreover have "take ?n ?r ! (k - 1) = ?r ! (k - 1)" using best_cut_bounds [OF valid_boundaries k] by (intro nth_take) auto
        ultimately have "is_space (?b ! (cu_start c + (k - 1)))" using s by (simp only: nth_drop)
        moreover have "cu_start c + ?n div 2 \<le> Suc (cu_start c + (k - 1))" "cu_start c + (k - 1) < cu_start c + ?n"
          using best_cut_bounds [OF valid_boundaries k] by auto
        ultimately show False using False by blast
      qed
      then have "cu_end c = cu_start c + ?n" using e by (simp add: split_point_def)
      then show ?thesis unfolding if_not_P [OF False] .
    qed
  qed
qed


lemma unify_visible: "\<forall>c \<in> set s. \<not> is_space c \<Longrightarrow> unify_newlines s = s"
  by (induction s rule: unify_newlines.induct) auto

lemma squeeze_visible:
  "\<forall>c \<in> set s. \<not> is_space c \<Longrightarrow> squeeze_blanks s = s" "\<forall>c \<in> set s. \<not> is_space c \<Longrightarrow> squeeze_newlines s = s"
  by (induction s) auto

lemma strip_visible: "\<forall>c \<in> set s. \<not> is_space c \<Longrightarrow> strip s = s"
proof -
  assume h: "\<forall>c \<in> set s. \<not> is_space c"
  have "dropWhile is_space t = t" if "\<forall>c \<in> set t. \<not> is_space c" for t using that by (cases t) auto
  from this [of s] this [of "rev s"] h show "strip s = s" by (simp add: strip_def)
qed

lemma normalise_visible: "\<forall>c \<in> set s. \<not> is_space c \<Longrightarrow> normalise s = s"
  by (simp add: normalise_def unify_visible squeeze_visible strip_visible)

theorem words_are_not_cut_witness:
  "\<exists>cs c. chunk_text 80 10 None (replicate 100 CHR ''a'') = Inr cs \<and> c \<in> set cs \<and> 40 \<le> cu_end c - cu_start c"
proof -
  let ?s = "replicate 100 CHR ''a''"
  have v: "\<not> is_space CHR ''a''" by (simp add: is_space_def code_def)
  have n: "normalise ?s = ?s" by (rule normalise_visible) (use v in simp)
  obtain cs where c: "chunk_text 80 10 None ?s = Inr cs" by (simp add: chunk_text_def min_chunk_chars_def)
  from chunk_text_cuts [OF c] obtain last where i: "cut_so_far ?s 80 10 last 100 [] cs" by (auto simp: n opt_or_def)
  then have "\<exists>k \<in> set cs. cu_start k \<le> 0" using v by (auto simp: cut_so_far_def covers_def dest!: spec [of _ 0])
  then obtain k where k: "k \<in> set cs" "cu_start k \<le> 0" by blast
  then have "cu_end k < 100" using i by (auto simp: cut_so_far_def chunk_of_def)
  then have e: "cu_end k < length (normalise ?s)" unfolding n by simp
  from words_are_not_cut [OF c k(1) e] show ?thesis using c k(1) by auto
qed

subsection \<open>Several documents\<close>

definition unnumbered :: "chunk \<Rightarrow> chunk" where
  "unnumbered c = c\<lparr>cu_index := 0\<rparr>"

definition document_chunks :: "int \<Rightarrow> int \<Rightarrow> string \<times> (string, json) odict \<Rightarrow> chunk list" where
  "document_chunks chars overlap d = (case chunk_text chars overlap (Some (snd d)) (fst d) of Inl e \<Rightarrow> [] | Inr cs \<Rightarrow> cs)"

definition numbered :: "chunk list \<Rightarrow> bool" where
  "numbered cs \<longleftrightarrow> map cu_index cs = [0..<length cs]"

lemma renumber:
  assumes "numbered out"
  shows "numbered (fold (\<lambda>c out. out @ [c\<lparr>cu_index := length out\<rparr>]) cs out)
    \<and> map unnumbered (fold (\<lambda>c out. out @ [c\<lparr>cu_index := length out\<rparr>]) cs out) = map unnumbered (out @ cs)"
  using assms by (induction cs arbitrary: out) (simp_all add: numbered_def unnumbered_def)

text \<open>Chunks of several documents are the chunks of each, in order, with their metadata, numbered through.\<close>

theorem documents_in_order:
  assumes "80 \<le> chars" "0 \<le> overlap" "overlap < chars" "numbered out"
  shows "\<exists>res. chunk_documents chars overlap docs out = Inr res \<and> numbered res
    \<and> map unnumbered res = map unnumbered (out @ concat (map (document_chunks chars overlap) docs))"
  using assms(4)
proof (induction docs arbitrary: out)
  case (Cons d docs)
  obtain s meta where d: "d = (s, meta)" by (cases d)
  obtain cs where c: "chunk_text chars overlap (Some meta) s = Inr cs"
    using assms(1-3) by (simp add: chunk_text_def min_chunk_chars_def)
  note r = renumber [OF Cons.prems, of cs]
  from Cons.IH [OF r [THEN conjunct1]] r show ?case by (simp add: d c document_chunks_def)
qed simp

end
