(* ===== verification/Provider_Routing.thy ===== *)
theory Provider_Routing
  imports Runtime_Plan "HOL-Library.List_Lexorder"
begin

text \<open>
  How a model and a provider id become a call of CrewAI's \<open>LLM\<close>:
  the secret store (\<open>src/src/config/provider_secrets.py\<close>), the provider registry
  (\<open>src/src/config/provider_registry.py\<close>), the parameters a route honours
  (\<open>src/src/config/provider_capabilities.py\<close>) and the resolution of an agent's model in
  \<open>src/src/crewai_runtime/runtime.py\<close>.  A provider is the JSON object of \<open>api_providers.json\<close>; a field
  of a type on which the code raises gives \<open>Ill_typed\<close>.  The environment, the contents of the two files and
  CrewAI's constructor are arguments; the constructor gives \<open>None\<close> when it raises.
\<close>

subsection \<open>The secret store\<close>

type_synonym secrets_file = "(string, json) odict option"

text \<open>\<open>None\<close> is a missing or unreadable file.\<close>

definition stored_secrets :: "secrets_file \<Rightarrow> (string, json) odict" where
  "stored_secrets f = (case f of None \<Rightarrow> [] | Some payload \<Rightarrow> (case jget payload ''secrets'' of JObj d \<Rightarrow> d | _ \<Rightarrow> []))"

definition load_payload :: "secrets_file \<Rightarrow> (string, json) odict" where
  "load_payload f = (case f of None \<Rightarrow> [(''version'', JStr ''1.0''), (''secrets'', JObj [])]
     | Some payload \<Rightarrow> (case jget payload ''secrets'' of JObj d \<Rightarrow> payload | _ \<Rightarrow> put ''secrets'' (JObj []) payload))"

definition get_secret :: "(json \<Rightarrow> string) \<Rightarrow> secrets_file \<Rightarrow> string \<Rightarrow> string option" where
  "get_secret show f pid = (case get (stored_secrets f) pid of
      Some (JObj e) \<Rightarrow> (let key = jget e ''api_key'' in if truthy key then Some (text_of show key) else None)
    | Some v \<Rightarrow> if truthy v then Some (text_of show v) else None
    | None \<Rightarrow> None)"

definition set_secret :: "string \<Rightarrow> string \<Rightarrow> string \<Rightarrow> secrets_file \<Rightarrow> secrets_file option" where
  "set_secret now pid key f = (if key = [] then None
     else Some (Some (put ''secrets'' (JObj (put pid (JObj [(''api_key'', JStr key), (''updated_at'', JStr now)]) (stored_secrets f)))
       (load_payload f))))"

definition delete_secret :: "string \<Rightarrow> secrets_file \<Rightarrow> bool \<times> secrets_file" where
  "delete_secret pid f = (if pid \<notin> set (keys (stored_secrets f)) then (False, f)
     else (True, Some (put ''secrets'' (JObj (del pid (stored_secrets f))) (load_payload f))))"

definition list_secret_ids :: "secrets_file \<Rightarrow> string list" where
  "list_secret_ids f = sort_strings (keys (stored_secrets f))"

text \<open>\<open>mask_api_key\<close> of \<open>src/src/config/api_provider_models.py\<close>.\<close>

definition mask_api_key :: "string option \<Rightarrow> string option" where
  "mask_api_key key = (case key of None \<Rightarrow> None
     | Some k \<Rightarrow> if k = [] then None
         else if length k \<le> 4 then Some (replicate (length k) CHR ''*'')
         else Some (replicate (length k - 4) CHR ''*'' @ take_last 4 k))"

subsection \<open>Providers\<close>

datatype provider_error = Unknown_provider | Provider_disabled | Not_an_llm | No_model | No_base_url | Ill_typed

record world_config =
  wc_show :: "json \<Rightarrow> string"
  wc_env :: "string \<Rightarrow> string option"
  wc_secrets :: secrets_file
  wc_providers :: "(string, json) odict list"

definition is_str :: "string \<Rightarrow> json \<Rightarrow> bool" where
  "is_str s v = (case v of JStr t \<Rightarrow> t = s | _ \<Rightarrow> False)"

definition enabled_provider :: "(string, json) odict \<Rightarrow> bool" where
  "enabled_provider p = truthy (get_default p ''enabled'' (JBool True))"

definition llm_provider :: "(string, json) odict \<Rightarrow> bool" where
  "llm_provider p = is_str ''llm'' (get_default p ''type'' (JStr ''llm''))"

definition list_llm_providers :: "world_config \<Rightarrow> (string, json) odict list" where
  "list_llm_providers wc = filter (\<lambda>p. enabled_provider p \<and> llm_provider p) (wc_providers wc)"

definition find_provider :: "world_config \<Rightarrow> string \<Rightarrow> provider_error + (string, json) odict" where
  "find_provider wc pid = (case List.find (\<lambda>p. is_str pid (jget p ''id'')) (wc_providers wc) of
      None \<Rightarrow> Inl Unknown_provider
    | Some p \<Rightarrow> if \<not> enabled_provider p then Inl Provider_disabled
        else if \<not> llm_provider p then Inl Not_an_llm else Inr p)"

definition env_of :: "world_config \<Rightarrow> json \<Rightarrow> string option" where
  "env_of wc name = (if truthy name then (case wc_env wc (text_of (wc_show wc) name) of
      Some v \<Rightarrow> if v = [] then None else Some v | None \<Rightarrow> None) else None)"

text \<open>\<open>base.rstrip("/") if base else None\<close>.\<close>

definition url_text :: "json \<Rightarrow> provider_error + string option" where
  "url_text v = (if \<not> truthy v then Inr None else case v of JStr s \<Rightarrow> Inr (Some (rstrip_in ''/'' s)) | _ \<Rightarrow> Inl Ill_typed)"

definition resolve_base_url :: "world_config \<Rightarrow> (string, json) odict \<Rightarrow> provider_error + string option" where
  "resolve_base_url wc p = (case env_of wc (jget p ''base_url_env'') of
      Some v \<Rightarrow> Inr (Some (rstrip_in ''/'' v))
    | None \<Rightarrow> url_text (json_or (jget p ''base_url'') (jget p ''default_base_url'')))"

text \<open>\<open>provider.get("auth") or {}\<close>, whose \<open>.get\<close> needs an object.\<close>

definition auth_object :: "(string, json) odict \<Rightarrow> provider_error + (string, json) odict" where
  "auth_object p = (let v = jget p ''auth'' in
     if \<not> truthy v then Inr [] else case v of JObj d \<Rightarrow> Inr d | _ \<Rightarrow> Inl Ill_typed)"

definition provider_id_text :: "world_config \<Rightarrow> (string, json) odict \<Rightarrow> string" where
  "provider_id_text wc p = text_of (wc_show wc) (json_or (jget p ''id'') (JStr []))"

definition env_key :: "world_config \<Rightarrow> (string, json) odict \<Rightarrow> (string, json) odict \<Rightarrow> string option" where
  "env_key wc p auth = env_of wc (json_or (jget auth ''env_var'') (jget p ''api_key_env''))"

text \<open>The key of a provider: the one in its entry, else the stored one, else the environment's.\<close>

definition provider_key :: "world_config \<Rightarrow> (string, json) odict \<Rightarrow> provider_error + string option" where
  "provider_key wc p = (let inline = jget p ''api_key'' in
     if truthy inline then Inr (Some (text_of (wc_show wc) inline))
     else case get_secret (wc_show wc) (wc_secrets wc) (provider_id_text wc p) of
       Some k \<Rightarrow> if k \<noteq> [] then Inr (Some k) else (case auth_object p of Inl e \<Rightarrow> Inl e | Inr a \<Rightarrow> Inr (env_key wc p a))
     | None \<Rightarrow> (case auth_object p of Inl e \<Rightarrow> Inl e | Inr a \<Rightarrow> Inr (env_key wc p a)))"

text \<open>\<open>resolve_api_key\<close> catches the errors of \<open>_find_provider\<close> only.\<close>

definition resolve_api_key :: "world_config \<Rightarrow> string \<Rightarrow> provider_error + string option" where
  "resolve_api_key wc pid = (case find_provider wc pid of Inl e \<Rightarrow> Inr None | Inr p \<Rightarrow> provider_key wc p)"

datatype key_origin = Inline | Secret_store | Env | No_key

definition key_source :: "world_config \<Rightarrow> string \<Rightarrow> provider_error + key_origin" where
  "key_source wc pid = (case find_provider wc pid of
      Inl e \<Rightarrow> Inr No_key
    | Inr p \<Rightarrow> if truthy (jget p ''api_key'') then Inr Inline
        else if get_secret (wc_show wc) (wc_secrets wc) pid \<noteq> None then Inr Secret_store
        else case auth_object p of Inl e \<Rightarrow> Inl e | Inr a \<Rightarrow> Inr (if env_key wc p a \<noteq> None then Env else No_key))"

definition auth_required :: "(string, json) odict \<Rightarrow> provider_error + bool" where
  "auth_required p = (let v = jget p ''auth'' in
     if \<not> truthy v then Inr False
     else case v of JObj d \<Rightarrow> Inr (truthy (get_default d ''required'' (JBool True))) | _ \<Rightarrow> Inl Ill_typed)"

definition strip_prefix :: "string \<Rightarrow> string \<Rightarrow> string" where
  "strip_prefix model prefix = (if starts_with (prefix @ ''/'') model then drop (length prefix + 1) model else model)"

subsection \<open>Routes\<close>

record resolved_llm =
  rl_provider_id :: string
  rl_model :: string
  rl_provider :: string
  rl_base_url :: "string option"
  rl_api_key :: "string option"
  rl_endpoint :: "string option"
  rl_auth_required :: bool
  rl_native :: bool

definition placeholder_api_key :: string where
  "placeholder_api_key = ''not-needed''"

text \<open>\<open>provider.get("litellm_prefix") or None\<close>; \<open>len\<close> of a value that is no string raises.\<close>

definition route_prefix :: "(string, json) odict \<Rightarrow> provider_error + string option" where
  "route_prefix p = (let v = jget p ''litellm_prefix'' in
     if \<not> truthy v then Inr None else case v of JStr s \<Rightarrow> Inr (Some s) | _ \<Rightarrow> Inl Ill_typed)"

definition pinned_entry :: "(json \<Rightarrow> string) \<Rightarrow> string \<Rightarrow> json list \<Rightarrow> string option" where
  "pinned_entry show model entries = map_option (\<lambda>v. case v of JObj d \<Rightarrow> text_of show (jget d ''litellm_string'') | _ \<Rightarrow> [])
     (List.find (\<lambda>v. case v of JObj d \<Rightarrow> is_str model (jget d ''name'') \<and> truthy (jget d ''litellm_string'') | _ \<Rightarrow> False) entries)"

definition pin_route :: "string option \<Rightarrow> string option \<Rightarrow> string \<Rightarrow> string option \<times> string" where
  "pin_route pinned prefix model = (case pinned of None \<Rightarrow> (prefix, model)
     | Some s \<Rightarrow> (case after_char CHR ''/'' s of
         None \<Rightarrow> (prefix, model)
       | Some m \<Rightarrow> if m = [] then (prefix, model)
           else (let before = before_char CHR ''/'' s; pre = (case prefix of Some x \<Rightarrow> x | None \<Rightarrow> before) in
             (Some pre, if pre = [] then m else strip_prefix s pre))))"

definition model_entries :: "(string, json) odict \<Rightarrow> provider_error + json list" where
  "model_entries p = (case get_default p ''models'' (JList []) of JList xs \<Rightarrow> Inr xs
     | JObj d \<Rightarrow> Inr (map (\<lambda>(k, v). JStr k) d) | JStr s \<Rightarrow> Inr (map (\<lambda>c. JStr [c]) s) | _ \<Rightarrow> Inl Ill_typed)"

definition compatible_route ::
  "world_config \<Rightarrow> string \<Rightarrow> string \<Rightarrow> string option \<Rightarrow> string option \<Rightarrow> bool \<Rightarrow> provider_error + resolved_llm" where
  "compatible_route wc pid model endpoint key auth = (case endpoint of None \<Rightarrow> Inl No_base_url
     | Some u \<Rightarrow> if u = [] then Inl No_base_url
         else Inr \<lparr>rl_provider_id = pid, rl_model = strip_prefix model ''openai'', rl_provider = ''openai'', rl_base_url = Some u,
           rl_api_key = (if \<not> opt_truthy key \<and> \<not> auth then Some placeholder_api_key else key),
           rl_endpoint = endpoint, rl_auth_required = auth, rl_native = False\<rparr>)"

definition native_route ::
  "world_config \<Rightarrow> (string, json) odict \<Rightarrow> string \<Rightarrow> string \<Rightarrow> string \<Rightarrow> string option \<Rightarrow> string option \<Rightarrow> bool
    \<Rightarrow> provider_error + resolved_llm" where
  "native_route wc p pid prefix model endpoint key auth =
     (case (case env_of wc (jget p ''base_url_env'') of Some v \<Rightarrow> Inr (Some (rstrip_in ''/'' v)) | None \<Rightarrow> url_text (jget p ''litellm_base_url'')) of
       Inl e \<Rightarrow> Inl e
     | Inr url \<Rightarrow> Inr \<lparr>rl_provider_id = pid, rl_model = strip_prefix model prefix, rl_provider = prefix, rl_base_url = url,
         rl_api_key = key, rl_endpoint = endpoint, rl_auth_required = auth, rl_native = True\<rparr>)"

definition resolve_llm :: "world_config \<Rightarrow> string \<Rightarrow> string \<Rightarrow> provider_error + resolved_llm" where
  "resolve_llm wc pid model0 = (case find_provider wc pid of
      Inl e \<Rightarrow> Inl e
    | Inr p \<Rightarrow> (let model = strip model0 in if model = [] then Inl No_model
        else case resolve_base_url wc p of Inl e \<Rightarrow> Inl e
        | Inr endpoint \<Rightarrow> (case provider_key wc p of Inl e \<Rightarrow> Inl e
        | Inr key \<Rightarrow> (case auth_required p of Inl e \<Rightarrow> Inl e
        | Inr auth \<Rightarrow> (case route_prefix p of Inl e \<Rightarrow> Inl e
        | Inr prefix \<Rightarrow> (case model_entries p of Inl e \<Rightarrow> Inl e
        | Inr entries \<Rightarrow> (case pin_route (pinned_entry (wc_show wc) model entries) prefix model of (pre, name) \<Rightarrow>
            if opt_truthy pre then native_route wc p pid (the pre) name endpoint key auth
            else compatible_route wc pid name endpoint key auth)))))))"

definition compat_fallback :: "resolved_llm \<Rightarrow> resolved_llm option" where
  "compat_fallback r = (if \<not> rl_native r \<or> \<not> opt_truthy (rl_endpoint r) then None
     else Some (r\<lparr>rl_provider := ''openai'', rl_base_url := rl_endpoint r,
       rl_api_key := (if \<not> opt_truthy (rl_api_key r) \<and> \<not> rl_auth_required r then Some placeholder_api_key else rl_api_key r),
       rl_native := False\<rparr>))"

definition resolve_openai_endpoint :: "world_config \<Rightarrow> string \<Rightarrow> provider_error + (string option \<times> string option \<times> bool)" where
  "resolve_openai_endpoint wc pid = (case find_provider wc pid of Inl e \<Rightarrow> Inl e
     | Inr p \<Rightarrow> (case resolve_base_url wc p of Inl e \<Rightarrow> Inl e
        | Inr u \<Rightarrow> (case provider_key wc p of Inl e \<Rightarrow> Inl e
          | Inr k \<Rightarrow> (case auth_required p of Inl e \<Rightarrow> Inl e | Inr a \<Rightarrow> Inr (u, k, a)))))"


subsection \<open>What a route honours\<close>

definition openai_params :: "string list" where
  "openai_params = [''temperature'', ''top_p'', ''max_tokens'', ''max_completion_tokens'', ''frequency_penalty'',
     ''presence_penalty'', ''seed'', ''stop'', ''timeout'', ''reasoning_effort'', ''response_format'']"

definition full_params :: "string list" where
  "full_params = [''temperature'', ''top_p'', ''max_tokens'', ''max_completion_tokens'', ''frequency_penalty'',
     ''presence_penalty'', ''seed'', ''stop'', ''timeout'', ''reasoning_effort'', ''response_format'']"

record route_caps =
  rc_provider :: string
  rc_params :: "string list"
  rc_token_param :: string

definition plain_caps :: "string \<Rightarrow> string list \<Rightarrow> route_caps" where
  "plain_caps name params = \<lparr>rc_provider = name, rc_params = params, rc_token_param = ''max_tokens''\<rparr>"

definition route_params :: "(string, route_caps) odict" where
  "route_params = map (\<lambda>n. (n, plain_caps n openai_params))
       [''openai'', ''openrouter'', ''deepseek'', ''ollama'', ''ollama_chat'', ''hosted_vllm'', ''cerebras'', ''dashscope'']
     @ [(''anthropic'', plain_caps ''anthropic'' [''temperature'', ''top_p'', ''max_tokens'', ''timeout'', ''response_format'']),
        (''gemini'', \<lparr>rc_provider = ''gemini'',
           rc_params = [''temperature'', ''top_p'', ''top_k'', ''max_output_tokens'', ''timeout'', ''response_format''],
           rc_token_param = ''max_output_tokens''\<rparr>),
        (''azure'', plain_caps ''azure'' openai_params)]"

definition route_capabilities :: "string option \<Rightarrow> route_caps" where
  "route_capabilities p = (if \<not> opt_truthy p then plain_caps ''unknown'' full_params
     else get_default route_params (the p) (plain_caps (the p) full_params))"

definition is_token_cap :: "string \<Rightarrow> bool" where
  "is_token_cap k \<longleftrightarrow> k = ''max_tokens'' \<or> k = ''max_output_tokens''"

definition filter_step :: "route_caps \<Rightarrow> string \<times> json \<Rightarrow> (string, json) odict \<times> string list \<Rightarrow> (string, json) odict \<times> string list" where
  "filter_step caps kv acc = (case (kv, acc) of ((k, v), (kept, dropped)) \<Rightarrow>
     if v = JNull then (kept, dropped)
     else let target = (if is_token_cap k then rc_token_param caps else k) in
       if target \<in> set (rc_params caps) then (put target v kept, dropped) else (kept, dropped @ [k]))"

definition filter_llm_params :: "string option \<Rightarrow> (string, json) odict \<Rightarrow> (string, json) odict \<times> string list" where
  "filter_llm_params p params = (let (kept, dropped) = fold (filter_step (route_capabilities p)) params ([], [])
     in (kept, sort_strings dropped))"

definition sampling_candidates :: "string list" where
  "sampling_candidates = [''temperature'', ''max_tokens'', ''max_completion_tokens'', ''max_output_tokens'', ''timeout'', ''top_p'',
     ''top_k'', ''presence_penalty'', ''frequency_penalty'', ''seed'', ''reasoning_effort'', ''stop'', ''response_format'']"

definition sampling_params :: "(string, json) odict \<Rightarrow> string option \<Rightarrow> (string, json) odict" where
  "sampling_params mc route = (let params = drop_nulls (map (\<lambda>k. (k, jget mc k)) sampling_candidates) in
     case route of None \<Rightarrow> params | Some _ \<Rightarrow> fst (filter_llm_params route params))"

subsection \<open>The model of an agent\<close>

definition default_fallback_model :: string where
  "default_fallback_model = ''openrouter/google/gemini-3.5-flash-lite''"

text \<open>\<open>os.getenv(name, default)\<close>.\<close>

definition getenv :: "world_config \<Rightarrow> string \<Rightarrow> string \<Rightarrow> string" where
  "getenv wc name d = (case wc_env wc name of None \<Rightarrow> d | Some v \<Rightarrow> v)"

definition legacy_prefix_model :: "world_config \<Rightarrow> json \<Rightarrow> string" where
  "legacy_prefix_model wc model =
     (if \<not> truthy model then getenv wc ''LLM_MODEL'' default_fallback_model
      else let name = text_of (wc_show wc) model in
        if CHR ''/'' \<in> set name
           \<and> (\<forall>p \<in> {''openrouter/'', ''ollama/'', ''azure/'', ''gemini/''}. \<not> starts_with p name)
           \<and> getenv wc ''LLM_PROVIDER'' ''openrouter'' = ''openrouter''
        then ''openrouter/'' @ name else name)"

text \<open>The parameters of one attempt: the route's, then the base URL and the key, an agent's own first.\<close>

definition attempt_params :: "world_config \<Rightarrow> (string, json) odict \<Rightarrow> resolved_llm \<Rightarrow> (string, json) odict" where
  "attempt_params wc mc a =
     (let params = sampling_params mc (Some (rl_provider a));
          url = (let own = jget mc ''base_url'' in if truthy own then own else case rl_base_url a of None \<Rightarrow> JNull | Some u \<Rightarrow> JStr u);
          params1 = (if truthy url then put ''base_url'' url params else params);
          key = (case env_of wc (jget mc ''api_key_env'') of Some k \<Rightarrow> Some k | None \<Rightarrow> rl_api_key a)
      in if opt_truthy key then put ''api_key'' (JStr (the key)) params1 else params1)"

type_synonym 'l make_llm = "string \<Rightarrow> string option \<Rightarrow> (string, json) odict \<Rightarrow> 'l option"

definition attempts :: "resolved_llm \<Rightarrow> resolved_llm list" where
  "attempts r = r # (case compat_fallback r of None \<Rightarrow> [] | Some f \<Rightarrow> [f])"

fun first_llm :: "'l make_llm \<Rightarrow> world_config \<Rightarrow> (string, json) odict \<Rightarrow> resolved_llm list \<Rightarrow> 'l option" where
  "first_llm mk wc mc [] = None"
| "first_llm mk wc mc (a # as) = (case mk (rl_model a) (Some (rl_provider a)) (attempt_params wc mc a) of
      Some l \<Rightarrow> Some l | None \<Rightarrow> first_llm mk wc mc as)"

text \<open>A resolution error means the legacy routing; another exception propagates.\<close>

definition resolve_registered_provider ::
  "'l make_llm \<Rightarrow> world_config \<Rightarrow> (string, json) odict \<Rightarrow> string \<Rightarrow> json \<Rightarrow> provider_error + 'l option" where
  "resolve_registered_provider mk wc mc pid model =
     (case resolve_llm wc pid (text_of (wc_show wc) (json_or model (JStr []))) of
        Inl e \<Rightarrow> if e = Ill_typed then Inl Ill_typed else Inr None
      | Inr r \<Rightarrow> Inr (first_llm mk wc mc (attempts r)))"

definition prefix_aliases :: "(string \<times> string) list" where
  "prefix_aliases = [(''xai'', ''grok''), (''google'', ''gemini''), (''claude'', ''anthropic'')]"

definition route_prefixed_model ::
  "'l make_llm \<Rightarrow> world_config \<Rightarrow> (string, json) odict \<Rightarrow> json \<Rightarrow> provider_error + 'l option" where
  "route_prefixed_model mk wc mc model = (case model of JStr s \<Rightarrow>
      (case after_char CHR ''/'' s of None \<Rightarrow> Inr None
       | Some name \<Rightarrow> (let prefix = before_char CHR ''/'' s; pid = get_default prefix_aliases prefix prefix in
          if lower (getenv wc ''LLM_PROVIDER'' ''openrouter'') = ''openrouter'' \<and> prefix \<noteq> ''gemini'' then Inr None
          else if pid = ''openrouter'' then Inr None
          else resolve_registered_provider mk wc mc pid (JStr name)))
     | _ \<Rightarrow> Inr None)"

text \<open>\<open>_resolve_llm_model\<close>: a model name, or an LLM object.\<close>

definition legacy_llm :: "'l make_llm \<Rightarrow> world_config \<Rightarrow> (string, json) odict \<Rightarrow> json \<Rightarrow> string + 'l" where
  "legacy_llm mk wc mc model =
     (let name = legacy_prefix_model wc model;
          params = sampling_params mc None;
          params1 = (if truthy (jget mc ''base_url'') then put ''base_url'' (jget mc ''base_url'') params else params);
          params2 = (case env_of wc (jget mc ''api_key_env'') of Some k \<Rightarrow> put ''api_key'' (JStr k) params1 | None \<Rightarrow> params1)
      in if params2 = [] then Inl name
         else case mk name None params2 of Some l \<Rightarrow> Inr l | None \<Rightarrow> Inl name)"

definition resolve_llm_model :: "'l make_llm \<Rightarrow> world_config \<Rightarrow> (string, json) odict \<Rightarrow> provider_error + (string + 'l)" where
  "resolve_llm_model mk wc mc = (let model = jget mc ''model''; pid = jget mc ''provider_id'' in
     case (if truthy pid then resolve_registered_provider mk wc mc (text_of (wc_show wc) pid) model
           else route_prefixed_model mk wc mc model) of
       Inl e \<Rightarrow> Inl e
     | Inr (Some l) \<Rightarrow> Inr (Inr l)
     | Inr None \<Rightarrow> Inr (legacy_llm mk wc mc model))"

subsection \<open>Secrets\<close>

lemma stored_put [simp]: "stored_secrets (Some (put ''secrets'' (JObj d) p)) = d"
  by (simp add: stored_secrets_def jget_def get_default_def)

text \<open>A saved key is read back, another provider's key is untouched, and a deleted one is gone.\<close>

lemma set_get_secret:
  assumes "set_secret now pid key f = Some f'"
  shows "get_secret show f' pid = Some key" "q \<noteq> pid \<Longrightarrow> get_secret show f' q = get_secret show f q"
  using assms by (auto simp: set_secret_def get_secret_def text_of_def jget_def get_default_def split: if_splits)

lemma delete_get_secret:
  assumes "delete_secret pid f = (b, f')"
  shows "get_secret show f' pid = None" "q \<noteq> pid \<Longrightarrow> get_secret show f' q = get_secret show f q"
  using assms by (auto simp: delete_secret_def get_secret_def in_keys_iff split: if_splits)

theorem secrets_roundtrip:
  assumes "set_secret now pid key f = Some f'"
  shows "get_secret show f' pid = Some key \<and> snd (delete_secret pid f') \<noteq> None
    \<and> get_secret show (snd (delete_secret pid f')) pid = None
    \<and> (\<forall>q. q \<noteq> pid \<longrightarrow> get_secret show f' q = get_secret show f q \<and> get_secret show (snd (delete_secret pid f')) q = get_secret show f q)"
proof -
  obtain b f'' where d: "delete_secret pid f' = (b, f'')" by fastforce
  have "f'' \<noteq> None" using assms d by (auto simp: set_secret_def delete_secret_def split: if_splits)
  then show ?thesis using set_get_secret [OF assms] delete_get_secret [OF d] d by simp
qed

text \<open>A masked key shows at most its last four characters, and none of a key of at most four.\<close>

lemma mask_shows_four:
  assumes "mask_api_key (Some k) = Some m"
  shows "length m = length k \<and> (\<forall>i < length k. m ! i \<noteq> CHR ''*'' \<longrightarrow> 4 < length k \<and> length k - 4 \<le> i \<and> m ! i = k ! i)"
  using assms by (auto simp: mask_api_key_def nth_append take_last_def split: if_splits)


subsection \<open>Keys\<close>

lemma is_str_iff [simp]: "is_str s v \<longleftrightarrow> v = JStr s"
  by (cases v) (auto simp: is_str_def)

lemma find_provider_InrD:
  "find_provider wc pid = Inr p \<Longrightarrow> p \<in> set (wc_providers wc) \<and> jget p ''id'' = JStr pid \<and> enabled_provider p \<and> llm_provider p"
  by (auto simp: find_provider_def split: option.splits if_splits dest!: find_SomeD)

lemma provider_id_text_found: "find_provider wc pid = Inr p \<Longrightarrow> provider_id_text wc p = pid"
  using find_provider_InrD [of wc pid p] by (auto simp: provider_id_text_def json_or_def text_of_def)

lemma env_of_not_Nil: "env_of wc v \<noteq> Some []"
  by (auto simp: env_of_def split: option.splits)

lemma text_of_not_Nil: "\<forall>v. truthy v \<longrightarrow> show v \<noteq> [] \<Longrightarrow> truthy v \<Longrightarrow> text_of show v \<noteq> []"
  by (cases v) (auto simp: text_of_def)

lemma get_secret_not_Nil:
  assumes "\<forall>v. truthy v \<longrightarrow> show v \<noteq> []"
  shows "get_secret show f pid \<noteq> Some []"
  using text_of_not_Nil [OF assms] by (auto simp: get_secret_def Let_def split: option.splits json.splits if_splits)

text \<open>What the studio reports as the source of a key is right: it says there is none exactly when none resolves,
  and fails exactly when the resolution fails, as long as \<open>str\<close> of a truthy value is not empty.\<close>

theorem key_source_agrees:
  assumes "\<forall>v. truthy v \<longrightarrow> wc_show wc v \<noteq> []"
  shows "(\<forall>e. key_source wc pid = Inl e \<longleftrightarrow> resolve_api_key wc pid = Inl e)
    \<and> (key_source wc pid = Inr No_key \<longleftrightarrow> resolve_api_key wc pid = Inr None)
    \<and> (\<forall>k. resolve_api_key wc pid = Inr (Some k) \<longrightarrow> k \<noteq> [])"
proof (cases "find_provider wc pid")
  case (Inr p)
  note s = get_secret_not_Nil [OF assms, of "wc_secrets wc" pid] and i = provider_id_text_found [OF Inr]
  have e: "env_key wc p a \<noteq> Some []" for a by (simp add: env_key_def env_of_not_Nil)
  have t: "truthy (jget p ''api_key'') \<Longrightarrow> text_of (wc_show wc) (jget p ''api_key'') \<noteq> []"
    by (rule text_of_not_Nil [OF assms])
  show ?thesis using s e t
    by (auto simp: key_source_def resolve_api_key_def Inr provider_key_def i Let_def split: option.splits sum.splits)
qed (simp add: key_source_def resolve_api_key_def)

definition demo_provider :: "(string, json) odict" where
  "demo_provider = [(''id'', JStr ''lmstudio''), (''base_url'', JStr ''http://localhost:1234/v1/''),
     (''models'', JList [JObj [(''name'', JStr ''qwen'')]])]"

definition demo_config :: world_config where
  "demo_config = \<lparr>wc_show = \<lambda>v. ''?'', wc_env = \<lambda>v. None, wc_secrets = None, wc_providers = [demo_provider]\<rparr>"

theorem key_source_agrees_witness:
  "key_source demo_config ''lmstudio'' = Inr No_key \<and> resolve_api_key demo_config ''lmstudio'' = Inr None"
proof -
  have s: "\<forall>v. truthy v \<longrightarrow> wc_show demo_config v \<noteq> []" by (simp add: demo_config_def)
  have "key_source demo_config ''lmstudio'' = Inr No_key"
    by (simp add: key_source_def find_provider_def demo_config_def demo_provider_def jget_def get_default_def enabled_provider_def
        llm_provider_def get_secret_def stored_secrets_def auth_object_def env_key_def env_of_def json_or_def)
  then show ?thesis using key_source_agrees [OF s, of "''lmstudio''"] by simp
qed

subsection \<open>Parameters\<close>

lemma filter_fold:
  assumes "fold (filter_step caps) params (kept0, dropped0) = (kept, dropped)" "set (keys kept0) \<subseteq> set (rc_params caps)" "wf_odict kept0"
  shows "set (keys kept) \<subseteq> set (rc_params caps) \<and> wf_odict kept \<and> set (keys kept0) \<subseteq> set (keys kept) \<and> set dropped0 \<subseteq> set dropped
    \<and> (\<forall>(k, v) \<in> set params. v \<noteq> JNull \<longrightarrow> (let target = (if is_token_cap k then rc_token_param caps else k) in
        if target \<in> set (rc_params caps) then target \<in> set (keys kept) else k \<in> set dropped))"
  using assms
proof (induction params arbitrary: kept0 dropped0)
  case (Cons kv params)
  obtain k v where kv: "kv = (k, v)" by (cases kv)
  obtain kept1 dropped1 where s: "filter_step caps kv (kept0, dropped0) = (kept1, dropped1)" by fastforce
  have "set (keys kept1) \<subseteq> set (rc_params caps)" "wf_odict kept1"
    using s Cons.prems(2,3) by (auto simp: filter_step_def kv Let_def split: if_splits)
  note ih = Cons.IH [OF Cons.prems(1) [simplified s fold_simps] this]
  have "set (keys kept0) \<subseteq> set (keys kept1)" "set dropped0 \<subseteq> set dropped1"
    "v \<noteq> JNull \<longrightarrow> (let target = (if is_token_cap k then rc_token_param caps else k) in
        if target \<in> set (rc_params caps) then target \<in> set (keys kept1) else k \<in> set dropped1)"
    using s by (auto simp: filter_step_def kv Let_def split: if_splits)
  then show ?case using ih by (auto simp: kv Let_def split: if_splits)
qed simp

lemma set_sort_strings [simp]: "set (sort_strings xs) = set xs"
  by (simp add: sort_strings_def)

text \<open>Nothing is lost silently: a parameter with a value is passed on, under the spelling of the route, or reported.\<close>

lemma filter_llm_params_complete:
  assumes "filter_llm_params p params = (kept, dropped)"
  shows "set (keys kept) \<subseteq> set (rc_params (route_capabilities p))" "wf_odict kept"
    "(k, v) \<in> set params \<Longrightarrow> v \<noteq> JNull \<Longrightarrow> (if is_token_cap k then rc_token_param (route_capabilities p) else k) \<in> set (keys kept) \<or> k \<in> set dropped"
proof -
  let ?c = "route_capabilities p"
  obtain d where f: "fold (filter_step ?c) params ([], []) = (kept, d)" "dropped = sort_strings d"
    using assms by (auto simp: filter_llm_params_def split: prod.splits)
  note r = filter_fold [OF f(1)]
  show "set (keys kept) \<subseteq> set (rc_params ?c)" "wf_odict kept" using r by (auto simp: keys_def)
  assume "(k, v) \<in> set params" "v \<noteq> JNull"
  then show "(if is_token_cap k then rc_token_param ?c else k) \<in> set (keys kept) \<or> k \<in> set dropped"
    using r f(2) by (auto simp: keys_def Let_def split: if_splits)
qed

lemma no_credentials_in_caps: "''api_key'' \<notin> set (rc_params (route_capabilities p))" "''base_url'' \<notin> set (rc_params (route_capabilities p))"
proof -
  have full: "''api_key'' \<notin> set full_params" "''base_url'' \<notin> set full_params" by (simp_all add: full_params_def)
  have "\<forall>(n, c) \<in> set route_params. ''api_key'' \<notin> set (rc_params c) \<and> ''base_url'' \<notin> set (rc_params c)"
    by (simp add: route_params_def plain_caps_def openai_params_def)
  then have "get route_params n = Some c \<Longrightarrow> ''api_key'' \<notin> set (rc_params c) \<and> ''base_url'' \<notin> set (rc_params c)" for n c
    by (auto dest: map_of_SomeD)
  then show "''api_key'' \<notin> set (rc_params (route_capabilities p))" "''base_url'' \<notin> set (rc_params (route_capabilities p))"
    using full by (auto simp: route_capabilities_def get_default_def plain_caps_def split: option.splits)
qed

lemma resolve_llm_key:
  assumes "resolve_llm wc pid model = Inr r"
  obtains p key auth where "find_provider wc pid = Inr p" "provider_key wc p = Inr key" "auth_required p = Inr auth"
    "rl_auth_required r = auth"
    "rl_api_key r = (if rl_native r \<or> opt_truthy key \<or> auth then key else Some placeholder_api_key)"
  using assms by (auto simp: resolve_llm_def native_route_def compatible_route_def Let_def
      split: sum.splits if_splits prod.splits option.splits)

lemma attempts_cases:
  assumes "a \<in> set (attempts r)"
  shows "a = r \<or> rl_native r \<and> \<not> rl_native a \<and> rl_auth_required a = rl_auth_required r
    \<and> rl_api_key a = (if opt_truthy (rl_api_key r) \<or> rl_auth_required r then rl_api_key r else Some placeholder_api_key)"
  using assms by (auto simp: attempts_def compat_fallback_def split: option.splits if_splits)

lemma first_llmD: "first_llm mk wc mc as = Some l \<Longrightarrow> \<exists>a \<in> set as. mk (rl_model a) (Some (rl_provider a)) (attempt_params wc mc a) = Some l"
  by (induction as) (auto split: option.splits)

definition key_for_call :: "world_config \<Rightarrow> (string, json) odict \<Rightarrow> string option \<Rightarrow> bool \<Rightarrow> bool \<Rightarrow> string option" where
  "key_for_call wc mc key auth native = (case env_of wc (jget mc ''api_key_env'') of Some k \<Rightarrow> Some k
     | None \<Rightarrow> if opt_truthy key then key else if auth \<or> native then None else Some placeholder_api_key)"

lemma attempt_params_shape:
  "set (keys (attempt_params wc mc a)) \<subseteq> set (rc_params (route_capabilities (Some (rl_provider a)))) \<union> {''base_url'', ''api_key''}"
  "wf_odict (attempt_params wc mc a)"
  "get (attempt_params wc mc a) ''api_key'' = (case (case env_of wc (jget mc ''api_key_env'') of Some k \<Rightarrow> Some k | None \<Rightarrow> rl_api_key a) of
     None \<Rightarrow> None | Some k \<Rightarrow> if k = [] then None else Some (JStr k))"
proof -
  let ?c = "route_capabilities (Some (rl_provider a))"
  obtain kept dropped where f: "filter_llm_params (Some (rl_provider a)) (drop_nulls (map (\<lambda>k. (k, jget mc k)) sampling_candidates)) = (kept, dropped)"
    by fastforce
  have k: "sampling_params mc (Some (rl_provider a)) = kept" by (simp add: sampling_params_def f Let_def)
  note r = filter_llm_params_complete(1,2) [OF f]
  have n: "get kept ''api_key'' = None" using r(1) no_credentials_in_caps by (auto simp: get_None_iff)
  show "set (keys (attempt_params wc mc a)) \<subseteq> set (rc_params ?c) \<union> {''base_url'', ''api_key''}"
    using r(1) by (auto simp: attempt_params_def k Let_def split: if_splits)
  show "wf_odict (attempt_params wc mc a)" using r(2) by (simp add: attempt_params_def k Let_def)
  show "get (attempt_params wc mc a) ''api_key'' = (case (case env_of wc (jget mc ''api_key_env'') of Some k \<Rightarrow> Some k | None \<Rightarrow> rl_api_key a) of
     None \<Rightarrow> None | Some k \<Rightarrow> if k = [] then None else Some (JStr k))"
    using n by (simp add: attempt_params_def k Let_def opt_truthy_def split: option.splits)
qed

text \<open>C17: When an agent's model is resolved through a registered provider, the object that CrewAI builds comes from a
  call whose parameters are all honoured by the route attempted, base URL and key apart, and whose key is the one the agent names
  in the environment, else the provider's own, and only when there is none and the provider needs no key the
  placeholder, on an OpenAI-compatible route.\<close>

theorem registered_llm_call:
  assumes "resolve_registered_provider mk wc mc pid model = Inr (Some l)"
  shows "\<exists>r p key auth a. resolve_llm wc pid (text_of (wc_show wc) (json_or model (JStr []))) = Inr r \<and> a \<in> set (attempts r)
    \<and> find_provider wc pid = Inr p \<and> provider_key wc p = Inr key \<and> auth_required p = Inr auth
    \<and> mk (rl_model a) (Some (rl_provider a)) (attempt_params wc mc a) = Some l
    \<and> wf_odict (attempt_params wc mc a)
    \<and> set (keys (attempt_params wc mc a)) \<subseteq> set (rc_params (route_capabilities (Some (rl_provider a)))) \<union> {''base_url'', ''api_key''}
    \<and> get (attempt_params wc mc a) ''api_key'' = map_option JStr (key_for_call wc mc key auth (rl_native a))"
proof -
  obtain r where r: "resolve_llm wc pid (text_of (wc_show wc) (json_or model (JStr []))) = Inr r" "first_llm mk wc mc (attempts r) = Some l"
    using assms by (auto simp: resolve_registered_provider_def split: sum.splits if_splits)
  obtain a where a: "a \<in> set (attempts r)" "mk (rl_model a) (Some (rl_provider a)) (attempt_params wc mc a) = Some l"
    using first_llmD [OF r(2)] by auto
  obtain p key auth where p: "find_provider wc pid = Inr p" "provider_key wc p = Inr key" "auth_required p = Inr auth"
    and k: "rl_auth_required r = auth" "rl_api_key r = (if rl_native r \<or> opt_truthy key \<or> auth then key else Some placeholder_api_key)"
    using resolve_llm_key [OF r(1)] by blast
  have "opt_truthy (rl_api_key a) = (opt_truthy key \<or> \<not> auth \<and> \<not> rl_native a)"
    "opt_truthy key \<Longrightarrow> rl_api_key a = key" "\<not> opt_truthy key \<Longrightarrow> \<not> auth \<Longrightarrow> \<not> rl_native a \<Longrightarrow> rl_api_key a = Some placeholder_api_key"
    using attempts_cases [OF a(1)] k by (auto simp: placeholder_api_key_def opt_truthy_def split: if_splits)
  then have "get (attempt_params wc mc a) ''api_key'' = map_option JStr (key_for_call wc mc key auth (rl_native a))"
    using env_of_not_Nil [of wc "jget mc ''api_key_env''"] unfolding attempt_params_shape(3) key_for_call_def
    by (auto simp: opt_truthy_def placeholder_api_key_def split: option.splits)
  then show ?thesis using r(1) p a attempt_params_shape(1,2) by blast
qed


lemma demo_found: "find_provider demo_config ''lmstudio'' = Inr demo_provider" "provider_key demo_config demo_provider = Inr None"
  "auth_required demo_provider = Inr False"
  by (simp_all add: find_provider_def demo_config_def demo_provider_def jget_def get_default_def enabled_provider_def
      llm_provider_def get_secret_def stored_secrets_def auth_object_def env_key_def env_of_def json_or_def provider_key_def auth_required_def)

theorem registered_llm_call_witness:
  "\<exists>ps. resolve_registered_provider (\<lambda>m p ps. Some (p, ps)) demo_config [] ''lmstudio'' (JStr ''qwen'') = Inr (Some (Some ''openai'', ps))
     \<and> get ps ''api_key'' = Some (JStr ''not-needed'')"
proof -
  let ?mk = "\<lambda>m p ps. Some (p, ps)"
  have e: "env_of demo_config (jget [] ''api_key_env'') = None" by (simp add: env_of_def jget_def get_default_def)
  obtain q where q: "resolve_llm demo_config ''lmstudio'' ''qwen'' = Inr q" "rl_provider q = ''openai''" "\<not> rl_native q"
    by (simp add: resolve_llm_def demo_found Let_def text_of_def resolve_base_url_def json_or_def
        env_of_def demo_provider_def jget_def get_default_def url_text_def rstrip_in_def route_prefix_def model_entries_def
        pinned_entry_def pin_route_def opt_truthy_def compatible_route_def strip_def is_space_def code_def
        auth_required_def provider_key_def get_secret_def stored_secrets_def demo_config_def provider_id_text_def auth_object_def env_key_def
        find_provider_def enabled_provider_def llm_provider_def)
  have t: "text_of (wc_show demo_config) (json_or (JStr ''qwen'') (JStr [])) = ''qwen''" by (simp add: text_of_def json_or_def)
  have at: "attempts q = [q]" using q(3) by (simp add: attempts_def compat_fallback_def)
  define ps where "ps = attempt_params demo_config [] q"
  have r: "resolve_registered_provider ?mk demo_config [] ''lmstudio'' (JStr ''qwen'') = Inr (Some (Some ''openai'', ps))"
    by (simp add: resolve_registered_provider_def t q at ps_def)
  from registered_llm_call [OF r] obtain p key auth where
    a: "find_provider demo_config ''lmstudio'' = Inr p" "provider_key demo_config p = Inr key" "auth_required p = Inr auth"
      "get ps ''api_key'' = map_option JStr (key_for_call demo_config [] key auth (rl_native q))"
    unfolding t q(1) by (auto simp: at ps_def)
  have "key = None" "\<not> auth" using a(1-3) demo_found by auto
  then show ?thesis using r a(4) q(3) e by (auto simp: key_for_call_def opt_truthy_def placeholder_api_key_def)
qed

text \<open>The check for OpenRouter mode ignores case in one place and not in the other: with \<open>LLM_PROVIDER=OpenRouter\<close>
  neither the registry nor the OpenRouter prefix applies to \<open>vendor/model\<close>.\<close>

lemma lower_OpenRouter: "lower ''OpenRouter'' = ''openrouter''" "lower ''openrouter'' = ''openrouter''"
  by code_simp+

theorem openrouter_case_matters:
  assumes "wc_env wc ''LLM_PROVIDER'' = Some ''OpenRouter''"
  shows "route_prefixed_model mk wc mc (JStr ''openai/gpt'') = Inr None \<and> legacy_prefix_model wc (JStr ''openai/gpt'') = ''openai/gpt''"
    "wc_env wc' ''LLM_PROVIDER'' = Some ''openrouter'' \<Longrightarrow> legacy_prefix_model wc' (JStr ''openai/gpt'') = ''openrouter/openai/gpt''"
  using assms
  by (simp_all add: route_prefixed_model_def legacy_prefix_model_def getenv_def text_of_def after_char_def before_char_def Let_def lower_OpenRouter starts_with_def)

end
