(* ===== verification/Dead_Letters.thy ===== *)
theory Dead_Letters
  imports Prelude
begin

text \<open>
  Agent tasks over RabbitMQ, \<open>src/src/infrastructure/message_broker.py\<close>: serialisation, the publisher, the
  consumer and the dead-letter handler.  The broker itself is not modelled: an operation gives the commands it
  sends to the broker, in order, beside its new state.  \<open>task_life\<close> follows one task through the two
  handlers; that a rejected message is delivered to the dead-letter queue with the same body, and that a published one is
  delivered to the consumer of its agent, is what the declared queues and bindings make RabbitMQ do.
\<close>

subsection \<open>Tasks\<close>

text \<open>Identifiers are their canonical text; \<open>created_at\<close> is an instant.\<close>

record agent_task =
  at_task_id :: string
  at_session_id :: string
  at_agent_id :: string
  at_message :: string
  at_context :: "(string, json) odict"
  at_created :: int
  at_priority :: int
  at_retry_count :: nat
  at_max_retries :: nat

definition task_fields :: "(int \<Rightarrow> string) \<Rightarrow> agent_task \<Rightarrow> (string, json) odict" where
  "task_fields stamp t = [(''task_id'', JStr (at_task_id t)), (''session_id'', JStr (at_session_id t)),
     (''agent_id'', JStr (at_agent_id t)), (''message'', JStr (at_message t)), (''context'', JObj (at_context t)),
     (''created_at'', JStr (stamp (at_created t))), (''priority'', JInt (at_priority t)),
     (''retry_count'', JInt (int (at_retry_count t))), (''max_retries'', JInt (int (at_max_retries t)))]"

text \<open>\<open>from_json\<close>: \<open>uuid\<close> is \<open>UUID\<close> (the canonical text, or an exception), \<open>parse\<close> is
  \<open>parse_utc\<close>.  An unknown field makes the constructor raise; a missing optional one takes its default.\<close>

definition task_field_names :: "string list" where
  "task_field_names = [''task_id'', ''session_id'', ''agent_id'', ''message'', ''context'', ''created_at'', ''priority'',
     ''retry_count'', ''max_retries'']"

definition nat_field :: "(string, json) odict \<Rightarrow> string \<Rightarrow> nat \<Rightarrow> nat option" where
  "nat_field d k dflt = (case get d k of None \<Rightarrow> Some dflt
     | Some (JInt i) \<Rightarrow> if i < 0 then None else Some (nat i) | Some _ \<Rightarrow> None)"

definition int_field :: "(string, json) odict \<Rightarrow> string \<Rightarrow> int \<Rightarrow> int option" where
  "int_field d k dflt = (case get d k of None \<Rightarrow> Some dflt | Some (JInt i) \<Rightarrow> Some i | Some _ \<Rightarrow> None)"

definition task_of :: "(string \<Rightarrow> string option) \<Rightarrow> (string \<Rightarrow> int option) \<Rightarrow> (string, json) odict \<Rightarrow> agent_task option" where
  "task_of uuid parse d =
     (if \<not> set (keys d) \<subseteq> set task_field_names then None
      else case (jget d ''task_id'', jget d ''session_id'', jget d ''agent_id'', jget d ''message'', jget d ''context'', jget d ''created_at'') of
        (JStr i, JStr s, JStr a, JStr m, JObj c, JStr created) \<Rightarrow>
          (case (uuid i, uuid s, parse created, int_field d ''priority'' 0, nat_field d ''retry_count'' 0, nat_field d ''max_retries'' 3) of
            (Some i', Some s', Some n, Some p, Some r, Some mx) \<Rightarrow>
              Some \<lparr>at_task_id = i', at_session_id = s', at_agent_id = a, at_message = m, at_context = c, at_created = n,
                at_priority = p, at_retry_count = r, at_max_retries = mx\<rparr>
          | _ \<Rightarrow> None)
      | _ \<Rightarrow> None)"

subsection \<open>Commands to the broker\<close>

datatype amqp =
    Get_channel
  | Set_qos nat
  | Declare_exchange string
  | Get_exchange string
  | Declare_queue string "(string, json) odict"
  | Bind_queue string string string
  | Publish string string "(string, json) odict" "(string, json) odict" int
  | Consume string
  | Cancel_consumer string
  | Close_channel
  | Sleep nat

datatype broker_error = Not_initialized

record broker_names =
  bn_exchange :: string
  bn_dlx :: string

definition queue_arguments :: "string \<Rightarrow> string option \<Rightarrow> nat option \<Rightarrow> (string, json) odict" where
  "queue_arguments name dlx ttl =
     (case dlx of None \<Rightarrow> [] | Some x \<Rightarrow> if x = [] then [] else
        [(''x-dead-letter-exchange'', JStr x), (''x-dead-letter-routing-key'', JStr (''dlq.'' @ name))])
     @ (case ttl of None \<Rightarrow> [] | Some n \<Rightarrow> if n = 0 then [] else [(''x-message-ttl'', JInt (int n))])"

definition declare_queue :: "string \<Rightarrow> string option \<Rightarrow> nat option \<Rightarrow> amqp" where
  "declare_queue name dlx ttl = Declare_queue name (queue_arguments name dlx ttl)"

definition setup_infrastructure :: "broker_names \<Rightarrow> amqp list" where
  "setup_infrastructure n = [Declare_exchange (bn_exchange n), Declare_exchange (bn_dlx n)]"

subsection \<open>The publisher\<close>

record publisher =
  pu_names :: broker_names
  pu_channel :: bool
  pu_exchange :: "string option"

definition init_publisher :: "publisher \<Rightarrow> publisher \<times> amqp list" where
  "init_publisher p = (p\<lparr>pu_channel := True, pu_exchange := Some (bn_exchange (pu_names p))\<rparr>,
     Get_channel # setup_infrastructure (pu_names p) @ [Get_exchange (bn_exchange (pu_names p))])"

definition task_key :: "string \<Rightarrow> string" where
  "task_key agent = ''agent.tasks.'' @ agent"

definition publish_task :: "(int \<Rightarrow> string) \<Rightarrow> publisher \<Rightarrow> agent_task \<Rightarrow> string option \<Rightarrow> broker_error + amqp list" where
  "publish_task stamp p t key = (case pu_exchange p of None \<Rightarrow> Inl Not_initialized
     | Some x \<Rightarrow> Inr [Publish x (case key of None \<Rightarrow> task_key (at_agent_id t) | Some k \<Rightarrow> k) (task_fields stamp t)
         [(''session_id'', JStr (at_session_id t)), (''agent_id'', JStr (at_agent_id t)), (''retry_count'', JInt (int (at_retry_count t)))]
         (at_priority t)])"

definition publish_result :: "publisher \<Rightarrow> string \<Rightarrow> (string, json) odict \<Rightarrow> broker_error + amqp list" where
  "publish_result p sid result = (case pu_exchange p of None \<Rightarrow> Inl Not_initialized
     | Some x \<Rightarrow> Inr [Publish x (''agent.results.'' @ sid) result [(''session_id'', JStr sid)] 0])"

definition close_publisher :: "publisher \<Rightarrow> publisher \<times> amqp list" where
  "close_publisher p = (if pu_channel p then (p\<lparr>pu_channel := False\<rparr>, [Close_channel]) else (p, []))"

subsection \<open>The consumer\<close>

record consumer =
  cs_names :: broker_names
  cs_agent :: string
  cs_prefetch :: nat
  cs_channel :: bool
  cs_queue :: "string option"
  cs_tag :: "string option"
  cs_consuming :: bool

definition init_consumer :: "consumer \<Rightarrow> consumer \<times> amqp list" where
  "init_consumer c = (let q = task_key (cs_agent c); n = cs_names c in
     (c\<lparr>cs_channel := True, cs_queue := Some q\<rparr>,
      [Get_channel, Set_qos (cs_prefetch c)] @ setup_infrastructure n
        @ [Get_exchange (bn_exchange n), declare_queue q (Some (bn_dlx n)) None, Bind_queue q (bn_exchange n) q]))"

text \<open>\<open>tag\<close> is the consumer tag the broker answers with.\<close>

definition consume_tasks :: "string \<Rightarrow> consumer \<Rightarrow> (broker_error + consumer) \<times> amqp list" where
  "consume_tasks tag c = (case cs_queue c of None \<Rightarrow> (Inl Not_initialized, [])
     | Some q \<Rightarrow> if cs_consuming c then (Inr c, [])
         else (Inr (c\<lparr>cs_consuming := True, cs_tag := Some tag\<rparr>), [Consume q]))"

definition stop_consuming :: "consumer \<Rightarrow> consumer \<times> amqp list" where
  "stop_consuming c = (if \<not> cs_consuming c then (c, [])
     else let c1 = c\<lparr>cs_consuming := False\<rparr> in
       if opt_truthy (cs_tag c) \<and> cs_queue c \<noteq> None then (c1\<lparr>cs_tag := None\<rparr>, [Cancel_consumer (the (cs_tag c))]) else (c1, []))"

definition close_consumer :: "consumer \<Rightarrow> consumer \<times> amqp list" where
  "close_consumer c = (let (c1, as) = stop_consuming c in
     if cs_channel c1 then (c1\<lparr>cs_channel := False\<rparr>, as @ [Close_channel]) else (c1, as))"

text \<open>\<open>_process_message\<close>: acknowledged when the task is read and its handler returns, else rejected.\<close>

datatype verdict = Acknowledged | Rejected

definition process_task :: "(agent_task \<Rightarrow> bool) \<Rightarrow> agent_task option \<Rightarrow> verdict" where
  "process_task handler t = (case t of None \<Rightarrow> Rejected | Some x \<Rightarrow> if handler x then Acknowledged else Rejected)"

subsection \<open>Dead letters\<close>

record dlq_handler =
  dq_names :: broker_names
  dq_publisher :: publisher
  dq_max_retries :: nat
  dq_initial_delay :: nat
  dq_max_delay :: nat
  dq_channel :: bool
  dq_queue :: bool
  dq_consuming :: bool

definition retry_delay :: "dlq_handler \<Rightarrow> nat \<Rightarrow> nat" where
  "retry_delay h n = min (dq_initial_delay h * 2 ^ n) (dq_max_delay h)"

definition dlq_name :: string where
  "dlq_name = ''agent.tasks.dlq''"

definition init_dlq :: "dlq_handler \<Rightarrow> dlq_handler \<times> amqp list" where
  "init_dlq h = (h\<lparr>dq_channel := True, dq_queue := True\<rparr>,
     Get_channel # setup_infrastructure (dq_names h)
       @ [Get_exchange (bn_dlx (dq_names h)), declare_queue dlq_name None None, Bind_queue dlq_name (bn_dlx (dq_names h)) ''dlq.#''])"

text \<open>\<open>_process_dead_letter\<close>: what becomes of the task.  Every exception is swallowed and the message acknowledged.\<close>

datatype fate = Republished agent_task | Discarded | Lost

definition process_dead_letter :: "(int \<Rightarrow> string) \<Rightarrow> dlq_handler \<Rightarrow> agent_task option \<Rightarrow> fate \<times> amqp list" where
  "process_dead_letter stamp h t = (case t of None \<Rightarrow> (Lost, [])
     | Some x \<Rightarrow> if at_retry_count x < at_max_retries x then
         (let y = x\<lparr>at_retry_count := Suc (at_retry_count x)\<rparr>; wait = Sleep (retry_delay h (at_retry_count y)) in
          case publish_task stamp (dq_publisher h) y None of
            Inl e \<Rightarrow> (Lost, [wait])
          | Inr as \<Rightarrow> (Republished y, wait # as))
       else (Discarded, []))"

definition start_processing :: "dlq_handler \<Rightarrow> (broker_error + dlq_handler) \<times> amqp list" where
  "start_processing h = (if \<not> dq_queue h then (Inl Not_initialized, [])
     else if dq_consuming h then (Inr h, []) else (Inr (h\<lparr>dq_consuming := True\<rparr>), [Consume dlq_name]))"

definition stop_processing :: "dlq_handler \<Rightarrow> dlq_handler \<times> amqp list" where
  "stop_processing h = (if dq_consuming h then (h\<lparr>dq_consuming := False\<rparr>, []) else (h, []))"

definition close_dlq :: "dlq_handler \<Rightarrow> dlq_handler \<times> amqp list" where
  "close_dlq h = (let (h1, as) = stop_processing h in
     if dq_channel h1 then (h1\<lparr>dq_channel := False\<rparr>, as @ [Close_channel]) else (h1, as))"

subsection \<open>The life of a task\<close>

datatype outcome = Completed | Given_up | Dropped

record life =
  li_outcome :: outcome
  li_attempts :: "agent_task list"
  li_sleeps :: "nat list"

definition sleeps_of :: "amqp list \<Rightarrow> nat list" where
  "sleeps_of as = concat (map (\<lambda>a. case a of Sleep n \<Rightarrow> [n] | _ \<Rightarrow> []) as)"

function task_life :: "(int \<Rightarrow> string) \<Rightarrow> (agent_task \<Rightarrow> bool) \<Rightarrow> dlq_handler \<Rightarrow> agent_task \<Rightarrow> life" where
  "task_life stamp handler h t = (case process_task handler (Some t) of
      Acknowledged \<Rightarrow> \<lparr>li_outcome = Completed, li_attempts = [t], li_sleeps = []\<rparr>
    | Rejected \<Rightarrow> (case process_dead_letter stamp h (Some t) of
        (Republished u, as) \<Rightarrow> let l = task_life stamp handler h u in
          l\<lparr>li_attempts := t # li_attempts l, li_sleeps := sleeps_of as @ li_sleeps l\<rparr>
      | (Discarded, as) \<Rightarrow> \<lparr>li_outcome = Given_up, li_attempts = [t], li_sleeps = sleeps_of as\<rparr>
      | (Lost, as) \<Rightarrow> \<lparr>li_outcome = Dropped, li_attempts = [t], li_sleeps = sleeps_of as\<rparr>))"
  by pat_completeness auto
termination
  by (relation "measure (\<lambda>(stamp, handler, h, t). at_max_retries t - at_retry_count t)")
    (auto simp: process_dead_letter_def Let_def split: if_splits sum.splits)

declare task_life.simps [simp del]


lemma life_simps:
  "handler t \<Longrightarrow> task_life stamp handler h t = \<lparr>li_outcome = Completed, li_attempts = [t], li_sleeps = []\<rparr>"
  "\<not> handler t \<Longrightarrow> \<not> at_retry_count t < at_max_retries t
    \<Longrightarrow> task_life stamp handler h t = \<lparr>li_outcome = Given_up, li_attempts = [t], li_sleeps = []\<rparr>"
  "\<not> handler t \<Longrightarrow> at_retry_count t < at_max_retries t \<Longrightarrow> pu_exchange (dq_publisher h) \<noteq> None
    \<Longrightarrow> task_life stamp handler h t = (let l = task_life stamp handler h (t\<lparr>at_retry_count := Suc (at_retry_count t)\<rparr>) in
      l\<lparr>li_attempts := t # li_attempts l, li_sleeps := retry_delay h (Suc (at_retry_count t)) # li_sleeps l\<rparr>)"
  "\<not> handler t \<Longrightarrow> at_retry_count t < at_max_retries t \<Longrightarrow> pu_exchange (dq_publisher h) = None
    \<Longrightarrow> task_life stamp handler h t = \<lparr>li_outcome = Dropped, li_attempts = [t], li_sleeps = [retry_delay h (Suc (at_retry_count t))]\<rparr>"
  by (subst task_life.simps, auto simp: process_task_def process_dead_letter_def publish_task_def sleeps_of_def Let_def)+

definition retried :: "agent_task \<Rightarrow> nat \<Rightarrow> agent_task" where
  "retried t k = t\<lparr>at_retry_count := at_retry_count t + k\<rparr>"

lemma retried_simps [simp]: "retried t 0 = t" "retried (t\<lparr>at_retry_count := Suc (at_retry_count t)\<rparr>) k = retried t (Suc k)"
  "retried (retried t j) k = retried t (j + k)" "at_retry_count (retried t k) = at_retry_count t + k" "at_max_retries (retried t k) = at_max_retries t"
  by (simp_all add: retried_def)

text \<open>The number of attempts that are made: up to the first the handler accepts, at most \<open>m + 1\<close>.\<close>

fun attempts_made :: "(agent_task \<Rightarrow> bool) \<Rightarrow> agent_task \<Rightarrow> nat \<Rightarrow> nat" where
  "attempts_made handler t 0 = 1"
| "attempts_made handler t (Suc m) = (if handler t then 1 else Suc (attempts_made handler (retried t 1) m))"

lemma attempts_made_pos: "0 < attempts_made handler t m" "attempts_made handler t m \<le> Suc m"
  by (induction m arbitrary: t) auto


definition demo_task :: agent_task where
  "demo_task = \<lparr>at_task_id = ''t'', at_session_id = ''s'', at_agent_id = ''a'', at_message = ''hi'', at_context = [], at_created = 0,
     at_priority = 0, at_retry_count = 0, at_max_retries = 3\<rparr>"

definition demo_names :: broker_names where
  "demo_names = \<lparr>bn_exchange = ''agent_tasks'', bn_dlx = ''agent_tasks_dlx''\<rparr>"

definition demo_dlq :: dlq_handler where
  "demo_dlq = \<lparr>dq_names = demo_names, dq_publisher = \<lparr>pu_names = demo_names, pu_channel = True, pu_exchange = Some ''agent_tasks''\<rparr>,
     dq_max_retries = 3, dq_initial_delay = 5000, dq_max_delay = 300000, dq_channel = True, dq_queue = True, dq_consuming = True\<rparr>"


subsection \<open>Divergences\<close>

text \<open>The handler's own \<open>max_retries\<close> is never read.\<close>

theorem handler_limit_ignored: "process_dead_letter stamp (h\<lparr>dq_max_retries := n\<rparr>) t = process_dead_letter stamp h t"
proof -
  have "retry_delay (h\<lparr>dq_max_retries := n\<rparr>) = retry_delay h" by (simp add: retry_delay_def fun_eq_iff)
  then show ?thesis by (cases t) (simp_all add: process_dead_letter_def Let_def)
qed

text \<open>Stopping the dead-letter handler cancels nothing, so starting it again consumes the queue twice; the task
  consumer cancels.\<close>

theorem dlq_restart_consumes_twice:
  assumes "start_processing h = (Inr h1, as1)" "\<not> dq_consuming h" "stop_processing h1 = (h2, as2)" "start_processing h2 = (Inr h3, as3)"
  shows "as1 @ as2 @ as3 = [Consume dlq_name, Consume dlq_name]"
  using assms by (auto simp: start_processing_def stop_processing_def split: if_splits)

text \<open>A consumer never has two subscriptions: what it has sent is balanced by its flag.\<close>

datatype consumer_op = Start string | Stop | Shut

definition consumer_step :: "consumer_op \<Rightarrow> consumer \<Rightarrow> consumer \<times> amqp list" where
  "consumer_step op c = (case op of
      Start tag \<Rightarrow> (case consume_tasks tag c of (Inl e, as) \<Rightarrow> (c, as) | (Inr c', as) \<Rightarrow> (c', as))
    | Stop \<Rightarrow> stop_consuming c | Shut \<Rightarrow> close_consumer c)"

fun consumer_run :: "consumer_op list \<Rightarrow> consumer \<Rightarrow> consumer \<times> amqp list" where
  "consumer_run [] c = (c, [])"
| "consumer_run (op # ops) c = (let (c1, as1) = consumer_step op c; (c2, as2) = consumer_run ops c1 in (c2, as1 @ as2))"

fun subscriptions :: "amqp list \<Rightarrow> int" where
  "subscriptions [] = 0"
| "subscriptions (Consume q # as) = 1 + subscriptions as"
| "subscriptions (Cancel_consumer t # as) = subscriptions as - 1"
| "subscriptions (a # as) = subscriptions as"

lemma subscriptions_append [simp]: "subscriptions (as @ bs) = subscriptions as + subscriptions bs"
  by (induction as rule: subscriptions.induct) auto

definition consumer_ok :: "consumer \<Rightarrow> bool" where
  "consumer_ok c \<longleftrightarrow> cs_consuming c \<longrightarrow> opt_truthy (cs_tag c) \<and> cs_queue c \<noteq> None"

lemma consumer_step_balance:
  assumes "consumer_ok c" "consumer_step op c = (c', as)" "\<forall>tag. op = Start tag \<longrightarrow> tag \<noteq> []"
  shows "consumer_ok c' \<and> subscriptions as = of_bool (cs_consuming c') - of_bool (cs_consuming c)"
  using assms by (cases op)
    (auto simp: consumer_step_def consume_tasks_def stop_consuming_def close_consumer_def consumer_ok_def opt_truthy_def Let_def
      split: option.splits if_splits)

theorem consumer_subscribed_once:
  assumes "consumer_ok c" "\<not> cs_consuming c" "consumer_run ops c = (c', as)" "\<forall>tag. Start tag \<in> set ops \<longrightarrow> tag \<noteq> []"
  shows "subscriptions as = of_bool (cs_consuming c')"
proof -
  have "subscriptions as = of_bool (cs_consuming c') - of_bool (cs_consuming c)"
    using assms(1,3,4)
  proof (induction ops arbitrary: c as)
    case (Cons op ops)
    obtain c1 as1 where s: "consumer_step op c = (c1, as1)" by fastforce
    obtain c2 as2 where r: "consumer_run ops c1 = (c2, as2)" by fastforce
    have e: "c' = c2" "as = as1 @ as2" using Cons.prems(2) s r by auto
    have b: "consumer_ok c1 \<and> subscriptions as1 = of_bool (cs_consuming c1) - of_bool (cs_consuming c)"
      by (rule consumer_step_balance [OF Cons.prems(1) s]) (use Cons.prems(3) in auto)
    have "subscriptions as2 = of_bool (cs_consuming c') - of_bool (cs_consuming c1)"
      by (rule Cons.IH) (use b r e Cons.prems(3) in auto)
    then show ?case using b e by simp
  qed simp
  then show ?thesis using assms(2) by simp
qed

subsection \<open>Serialisation\<close>

lemma task_roundtrip:
  assumes "parse (stamp (at_created t)) = Some (at_created t)" "uuid (at_task_id t) = Some (at_task_id t)"
    "uuid (at_session_id t) = Some (at_session_id t)"
  shows "task_of uuid parse (task_fields stamp t) = Some t"
  using assms by (simp add: task_of_def task_fields_def task_field_names_def keys_def jget_def get_default_def int_field_def nat_field_def)

end
