(* ===== verification/Diagnostics.thy ===== *)
theory Diagnostics
  imports Workflow_Validation Provider_Routing
begin

text \<open>
  The studio's diagnostics of a workflow, \<open>src/src/api/workflow_diagnostics.py\<close>: the graph checks of
  \<open>Workflow_Validation\<close> on loose canvas objects, and the configuration checks of agents, providers and tools.
  \<open>None\<close> is an exception (a field of an unexpected type).  What the import system answers about a module is a
  parameter: whether its spec is found, and what importing it gives.  The em dash of two messages, a code point above 255, is
  written \<open>CHR 0x81\<close>.
\<close>

subsection \<open>Findings\<close>

datatype severity = Sev_error | Sev_warning | Sev_info

record diagnostic =
  dg_code :: string
  dg_severity :: severity
  dg_message :: string
  dg_field :: "string option"
  dg_node :: "string option"
  dg_component :: string
  dg_suggestions :: "string list"
  dg_doc :: string

type_synonym obj = "(string, json) odict"

definition text_field :: "(json \<Rightarrow> string) \<Rightarrow> obj \<Rightarrow> string \<Rightarrow> string" where
  "text_field show d k = text_of show (json_or (jget d k) (JStr []))"

text \<open>\<open>{str(x.get("id")): x for x in xs if x.get("id")}\<close>.\<close>

definition index_by_id :: "(json \<Rightarrow> string) \<Rightarrow> obj list \<Rightarrow> (string, obj) odict" where
  "index_by_id show xs = fold (\<lambda>d. put (text_of show (jget d ''id'')) d) (filter (\<lambda>d. truthy (jget d ''id'')) xs) []"

definition truthy_obj :: "json \<Rightarrow> obj option" where
  "truthy_obj v = (if \<not> truthy v then Some [] else case v of JObj d \<Rightarrow> Some d | _ \<Rightarrow> None)"

definition five :: "(string, 'a) odict \<Rightarrow> string list" where
  "five d = take 5 (sort_strings (keys d))"

subsection \<open>Agents and their models\<close>

definition provider_missing :: "string \<Rightarrow> string \<Rightarrow> (string, obj) odict \<Rightarrow> string option \<Rightarrow> diagnostic" where
  "provider_missing a pid providers node = \<lparr>dg_code = ''provider_missing'', dg_severity = Sev_error,
     dg_message = ''Agent '' @ quoted a @ '' uses provider '' @ quoted pid @ '', which is not configured.'',
     dg_field = Some (''agents['' @ a @ ''].llm_config.provider_id''), dg_node = node, dg_component = ''provider'',
     dg_suggestions = five providers, dg_doc = ''agent''\<rparr>"

definition provider_disabled :: "string \<Rightarrow> string \<Rightarrow> string option \<Rightarrow> diagnostic" where
  "provider_disabled a pid node = \<lparr>dg_code = ''provider_disabled'', dg_severity = Sev_error,
     dg_message = ''Agent '' @ quoted a @ '' uses provider '' @ quoted pid @ '', which is disabled.'',
     dg_field = Some (''agents['' @ a @ ''].llm_config.provider_id''), dg_node = node, dg_component = ''provider'',
     dg_suggestions = [], dg_doc = ''agent''\<rparr>"

definition key_missing :: "string \<Rightarrow> string \<Rightarrow> string \<Rightarrow> string option \<Rightarrow> diagnostic" where
  "key_missing a pid var node = \<lparr>dg_code = ''provider_key_missing'', dg_severity = Sev_error,
     dg_message = ''Provider '' @ quoted pid @ '' has no API key. Set '' @ var @ '' or paste a key in the provider settings.'',
     dg_field = Some (''agents['' @ a @ ''].llm_config.provider_id''), dg_node = node, dg_component = ''provider'',
     dg_suggestions = [], dg_doc = ''agent''\<rparr>"

definition model_unknown :: "string \<Rightarrow> string \<Rightarrow> string \<Rightarrow> string list \<Rightarrow> string option \<Rightarrow> diagnostic" where
  "model_unknown a pid model known node = \<lparr>dg_code = ''model_unknown_for_provider'', dg_severity = Sev_warning,
     dg_message = ''Model '' @ quoted model @ '' is not in the configured list for '' @ quoted pid @ ''. It may still work ''
       @ [em_dash] @ '' refresh the model list to confirm.'',
     dg_field = Some (''agents['' @ a @ ''].llm_config.model''), dg_node = node, dg_component = ''agent'',
     dg_suggestions = take 5 known, dg_doc = ''agent''\<rparr>"

definition agent_llm :: "obj \<Rightarrow> obj option" where
  "agent_llm a = (case jget a ''llm_config'' of JObj d \<Rightarrow> Some d | _ \<Rightarrow> truthy_obj (jget a ''model_config''))"

text \<open>The names of the configured models: each entry must be an object.\<close>

definition known_models :: "(json \<Rightarrow> string) \<Rightarrow> obj \<Rightarrow> string list option" where
  "known_models show p = (case get_default p ''models'' (JList []) of
      JList xs \<Rightarrow> if list_all (\<lambda>v. case v of JObj d \<Rightarrow> True | _ \<Rightarrow> False) xs then
          Some (concat (map (\<lambda>v. case v of JObj d \<Rightarrow> if truthy (jget d ''name'') then [text_of show (jget d ''name'')] else [] | _ \<Rightarrow> []) xs))
        else None
    | JObj [] \<Rightarrow> Some [] | JStr [] \<Rightarrow> Some [] | _ \<Rightarrow> None)"

definition key_findings :: "world_config \<Rightarrow> string \<Rightarrow> string \<Rightarrow> string option \<Rightarrow> obj \<Rightarrow> diagnostic list option" where
  "key_findings wc a pid node p = (case truthy_obj (jget p ''auth'') of
      None \<Rightarrow> None
    | Some auth \<Rightarrow> if truthy (get_default auth ''required'' (JBool (auth \<noteq> []))) then
        (case resolve_api_key wc pid of
           Inl e \<Rightarrow> None
         | Inr k \<Rightarrow> Some (if opt_truthy k then []
             else [key_missing a pid (text_of (wc_show wc) (json_or (jget auth ''env_var'') (JStr (''the provider'' @ [CHR 0x27] @ ''s API key'')))) node]))
      else Some [])"

definition check_agent_model :: "world_config \<Rightarrow> string \<Rightarrow> obj \<Rightarrow> (string, obj) odict \<Rightarrow> string option \<Rightarrow> diagnostic list option" where
  "check_agent_model wc a agent providers node = (case agent_llm agent of None \<Rightarrow> None
     | Some llm \<Rightarrow>
       (let pid = text_field (wc_show wc) llm ''provider_id''; model = text_field (wc_show wc) llm ''model'' in
        if pid = [] then Some []
        else case get providers pid of
          None \<Rightarrow> Some [provider_missing a pid providers node]
        | Some p \<Rightarrow> (case key_findings wc a pid node p of None \<Rightarrow> None
          | Some ks \<Rightarrow> (case known_models (wc_show wc) p of None \<Rightarrow> None
            | Some known \<Rightarrow> Some ((if enabled_provider p then [] else [provider_disabled a pid node]) @ ks
                @ (if model \<noteq> [] \<and> known \<noteq> [] \<and> model \<notin> set known then [model_unknown a pid model known node] else []))))))"

subsection \<open>Tools\<close>

definition unimportable :: "string \<Rightarrow> string \<Rightarrow> diagnostic" where
  "unimportable i message = \<lparr>dg_code = ''tool_entrypoint_unimportable'', dg_severity = Sev_error, dg_message = message,
     dg_field = Some (''tools['' @ i @ ''].entrypoint''), dg_node = None, dg_component = ''tool'', dg_suggestions = [], dg_doc = ''tool''\<rparr>"

record import_system =
  im_spec :: "string \<Rightarrow> bool"
  im_import :: "string \<Rightarrow> string + (string \<Rightarrow> bool)"

definition check_tool_entrypoint :: "(json \<Rightarrow> string) \<Rightarrow> import_system \<Rightarrow> bool \<Rightarrow> obj \<Rightarrow> diagnostic list" where
  "check_tool_entrypoint show im probe tool =
     (let e = jget tool ''entrypoint''; i = text_field show tool ''id''; path = before_char CHR '':'' (text_of show e) in
      if \<not> truthy e then []
      else case after_char CHR '':'' (text_of show e) of None \<Rightarrow> []
      | Some attr \<Rightarrow>
        if \<not> im_spec im path then [unimportable i (''Tool '' @ quoted i @ '' points at module '' @ quoted path @ '', which cannot be found.'')]
        else if probe then (case im_import im path of
            Inl err \<Rightarrow> [unimportable i (''Tool '' @ quoted i @ '' failed to import: '' @ err)]
          | Inr has \<Rightarrow> if has attr then [] else [unimportable i (''Tool '' @ quoted i @ '': module '' @ quoted path @ '' has no '' @ quoted attr @ ''.'')])
        else [])"

definition tool_missing :: "string \<Rightarrow> string \<Rightarrow> (string, obj) odict \<Rightarrow> string option \<Rightarrow> diagnostic" where
  "tool_missing a t tools node = \<lparr>dg_code = ''tool_missing'', dg_severity = Sev_error,
     dg_message = ''Agent '' @ quoted a @ '' references tool '' @ quoted t @ '', which does not exist.'',
     dg_field = Some (''agents['' @ a @ ''].tools''), dg_node = node, dg_component = ''tool'', dg_suggestions = five tools, dg_doc = ''tool''\<rparr>"

definition tool_disabled :: "string \<Rightarrow> string \<Rightarrow> string option \<Rightarrow> diagnostic" where
  "tool_disabled a t node = \<lparr>dg_code = ''tool_disabled_but_referenced'', dg_severity = Sev_error,
     dg_message = ''Tool '' @ quoted t @ '' is disabled but agent '' @ quoted a @ '' still uses it.'',
     dg_field = Some (''tools['' @ t @ ''].enabled''), dg_node = node, dg_component = ''tool'', dg_suggestions = [], dg_doc = ''tool''\<rparr>"

definition tool_findings ::
  "(json \<Rightarrow> string) \<Rightarrow> import_system \<Rightarrow> bool \<Rightarrow> string \<Rightarrow> (string, obj) odict \<Rightarrow> string option \<Rightarrow> json \<Rightarrow> diagnostic list" where
  "tool_findings show im probe a tools node v = (let t = text_of show v in case get tools t of
      None \<Rightarrow> [tool_missing a t tools node]
    | Some tool \<Rightarrow> (if truthy (get_default tool ''enabled'' (JBool True)) then [] else [tool_disabled a t node])
        @ check_tool_entrypoint show im probe tool)"

definition check_tools ::
  "(json \<Rightarrow> string) \<Rightarrow> import_system \<Rightarrow> bool \<Rightarrow> string \<Rightarrow> obj \<Rightarrow> (string, obj) odict \<Rightarrow> string option \<Rightarrow> diagnostic list option" where
  "check_tools show im probe a agent tools node = (let v = jget agent ''tools'' in
     if \<not> truthy v then Some []
     else case v of JList ts \<Rightarrow> Some (concat (map (tool_findings show im probe a tools node) ts))
       | JStr s \<Rightarrow> Some (concat (map (\<lambda>c. tool_findings show im probe a tools node (JStr [c])) s))
       | JObj d \<Rightarrow> Some (concat (map (\<lambda>(k, w). tool_findings show im probe a tools node (JStr k)) d))
       | _ \<Rightarrow> None)"

subsection \<open>The graph\<close>

definition structural_checks_applicable :: "(json \<Rightarrow> string) \<Rightarrow> obj \<Rightarrow> bool" where
  "structural_checks_applicable show t \<longleftrightarrow> (truthy (jget t ''edges'') \<or> truthy (jget t ''connections''))
     \<and> lower (text_field show t ''routing_method'') \<noteq> ''llm'' \<and> \<not> truthy (jget t ''domain_agents'')"

definition node_shim :: "(json \<Rightarrow> string) \<Rightarrow> obj \<Rightarrow> wf_node" where
  "node_shim show n = \<lparr>node_id = text_field show n ''id'', node_agent = text_field show n ''agent_id''\<rparr>"

definition conn_shim :: "(json \<Rightarrow> string) \<Rightarrow> obj \<Rightarrow> connection" where
  "conn_shim show c = \<lparr>from_node = text_of show (json_or (jget c ''from_node'') (json_or (jget c ''source'') (JStr []))),
     to_node = text_of show (json_or (jget c ''to_node'') (json_or (jget c ''target'') (JStr []))),
     conn_type = text_of show (json_or (jget c ''type'') (JStr ''sequential''))\<rparr>"

definition workflow_empty :: diagnostic where
  "workflow_empty = \<lparr>dg_code = ''workflow_empty'', dg_severity = Sev_error, dg_message = ''This workflow has no nodes.'',
     dg_field = None, dg_node = None, dg_component = ''workflow'', dg_suggestions = [], dg_doc = ''workflow''\<rparr>"

definition agent_not_assigned :: "wf_node \<Rightarrow> diagnostic" where
  "agent_not_assigned n = \<lparr>dg_code = ''agent_not_assigned'', dg_severity = Sev_error,
     dg_message = ''Node '' @ quoted (node_id n) @ '' has no agent assigned.'', dg_field = Some (''nodes['' @ node_id n @ ''].agent_id''),
     dg_node = Some (node_id n), dg_component = ''agent'', dg_suggestions = [], dg_doc = ''agent''\<rparr>"

text \<open>\<open>field.removeprefix("nodes[").partition("]")[0] or None\<close>.\<close>

definition field_node :: "string \<Rightarrow> string option" where
  "field_node f = (let s = before_char CHR '']'' (if starts_with ''nodes['' f then drop 6 f else f) in if s = [] then None else Some s)"

definition agent_missing :: "(string, obj) odict \<Rightarrow> validation_error \<Rightarrow> diagnostic" where
  "agent_missing agents e = \<lparr>dg_code = ''agent_missing'', dg_severity = Sev_error, dg_message = err_message e, dg_field = Some (err_field e),
     dg_node = field_node (err_field e), dg_component = ''agent'', dg_suggestions = five agents, dg_doc = ''agent''\<rparr>"

definition bad_connection :: "validation_error \<Rightarrow> diagnostic" where
  "bad_connection e = \<lparr>dg_code = (if err_type e = [] then ''invalid_connection'' else err_type e), dg_severity = Sev_error,
     dg_message = err_message e, dg_field = Some (err_field e), dg_node = None, dg_component = ''workflow'', dg_suggestions = [],
     dg_doc = ''workflow''\<rparr>"

definition cycle_found :: "string list \<Rightarrow> diagnostic" where
  "cycle_found c = \<lparr>dg_code = ''cycle_detected'', dg_severity = Sev_warning,
     dg_message = ''Sequential connections form a cycle: '' @ join '' -> '' c, dg_field = None, dg_node = None, dg_component = ''workflow'',
     dg_suggestions = [], dg_doc = ''workflow''\<rparr>"

definition entry_missing :: "string \<Rightarrow> diagnostic" where
  "entry_missing n = \<lparr>dg_code = ''entry_node_missing'', dg_severity = Sev_error,
     dg_message = ''Entry node '' @ quoted n @ '' is not one of this workflow'' @ [CHR 0x27] @ ''s nodes.'', dg_field = Some ''topology.entry_node'',
     dg_node = None, dg_component = ''workflow'', dg_suggestions = [], dg_doc = ''workflow''\<rparr>"

definition no_explicit_edges :: diagnostic where
  "no_explicit_edges = \<lparr>dg_code = ''no_explicit_edges'', dg_severity = Sev_info,
     dg_message = ''This topology has no explicit edges. Nodes run in declaration order, or routing is decided by the selector at run time.'',
     dg_field = None, dg_node = None, dg_component = ''workflow'', dg_suggestions = [], dg_doc = ''workflow''\<rparr>"

record diagnosis_input =
  di_nodes :: "obj list"
  di_connections :: "obj list"
  di_agents :: "obj list"
  di_tools :: "obj list"
  di_providers :: "obj list"
  di_entry :: "string option"
  di_topology :: "obj option"
  di_probe :: bool

definition structural_findings :: "(json \<Rightarrow> string) \<Rightarrow> diagnosis_input \<Rightarrow> diagnostic list option" where
  "structural_findings show x =
     (let agents = index_by_id show (di_agents x); shims = map (node_shim show) (di_nodes x); conns = map (conn_shim show) (di_connections x) in
      map_option (\<lambda>cs. map agent_not_assigned (filter (\<lambda>n. node_agent n = []) shims)
        @ map (agent_missing agents) (validate_agent_references (filter (\<lambda>n. node_agent n \<noteq> []) shims) (set (keys agents)))
        @ map bad_connection (validate_connections shims conns)
        @ map cycle_found cs
        @ (if opt_truthy (di_entry x) \<and> the (di_entry x) \<notin> set (map (\<lambda>n. text_of show (jget n ''id'')) (di_nodes x))
           then [entry_missing (the (di_entry x))] else [])
        @ (case di_topology x of None \<Rightarrow> [] | Some t \<Rightarrow> if structural_checks_applicable show t then [] else [no_explicit_edges]))
      (detect_cycles conns))"

definition node_findings :: "world_config \<Rightarrow> import_system \<Rightarrow> diagnosis_input \<Rightarrow> obj \<Rightarrow> diagnostic list option" where
  "node_findings wc im x n =
     (let show = wc_show wc; node = text_field show n ''id''; a = text_field show n ''agent_id'' in
      case get (index_by_id show (di_agents x)) a of
        None \<Rightarrow> Some []
      | Some agent \<Rightarrow> (case check_agent_model wc a agent (index_by_id show (di_providers x)) (Some node) of None \<Rightarrow> None
         | Some fs \<Rightarrow> (case check_tools show im (di_probe x) a agent (index_by_id show (di_tools x)) (Some node) of None \<Rightarrow> None
           | Some gs \<Rightarrow> Some (fs @ gs))))"

fun collect :: "('a \<Rightarrow> 'b list option) \<Rightarrow> 'a list \<Rightarrow> 'b list option" where
  "collect f [] = Some []"
| "collect f (x # xs) = (case f x of None \<Rightarrow> None | Some ys \<Rightarrow> map_option (\<lambda>zs. ys @ zs) (collect f xs))"

definition diagnose_graph :: "world_config \<Rightarrow> import_system \<Rightarrow> diagnosis_input \<Rightarrow> diagnostic list option" where
  "diagnose_graph wc im x = (if di_nodes x = [] then Some [workflow_empty]
     else case structural_findings (wc_show wc) x of None \<Rightarrow> None
     | Some fs \<Rightarrow> map_option (\<lambda>gs. fs @ gs) (collect (node_findings wc im x) (di_nodes x)))"


subsection \<open>What the graph findings mean\<close>

lemma enumerate_UN: "(\<Union>(i, c) \<in> set (enumerate n xs). F c) = (\<Union>c \<in> set xs. F c)"
  by (induction xs arbitrary: n) auto

lemma connection_error_types:
  "err_type ` set (connection_errors ids i c) = (if from_node c \<notin> ids \<or> to_node c \<notin> ids then {''missing_node''} else {})
     \<union> (if conn_type c \<notin> {''sequential'', ''parallel''} then {''invalid_value''} else {})"
  by (auto simp: connection_errors_def mk_error_def)

lemma tagged:
  assumes "a \<noteq> b"
  shows "a \<in> (\<Union>c \<in> C. (if P c then {a} else {}) \<union> (if Q c then {b} else {})) \<longleftrightarrow> (\<exists>c \<in> C. P c)"
    "b \<in> (\<Union>c \<in> C. (if P c then {a} else {}) \<union> (if Q c then {b} else {})) \<longleftrightarrow> (\<exists>c \<in> C. Q c)"
    "(\<Union>c \<in> C. (if P c then {a} else {}) \<union> (if Q c then {b} else {})) \<subseteq> {a, b}"
  using assms by (auto split: if_splits)

lemma validate_connections_types:
  "''missing_node'' \<in> err_type ` set (validate_connections ns conns) \<longleftrightarrow> (\<exists>c \<in> set conns. from_node c \<notin> node_id ` set ns \<or> to_node c \<notin> node_id ` set ns)"
  "''invalid_value'' \<in> err_type ` set (validate_connections ns conns) \<longleftrightarrow> (\<exists>c \<in> set conns. conn_type c \<notin> {''sequential'', ''parallel''})"
  "err_type ` set (validate_connections ns conns) \<subseteq> {''missing_node'', ''invalid_value''}"
proof -
  have "err_type ` set (validate_connections ns conns) = (\<Union>c \<in> set conns. err_type ` set (connection_errors (node_id ` set ns) i c))" for i
  proof -
    have "err_type ` set (validate_connections ns conns)
        = (\<Union>(i, c) \<in> set (enumerate 0 conns). err_type ` set (connection_errors (node_id ` set ns) i c))"
      by (auto simp: validate_connections_def)
    also have "\<dots> = (\<Union>c \<in> set conns. err_type ` set (connection_errors (node_id ` set ns) i c))"
      unfolding connection_error_types by (rule enumerate_UN)
    finally show ?thesis .
  qed
  then have e: "err_type ` set (validate_connections ns conns) = (\<Union>c \<in> set conns. err_type ` set (connection_errors (node_id ` set ns) 0 c))" .
  have ne: "''missing_node'' \<noteq> ''invalid_value''" by simp
  show "''missing_node'' \<in> err_type ` set (validate_connections ns conns) \<longleftrightarrow> (\<exists>c \<in> set conns. from_node c \<notin> node_id ` set ns \<or> to_node c \<notin> node_id ` set ns)"
    unfolding e connection_error_types by (rule tagged(1) [OF ne])
  show "''invalid_value'' \<in> err_type ` set (validate_connections ns conns) \<longleftrightarrow> (\<exists>c \<in> set conns. conn_type c \<notin> {''sequential'', ''parallel''})"
    unfolding e connection_error_types by (rule tagged(2) [OF ne])
  show "err_type ` set (validate_connections ns conns) \<subseteq> {''missing_node'', ''invalid_value''}"
    unfolding e connection_error_types by (rule tagged(3) [OF ne])
qed

definition config_codes :: "string set" where
  "config_codes = {''provider_missing'', ''provider_disabled'', ''provider_key_missing'', ''model_unknown_for_provider'', ''tool_missing'',
     ''tool_disabled_but_referenced'', ''tool_entrypoint_unimportable''}"

definition coded :: "diagnostic list \<Rightarrow> bool" where
  "coded fs \<longleftrightarrow> (\<forall>d \<in> set fs. dg_code d \<in> config_codes)"

lemma coded_simps [simp]: "coded []" "coded (d # fs) \<longleftrightarrow> dg_code d \<in> config_codes \<and> coded fs" "coded (fs @ gs) \<longleftrightarrow> coded fs \<and> coded gs"
  "coded (concat fss) \<longleftrightarrow> (\<forall>fs \<in> set fss. coded fs)"
  by (auto simp: coded_def)

lemma config_code_simps [simp]: "dg_code (provider_missing a p ps n) \<in> config_codes" "dg_code (provider_disabled a p n) \<in> config_codes"
  "dg_code (key_missing a p v n) \<in> config_codes" "dg_code (model_unknown a p m ks n) \<in> config_codes" "dg_code (unimportable i msg) \<in> config_codes"
  "dg_code (tool_missing a t ts n) \<in> config_codes" "dg_code (tool_disabled a t n) \<in> config_codes"
  by (simp_all add: config_codes_def provider_missing_def provider_disabled_def key_missing_def model_unknown_def unimportable_def
      tool_missing_def tool_disabled_def)

lemma key_findings_codes: "key_findings wc a pid node p = Some fs \<Longrightarrow> coded fs"
  by (auto simp: key_findings_def split: option.splits if_splits sum.splits)

lemma check_agent_model_codes: "check_agent_model wc a agent ps node = Some fs \<Longrightarrow> coded fs"
  by (auto simp: check_agent_model_def Let_def split: option.splits if_splits dest: key_findings_codes)

lemma tool_findings_codes [simp]: "coded (tool_findings show im probe a tools node v)"
  by (simp add: tool_findings_def check_tool_entrypoint_def Let_def split: option.split sum.split)

lemma check_tools_codes: "check_tools show im probe a agent tools node = Some fs \<Longrightarrow> coded fs"
  by (auto simp: check_tools_def Let_def split: if_splits json.splits)

lemma node_findings_codes: "node_findings wc im x n = Some fs \<Longrightarrow> coded fs"
  by (auto simp: node_findings_def Let_def split: option.splits dest: check_agent_model_codes check_tools_codes)

lemma collect_codes: "collect f xs = Some zs \<Longrightarrow> \<forall>x fs. f x = Some fs \<longrightarrow> coded fs \<Longrightarrow> coded zs"
  by (induction xs arbitrary: zs) (auto split: option.splits)

lemma map_code: "(\<And>y. dg_code (h y) = k) \<Longrightarrow> dg_code ` set (map h ys) = (if ys = [] then {} else {k})"
  by (simp add: image_image image_constant_conv)

lemma disjoint_codes:
  assumes "K = (if P then {} else {a}) \<union> ((if Q then {} else {b}) \<union> (E \<union> ((if R then {} else {c}) \<union> T)))"
    "E \<subseteq> {d, e}" "T \<subseteq> {f, g}" "distinct [a, b, c, d, e, f, g]"
  shows "a \<in> K \<longleftrightarrow> \<not> P" "b \<in> K \<longleftrightarrow> \<not> Q" "c \<in> K \<longleftrightarrow> \<not> R" "d \<in> K \<longleftrightarrow> d \<in> E" "e \<in> K \<longleftrightarrow> e \<in> E"
  using assms by auto

lemma graph_codes: "dg_code (agent_not_assigned n) = ''agent_not_assigned''" "dg_code (agent_missing as e) = ''agent_missing''"
  "dg_code (cycle_found c) = ''cycle_detected''" "dg_code (entry_missing s) = ''entry_node_missing''" "dg_code no_explicit_edges = ''no_explicit_edges''"
  by (simp_all add: agent_not_assigned_def agent_missing_def cycle_found_def entry_missing_def no_explicit_edges_def)

lemma structural_codes:
  assumes "structural_findings show x = Some fs"
  defines "shims \<equiv> map (node_shim show) (di_nodes x)" and "conns \<equiv> map (conn_shim show) (di_connections x)"
  shows "''cycle_detected'' \<in> dg_code ` set fs \<longleftrightarrow> \<not> acyclic (seq_edges conns)"
    "''agent_not_assigned'' \<in> dg_code ` set fs \<longleftrightarrow> (\<exists>n \<in> set shims. node_agent n = [])"
    "''agent_missing'' \<in> dg_code ` set fs \<longleftrightarrow> (\<exists>n \<in> set shims. node_agent n \<noteq> [] \<and> node_agent n \<notin> set (keys (index_by_id show (di_agents x))))"
    "''missing_node'' \<in> dg_code ` set fs \<longleftrightarrow> (\<exists>c \<in> set conns. from_node c \<notin> node_id ` set shims \<or> to_node c \<notin> node_id ` set shims)"
    "''invalid_value'' \<in> dg_code ` set fs \<longleftrightarrow> (\<exists>c \<in> set conns. conn_type c \<notin> {''sequential'', ''parallel''})"
proof -
  obtain cs where cs: "detect_cycles conns = Some cs" "cs = [] \<longleftrightarrow> acyclic (seq_edges conns)"
    by (cases rule: detect_cycles_cases [of conns]) (auto dest: cycle_not_acyclic)
  let ?unassigned = "filter (\<lambda>n. node_agent n = []) shims"
  let ?refs = "validate_agent_references (filter (\<lambda>n. node_agent n \<noteq> []) shims) (set (keys (index_by_id show (di_agents x))))"
  let ?conns = "validate_connections shims conns"
  let ?rest = "(if opt_truthy (di_entry x) \<and> the (di_entry x) \<notin> set (map (\<lambda>n. text_of show (jget n ''id'')) (di_nodes x))
           then [entry_missing (the (di_entry x))] else [])
        @ (case di_topology x of None \<Rightarrow> [] | Some t \<Rightarrow> if structural_checks_applicable show t then [] else [no_explicit_edges])"
  have f: "fs = map agent_not_assigned ?unassigned @ map (agent_missing (index_by_id show (di_agents x))) ?refs
      @ map bad_connection ?conns @ map cycle_found cs @ ?rest"
    using assms(1) cs(1) unfolding structural_findings_def Let_def shims_def conns_def by simp
  have r: "dg_code ` set ?rest \<subseteq> {''entry_node_missing'', ''no_explicit_edges''}"
    by (auto simp: graph_codes split: option.splits if_splits)
  have ty: "err_type e \<noteq> []" if "e \<in> set ?conns" for e
    using subsetD [OF validate_connections_types(3) imageI [OF that]] by auto
  have b: "dg_code ` set (map bad_connection ?conns) = err_type ` set ?conns"
    unfolding set_map image_image by (rule image_cong [OF refl]) (simp add: bad_connection_def ty)
  have c: "dg_code ` set fs = (if ?unassigned = [] then {} else {''agent_not_assigned''}) \<union> ((if ?refs = [] then {} else {''agent_missing''})
      \<union> (err_type ` set ?conns \<union> ((if cs = [] then {} else {''cycle_detected''}) \<union> dg_code ` set ?rest)))"
    unfolding f set_append image_Un b map_code [OF graph_codes(1)] map_code [OF graph_codes(2)] map_code [OF graph_codes(3)] by (rule refl)
  have u: "?unassigned = [] \<longleftrightarrow> \<not> (\<exists>n \<in> set shims. node_agent n = [])" by (auto simp: filter_empty_conv)
  have m: "?refs = [] \<longleftrightarrow> \<not> (\<exists>n \<in> set shims. node_agent n \<noteq> [] \<and> node_agent n \<notin> set (keys (index_by_id show (di_agents x))))"
    by (auto simp: validate_agent_references_def filter_empty_conv)
  note t = validate_connections_types [of shims conns]
  have d: "distinct [''agent_not_assigned'', ''agent_missing'', ''cycle_detected'', ''missing_node'', ''invalid_value'', ''entry_node_missing'',
      ''no_explicit_edges'']" by simp
  note p = disjoint_codes [OF c t(3) r d]
  show "''cycle_detected'' \<in> dg_code ` set fs \<longleftrightarrow> \<not> acyclic (seq_edges conns)" unfolding p(3) cs(2) ..
  show "''agent_not_assigned'' \<in> dg_code ` set fs \<longleftrightarrow> (\<exists>n \<in> set shims. node_agent n = [])" unfolding p(1) u not_not ..
  show "''agent_missing'' \<in> dg_code ` set fs \<longleftrightarrow> (\<exists>n \<in> set shims. node_agent n \<noteq> [] \<and> node_agent n \<notin> set (keys (index_by_id show (di_agents x))))"
    unfolding p(2) m not_not ..
  show "''missing_node'' \<in> dg_code ` set fs \<longleftrightarrow> (\<exists>c \<in> set conns. from_node c \<notin> node_id ` set shims \<or> to_node c \<notin> node_id ` set shims)"
    unfolding p(4) t(1) ..
  show "''invalid_value'' \<in> dg_code ` set fs \<longleftrightarrow> (\<exists>c \<in> set conns. conn_type c \<notin> {''sequential'', ''parallel''})"
    unfolding p(5) t(2) ..
qed



definition demo_wc :: world_config where
  "demo_wc = \<lparr>wc_show = \<lambda>v. ''?'', wc_env = \<lambda>v. None, wc_secrets = None, wc_providers = []\<rparr>"

definition demo_input :: diagnosis_input where
  "demo_input = \<lparr>di_nodes = [ [(''id'', JStr ''n'')] ], di_connections = [ [(''source'', JStr ''n''), (''target'', JStr ''n'')] ], di_agents = [],
     di_tools = [], di_providers = [], di_entry = None, di_topology = None, di_probe = False\<rparr>"


subsection \<open>What a clean model check promises\<close>

lemma auth_required_iff:
  "truthy_obj (jget p ''auth'') = Some auth \<Longrightarrow> auth_required p = Inr (truthy (get_default auth ''required'' (JBool (auth \<noteq> []))))"
  by (auto simp: truthy_obj_def auth_required_def Let_def get_default_def split: if_splits json.splits option.splits)

lemma index_by_id_SomeD: "get (index_by_id show xs) i = Some d \<Longrightarrow> d \<in> set xs \<and> text_of show (jget d ''id'') = i"
proof -
  have "get (fold (\<lambda>d. put (text_of show (jget d ''id'')) d) ys acc) i = Some d
      \<Longrightarrow> get acc i = Some d \<or> d \<in> set ys \<and> text_of show (jget d ''id'') = i" for ys acc
    by (induction ys arbitrary: acc) (fastforce split: if_splits)+
  then show "get (index_by_id show xs) i = Some d \<Longrightarrow> d \<in> set xs \<and> text_of show (jget d ''id'') = i"
    unfolding index_by_id_def by fastforce
qed

lemma check_agent_modelD:
  assumes "check_agent_model wc a agent providers node = Some fs" "agent_llm agent = Some llm" "text_field (wc_show wc) llm ''provider_id'' = pid"
    "pid \<noteq> []" "get providers pid = Some p"
  obtains ks where "key_findings wc a pid node p = Some ks" "set ks \<subseteq> set fs" "enabled_provider p \<or> provider_disabled a pid node \<in> set fs"
proof -
  obtain ks rest where "key_findings wc a pid node p = Some ks"
    "fs = (if enabled_provider p then [] else [provider_disabled a pid node]) @ ks @ rest"
    using assms by (force simp: check_agent_model_def Let_def split: option.splits)
  then show thesis by (intro that) auto
qed

lemma severity_simps [simp]: "dg_severity (provider_missing a p ps n) = Sev_error" "dg_severity (provider_disabled a p n) = Sev_error"
  "dg_severity (key_missing a p v n) = Sev_error"
  by (simp_all add: provider_missing_def provider_disabled_def key_missing_def)

text \<open>When the model check of an agent reports no error, the agent's provider is configured and enabled, its key resolves to a
  non-empty one if the provider requires a key, and the runtime finds the same provider, unless it is not an LLM provider, which
  the check does not look at.\<close>

theorem clean_check_resolves:
  assumes "check_agent_model wc a agent (index_by_id (wc_show wc) (wc_providers wc)) node = Some fs" "\<forall>d \<in> set fs. dg_severity d \<noteq> Sev_error"
    "agent_llm agent = Some llm" "text_field (wc_show wc) llm ''provider_id'' = pid" "pid \<noteq> []"
    "distinct (map (\<lambda>p. jget p ''id'') (wc_providers wc))" "\<forall>p \<in> set (wc_providers wc). \<exists>s. jget p ''id'' = JStr s"
  shows "\<exists>p \<in> set (wc_providers wc). jget p ''id'' = JStr pid \<and> enabled_provider p
    \<and> (auth_required p = Inr True \<longrightarrow> (\<exists>k. resolve_api_key wc pid = Inr (Some k) \<and> k \<noteq> []))
    \<and> find_provider wc pid = (if llm_provider p then Inr p else Inl Not_an_llm)"
proof (cases "get (index_by_id (wc_show wc) (wc_providers wc)) pid")
  case None
  then have "provider_missing a pid (index_by_id (wc_show wc) (wc_providers wc)) node \<in> set fs"
    using assms(1,3,4,5) by (simp add: check_agent_model_def Let_def) force
  then show ?thesis using assms(2) by auto
next
  case (Some p)
  obtain ks where k: "key_findings wc a pid node p = Some ks" "set ks \<subseteq> set fs" "enabled_provider p \<or> provider_disabled a pid node \<in> set fs"
    by (rule check_agent_modelD [OF assms(1,3,4,5) Some])
  have p: "p \<in> set (wc_providers wc)" "jget p ''id'' = JStr pid"
    using index_by_id_SomeD [OF Some] assms(7) by (auto simp: text_of_def)
  have e: "enabled_provider p" using k(3) assms(2) by auto
  have "List.find (\<lambda>q. jget q ''id'' = jget p ''id'') (wc_providers wc) = Some p"
    by (rule find_distinct [OF assms(6) p(1)])
  then have f: "find_provider wc pid = (if llm_provider p then Inr p else Inl Not_an_llm)"
    using e p(2) by (simp add: find_provider_def)
  have "\<exists>k. resolve_api_key wc pid = Inr (Some k) \<and> k \<noteq> []" if "auth_required p = Inr True"
  proof (rule ccontr)
    assume n: "\<not> ?thesis"
    obtain auth where t: "truthy_obj (jget p ''auth'') = Some auth" using k(1) by (auto simp: key_findings_def split: option.splits)
    then have "truthy (get_default auth ''required'' (JBool (auth \<noteq> [])))" using auth_required_iff [OF t] that by simp
    then obtain x where "x \<in> set ks" "dg_severity x = Sev_error"
      using k(1) n t by (auto simp: key_findings_def opt_truthy_def split: sum.splits option.splits if_splits)
    then show False using k(2) assms(2) by auto
  qed
  then show ?thesis using p e f by blast
qed

definition demo_provider :: obj where
  "demo_provider = [(''id'', JStr ''p''), (''type'', JStr ''llm''), (''auth'', JObj [(''env_var'', JStr ''KEY'')])]"

definition demo_world :: world_config where
  "demo_world = \<lparr>wc_show = \<lambda>v. ''?'', wc_env = (\<lambda>v. if v = ''KEY'' then Some ''sk'' else None), wc_secrets = None, wc_providers = [demo_provider]\<rparr>"

definition demo_agent :: obj where
  "demo_agent = [(''llm_config'', JObj [(''provider_id'', JStr ''p''), (''model'', JStr ''m'')])]"

theorem clean_check_resolves_witness:
  "\<exists>p \<in> set (wc_providers demo_world). jget p ''id'' = JStr ''p'' \<and> enabled_provider p
    \<and> (auth_required p = Inr True \<longrightarrow> (\<exists>k. resolve_api_key demo_world ''p'' = Inr (Some k) \<and> k \<noteq> []))
    \<and> find_provider demo_world ''p'' = (if llm_provider p then Inr p else Inl Not_an_llm)"
proof -
  have m: "check_agent_model demo_world ''a'' demo_agent (index_by_id (wc_show demo_world) (wc_providers demo_world)) None = Some []" by code_simp
  have l: "agent_llm demo_agent = Some [(''provider_id'', JStr ''p''), (''model'', JStr ''m'')]" by code_simp
  have p: "text_field (wc_show demo_world) [(''provider_id'', JStr ''p''), (''model'', JStr ''m'')] ''provider_id'' = ''p''" by code_simp
  have i: "distinct (map (\<lambda>p. jget p ''id'') (wc_providers demo_world))" by code_simp
  have j: "\<forall>p \<in> set (wc_providers demo_world). \<exists>s. jget p ''id'' = JStr s"
    by (simp add: demo_world_def demo_provider_def jget_def get_default_def)
  show ?thesis by (rule clean_check_resolves [OF m _ l p _ i j]) simp_all
qed

text \<open>For a disabled provider the check also reports a missing key, whatever keys are configured.\<close>

theorem disabled_provider_blames_key:
  assumes "check_agent_model wc a agent providers node = Some fs" "agent_llm agent = Some llm" "text_field (wc_show wc) llm ''provider_id'' = pid"
    "pid \<noteq> []" "get providers pid = Some p" "find_provider wc pid = Inl Provider_disabled" "auth_required p = Inr True"
    "provider_key wc p = Inr (Some k)" "k \<noteq> []"
  shows "\<exists>d \<in> set fs. dg_code d = ''provider_key_missing''"
proof -
  obtain ks where k: "key_findings wc a pid node p = Some ks" "set ks \<subseteq> set fs"
    by (rule check_agent_modelD [OF assms(1-5)])
  obtain auth where t: "truthy_obj (jget p ''auth'') = Some auth" using k(1) by (auto simp: key_findings_def split: option.splits)
  then have "truthy (get_default auth ''required'' (JBool (auth \<noteq> [])))" using auth_required_iff [OF t] assms(7) by simp
  moreover define v where "v = text_of (wc_show wc) (json_or (jget auth ''env_var'') (JStr (''the provider'' @ [CHR 0x27] @ ''s API key'')))"
  ultimately have "ks = [key_missing a pid v node]"
    using k(1) t assms(6) by (simp add: key_findings_def resolve_api_key_def opt_truthy_def)
  then have "key_missing a pid v node \<in> set fs" using k(2) by simp
  moreover have "dg_code (key_missing a pid v node) = ''provider_key_missing''" by (simp add: key_missing_def)
  ultimately show ?thesis by blast
qed

end
