(* ===== verification/Env_Compat.thy ===== *)
theory Env_Compat
  imports Prelude
begin

text \<open>
  Environment variables and their former \<open>OAK_\<close> names, \<open>src/src/config/env_compat.py\<close>.  The environment is a function
  and the state is the set of names already warned about; a warning is a log record (the old and the new name).
\<close>

type_synonym environ = "string \<Rightarrow> string option"

definition env_prefix :: string where
  "env_prefix = ''DELAXIS_''"

definition legacy_prefix :: string where
  "legacy_prefix = ''OAK_''"

definition legacy_name :: "string \<Rightarrow> string option" where
  "legacy_name name = (if starts_with env_prefix name then Some (legacy_prefix @ drop (length env_prefix) name) else None)"

definition warn_once :: "string \<Rightarrow> string \<Rightarrow> string set \<Rightarrow> string set \<times> (string \<times> string) list" where
  "warn_once legacy current warned = (if legacy \<in> warned then (warned, []) else (insert legacy warned, [(legacy, current)]))"

definition env ::
  "environ \<Rightarrow> string \<Rightarrow> string option \<Rightarrow> string set \<Rightarrow> string option \<times> string set \<times> (string \<times> string) list" where
  "env environ name dflt warned = (case environ name of
      Some v \<Rightarrow> (Some v, warned, [])
    | None \<Rightarrow> (case Option.bind (legacy_name name) (\<lambda>old. map_option (Pair old) (environ old)) of
        Some (old, v) \<Rightarrow> (Some v, warn_once old name warned)
      | None \<Rightarrow> (dflt, warned, [])))"

definition env_value :: "environ \<Rightarrow> string \<Rightarrow> string option \<Rightarrow> string option" where
  "env_value environ name dflt = fst (env environ name dflt {})"

lemma env_value_eq: "fst (env environ name dflt warned) = env_value environ name dflt"
  by (auto simp: env_value_def env_def split: option.splits)

fun read_all :: "environ \<Rightarrow> (string \<times> string option) list \<Rightarrow> string set \<Rightarrow> string option list \<times> string set \<times> (string \<times> string) list" where
  "read_all environ [] warned = ([], warned, [])"
| "read_all environ ((name, dflt) # rest) warned =
     (let (v, warned1, ws) = env environ name dflt warned; (vs, warned2, ws') = read_all environ rest warned1
      in (v # vs, warned2, ws @ ws'))"

lemma legacy_name_inj: "legacy_name a = Some l \<Longrightarrow> legacy_name b = Some l \<Longrightarrow> a = b"
  by (auto simp: legacy_name_def starts_with_def split: if_splits) (metis append_take_drop_id)

lemma env_cases:
  obtains (quiet) v where "env environ name dflt warned = (v, warned, [])"
  | (warns) old v where "legacy_name name = Some old" "environ old = Some v" "environ name = None" "old \<notin> warned"
      "env environ name dflt warned = (Some v, insert old warned, [(old, name)])"
proof (cases "environ name = None \<and> (\<exists>old v. legacy_name name = Some old \<and> environ old = Some v \<and> old \<notin> warned)")
  case True
  then obtain old v where "environ name = None" "legacy_name name = Some old" "environ old = Some v" "old \<notin> warned" by blast
  then show ?thesis by (intro warns [of old v]) (simp_all add: env_def warn_once_def)
next
  case False
  then show ?thesis by (intro quiet [of "fst (env environ name dflt warned)"])
      (auto simp: env_def warn_once_def split: option.splits bind_splits)
qed

text \<open>However many reads there are, each old name is warned about at most once, and never when it was warned about before;
  what is read is independent of the warnings.\<close>

theorem warned_once:
  "read_all environ rs warned = (vs, warned', ws) \<Longrightarrow>
     distinct (map fst ws) \<and> set (map fst ws) \<inter> warned = {} \<and> warned' = warned \<union> set (map fst ws)
     \<and> vs = map (\<lambda>(n, d). env_value environ n d) rs"
proof (induction rs arbitrary: warned vs warned' ws)
  case (Cons r rs)
  obtain n d where r: "r = (n, d)" by (cases r)
  obtain v w1 us where e: "env environ n d warned = (v, w1, us)" by (metis prod_cases3)
  obtain vs' us' where t: "read_all environ rs w1 = (vs', warned', us')" "vs = v # vs'" "ws = us @ us'"
    using Cons.prems by (auto simp: r e split: prod.splits)
  have v: "v = env_value environ n d" using env_value_eq [of environ n d warned] e by simp
  note i = Cons.IH [OF t(1)]
  show ?case
    by (cases rule: env_cases [of environ n d warned]) (use e i t v r in auto)
qed simp

end
