(* ===== verification/Sandbox.thy ===== *)
theory Sandbox
  imports Env_Compat "HOL-Library.Sublist"
begin

text \<open>
  The sandbox of the context tools, \<open>src/src/tools/context_tree.py\<close> lines 128 to 193, over a file system with
  symbolic links.  A file system is the list of entries of its root directory; a path is the list of its
  components.  \<open>walk_path\<close> is \<open>os.path.realpath\<close> and, when strict, the path lookup of the operating system, without
  its bound on the number of links; search permissions of directories and names with a NUL character are left out.
\<close>

subsection \<open>The file system\<close>

type_synonym path = "string list"

record file_data =
  fd_bytes :: string
  fd_readable :: bool
  fd_modified :: string

datatype node = Dir bool "(string \<times> node) list" | File file_data | Link bool path

type_synonym files = "(string \<times> node) list"

fun lstat :: "node \<Rightarrow> path \<Rightarrow> node option" where
  "lstat n [] = Some n"
| "lstat (Dir r es) (x # p) = (case get es x of None \<Rightarrow> None | Some n \<Rightarrow> lstat n p)"
| "lstat _ (x # p) = None"

definition node_at :: "files \<Rightarrow> path \<Rightarrow> node option" where
  "node_at fs = lstat (Dir True fs)"

definition is_dir_node :: "node option \<Rightarrow> bool" where
  "is_dir_node n \<longleftrightarrow> (case n of Some (Dir r es) \<Rightarrow> True | _ \<Rightarrow> False)"

text \<open>The links being resolved are finitely many, so the resolution ends: a link met while it is being resolved is a loop.\<close>

lemma finite_links: "finite {p. \<exists>a q. lstat n p = Some (Link a q)}"
proof (induction n)
  case (Dir r es)
  have "{p. \<exists>a q. lstat (Dir r es) p = Some (Link a q)}
      \<subseteq> (\<Union>(x, n) \<in> set es. Cons x ` {p. \<exists>a q. lstat n p = Some (Link a q)})" (is "?L \<subseteq> ?R")
  proof
    fix p assume "p \<in> ?L"
    then obtain a q where l: "lstat (Dir r es) p = Some (Link a q)" by blast
    then obtain x p' n where "p = x # p'" "get es x = Some n" "lstat n p' = Some (Link a q)"
      by (cases p) (auto split: option.splits)
    then show "p \<in> ?R" by (force dest: map_of_SomeD)
  qed
  moreover have "finite ?R" using Dir by (auto simp: snds.simps)
  ultimately show ?case by (rule finite_subset)
next
  case (File d)
  have "{p. \<exists>a q. lstat (File d) p = Some (Link a q)} = {}" by (auto elim: lstat.elims)
  then show ?case by simp
next
  case (Link a q)
  have "{p. \<exists>b r. lstat (Link a q) p = Some (Link b r)} \<subseteq> {[]}" by (auto elim: lstat.elims)
  then show ?case by (rule finite_subset) simp
qed

definition open_links :: "files \<Rightarrow> path list \<Rightarrow> path set" where
  "open_links fs seen = {p. \<exists>a q. node_at fs p = Some (Link a q)} - set seen"

lemma finite_open_links: "finite (open_links fs seen)"
  unfolding open_links_def node_at_def using finite_links by blast

lemma open_links_decreases:
  "node_at fs p = Some (Link a q) \<Longrightarrow> p \<notin> set seen \<Longrightarrow> card (open_links fs (p # seen)) < card (open_links fs seen)"
  by (rule psubset_card_mono [OF finite_open_links]) (auto simp: open_links_def)

function walk_path :: "bool \<Rightarrow> files \<Rightarrow> path list \<Rightarrow> path \<Rightarrow> path \<Rightarrow> path option" where
  "walk_path strict fs seen cur [] = Some cur"
| "walk_path strict fs seen cur (x # rest) =
     (if x = ''..'' then (if strict \<and> \<not> is_dir_node (node_at fs cur) then None else walk_path strict fs seen (butlast cur) rest)
      else case node_at fs (cur @ [x]) of
        None \<Rightarrow> if strict then None else walk_path strict fs seen (cur @ [x]) rest
      | Some (Link absolute target) \<Rightarrow>
          if cur @ [x] \<in> set seen then None
          else (case walk_path strict fs ((cur @ [x]) # seen) (if absolute then [] else cur) target of
              None \<Rightarrow> None
            | Some p \<Rightarrow> walk_path strict fs seen p rest)
      | Some n \<Rightarrow> walk_path strict fs seen (cur @ [x]) rest)"
  by pat_completeness auto
termination
  by (relation "measures [\<lambda>(strict, fs, seen, cur, rest). card (open_links fs seen), \<lambda>(strict, fs, seen, cur, rest). length rest]")
    (auto intro: open_links_decreases)

text \<open>\<open>Path.resolve()\<close>, whose loop is a \<open>RuntimeError\<close>, and what the operating system finds at a path it follows.\<close>

definition real_path :: "files \<Rightarrow> path \<Rightarrow> path option" where
  "real_path fs p = walk_path False fs [] [] p"

definition stat :: "files \<Rightarrow> path \<Rightarrow> node option" where
  "stat fs p = (case walk_path True fs [] [] p of None \<Rightarrow> None | Some q \<Rightarrow> node_at fs q)"

definition is_link :: "files \<Rightarrow> path \<Rightarrow> bool" where
  "is_link fs p \<longleftrightarrow> (case node_at fs p of Some (Link a q) \<Rightarrow> True | _ \<Rightarrow> False)"

definition no_links :: "files \<Rightarrow> path \<Rightarrow> bool" where
  "no_links fs p \<longleftrightarrow> list_all (\<lambda>q. \<not> is_link fs q) (prefixes p)"

lemma no_links_iff: "no_links fs p \<longleftrightarrow> (\<forall>q. prefix q p \<longrightarrow> \<not> is_link fs q)"
  by (auto simp: no_links_def list_all_iff in_set_prefixes)

lemma no_links_Nil [simp]: "no_links fs []"
  by (simp add: no_links_def is_link_def node_at_def)

lemma no_links_snoc: "no_links fs (p @ [x]) \<longleftrightarrow> no_links fs p \<and> \<not> is_link fs (p @ [x])"
  by (auto simp: no_links_iff prefix_snoc)

lemma no_links_butlast: "no_links fs p \<Longrightarrow> no_links fs (butlast p)"
  by (meson no_links_iff prefix_order.trans prefixeq_butlast)

lemma walk_path_no_links:
  "walk_path strict fs seen cur rest = Some p \<Longrightarrow> no_links fs cur \<Longrightarrow> no_links fs p"
proof (induction strict fs seen cur rest arbitrary: p rule: walk_path.induct)
  case (2 strict fs seen cur x rest)
  show ?case
  proof (cases "x = ''..''")
    case True
    then show ?thesis using 2 no_links_butlast by (auto split: if_splits)
  next
    case False
    show ?thesis
    proof (cases "node_at fs (cur @ [x])")
      case None
      then show ?thesis using 2 False by (auto simp: no_links_snoc is_link_def split: if_splits)
    next
      case (Some n)
      then show ?thesis using 2 False
        by (cases n) (auto simp: no_links_snoc is_link_def split: if_splits option.splits)
    qed
  qed
qed simp

text \<open>A path without links and without \<open>..\<close> leads to itself.\<close>

lemma lstat_prefix: "lstat n p = None \<Longrightarrow> lstat n (p @ q) = None"
  by (induction n p rule: lstat.induct) (auto split: option.splits)

lemma walk_path_plain:
  "no_links fs (cur @ rest) \<Longrightarrow> ''..'' \<notin> set rest \<Longrightarrow>
     walk_path strict fs seen cur rest = (if strict \<and> rest \<noteq> [] \<and> node_at fs (cur @ rest) = None then None else Some (cur @ rest))"
proof (induction rest arbitrary: cur)
  case (Cons x rest)
  have n: "\<not> is_link fs (cur @ [x])" using Cons.prems(1) by (auto simp: no_links_iff)
  have i: "walk_path strict fs seen (cur @ [x]) rest
      = (if strict \<and> rest \<noteq> [] \<and> node_at fs (cur @ x # rest) = None then None else Some (cur @ x # rest))"
    using Cons.IH [of "cur @ [x]"] Cons.prems by simp
  show ?case
  proof (cases "node_at fs (cur @ [x])")
    case None
    then have "node_at fs (cur @ x # rest) = None" using lstat_prefix [of "Dir True fs" "cur @ [x]" rest] by (simp add: node_at_def)
    then show ?thesis using None i Cons.prems(2) by auto
  next
    case (Some m)
    then show ?thesis using i n Cons.prems(2) by (cases m) (auto simp: is_link_def)
  qed
qed simp

lemma walk_path_no_dots:
  "walk_path strict fs seen cur rest = Some p \<Longrightarrow> ''..'' \<notin> set cur \<Longrightarrow> ''..'' \<notin> set p"
proof (induction strict fs seen cur rest arbitrary: p rule: walk_path.induct)
  case (2 strict fs seen cur x rest)
  then show ?case
    by (auto split: if_splits option.splits node.splits dest: in_set_butlastD)
qed simp

lemma stat_real_path:
  assumes "real_path fs p = Some q"
  shows "stat fs q = node_at fs q" "real_path fs q = Some q" "no_links fs q"
proof -
  have n: "no_links fs ([] @ q)" using assms walk_path_no_links [of False fs "[]" "[]" p q] by (simp add: real_path_def)
  have d: "''..'' \<notin> set q" using assms walk_path_no_dots [of False fs "[]" "[]" p q] by (simp add: real_path_def)
  show "no_links fs q" using n by simp
  show "real_path fs q = Some q" "stat fs q = node_at fs q"
    using walk_path_plain [OF n d, of False "[]"] walk_path_plain [OF n d, of True "[]"] by (auto simp: real_path_def stat_def)
qed

subsection \<open>Roots\<close>

text \<open>A \<open>Path\<close> object: absolute or not, and its parts, from which empty components and \<open>.\<close> are gone.\<close>

datatype path_object = Absolute path | Relative path

definition parse_path :: "string \<Rightarrow> path_object" where
  "parse_path s = (if starts_with ''/'' s then Absolute else Relative) (filter (\<lambda>x. x \<noteq> [] \<and> x \<noteq> ''.'') (split_on (CHR ''/'') s))"

fun under :: "path_object \<Rightarrow> path \<Rightarrow> path_object" where
  "under (Absolute p) q = Absolute (p @ q)"
| "under (Relative p) q = Relative (p @ q)"

record context_world =
  cw_env :: environ
  cw_home :: "string \<Rightarrow> string option"
  cw_cwd :: path
  cw_project :: path
  cw_made :: "path_object \<Rightarrow> bool"
  cw_files :: files
  cw_decode :: "string \<Rightarrow> string"

text \<open>\<open>Denied\<close> is a \<open>ContextAccessError\<close> with its message; \<open>Raised\<close> is a \<open>RuntimeError\<close> (an unknown home directory, a loop
  of links), which none of the tools catches.\<close>

datatype access_error = Denied string | Raised

definition expand_user :: "context_world \<Rightarrow> path_object \<Rightarrow> access_error + path_object" where
  "expand_user w p = (case p of
      Relative (x # q) \<Rightarrow> if starts_with ''~'' x then (case cw_home w x of None \<Rightarrow> Inl Raised | Some h \<Rightarrow> Inr (under (parse_path h) q)) else Inr p
    | _ \<Rightarrow> Inr p)"

definition resolve_path :: "context_world \<Rightarrow> path_object \<Rightarrow> access_error + path" where
  "resolve_path w p = (case real_path (cw_files w) (case p of Absolute q \<Rightarrow> q | Relative q \<Rightarrow> cw_cwd w @ q) of
      None \<Rightarrow> Inl Raised | Some q \<Rightarrow> Inr q)"

definition path_str :: "path \<Rightarrow> string" where
  "path_str p = ''/'' @ join ''/'' p"

definition data_dir :: "context_world \<Rightarrow> path_object" where
  "data_dir w = (let d = path_str (cw_project w @ [''data'']) in parse_path (opt_or (env_value (cw_env w) ''DELAXIS_DATA_DIR'' (Some d)) d))"

fun each :: "('a \<Rightarrow> 'e + 'b) \<Rightarrow> 'a list \<Rightarrow> 'e + 'b list" where
  "each f [] = Inr []"
| "each f (x # xs) = (case f x of Inl e \<Rightarrow> Inl e | Inr y \<Rightarrow> map_sum id (Cons y) (each f xs))"

definition configured_roots :: "context_world \<Rightarrow> access_error + path_object list" where
  "configured_roots w = (let c = opt_or (env_value (cw_env w) ''DELAXIS_CONTEXT_ROOTS'' (Some [])) [] in
     if strip c \<noteq> [] then each (expand_user w \<circ> parse_path) (filter (\<lambda>part. strip part \<noteq> []) (split_on CHR '':'' c))
     else Inr [under (data_dir w) [''uploads''], under (data_dir w) [''context'']])"

definition context_roots :: "context_world \<Rightarrow> access_error + path list" where
  "context_roots w = (case configured_roots w of Inl e \<Rightarrow> Inl e | Inr rs \<Rightarrow> each (resolve_path w) (filter (cw_made w) rs))"

text \<open>\<open>root in candidate.parents\<close> compares components, so a root is not mistaken for a sibling with a longer name.\<close>

definition within_root :: "path \<Rightarrow> path \<Rightarrow> bool" where
  "within_root p base \<longleftrightarrow> p = base \<or> base \<in> set (map (\<lambda>k. take k p) [0..<length p])"

definition path_name :: "path \<Rightarrow> string" where
  "path_name p = (if p = [] then [] else last p)"

definition relative_label :: "path list \<Rightarrow> path \<Rightarrow> string" where
  "relative_label roots p = (case List.find (within_root p) roots of
      Some r \<Rightarrow> if p = r then path_name r else join ''/'' (drop (length r) p)
    | None \<Rightarrow> path_name p)"

lemma within_root_iff: "within_root p base \<longleftrightarrow> prefix base p"
proof
  assume "prefix base p"
  then obtain t where t: "p = base @ t" by (auto simp: prefix_def)
  then have "base = take (length base) p \<and> length base < length p" if "t \<noteq> []" using that by simp
  then show "within_root p base" unfolding within_root_def using t by (cases "t = []") (auto intro!: image_eqI [of _ _ "length base"])
qed (auto simp: within_root_def take_is_prefix)

subsection \<open>Resolving a path inside the sandbox\<close>

text \<open>The first root under which the relative path exists.\<close>

fun first_existing :: "context_world \<Rightarrow> path \<Rightarrow> path list \<Rightarrow> access_error + path option" where
  "first_existing w q [] = Inr None"
| "first_existing w q (base # rs) = (case resolve_path w (Absolute (base @ q)) of
      Inl e \<Rightarrow> Inl e
    | Inr p \<Rightarrow> if within_root p base \<and> stat (cw_files w) p \<noteq> None then Inr (Some p) else first_existing w q rs)"

definition no_roots_message :: string where
  "no_roots_message = ''No context roots are configured or creatable. Set DELAXIS_CONTEXT_ROOTS.''"

definition outside_message :: "string \<Rightarrow> path list \<Rightarrow> string" where
  "outside_message path roots = ''Path '' @ quoted path @ '' is outside every configured context base. Allowed roots: '' @ join '', '' (map path_str roots)"

definition check_within :: "string \<Rightarrow> path list \<Rightarrow> path \<Rightarrow> access_error + path" where
  "check_within path roots p = (if list_ex (within_root p) roots then Inr p else Inl (Denied (outside_message path roots)))"

definition resolve_in_sandbox :: "context_world \<Rightarrow> string \<Rightarrow> access_error + path" where
  "resolve_in_sandbox w path = (case context_roots w of Inl e \<Rightarrow> Inl e
     | Inr roots \<Rightarrow> if roots = [] then Inl (Denied no_roots_message)
       else (case (if path = [] then Inr (Relative []) else expand_user w (parse_path path)) of Inl e \<Rightarrow> Inl e
         | Inr (Relative q) \<Rightarrow> (case first_existing w q roots of Inl e \<Rightarrow> Inl e
             | Inr (Some p) \<Rightarrow> Inr p
             | Inr None \<Rightarrow> (case resolve_path w (Absolute (hd roots @ q)) of Inl e \<Rightarrow> Inl e | Inr p \<Rightarrow> check_within path roots p))
         | Inr (Absolute q) \<Rightarrow> (case resolve_path w (Absolute q) of Inl e \<Rightarrow> Inl e | Inr p \<Rightarrow> check_within path roots p)))"

lemma first_existingD:
  "first_existing w q roots = Inr (Some p) \<Longrightarrow>
     (\<exists>r \<in> set roots. within_root p r \<and> resolve_path w (Absolute (r @ q)) = Inr p) \<and> stat (cw_files w) p \<noteq> None"
  by (induction roots) (auto split: sum.splits if_splits)

lemma check_withinD: "check_within path roots p = Inr q \<Longrightarrow> q = p \<and> (\<exists>r \<in> set roots. within_root p r)"
  by (auto simp: check_within_def list_ex_iff split: if_splits)

lemma resolve_in_sandboxD:
  assumes "resolve_in_sandbox w path = Inr p" "context_roots w = Inr roots"
  obtains r q where "r \<in> set roots" "prefix r p" "real_path (cw_files w) q = Some p"
  using assms unfolding resolve_in_sandbox_def
  by (auto simp: resolve_path_def within_root_iff split: sum.splits option.splits if_splits path_object.splits
      dest!: first_existingD check_withinD)


definition text_file :: "string \<Rightarrow> node" where
  "text_file s = File \<lparr>fd_bytes = s, fd_readable = True, fd_modified = ''2025-01-01T00:00:00+00:00''\<rparr>"

definition demo_files :: files where
  "demo_files = [(''srv'', Dir True [(''ctx'', Dir True [(''a.md'', text_file ''hello''), (''in.md'', Link False [''..'', ''ctx'', ''a.md'']),
        (''out.md'', Link True [''etc'', ''secret'']), (''up'', Link True [''etc''])])]),
     (''etc'', Dir True [(''secret'', text_file ''the key'')])]"

definition demo_context :: context_world where
  "demo_context = \<lparr>cw_env = (\<lambda>v. if v = ''OAK_CONTEXT_ROOTS'' then Some ''/srv/ctx'' else None), cw_home = (\<lambda>v. None), cw_cwd = [],
     cw_project = [''app''], cw_made = (\<lambda>p. True), cw_files = demo_files, cw_decode = id\<rparr>"


end
