(* ===== verification/Context_Tree.thy ===== *)
theory Context_Tree
  imports Sandbox Chunking "HOL-Library.List_Lexorder" "HOL-Library.Char_ord" "HOL-Library.Product_Lexorder"
begin

text \<open>
  The context tools on the sandbox, \<open>src/src/tools/context_tree.py\<close>: the indented tree, reading a range of lines, searching
  and describing.  A tool returns the object it serialises, \<open>None\<close> is an exception.  Files are bytes, one per character;
  their decoding, regular expressions and the outline rules are parameters.  The four box-drawing characters of the tree
  are written \<open>CHR 0x82\<close> to \<open>CHR 0x86\<close>.
\<close>

subsection \<open>Name patterns and text files\<close>

text \<open>\<open>fnmatch\<close>: a class holds ranges, and an empty range matches nothing.\<close>

datatype glob = Any_char | Star | Literal char | One_of bool "(char \<times> char) list"

fun char_ranges :: "string \<Rightarrow> (char \<times> char) list" where
  "char_ranges (a # d # b # s) = (if d = CHR ''-'' then (a, b) # char_ranges s else (a, a) # char_ranges (d # b # s))"
| "char_ranges (a # s) = (a, a) # char_ranges s"
| "char_ranges [] = []"

definition skip_char :: "char \<Rightarrow> string \<Rightarrow> string \<times> string" where
  "skip_char c s = (if s \<noteq> [] \<and> hd s = c then ([c], tl s) else ([], s))"

definition class_body :: "string \<Rightarrow> (bool \<times> string \<times> string) option" where
  "class_body s = (let (a, s1) = skip_char CHR ''!'' s; (b, s2) = skip_char CHR '']'' s1 in
     map_option (\<lambda>rest. (a \<noteq> [], b @ before_char CHR '']'' s2, rest)) (after_char CHR '']'' s2))"

lemma class_body_shorter: "class_body s = Some (n, b, rest) \<Longrightarrow> length rest < length s"
proof -
  have a: "after_char c t = Some r \<Longrightarrow> length r < length t" for c t r
    using length_dropWhile_le [of "\<lambda>d. d \<noteq> c" t] by (auto simp: after_char_def split: list.splits)
  have k: "length (snd (skip_char c t)) \<le> length t" for c t by (auto simp: skip_char_def)
  show "class_body s = Some (n, b, rest) \<Longrightarrow> length rest < length s"
    using k [of "CHR ''!''" s] k [of "CHR '']''" "snd (skip_char CHR ''!'' s)"]
    by (auto simp: class_body_def split: prod.splits dest!: a)
qed

function parse_glob :: "string \<Rightarrow> glob list" where
  "parse_glob [] = []"
| "parse_glob (c # s) =
     (if c = CHR ''*'' then Star # parse_glob s
      else if c = CHR ''?'' then Any_char # parse_glob s
      else if c = CHR ''['' then (case class_body s of None \<Rightarrow> Literal c # parse_glob s
        | Some (neg, body, rest) \<Rightarrow> One_of neg (char_ranges body) # parse_glob rest)
      else Literal c # parse_glob s)"
  by pat_completeness auto
termination by (relation "measure length") (auto dest: class_body_shorter)

definition in_ranges :: "(char \<times> char) list \<Rightarrow> char \<Rightarrow> bool" where
  "in_ranges rs c \<longleftrightarrow> list_ex (\<lambda>(a, b). a \<le> c \<and> c \<le> b) rs"

fun glob_match :: "glob list \<Rightarrow> string \<Rightarrow> bool" where
  "glob_match [] s \<longleftrightarrow> s = []"
| "glob_match (Star # g) [] \<longleftrightarrow> glob_match g []"
| "glob_match (Star # g) (c # s) \<longleftrightarrow> glob_match g (c # s) \<or> glob_match (Star # g) s"
| "glob_match (Any_char # g) s \<longleftrightarrow> s \<noteq> [] \<and> glob_match g (tl s)"
| "glob_match (Literal d # g) s \<longleftrightarrow> s \<noteq> [] \<and> hd s = d \<and> glob_match g (tl s)"
| "glob_match (One_of neg rs # g) s \<longleftrightarrow> s \<noteq> [] \<and> in_ranges rs (hd s) \<noteq> neg \<and> glob_match g (tl s)"

definition fnmatch :: "string \<Rightarrow> string \<Rightarrow> bool" where
  "fnmatch name pat = glob_match (parse_glob pat) name"

definition default_ignores :: "string list" where
  "default_ignores = [''.git'', ''.hg'', ''.svn'', ''node_modules'', ''__pycache__'', ''.venv'', ''venv'', ''.mypy_cache'',
     ''.pytest_cache'', ''.ruff_cache'', ''.idea'', ''.vscode'', ''dist'', ''build'', ''.next'', ''.cache'', ''htmlcov'', ''.DS_Store'']"

definition ignored :: "string \<Rightarrow> string list \<Rightarrow> bool" where
  "ignored name extra \<longleftrightarrow> name \<in> set default_ignores \<or> list_ex (fnmatch name) extra"

definition text_suffixes :: "string list" where
  "text_suffixes = [''.txt'', ''.md'', ''.markdown'', ''.rst'', ''.json'', ''.jsonl'', ''.yaml'', ''.yml'', ''.toml'', ''.ini'', ''.cfg'',
     ''.conf'', ''.env'', ''.csv'', ''.tsv'', ''.xml'', ''.html'', ''.htm'', ''.css'', ''.scss'', ''.js'', ''.jsx'', ''.ts'', ''.tsx'',
     ''.py'', ''.rb'', ''.go'', ''.rs'', ''.java'', ''.kt'', ''.c'', ''.h'', ''.cpp'', ''.hpp'', ''.cs'', ''.php'', ''.sh'', ''.bash'', ''.zsh'',
     ''.sql'', ''.graphql'', ''.proto'', ''.log'', ''.tex'', ''.srt'']"

text \<open>\<open>Path.suffix\<close>: from the last dot, if it is neither the first nor the last character.\<close>

definition path_suffix :: "path \<Rightarrow> string" where
  "path_suffix p = (let n = path_name p; tail = rev (takeWhile (\<lambda>c. c \<noteq> CHR ''.'') (rev n)) in
     if tail = [] \<or> Suc (length tail) \<ge> length n then [] else CHR ''.'' # tail)"

text \<open>Strict UTF-8: no overlong form, no surrogate, nothing above U+10FFFF.\<close>

definition is_cont :: "char \<Rightarrow> bool" where
  "is_cont c \<longleftrightarrow> 0x80 \<le> code c \<and> code c \<le> 0xBF"

definition utf8_tail :: "char \<Rightarrow> (nat \<times> nat \<times> nat) option" where
  "utf8_tail c = (let n = code c in
     if n < 0x80 then Some (0, 0, 0xFF) else if n < 0xC2 then None else if n \<le> 0xDF then Some (1, 0x80, 0xBF)
     else if n = 0xE0 then Some (2, 0xA0, 0xBF) else if n = 0xED then Some (2, 0x80, 0x9F) else if n \<le> 0xEF then Some (2, 0x80, 0xBF)
     else if n = 0xF0 then Some (3, 0x90, 0xBF) else if n < 0xF4 then Some (3, 0x80, 0xBF) else if n = 0xF4 then Some (3, 0x80, 0x8F) else None)"

function utf8_ok :: "string \<Rightarrow> bool" where
  "utf8_ok [] \<longleftrightarrow> True"
| "utf8_ok (c # s) \<longleftrightarrow> (case utf8_tail c of None \<Rightarrow> False
     | Some (k, lo, hi) \<Rightarrow> k \<le> length s \<and> list_all is_cont (take k s) \<and> (0 < k \<longrightarrow> lo \<le> code (hd s) \<and> code (hd s) \<le> hi) \<and> utf8_ok (drop k s))"
  by pat_completeness auto
termination by (relation "measure length") auto

definition open_bytes :: "context_world \<Rightarrow> path \<Rightarrow> string option" where
  "open_bytes w p = (case stat (cw_files w) p of Some (File d) \<Rightarrow> if fd_readable d then Some (fd_bytes d) else None | _ \<Rightarrow> None)"

definition is_texty :: "context_world \<Rightarrow> path \<Rightarrow> bool" where
  "is_texty w p \<longleftrightarrow> lower (path_suffix p) \<in> set text_suffixes
     \<or> (case open_bytes w p of None \<Rightarrow> False | Some bs \<Rightarrow> CHR 0x00 \<notin> set (take 2048 bs) \<and> utf8_ok (take 2048 bs))"

text \<open>\<open>f"{size:.1f}"\<close> for \<open>n / d\<close>, rounded half to even.\<close>

definition one_decimal :: "nat \<Rightarrow> nat \<Rightarrow> string" where
  "one_decimal n d = (let q = 10 * n div d; r = 10 * n mod d; t = (if 2 * r < d \<or> 2 * r = d \<and> even q then q else Suc q)
     in nat_str (t div 10) @ ''.'' @ nat_str (t mod 10))"

definition human_size :: "nat \<Rightarrow> string" where
  "human_size n = (if n < 1024 then nat_str n @ ''B'' else if n < 1024 ^ 2 then one_decimal n 1024 @ ''KB''
     else if n < 1024 ^ 3 then one_decimal n (1024 ^ 2) @ ''MB'' else one_decimal n (1024 ^ 3) @ ''GB'')"

subsection \<open>The tree\<close>

record tree_state =
  ts_dirs :: nat
  ts_files :: nat
  ts_bytes :: nat
  ts_truncated :: bool
  ts_lines :: "string list"

definition max_entries :: nat where
  "max_entries = 1000"

definition corner :: string where "corner = [CHR 0x82, CHR 0x84, CHR 0x84, CHR '' '']"

definition branch :: string where "branch = [CHR 0x83, CHR 0x84, CHR 0x84, CHR '' '']"

definition is_dir_at :: "context_world \<Rightarrow> path \<Rightarrow> bool" where
  "is_dir_at w p \<longleftrightarrow> is_dir_node (stat (cw_files w) p)"

definition size_at :: "context_world \<Rightarrow> path \<Rightarrow> nat" where
  "size_at w p = (case stat (cw_files w) p of Some (File d) \<Rightarrow> length (fd_bytes d) | _ \<Rightarrow> 0)"

definition iter_dir :: "context_world \<Rightarrow> path \<Rightarrow> string list option" where
  "iter_dir w p = (case stat (cw_files w) p of Some (Dir True es) \<Rightarrow> Some (map fst es) | _ \<Rightarrow> None)"

definition sorted_entries :: "context_world \<Rightarrow> string list \<Rightarrow> path \<Rightarrow> string list \<Rightarrow> string list" where
  "sorted_entries w ig dir names = sort_key (\<lambda>x. (\<not> is_dir_at w (dir @ [x]), lower x)) (filter (\<lambda>x. \<not> ignored x ig) names)"

definition seen_entries :: "tree_state \<Rightarrow> nat" where
  "seen_entries st = ts_files st + ts_dirs st"

definition connector :: "bool \<Rightarrow> string" where
  "connector is_last = (if is_last then corner else branch)"

definition indent :: "bool \<Rightarrow> string" where
  "indent is_last = (if is_last then ''    '' else CHR 0x86 # ''   '')"

definition unreadable_line :: "string \<Rightarrow> string" where
  "unreadable_line pre = pre @ corner @ ''[unreadable: PermissionError]''"

definition dir_line :: "string \<Rightarrow> bool \<Rightarrow> string \<Rightarrow> string" where
  "dir_line pre is_last name = pre @ connector is_last @ name @ ''/''"

definition file_line :: "string \<Rightarrow> bool \<Rightarrow> string \<Rightarrow> nat \<Rightarrow> string" where
  "file_line pre is_last name n = pre @ connector is_last @ name @ ''  ('' @ human_size n @ '')''"

definition count_dir :: "string \<Rightarrow> tree_state \<Rightarrow> tree_state" where
  "count_dir l st = st\<lparr>ts_dirs := Suc (ts_dirs st), ts_lines := ts_lines st @ [l]\<rparr>"

definition count_file :: "string \<Rightarrow> nat \<Rightarrow> tree_state \<Rightarrow> tree_state" where
  "count_file l n st = st\<lparr>ts_files := Suc (ts_files st), ts_bytes := ts_bytes st + n, ts_lines := ts_lines st @ [l]\<rparr>"

text \<open>The loop over the entries of a directory; \<open>descend\<close> is the recursive call for one of them.\<close>

fun walk_entries ::
  "context_world \<Rightarrow> (path \<Rightarrow> string \<Rightarrow> tree_state \<Rightarrow> tree_state) \<Rightarrow> path \<Rightarrow> string \<Rightarrow> string list \<Rightarrow> tree_state \<Rightarrow> tree_state" where
  "walk_entries w descend dir pre [] st = st"
| "walk_entries w descend dir pre (x # xs) st =
     (if max_entries \<le> seen_entries st then st\<lparr>ts_truncated := True\<rparr>
      else walk_entries w descend dir pre xs
        (if is_dir_at w (dir @ [x]) then descend (dir @ [x]) (pre @ indent (xs = [])) (count_dir (dir_line pre (xs = []) x) st)
         else count_file (file_line pre (xs = []) x (size_at w (dir @ [x]))) (size_at w (dir @ [x])) st))"

text \<open>The number is how many levels may still be descended.\<close>

primrec walk_tree :: "nat \<Rightarrow> context_world \<Rightarrow> string list \<Rightarrow> path \<Rightarrow> string \<Rightarrow> tree_state \<Rightarrow> tree_state" where
  "walk_tree 0 w ig dir pre st = st"
| "walk_tree (Suc l) w ig dir pre st =
     (if max_entries \<le> seen_entries st then st
      else case iter_dir w dir of
        None \<Rightarrow> st\<lparr>ts_lines := ts_lines st @ [unreadable_line pre]\<rparr>
      | Some names \<Rightarrow> walk_entries w (walk_tree l w ig) dir pre (sorted_entries w ig dir names) st)"

type_synonym report_object = "(string \<times> json) list"

definition tool_error :: "string \<Rightarrow> report_object option" where
  "tool_error m = Some [(''error'', JStr m)]"

definition when_allowed :: "access_error + 'a \<Rightarrow> ('a \<Rightarrow> report_object option) \<Rightarrow> report_object option" where
  "when_allowed r f = (case r of Inl (Denied m) \<Rightarrow> tool_error m | Inl Raised \<Rightarrow> None | Inr x \<Rightarrow> f x)"

fun tree_targets :: "context_world \<Rightarrow> path list \<Rightarrow> string \<Rightarrow> nat \<Rightarrow> string list \<Rightarrow> path list \<Rightarrow> tree_state \<Rightarrow> string + tree_state" where
  "tree_targets w roots path levels ig [] st = Inr st"
| "tree_targets w roots path levels ig (t # ts) st =
     (case stat (cw_files w) t of
        None \<Rightarrow> Inl (quoted path @ '' does not exist.'')
      | Some (File d) \<Rightarrow> Inl (quoted path @ '' is a file, not a directory. Use read_context_file instead.'')
      | Some n \<Rightarrow> tree_targets w roots path levels ig ts
          (walk_tree levels w ig t [] (st\<lparr>ts_lines := ts_lines st @ [relative_label roots t @ ''/'']\<rparr>)))"

definition targets_of :: "context_world \<Rightarrow> string \<Rightarrow> access_error + path list" where
  "targets_of w path = (if path \<noteq> [] then map_sum id (\<lambda>p. [p]) (resolve_in_sandbox w path) else context_roots w)"

definition no_roots_configured :: string where
  "no_roots_configured = ''No context roots are configured.''"

definition truncated_line :: string where
  "truncated_line = ''... truncated at '' @ nat_str max_entries @ '' entries '' @ [em_dash] @ '' narrow the path or depth''"

definition context_tree :: "context_world \<Rightarrow> string \<Rightarrow> int \<Rightarrow> string \<Rightarrow> report_object option" where
  "context_tree w path max_depth ignore =
     (let levels = nat (max 1 (min max_depth 10)); ig = filter (\<lambda>p. p \<noteq> []) (map strip (split_on CHR '','' ignore)) in
      when_allowed (targets_of w path) (\<lambda>targets.
        if path = [] \<and> targets = [] then tool_error no_roots_configured
        else when_allowed (context_roots w) (\<lambda>roots.
          case tree_targets w roots path levels ig targets \<lparr>ts_dirs = 0, ts_files = 0, ts_bytes = 0, ts_truncated = False, ts_lines = []\<rparr> of
            Inl m \<Rightarrow> tool_error m
          | Inr st \<Rightarrow> Some [(''tree'', JStr (join [newline] (ts_lines st @ (if ts_truncated st then [truncated_line] else [])))),
              (''directories'', JInt (int (ts_dirs st))), (''files'', JInt (int (ts_files st))),
              (''total_size'', JStr (human_size (ts_bytes st))), (''truncated'', JBool (ts_truncated st))])))"

subsection \<open>Reading\<close>

definition max_read :: nat where
  "max_read = 256000"

text \<open>\<open>str.splitlines\<close>; a file opened as text has its line ends translated and is iterated by line feeds only.\<close>

definition ends_line :: "char \<Rightarrow> bool" where
  "ends_line c \<longleftrightarrow> (let n = code c in (10 \<le> n \<and> n \<le> 13) \<or> (28 \<le> n \<and> n \<le> 30) \<or> n = 133)"

fun after_break :: "string \<Rightarrow> string" where
  "after_break (c # d # s) = (if c = carriage_return \<and> d = newline then s else d # s)"
| "after_break s = []"

lemma length_after_break: "length (after_break s) \<le> length s - 1"
  by (induction s rule: after_break.induct) auto

function splitlines :: "string \<Rightarrow> string list" where
  "splitlines [] = []"
| "splitlines (c # s) = takeWhile (\<lambda>d. \<not> ends_line d) (c # s) # splitlines (after_break (dropWhile (\<lambda>d. \<not> ends_line d) (c # s)))"
  by pat_completeness auto
termination
proof (relation "measure length")
  fix c :: char and s :: string
  have "length (after_break (dropWhile (\<lambda>d. \<not> ends_line d) (c # s))) < length (c # s)"
    using length_after_break [of "dropWhile (\<lambda>d. \<not> ends_line d) (c # s)"] length_dropWhile_le [of "\<lambda>d. \<not> ends_line d" "c # s"]
    by (simp only: length_Cons)
  then show "(after_break (dropWhile (\<lambda>d. \<not> ends_line d) (c # s)), c # s) \<in> measure length" by simp
qed simp

function file_lines :: "string \<Rightarrow> string list" where
  "file_lines [] = []"
| "file_lines (c # s) = (case dropWhile (\<lambda>d. d \<noteq> newline) (c # s) of [] \<Rightarrow> [c # s]
     | d # t \<Rightarrow> (takeWhile (\<lambda>d. d \<noteq> newline) (c # s) @ [newline]) # file_lines t)"
  by pat_completeness auto
termination
proof (relation "measure length")
  fix c :: char and s :: string and d t
  assume "dropWhile (\<lambda>d. d \<noteq> newline) (c # s) = d # t"
  then show "(t, c # s) \<in> measure length" using length_dropWhile_le [of "\<lambda>d. d \<noteq> newline" "c # s"] by simp
qed simp

definition open_text :: "context_world \<Rightarrow> path \<Rightarrow> string option" where
  "open_text w p = map_option (\<lambda>bs. unify_newlines (cw_decode w bs)) (open_bytes w p)"

definition line_range :: "int \<Rightarrow> int \<Rightarrow> 'a list \<Rightarrow> nat \<times> nat \<times> 'a list" where
  "line_range start_line end_line xs =
     (let first = nat (max 1 start_line); n = length xs; final = (if end_line \<le> 0 then n else min (nat end_line) n)
      in (first, final, if first \<le> n then drop (first - 1) (take final xs) else []))"

definition missing_message :: "string \<Rightarrow> string" where
  "missing_message path = quoted path @ '' does not exist.''"

definition directory_message :: "string \<Rightarrow> string" where
  "directory_message path = quoted path @ '' is a directory. Use context_tree instead.''"

definition binary_message :: "string \<Rightarrow> string" where
  "binary_message path = quoted path @ '' is not a text file. Use analyze_file for binary documents and images.''"

text \<open>The message of a failed \<open>open\<close> ends with the error of the operating system, here the one left: no permission.\<close>

definition unread_message :: "string \<Rightarrow> path \<Rightarrow> string" where
  "unread_message path target = ''Could not read '' @ quoted path @ '': [Errno 13] Permission denied: '' @ quoted (path_str target)"

definition read_context_file :: "context_world \<Rightarrow> string \<Rightarrow> int \<Rightarrow> int \<Rightarrow> report_object option" where
  "read_context_file w path start_line end_line =
     when_allowed (resolve_in_sandbox w path) (\<lambda>target. case stat (cw_files w) target of
         None \<Rightarrow> tool_error (missing_message path)
       | Some n \<Rightarrow> if is_dir_node (Some n) then tool_error (directory_message path)
         else if \<not> is_texty w target then tool_error (binary_message path)
         else case open_text w target of None \<Rightarrow> tool_error (unread_message path target)
           | Some t \<Rightarrow>
             let all_lines = splitlines (take max_read t); (first, final, selected) = line_range start_line end_line all_lines
             in when_allowed (context_roots w) (\<lambda>roots.
               Some [(''path'', JStr (relative_label roots target)), (''content'', JStr (join [newline] selected)),
                (''lines'', JInt (int (length selected))), (''total_lines'', JInt (int (length all_lines))),
                (''start_line'', JInt (int first)), (''end_line'', JInt (int final)),
                (''truncated'', JBool (max_read < size_at w target))]))"

subsection \<open>Searching\<close>

definition max_search_files :: nat where
  "max_search_files = 2000"

text \<open>\<open>os.walk\<close>: the files of a directory, then its subdirectories; links to directories are not followed, and every other
  entry, links to files included, is a file.\<close>

fun walk_files :: "context_world \<Rightarrow> string list \<Rightarrow> path \<Rightarrow> node \<Rightarrow> path list" where
  "walk_files w ig p (Dir r es) = (if r then
       map (\<lambda>e. p @ [fst e]) (filter (\<lambda>e. \<not> is_dir_at w (p @ [fst e])) es)
         @ concat (map (\<lambda>e. if ignored (fst e) ig then [] else walk_files w ig (p @ [fst e]) (snd e)) es)
     else [])"
| "walk_files w ig p _ = []"

definition candidate_files :: "context_world \<Rightarrow> path \<Rightarrow> string \<Rightarrow> string list \<Rightarrow> path list" where
  "candidate_files w base name_glob ig = take max_search_files
     (filter (\<lambda>p. \<not> ignored (path_name p) ig \<and> (name_glob \<noteq> [] \<longrightarrow> fnmatch (path_name p) name_glob))
       (case stat (cw_files w) base of None \<Rightarrow> [] | Some n \<Rightarrow> walk_files w ig base n))"

type_synonym search_match = "string \<times> nat \<times> string"

fun scan_lines :: "(string \<Rightarrow> bool) \<Rightarrow> nat \<Rightarrow> string \<Rightarrow> nat \<Rightarrow> string list \<Rightarrow> search_match list \<Rightarrow> search_match list" where
  "scan_lines hit limit label number [] ms = ms"
| "scan_lines hit limit label number (l # ls) ms =
     (if hit l then let ms' = ms @ [(label, number, take 300 (strip l))] in
        if limit \<le> length ms' then ms' else scan_lines hit limit label (Suc number) ls ms'
      else scan_lines hit limit label (Suc number) ls ms)"

fun search_files ::
  "context_world \<Rightarrow> path list \<Rightarrow> (string \<Rightarrow> bool) \<Rightarrow> nat \<Rightarrow> path list \<Rightarrow> search_match list \<times> nat \<Rightarrow> search_match list \<times> nat" where
  "search_files w roots hit limit [] st = st"
| "search_files w roots hit limit (c # cs) (ms, scanned) =
     (if limit \<le> length ms then (ms, scanned)
      else if \<not> is_texty w c then search_files w roots hit limit cs (ms, scanned)
      else search_files w roots hit limit cs
        (case open_text w c of None \<Rightarrow> ms | Some t \<Rightarrow> scan_lines hit limit (relative_label roots c) 1 (file_lines t) ms, Suc scanned))"

text \<open>\<open>re.escape\<close>, and the compiled pattern: the query as written, else as a literal text.\<close>

definition re_escape :: "string \<Rightarrow> string" where
  "re_escape s = concat (map (\<lambda>c. if c \<in> set (''()[]{}?*+-|^$.&~# '' @ [CHR 0x5C, CHR 0x09, CHR 0x0A, CHR 0x0D, CHR 0x0B, CHR 0x0C])
     then [CHR 0x5C, c] else [c]) s)"

definition compile_query :: "(string \<Rightarrow> (string \<Rightarrow> bool) option) \<Rightarrow> string \<Rightarrow> bool \<Rightarrow> (string \<Rightarrow> bool) option" where
  "compile_query rx query case_sensitive =
     (let flag = (if case_sensitive then [] else ''(?i)'') in
      case rx (flag @ query) of Some h \<Rightarrow> Some h | None \<Rightarrow> rx (flag @ re_escape query))"

definition search_candidates :: "context_world \<Rightarrow> string \<Rightarrow> path \<Rightarrow> path list" where
  "search_candidates w file_pattern base = (case stat (cw_files w) base of
      Some (File d) \<Rightarrow> [base] | _ \<Rightarrow> candidate_files w base file_pattern [])"

fun search_roots ::
  "context_world \<Rightarrow> path list \<Rightarrow> (string \<Rightarrow> bool) \<Rightarrow> nat \<Rightarrow> string \<Rightarrow> path list \<Rightarrow> search_match list \<times> nat \<Rightarrow> search_match list \<times> nat" where
  "search_roots w roots hit limit file_pattern [] st = st"
| "search_roots w roots hit limit file_pattern (b # bs) st =
     search_roots w roots hit limit file_pattern bs (search_files w roots hit limit (search_candidates w file_pattern b) st)"

definition match_object :: "search_match \<Rightarrow> json" where
  "match_object m = (case m of (label, n, t) \<Rightarrow> JObj [(''path'', JStr label), (''line'', JInt (int n)), (''text'', JStr t)])"

definition search_context_tree ::
  "(string \<Rightarrow> (string \<Rightarrow> bool) option) \<Rightarrow> context_world \<Rightarrow> string \<Rightarrow> string \<Rightarrow> string \<Rightarrow> int \<Rightarrow> bool \<Rightarrow> report_object option" where
  "search_context_tree rx w query path file_pattern max_results case_sensitive =
     (if strip query = [] then tool_error (''A non-empty '' @ quoted ''query'' @ '' is required.'')
      else case compile_query rx query case_sensitive of None \<Rightarrow> None
      | Some hit \<Rightarrow> when_allowed (targets_of w path) (\<lambda>bases.
          if bases = [] then tool_error no_roots_configured
          else when_allowed (context_roots w) (\<lambda>roots.
            let limit = nat (max 1 (min max_results 200)); (ms, scanned) = search_roots w roots hit limit file_pattern bases ([], 0)
            in Some [(''count'', JInt (int (length ms))), (''files_scanned'', JInt (int scanned)),
                 (''truncated'', JBool (limit \<le> length ms)), (''matches'', JList (map match_object ms))])))"

subsection \<open>Describing\<close>

definition outline_suffixes :: "string list" where
  "outline_suffixes = [''.md'', ''.py'', ''.ts'', ''.tsx'', ''.js'', ''.sql'']"

definition outline :: "(string \<Rightarrow> string \<Rightarrow> bool) \<Rightarrow> path \<Rightarrow> string \<Rightarrow> string list" where
  "outline rule p body = (let suffix = lower (path_suffix p) in
     if suffix \<in> set outline_suffixes then take 60 (map (\<lambda>l. take 120 (strip l)) (filter (rule suffix) (splitlines body))) else [])"

definition describe_context_file :: "(string \<Rightarrow> string \<Rightarrow> bool) \<Rightarrow> context_world \<Rightarrow> string \<Rightarrow> report_object option" where
  "describe_context_file rule w path =
     when_allowed (resolve_in_sandbox w path) (\<lambda>target. case stat (cw_files w) target of
         None \<Rightarrow> tool_error (missing_message path)
       | Some (File d) \<Rightarrow> when_allowed (context_roots w) (\<lambda>roots.
           let suffix = lower (path_suffix target); n = length (fd_bytes d);
             report = [(''path'', JStr (relative_label roots target)), (''size'', JStr (human_size n)), (''size_bytes'', JInt (int n)),
               (''suffix'', if suffix = [] then JNull else JStr suffix), (''modified'', JStr (fd_modified d))] in
           if \<not> is_texty w target then Some (report @ [(''kind'', JStr ''binary''),
             (''note'', JStr (''Binary file '' @ [em_dash] @ '' use analyze_file to extract text or inspect an image.''))])
           else case open_text w target of None \<Rightarrow> tool_error (unread_message path target)
             | Some t \<Rightarrow> let body = take max_read t in
                 Some (report @ [(''kind'', JStr ''text''), (''lines'', JInt (int (Suc (count_list body newline)))),
                   (''outline'', JList (map JStr (outline rule target body))), (''preview'', JStr (take 600 body))]))
       | Some n \<Rightarrow> tool_error (directory_message path))"

definition list_context_roots :: "context_world \<Rightarrow> report_object option" where
  "list_context_roots w = (case context_roots w of Inl e \<Rightarrow> None
     | Inr roots \<Rightarrow> Some [(''count'', JInt (int (length roots))),
         (''roots'', JList (map (\<lambda>r. JObj [(''root'', JStr (path_name r)), (''path'', JStr (path_str r)),
            (''entries'', JInt (int (case iter_dir w r of None \<Rightarrow> 0 | Some ns \<Rightarrow> length ns)))]) roots))])"

subsection \<open>The tree is a prefix of the full listing\<close>

text \<open>The reference: every entry of the tree in order, with no limit on their number.\<close>

datatype tree_item = Item_dir string | Item_file string nat | Item_unreadable string

fun item_line :: "tree_item \<Rightarrow> string" where
  "item_line (Item_dir l) = l" | "item_line (Item_file l n) = l" | "item_line (Item_unreadable l) = l"

fun entry_items ::
  "context_world \<Rightarrow> (path \<Rightarrow> string \<Rightarrow> tree_item list) \<Rightarrow> path \<Rightarrow> string \<Rightarrow> string list \<Rightarrow> tree_item list" where
  "entry_items w below dir pre [] = []"
| "entry_items w below dir pre (x # xs) =
     (if is_dir_at w (dir @ [x]) then Item_dir (dir_line pre (xs = []) x) # below (dir @ [x]) (pre @ indent (xs = []))
      else [Item_file (file_line pre (xs = []) x (size_at w (dir @ [x]))) (size_at w (dir @ [x]))]) @ entry_items w below dir pre xs"

primrec tree_items :: "nat \<Rightarrow> context_world \<Rightarrow> string list \<Rightarrow> path \<Rightarrow> string \<Rightarrow> tree_item list" where
  "tree_items 0 w ig dir pre = []"
| "tree_items (Suc l) w ig dir pre = (case iter_dir w dir of None \<Rightarrow> [Item_unreadable (unreadable_line pre)]
     | Some names \<Rightarrow> entry_items w (tree_items l w ig) dir pre (sorted_entries w ig dir names))"

fun is_entry :: "tree_item \<Rightarrow> bool" where
  "is_entry (Item_unreadable l) = False" | "is_entry _ = True"

definition entries :: "tree_item list \<Rightarrow> nat" where
  "entries is = length (filter is_entry is)"

text \<open>The shortest prefix that holds the first \<open>n\<close> entries.\<close>

fun first_entries :: "nat \<Rightarrow> tree_item list \<Rightarrow> tree_item list" where
  "first_entries 0 is = []"
| "first_entries n [] = []"
| "first_entries (Suc n) (i # is) = i # first_entries (if is_entry i then n else Suc n) is"

fun record_item :: "tree_item \<Rightarrow> tree_state \<Rightarrow> tree_state" where
  "record_item (Item_dir l) st = count_dir l st"
| "record_item (Item_file l n) st = count_file l n st"
| "record_item (Item_unreadable l) st = st\<lparr>ts_lines := ts_lines st @ [l]\<rparr>"

definition plain :: "tree_state \<Rightarrow> tree_state" where
  "plain st = st\<lparr>ts_truncated := False\<rparr>"

lemma entries_simps [simp]: "entries [] = 0" "entries (i # is) = (if is_entry i then Suc (entries is) else entries is)"
  "entries (is @ js) = entries is + entries js"
  by (simp_all add: entries_def)

lemma first_entries_Nil [simp]: "first_entries n [] = []"
  by (cases n) simp_all

lemma first_entries_single [simp]: "first_entries n [i] = (if n = 0 then [] else [i])"
  by (cases n) simp_all

lemma first_entries_append: "first_entries n (is @ js) = first_entries n is @ first_entries (n - entries is) js"
  by (induction n "is" rule: first_entries.induct) auto

lemma first_entries_all: "entries is < n \<Longrightarrow> first_entries n is = is"
  by (induction n "is" rule: first_entries.induct) (auto split: if_splits)

lemma entries_first_entries: "entries (first_entries n is) = min n (entries is)"
  by (induction n "is" rule: first_entries.induct) auto

lemma seen_plain [simp]: "seen_entries (plain st) = seen_entries st" "plain (plain st) = plain st"
  by (simp_all add: seen_entries_def plain_def)

lemma seen_record_item: "seen_entries (record_item i st) = seen_entries st + (if is_entry i then 1 else 0)"
  by (cases i) (simp_all add: seen_entries_def count_dir_def count_file_def)

lemma seen_record_items: "seen_entries (fold record_item is st) = seen_entries st + entries is"
  by (induction "is" arbitrary: st) (simp_all add: seen_record_item)

lemma plain_record_item: "plain (record_item i st) = record_item i (plain st)"
  "ts_truncated (record_item i st) = ts_truncated st"
  by (cases i; simp add: plain_def count_dir_def count_file_def)+

text \<open>A step that appends the entries of a listing up to the limit, and raises the flag only when some are left.\<close>

definition renders :: "(tree_state \<Rightarrow> tree_state) \<Rightarrow> tree_item list \<Rightarrow> bool" where
  "renders f is \<longleftrightarrow> (\<forall>st. seen_entries st \<le> max_entries \<longrightarrow>
     plain (f st) = fold record_item (first_entries (max_entries - seen_entries st) is) (plain st)
     \<and> (ts_truncated st \<longrightarrow> ts_truncated (f st))
     \<and> (ts_truncated (f st) \<longrightarrow> ts_truncated st \<or> max_entries < seen_entries st + entries is))"

lemma renders_seen:
  assumes "renders f is" "seen_entries st \<le> max_entries"
  shows "seen_entries (f st) = seen_entries st + min (max_entries - seen_entries st) (entries is)"
proof -
  have "seen_entries (plain (f st)) = seen_entries st + min (max_entries - seen_entries st) (entries is)"
    using assms by (auto simp: renders_def seen_record_items entries_first_entries)
  then show ?thesis by simp
qed

lemma renders_append:
  assumes "renders f is" "renders g js"
  shows "renders (\<lambda>st. g (f st)) (is @ js)"
proof -
  have "plain (g (f st)) = fold record_item (first_entries (max_entries - seen_entries st) (is @ js)) (plain st)
      \<and> (ts_truncated st \<longrightarrow> ts_truncated (g (f st)))
      \<and> (ts_truncated (g (f st)) \<longrightarrow> ts_truncated st \<or> max_entries < seen_entries st + entries (is @ js))"
    if s: "seen_entries st \<le> max_entries" for st
  proof -
    have n: "seen_entries (f st) = seen_entries st + min (max_entries - seen_entries st) (entries is)"
      by (rule renders_seen [OF assms(1) s])
    then have m: "seen_entries (f st) \<le> max_entries" "max_entries - seen_entries (f st) = max_entries - seen_entries st - entries is"
      using s by auto
    note F = assms(1) [unfolded renders_def, rule_format, OF s] and G = assms(2) [unfolded renders_def, rule_format, OF m(1)]
    show ?thesis using F G m n by (auto simp: first_entries_append)
  qed
  then show ?thesis by (simp add: renders_def)
qed

lemma renders_Nil: "renders (\<lambda>st. st) []"
  by (simp add: renders_def)

lemma renders_guarded:
  assumes "renders f is" "is_entry i"
  shows "renders (\<lambda>st. if max_entries \<le> seen_entries st then st\<lparr>ts_truncated := True\<rparr> else f (record_item i st)) (i # is)"
proof -
  have "plain (f (record_item i st)) = fold record_item (first_entries (max_entries - seen_entries st) (i # is)) (plain st)
      \<and> (ts_truncated st \<longrightarrow> ts_truncated (f (record_item i st)))
      \<and> (ts_truncated (f (record_item i st)) \<longrightarrow> ts_truncated st \<or> max_entries < seen_entries st + entries (i # is))"
    if s: "seen_entries st < max_entries" for st
  proof -
    have m: "max_entries - seen_entries st = Suc (max_entries - Suc (seen_entries st))" using s by simp
    show ?thesis using assms s m
      by (auto simp: renders_def seen_record_item plain_record_item dest!: spec [of _ "record_item i st"])
  qed
  then show ?thesis using assms(2) by (auto simp: renders_def plain_def)
qed

lemma walk_entries_renders:
  assumes "\<And>d p. renders (descend d p) (below d p)"
  shows "renders (walk_entries w descend dir pre xs) (entry_items w below dir pre xs)"
proof (induction xs)
  case Nil
  show ?case by (simp add: renders_Nil)
next
  case (Cons x xs)
  let ?n = "size_at w (dir @ [x])" and ?p = "xs = []"
  show ?case
  proof (cases "is_dir_at w (dir @ [x])")
    case True
    show ?thesis using renders_guarded [OF renders_append [OF assms [of "dir @ [x]" "pre @ indent ?p"] Cons.IH], of "Item_dir (dir_line pre ?p x)"] True
      by (simp add: fun_eq_iff cong: if_cong)
  next
    case False
    show ?thesis using renders_guarded [OF Cons.IH, of "Item_file (file_line pre ?p x ?n) ?n"] False by (simp cong: if_cong)
  qed
qed

lemma walk_tree_renders: "renders (walk_tree l w ig dir pre) (tree_items l w ig dir pre)"
proof (induction l arbitrary: dir pre)
  case 0
  show ?case using renders_Nil by simp
next
  case (Suc l)
  show ?case
  proof (cases "iter_dir w dir")
    case None
    show ?thesis unfolding renders_def
      by (auto simp: None plain_def)
  next
    case (Some names)
    have "renders (walk_entries w (walk_tree l w ig) dir pre (sorted_entries w ig dir names)) (tree_items (Suc l) w ig dir pre)"
      using walk_entries_renders [OF Suc.IH] Some by simp
    then show ?thesis by (simp add: renders_def Some) 
  qed
qed

definition item_size :: "tree_item \<Rightarrow> nat" where
  "item_size i = (case i of Item_file l n \<Rightarrow> n | _ \<Rightarrow> 0)"

definition is_dir_item :: "tree_item \<Rightarrow> bool" where
  "is_dir_item i \<longleftrightarrow> (case i of Item_dir l \<Rightarrow> True | _ \<Rightarrow> False)"

lemma record_item_fields:
  "ts_lines (record_item i st) = ts_lines st @ [item_line i]" "ts_bytes (record_item i st) = ts_bytes st + item_size i"
  "ts_dirs (record_item i st) = ts_dirs st + (if is_dir_item i then 1 else 0)"
  by (cases i; simp add: count_dir_def count_file_def item_size_def is_dir_item_def)+

lemma record_items_fields:
  "ts_lines (fold record_item is st) = ts_lines st @ map item_line is"
  "ts_bytes (fold record_item is st) = ts_bytes st + sum_list (map item_size is)"
  "ts_dirs (fold record_item is st) = ts_dirs st + length (filter is_dir_item is)"
proof -
  show "ts_lines (fold record_item is st) = ts_lines st @ map item_line is"
    by (induction "is" arbitrary: st) (simp_all add: record_item_fields)
  show "ts_bytes (fold record_item is st) = ts_bytes st + sum_list (map item_size is)"
    by (induction "is" arbitrary: st) (simp_all add: record_item_fields)
  show "ts_dirs (fold record_item is st) = ts_dirs st + length (filter is_dir_item is)"
    by (induction "is" arbitrary: st) (simp_all add: record_item_fields)
qed

lemma plain_fields: "ts_lines (plain st) = ts_lines st" "ts_bytes (plain st) = ts_bytes st" "ts_dirs (plain st) = ts_dirs st"
  by (simp_all add: plain_def)

text \<open>The tree shows the first entries of the full listing of the directory, in its order and up to the limit of 1000, with
  exact counts and total size; below the limit the listing is complete, and a tree marked as truncated leaves something out.\<close>

theorem tree_is_listing_prefix:
  assumes "seen_entries st \<le> 1000"
  shows "let st' = walk_tree l w ig dir pre st; full = tree_items l w ig dir pre; shown = first_entries (1000 - seen_entries st) full in
      ts_lines st' = ts_lines st @ map item_line shown
    \<and> ts_dirs st' = ts_dirs st + length (filter is_dir_item shown)
    \<and> ts_bytes st' = ts_bytes st + sum_list (map item_size shown)
    \<and> seen_entries st' = min 1000 (seen_entries st + entries full)
    \<and> (seen_entries st' < 1000 \<longrightarrow> shown = full)
    \<and> (ts_truncated st' \<and> \<not> ts_truncated st \<longrightarrow> 1000 < seen_entries st + entries full)"
proof -
  let ?st = "walk_tree l w ig dir pre st" and ?full = "tree_items l w ig dir pre"
  note r = walk_tree_renders [of l w ig dir pre]
  have s: "seen_entries st \<le> max_entries" using assms by (simp add: max_entries_def)
  have p: "plain ?st = fold record_item (first_entries (1000 - seen_entries st) ?full) (plain st)"
    "ts_truncated ?st \<longrightarrow> ts_truncated st \<or> 1000 < seen_entries st + entries ?full"
    using r s by (auto simp: renders_def max_entries_def)
  have n: "seen_entries ?st = min 1000 (seen_entries st + entries ?full)"
    using renders_seen [OF r s] assms by (auto simp: max_entries_def)
  show ?thesis unfolding Let_def
    using arg_cong [OF p(1), of ts_lines] arg_cong [OF p(1), of ts_dirs] arg_cong [OF p(1), of ts_bytes] p(2) n
    by (auto simp: plain_fields record_items_fields intro: first_entries_all)
qed

theorem tree_is_listing_prefix_witness:
  "let st = \<lparr>ts_dirs = 0, ts_files = 0, ts_bytes = 0, ts_truncated = False, ts_lines = []\<rparr>; full = tree_items 2 demo_context [] [''srv''] [] in
     ts_lines (walk_tree 2 demo_context [] [''srv''] [] st) = map item_line (first_entries 1000 full) \<and> entries full = 5"
proof -
  let ?st = "\<lparr>ts_dirs = 0, ts_files = 0, ts_bytes = 0, ts_truncated = False, ts_lines = []\<rparr>"
  have "seen_entries ?st \<le> 1000" by (simp add: seen_entries_def)
  note c = conjunct1 [OF tree_is_listing_prefix [OF this, of 2 demo_context "[]" "[''srv'']" "[]", unfolded Let_def]]
  have "seen_entries ?st = 0" by (simp add: seen_entries_def)
  with c have "ts_lines (walk_tree 2 demo_context [] [''srv''] [] ?st) = map item_line (first_entries 1000 (tree_items 2 demo_context [] [''srv''] []))"
    by (simp only: tree_state.simps append_Nil diff_zero)
  moreover have "entries (tree_items 2 demo_context [] [''srv''] []) = 5"
  proof -
    have e0: "iter_dir demo_context [''srv''] = Some [''ctx'']" by code_simp
    have e1: "sorted_entries demo_context [] [''srv''] [''ctx''] = [''ctx'']" by code_simp
    have e2: "is_dir_at demo_context [''srv'', ''ctx'']" by code_simp
    have e3: "iter_dir demo_context [''srv'', ''ctx''] = Some [''a.md'', ''in.md'', ''out.md'', ''up'']" by code_simp
    have e4: "sorted_entries demo_context [] [''srv'', ''ctx''] [''a.md'', ''in.md'', ''out.md'', ''up''] = [''up'', ''a.md'', ''in.md'', ''out.md'']" by code_simp
    have e5: "is_dir_at demo_context [''srv'', ''ctx'', ''up'']" by code_simp
    have e6: "\<not> is_dir_at demo_context [''srv'', ''ctx'', ''a.md'']" by code_simp
    have e7: "\<not> is_dir_at demo_context [''srv'', ''ctx'', ''in.md'']" by code_simp
    have e8: "\<not> is_dir_at demo_context [''srv'', ''ctx'', ''out.md'']" by code_simp
    show ?thesis by (simp add: numeral_2_eq_2 e0 e1 e2 e3 e4 e5 e6 e7 e8)
  qed
  ultimately show ?thesis by simp
qed

subsection \<open>What is read\<close>

lemma drop_take_nth: "b \<le> length xs \<Longrightarrow> drop a (take b xs) = map ((!) xs) [a..<b]"
  by (rule nth_equalityI) auto

definition text_lines :: "context_world \<Rightarrow> file_data \<Rightarrow> string list" where
  "text_lines w d = splitlines (take max_read (unify_newlines (cw_decode w (fd_bytes d))))"

definition range_of :: "int \<Rightarrow> int \<Rightarrow> nat \<Rightarrow> nat list" where
  "range_of start_line end_line n = [nat (max 1 start_line) - 1..<(if end_line \<le> 0 then n else min (nat end_line) n)]"

lemma line_range_nth: "snd (snd (line_range i j xs)) = map ((!) xs) (range_of i j (length xs))"
  by (auto simp: line_range_def range_of_def Let_def drop_take_nth)

definition read_report :: "context_world \<Rightarrow> path list \<Rightarrow> path \<Rightarrow> file_data \<Rightarrow> int \<Rightarrow> int \<Rightarrow> report_object" where
  "read_report w roots p d i j = (let xs = text_lines w d; (first, final, selected) = line_range i j xs in
     [(''path'', JStr (relative_label roots p)), (''content'', JStr (join [newline] selected)), (''lines'', JInt (int (length selected))),
      (''total_lines'', JInt (int (length xs))), (''start_line'', JInt (int first)), (''end_line'', JInt (int final)),
      (''truncated'', JBool (max_read < size_at w p))])"

lemma read_report_fields:
  "get (read_report w roots p d i j) ''content'' = Some (JStr (join [newline] (map ((!) (text_lines w d)) (range_of i j (length (text_lines w d))))))"
  "get (read_report w roots p d i j) ''total_lines'' = Some (JInt (int (length (text_lines w d))))"
  "get (read_report w roots p d i j) ''error'' = None"
  by (simp_all add: read_report_def Let_def case_prod_beta line_range_nth)

lemma read_context_file_ok:
  assumes "resolve_in_sandbox w path = Inr p" "context_roots w = Inr roots" "stat (cw_files w) p = Some (File d)" "fd_readable d" "is_texty w p"
  shows "read_context_file w path i j = Some (read_report w roots p d i j)"
proof -
  have "open_text w p = Some (unify_newlines (cw_decode w (fd_bytes d)))" using assms(3,4) by (simp add: open_text_def open_bytes_def)
  then show ?thesis using assms
    by (simp add: read_context_file_def when_allowed_def is_dir_node_def read_report_def text_lines_def Let_def case_prod_beta)
qed

lemma read_context_file_okE:
  assumes "read_context_file w path i j = Some r" "get r ''error'' = None"
  obtains p roots d where "resolve_in_sandbox w path = Inr p" "context_roots w = Inr roots" "stat (cw_files w) p = Some (File d)" "fd_readable d"
    "is_texty w p"
proof -
  note simps = read_context_file_def when_allowed_def tool_error_def is_dir_node_def
  obtain p where p: "resolve_in_sandbox w path = Inr p"
  proof (cases "resolve_in_sandbox w path")
    case (Inl e)
    then show thesis using assms by (cases e) (auto simp: simps)
  qed
  then obtain roots where roots: "context_roots w = Inr roots" by (cases "context_roots w") (simp_all add: resolve_in_sandbox_def)
  obtain n where n: "stat (cw_files w) p = Some n"
    using assms by (cases "stat (cw_files w) p") (auto simp: simps p)
  have texty: "is_texty w p" and nd: "\<not> is_dir_node (Some n)"
    using assms by (auto simp: simps p n split: if_splits)
  obtain t where t: "open_text w p = Some t"
    using assms nd texty by (cases "open_text w p") (auto simp: simps p n)
  then obtain d where "n = File d" "fd_readable d"
    by (auto simp: open_text_def open_bytes_def n split: node.splits if_splits)
  then show thesis using that [OF p roots] n texty by simp
qed

text \<open>What the reading tool returns as content are exactly the lines asked for, of a readable text file that lies under a root
  with no link on the way; it says how many lines there are, and it reads nothing else.\<close>

theorem read_returns_lines:
  assumes "read_context_file w path start_line end_line = Some r" "get r ''error'' = None"
  shows "\<exists>roots b p d. context_roots w = Inr roots \<and> b \<in> set roots \<and> prefix b p \<and> no_links (cw_files w) p
    \<and> node_at (cw_files w) p = Some (File d) \<and> fd_readable d
    \<and> get r ''content'' = Some (JStr (join [newline] (map ((!) (text_lines w d)) (range_of start_line end_line (length (text_lines w d))))))
    \<and> get r ''total_lines'' = Some (JInt (int (length (text_lines w d))))"
proof -
  obtain p roots d where p: "resolve_in_sandbox w path = Inr p" "context_roots w = Inr roots" "stat (cw_files w) p = Some (File d)" "fd_readable d"
    "is_texty w p" by (rule read_context_file_okE [OF assms])
  have r: "r = read_report w roots p d start_line end_line" using read_context_file_ok [OF p] assms(1) by simp
  obtain b q where b: "b \<in> set roots" "prefix b p" "real_path (cw_files w) q = Some p" by (rule resolve_in_sandboxD [OF p(1,2)])
  note st = stat_real_path [OF b(3)]
  have n: "node_at (cw_files w) p = Some (File d)" using p(3) st(1) by simp
  show ?thesis unfolding r
    by (intro exI conjI) (rule p(2) b(1) b(2) st(3) n p(4) read_report_fields)+
qed

theorem read_returns_lines_witness:
  "\<exists>d. node_at demo_files [''srv'', ''ctx'', ''a.md''] = Some (File d) \<and> fd_readable d
     \<and> (\<exists>r. read_context_file demo_context ''in.md'' 1 0 = Some r
         \<and> get r ''content'' = Some (JStr (join [newline] (map ((!) (text_lines demo_context d)) (range_of 1 0 (length (text_lines demo_context d)))))))"
proof -
  have f: "cw_files demo_context = demo_files" by (simp add: demo_context_def)
  have r: "resolve_in_sandbox demo_context ''in.md'' = Inr [''srv'', ''ctx'', ''a.md'']" by code_simp
  have c: "context_roots demo_context = Inr [ [''srv'', ''ctx''] ]" by code_simp
  have t: "is_texty demo_context [''srv'', ''ctx'', ''a.md'']" by code_simp
  obtain d where s: "stat demo_files [''srv'', ''ctx'', ''a.md''] = Some (File d)" "text_file ''hello'' = File d" "fd_readable d"
  proof -
    have "stat demo_files [''srv'', ''ctx'', ''a.md''] = Some (text_file ''hello'')" by code_simp
    then show thesis by (intro that) (auto simp: text_file_def)
  qed
  note ok = read_context_file_ok [OF r c s(1) [folded f] s(3) t, of 1 0]
  from read_returns_lines [OF ok read_report_fields(3)]
  obtain roots b p e where "context_roots demo_context = Inr roots"
    "get (read_report demo_context [ [''srv'', ''ctx''] ] [''srv'', ''ctx'', ''a.md''] d 1 0) ''content''
      = Some (JStr (join [newline] (map ((!) (text_lines demo_context e)) (range_of 1 0 (length (text_lines demo_context e))))))"
    by (elim exE conjE) (rule that)
  moreover have "node_at demo_files [''srv'', ''ctx'', ''a.md''] = Some (File d)" using s(2) by (simp add: demo_files_def node_at_def)
  ultimately show ?thesis using ok s(3) read_report_fields(1) [of demo_context "[ [''srv'', ''ctx''] ]" "[''srv'', ''ctx'', ''a.md'']" d 1 0] by blast
qed

subsection \<open>What is found\<close>

definition match_of :: "string \<Rightarrow> nat \<times> string \<Rightarrow> search_match" where
  "match_of label m = (label, fst m, take 300 (strip (snd m)))"

lemma scan_lines_eq:
  "length ms < limit \<Longrightarrow> scan_lines hit limit label k ls ms
     = ms @ take (limit - length ms) (map (match_of label) (filter (hit \<circ> snd) (enumerate k ls)))"
proof (induction ls arbitrary: k ms)
  case (Cons l ls)
  show ?case
  proof (cases "hit l \<and> Suc (length ms) < limit")
    case True
    then obtain n where n: "limit - length ms = Suc n" "limit - Suc (length ms) = n" by (metis Suc_diff_Suc Cons.prems)
    show ?thesis using Cons.IH [of "ms @ [(label, k, take 300 (strip l))]" "Suc k"] True n by (simp add: match_of_def)
  next
    case False
    then have "\<not> hit l \<or> limit = Suc (length ms)" using Cons.prems by linarith
    then show ?thesis using Cons by (auto simp: match_of_def)
  qed
qed simp

definition chomp :: "string \<Rightarrow> string" where
  "chomp l = (if l \<noteq> [] \<and> last l = newline then butlast l else l)"

lemma strip_snoc_newline: "strip (l @ [newline]) = strip l"
proof -
  have "is_space newline" by (simp add: is_space_def newline_def code_def)
  then show ?thesis
    by (cases "\<forall>c \<in> set l. is_space c") (auto simp: strip_def dropWhile_append dropWhile_eq_Nil_conv [THEN iffD2])
qed

lemma strip_chomp: "strip (chomp l) = strip l"
proof (cases "l \<noteq> [] \<and> last l = newline")
  case True
  then have "l = butlast l @ [newline]" by (metis append_butlast_last_id)
  then show ?thesis using True strip_snoc_newline [of "butlast l"] by (simp add: chomp_def)
next
  case False
  then show ?thesis by (simp only: chomp_def if_False)
qed

definition plain_breaks :: "string \<Rightarrow> bool" where
  "plain_breaks t \<longleftrightarrow> list_all (\<lambda>c. ends_line c \<longrightarrow> c = newline) t"

lemma ends_line_newline: "ends_line newline" "newline \<noteq> carriage_return"
  by (simp_all add: ends_line_def newline_def carriage_return_def code_def)

lemma splitlines_plain: "plain_breaks t \<Longrightarrow> splitlines t = map chomp (file_lines t)"
proof (induction t rule: file_lines.induct)
  case (2 c s)
  let ?t = "c # s"
  have e: "ends_line d \<longleftrightarrow> d = newline" if "d \<in> set ?t" for d
    using 2(2) that ends_line_newline(1) by (auto simp: plain_breaks_def list_all_iff)
  have tw: "takeWhile (\<lambda>d. \<not> ends_line d) ?t = takeWhile (\<lambda>d. d \<noteq> newline) ?t" by (rule takeWhile_cong) (simp_all add: e)
  have dw: "dropWhile (\<lambda>d. \<not> ends_line d) ?t = dropWhile (\<lambda>d. d \<noteq> newline) ?t" by (rule dropWhile_cong) (simp_all add: e)
  have no: "newline \<notin> set (takeWhile (\<lambda>d. d \<noteq> newline) ?t)" by (auto dest: set_takeWhileD)
  show ?case
  proof (cases "dropWhile (\<lambda>d. d \<noteq> newline) ?t")
    case Nil
    then have w: "takeWhile (\<lambda>d. d \<noteq> newline) ?t = ?t" by (metis append_Nil2 takeWhile_dropWhile_id)
    have "last ?t \<noteq> newline" using no w last_in_set [of ?t] by auto
    moreover have "splitlines ?t = [?t]" using tw dw Nil w by (simp only: splitlines.simps after_break.simps)
    moreover have "file_lines ?t = [?t]" using Nil by (simp only: file_lines.simps list.case)
    ultimately show ?thesis by (simp add: chomp_def)
  next
    case (Cons d u)
    have d: "d = newline" using hd_dropWhile [of "\<lambda>d. d \<noteq> newline" ?t] Cons by simp
    have u: "set u \<subseteq> set ?t" using set_dropWhileD [of _ "\<lambda>d. d \<noteq> newline" ?t] Cons by auto
    have "plain_breaks u" using 2(2) u by (auto simp: plain_breaks_def list_all_iff)
    then have i: "splitlines u = map chomp (file_lines u)" using 2(1) Cons by blast
    have b: "after_break (d # u) = u" using d ends_line_newline(2) by (cases u) simp_all
    have "splitlines ?t = takeWhile (\<lambda>d. d \<noteq> newline) ?t # splitlines u"
      using tw dw Cons b by (simp only: splitlines.simps)
    moreover have "file_lines ?t = (takeWhile (\<lambda>d. d \<noteq> newline) ?t @ [newline]) # file_lines u"
      using Cons by (simp only: file_lines.simps list.case)
    ultimately show ?thesis using i by (simp add: chomp_def)
  qed
qed simp

text \<open>The matches a search reports for a file are its first matching lines in order, up to the limit; in a file whose only line
  ends are line feeds, the number reported for a line is the one under which the reading tool returns it.\<close>

theorem search_finds_lines:
  assumes "limit > 0" "plain_breaks t"
  shows "scan_lines hit limit label 1 (file_lines t) []
      = take limit (map (match_of label) (filter (hit \<circ> snd) (enumerate 1 (file_lines t))))
    \<and> (\<forall>m \<in> set (scan_lines hit limit label 1 (file_lines t) []). fst m = label
       \<and> fst (snd m) - 1 < length (splitlines t) \<and> 0 < fst (snd m)
       \<and> snd (snd m) = take 300 (strip (splitlines t ! (fst (snd m) - 1))))"
proof -
  have "scan_lines hit limit label 1 (file_lines t) [] = take limit (map (match_of label) (filter (hit \<circ> snd) (enumerate 1 (file_lines t))))"
    using scan_lines_eq [of "[]" limit hit label 1 "file_lines t"] assms(1) by simp
  moreover have "fst m = label \<and> fst (snd m) - 1 < length (splitlines t) \<and> 0 < fst (snd m)
      \<and> snd (snd m) = take 300 (strip (splitlines t ! (fst (snd m) - 1)))"
    if "m \<in> set (take limit (map (match_of label) (filter (hit \<circ> snd) (enumerate 1 (file_lines t)))))" for m
    using in_set_takeD [OF that] by (auto simp: match_of_def in_set_enumerate_eq splitlines_plain [OF assms(2)] strip_chomp)
  ultimately show ?thesis by metis
qed

theorem search_finds_lines_witness:
  "scan_lines (\<lambda>l. True) 1 ''f'' 1 (file_lines ''a'') [] = [(''f'', 1, ''a'')]"
proof -
  have p: "plain_breaks ''a''" by code_simp
  have "file_lines ''a'' = [''a'']" by code_simp
  moreover have "take 300 (strip ''a'') = ''a''" by (simp add: strip_def is_space_def code_def)
  ultimately show ?thesis using conjunct1 [OF search_finds_lines [of 1 "''a''" "\<lambda>l. True" "''f''", OF _ p]]
    by (simp add: match_of_def)
qed

subsection \<open>Where the sandbox leaks\<close>

definition key_pattern :: "string \<Rightarrow> (string \<Rightarrow> bool) option" where
  "key_pattern q = (if q = ''(?i)key'' then Some (\<lambda>l. l = ''the key'') else None)"

text \<open>C23: The search opens every file of the tree without resolving it, so it shows the text of a file outside every root to which a
  link in the tree points, while the reading tool refuses the same path.\<close>

theorem search_leaves_sandbox:
  "\<exists>w path m r. read_context_file w path 1 0 = Some [(''error'', JStr m)]
     \<and> context_roots w = Inr [ [''srv'', ''ctx''] ] \<and> node_at (cw_files w) [''etc'', ''secret''] = Some (text_file ''the key'')
     \<and> search_context_tree key_pattern w ''key'' [] [] 30 False = Some r
     \<and> get r ''matches'' = Some (JList [JObj [(''path'', JStr path), (''line'', JInt 1), (''text'', JStr ''the key'')]])"
proof -
  let ?o = "outside_message ''out.md'' [ [''srv'', ''ctx''] ]" and ?b = "[''srv'', ''ctx'']"
  have f: "cw_files demo_context = demo_files" by (simp add: demo_context_def)
  have c: "context_roots demo_context = Inr [?b]" by code_simp
  have o: "resolve_in_sandbox demo_context ''out.md'' = Inl (Denied ?o)" by code_simp
  have k: "walk_files demo_context [] ?b (the (stat demo_files ?b)) = map (\<lambda>x. ?b @ [x]) [''a.md'', ''in.md'', ''out.md'']" by code_simp
  have st: "stat demo_files ?b = Some (Dir True [(''a.md'', text_file ''hello''), (''in.md'', Link False [''..'', ''ctx'', ''a.md'']),
        (''out.md'', Link True [''etc'', ''secret'']), (''up'', Link True [''etc''])])" by code_simp
  have i: "\<not> ignored ''a.md'' []" "\<not> ignored ''in.md'' []" "\<not> ignored ''out.md'' []" by code_simp+
  have t: "is_texty demo_context (?b @ [''a.md''])" "is_texty demo_context (?b @ [''in.md''])" "is_texty demo_context (?b @ [''out.md''])" by code_simp+
  have x: "open_text demo_context (?b @ [''a.md'']) = Some ''hello''" "open_text demo_context (?b @ [''in.md'']) = Some ''hello''"
    "open_text demo_context (?b @ [''out.md'']) = Some ''the key''" by code_simp+
  have l: "file_lines ''hello'' = [''hello'']" "file_lines ''the key'' = [''the key'']" by code_simp+
  have r: "relative_label [?b] (?b @ [''out.md'']) = ''out.md''" by code_simp
  have s: "take 300 (strip ''the key'') = ''the key''" by (simp add: strip_def is_space_def code_def)
  have cand: "candidate_files demo_context ?b [] [] = map (\<lambda>x. ?b @ [x]) [''a.md'', ''in.md'', ''out.md'']"
    using k i by (simp add: candidate_files_def f st path_name_def max_search_files_def)
  have q: "compile_query key_pattern ''key'' False = Some (\<lambda>l. l = ''the key'')" by (simp add: compile_query_def key_pattern_def)
  have files: "search_files demo_context [?b] (\<lambda>l. l = ''the key'') 30 (map (\<lambda>x. ?b @ [x]) [''a.md'', ''in.md'', ''out.md'']) ([], 0)
      = ([(''out.md'', 1, ''the key'')], 3)"
    using t x l r s by (simp add: Let_def)
  have "search_context_tree key_pattern demo_context ''key'' [] [] 30 False
      = Some [(''count'', JInt 1), (''files_scanned'', JInt 3), (''truncated'', JBool False),
          (''matches'', JList [JObj [(''path'', JStr ''out.md''), (''line'', JInt 1), (''text'', JStr ''the key'')]])]"
    using q c cand files
    by (simp add: search_context_tree_def when_allowed_def targets_of_def search_candidates_def f st match_object_def strip_def is_space_def code_def)
  moreover have "read_context_file demo_context ''out.md'' 1 0 = Some [(''error'', JStr ?o)]"
    by (simp add: read_context_file_def when_allowed_def o tool_error_def)
  moreover have "node_at (cw_files demo_context) [''etc'', ''secret''] = Some (text_file ''the key'')"
    by (simp add: f demo_files_def node_at_def)
  ultimately show ?thesis using c by fastforce
qed

text \<open>The tree follows links to directories, so it lists names and sizes outside every root.\<close>

theorem tree_leaves_sandbox:
  "is_link demo_files [''srv'', ''ctx'', ''up''] \<and> sorted_entries demo_context [] [''srv'', ''ctx'', ''up''] [''secret''] = [''secret'']
    \<and> iter_dir demo_context [''srv'', ''ctx'', ''up''] = Some [''secret''] \<and> size_at demo_context [''srv'', ''ctx'', ''up'', ''secret''] = 7"
  by code_simp

text \<open>With a form feed in a file, the search and the reading tool number the lines differently.\<close>

theorem line_numbers_differ:
  "\<exists>t l. enumerate 1 (file_lines t) ! 1 = (2, l) \<and> splitlines t ! (2 - 1) \<noteq> chomp l \<and> splitlines t ! (3 - 1) = chomp l"
proof -
  let ?t = "[CHR ''a'', CHR 0x0C, CHR ''b'', newline, CHR ''c'']"
  have "enumerate 1 (file_lines ?t) ! 1 = (2, ''c'')" "splitlines ?t = [''a'', ''b'', ''c'']" "chomp ''c'' = ''c''" by code_simp+
  then show ?thesis by (intro exI [of _ ?t] exI [of _ "''c''"]) simp
qed

text \<open>Without a known suffix, valid text is taken for binary when byte 2048 lies inside a character.\<close>

lemma utf8_ascii: "list_all (\<lambda>c. code c < 0x80) s \<Longrightarrow> utf8_ok (s @ t) \<longleftrightarrow> utf8_ok t"
  by (induction s) (simp_all add: utf8_tail_def)

theorem split_character_is_binary:
  "utf8_ok (replicate 2047 CHR ''a'' @ [CHR 0xC3, CHR 0xA9]) \<and> \<not> utf8_ok (take 2048 (replicate 2047 CHR ''a'' @ [CHR 0xC3, CHR 0xA9]))"
proof -
  have a: "list_all (\<lambda>c. code c < 0x80) (replicate 2047 CHR ''a'')" by (simp add: list_all_iff code_def)
  have "utf8_ok [CHR 0xC3, CHR 0xA9]" "\<not> utf8_ok [CHR 0xC3]" by code_simp+
  then show ?thesis using utf8_ascii [OF a] by simp
qed

end
