(* ===== verification/Migration.thy ===== *)
theory Migration
  imports Agents Workflows
begin

text \<open>
  Migration of old configurations, \<open>src/src/config/migration.py\<close>.  The conversions act on the models of \<open>Agents\<close> and
  \<open>Workflows\<close>; parsing a dictionary into a model and dumping a model, which Pydantic does, are the fields of
  \<open>pydantic\<close>.  A failed construction or migration is \<open>Inl\<close> with its message.  The time of the conversion, which a new
  configuration records, is an argument.
\<close>

subsection \<open>Agents\<close>

definition convert_llm_config_to_model_client_config :: "llm_config \<Rightarrow> model_client" where
  "convert_llm_config_to_model_client_config c = \<lparr>mc_provider_id = ll_provider_id c, mc_model = ll_model c,
     mc_temperature = ll_temperature c, mc_timeout = ll_timeout c, mc_max_tokens = ll_max_tokens c, mc_seed = ll_cache_seed c,
     mc_base_url = None, mc_api_version = None, mc_azure_deployment = None, mc_model_info = None, mc_api_key = None, mc_api_key_env = None\<rparr>"

definition convert_retrieve_config_to_memory_config :: "retrieve_config \<Rightarrow> memory_config" where
  "convert_retrieve_config_to_memory_config r = \<lparr>mm_type = ''rag'', mm_vector_db = rt_vector_db r, mm_collection_name = rt_collection_name r,
     mm_embedding_model = rt_embedding_model r, mm_docs_path = Some (rt_docs_path r), mm_chunk_token_size = rt_chunk_token_size r,
     mm_db_config = rt_db_config r\<rparr>"

definition type_mapping :: "agent_type \<Rightarrow> agent_type option" where
  "type_mapping t = (case t of CONVERSABLE \<Rightarrow> Some ASSISTANT | RETRIEVE_USER_PROXY \<Rightarrow> Some ASSISTANT | GROUP_CHAT_MANAGER \<Rightarrow> Some ASSISTANT
     | _ \<Rightarrow> None)"

definition convert_agent_type_v02_to_v04 :: "agent_type \<Rightarrow> bool \<Rightarrow> agent_type" where
  "convert_agent_type_v02_to_v04 t has_code_execution = (if has_code_execution then CODE_EXECUTOR
     else (case type_mapping t of None \<Rightarrow> ASSISTANT | Some u \<Rightarrow> u))"

definition agent_type_value :: "agent_type \<Rightarrow> string" where
  "agent_type_value t = (case t of CONVERSABLE \<Rightarrow> ''conversable'' | RETRIEVE_USER_PROXY \<Rightarrow> ''retrieve_user_proxy''
     | GROUP_CHAT_MANAGER \<Rightarrow> ''group_chat_manager'' | ASSISTANT \<Rightarrow> ''assistant'' | CODE_EXECUTOR \<Rightarrow> ''code_executor'' | CUSTOM \<Rightarrow> ''custom'')"

definition executes_code :: "agent \<Rightarrow> bool" where
  "executes_code a \<longleftrightarrow> ag_code_execution a \<noteq> Code_none \<and> ag_code_execution a \<noteq> Code_flag False"

definition agent_warnings :: "agent \<Rightarrow> agent_type \<Rightarrow> string list" where
  "agent_warnings a new_type =
     (case ag_llm a of Llm c \<Rightarrow> [''Agent '' @ ag_id a @ '': Converted llm_config to model_client_config''] | _ \<Rightarrow> [])
     @ (if ag_retrieve a \<noteq> None then [''Agent '' @ ag_id a @ '': Converted retrieve_config to memory_config''] else [])
     @ (if new_type \<noteq> ag_type a then [''Agent '' @ ag_id a @ '': Converted type from '' @ agent_type_value (ag_type a) @ '' to ''
         @ agent_type_value new_type] else [])"

definition convert_agent_config_v02_to_v04 :: "int \<Rightarrow> agent \<Rightarrow> agent \<times> string list" where
  "convert_agent_config_v02_to_v04 now a =
     (let new_type = convert_agent_type_v02_to_v04 (ag_type a) (executes_code a) in
      (\<lparr>ag_id = ag_id a, ag_type = new_type, ag_name = ag_name a, ag_output_key = None, ag_system_message = ag_system_message a,
        ag_is_selector = False, ag_model_override = None, ag_settings = None, ag_llm = Llm_none,
        ag_client = (case ag_llm a of Llm c \<Rightarrow> Some (convert_llm_config_to_model_client_config c) | _ \<Rightarrow> None),
        ag_memory = map_option convert_retrieve_config_to_memory_config (ag_retrieve a), ag_reflect_on_tool_use = True,
        ag_human_input = ag_human_input a, ag_code_execution = ag_code_execution a, ag_tools = ag_tools a,
        ag_max_auto_reply = ag_max_auto_reply a, ag_retrieve = None, ag_description = ag_description a, ag_behavior = ag_behavior a,
        ag_version = ag_version a + 1, ag_updated = now\<rparr>,
       agent_warnings a new_type))"

subsection \<open>Group chats\<close>

definition speaker_value :: "speaker_selection_method \<Rightarrow> string" where
  "speaker_value m = (case m of AUTO \<Rightarrow> ''auto'' | ROUND_ROBIN \<Rightarrow> ''round_robin'' | RANDOM \<Rightarrow> ''random'' | MANUAL \<Rightarrow> ''manual'')"

definition team_type_of :: "speaker_selection_method \<Rightarrow> bool \<Rightarrow> string \<Rightarrow> team_type \<times> string list" where
  "team_type_of m has_llm team_id =
     (if m = ROUND_ROBIN then (ROUND_ROBIN_TEAM, [])
      else if m = AUTO \<or> m = MANUAL then
        (if has_llm then (SELECTOR_TEAM, [''Team '' @ team_id @ '': Converted speaker_selection_method '' @ speaker_value m @ '' to selector team''])
         else (ROUND_ROBIN_TEAM, [''Team '' @ team_id @ '': speaker_selection_method '' @ speaker_value m
            @ '' requires llm_config for selector team, falling back to round_robin'']))
      else (ROUND_ROBIN_TEAM, [''Team '' @ team_id @ '': Unknown speaker_selection_method '' @ speaker_value m @ '', defaulting to round_robin'']))"

text \<open>\<open>model_dump()\<close> of a model client: every field, absent ones as null.\<close>

definition or_null :: "('a \<Rightarrow> json) \<Rightarrow> 'a option \<Rightarrow> json" where
  "or_null f x = (case x of None \<Rightarrow> JNull | Some v \<Rightarrow> f v)"

definition dump_client_fields :: "model_client \<Rightarrow> (string, json) odict" where
  "dump_client_fields m = [(''provider_id'', JStr (mc_provider_id m)), (''model'', JStr (mc_model m)), (''temperature'', JFloat (mc_temperature m)),
     (''timeout'', JInt (mc_timeout m)), (''max_tokens'', or_null JInt (mc_max_tokens m)), (''seed'', or_null JInt (mc_seed m)),
     (''base_url'', or_null JStr (mc_base_url m)), (''api_version'', or_null JStr (mc_api_version m)),
     (''azure_deployment'', or_null JStr (mc_azure_deployment m)), (''model_info'', or_null JObj (mc_model_info m)),
     (''api_key'', or_null JStr (mc_api_key m)), (''api_key_env'', or_null JStr (mc_api_key_env m))]"

definition team_from_group_chat :: "group_chat \<Rightarrow> string \<Rightarrow> int option \<Rightarrow> llm_config option \<Rightarrow> team_config \<times> string list" where
  "team_from_group_chat g team_id max_turns llm =
     (let (team_type, warnings) = team_type_of (gc_speaker_selection g) (llm \<noteq> None) team_id in
      (\<lparr>tm_id = team_id, tm_type = team_type, tm_agents = gc_agents g,
        tm_termination = Termination MAX_MESSAGE None (Some (gc_max_round g)) None None,
        tm_max_turns = Some (case max_turns of Some t \<Rightarrow> if t = 0 then gc_max_round g else t | None \<Rightarrow> gc_max_round g),
        tm_selector_client = (if team_type = SELECTOR_TEAM
          then map_option (dump_client_fields \<circ> convert_llm_config_to_model_client_config) llm else None),
        tm_selector_func = None\<rparr>, warnings))"

type_synonym config = "(string \<times> json) list"

record pydantic =
  py_agent :: "config \<Rightarrow> string + agent"
  py_dump_agent :: "agent \<Rightarrow> config"
  py_group_chat :: "config \<Rightarrow> string + group_chat"
  py_dump_team :: "team_config \<Rightarrow> config"
  py_team_error :: "team_config \<Rightarrow> string"
  py_not_a_mapping :: string
  py_show :: "json \<Rightarrow> string"

definition convert_group_chat_to_team_config ::
  "pydantic \<Rightarrow> group_chat \<Rightarrow> string \<Rightarrow> int option \<Rightarrow> llm_config option \<Rightarrow> string + (team_config \<times> string list)" where
  "convert_group_chat_to_team_config py g team_id max_turns llm =
     (let (t, ws) = team_from_group_chat g team_id max_turns llm in if team_ok t then Inr (t, ws) else Inl (py_team_error py t))"

subsection \<open>Dictionaries\<close>

definition shown_id :: "pydantic \<Rightarrow> config \<Rightarrow> string" where
  "shown_id py c = text_of (py_show py) (get_default c ''id'' (JStr ''unknown''))"

definition migrate_agent :: "pydantic \<Rightarrow> int \<Rightarrow> config \<Rightarrow> string + (config \<times> string list)" where
  "migrate_agent py now c = (case py_agent py c of Inl m \<Rightarrow> Inl m
     | Inr a \<Rightarrow> (let (b, ws) = convert_agent_config_v02_to_v04 now a in Inr (py_dump_agent py b, ws)))"

definition migrate_workflow :: "pydantic \<Rightarrow> config \<Rightarrow> string + (config \<times> string list)" where
  "migrate_workflow py c = (if truthy (jget c ''group_chat'') then
       (case jget c ''group_chat'' of
          JObj g \<Rightarrow> (case py_group_chat py g of Inl m \<Rightarrow> Inl m
            | Inr gc \<Rightarrow> (case convert_group_chat_to_team_config py gc (shown_id py c @ ''_team'') None None of Inl m \<Rightarrow> Inl m
              | Inr (t, ws) \<Rightarrow> Inr (put ''team_config'' (JObj (py_dump_team py t)) c,
                  ws @ [''Workflow '' @ shown_id py c @ '': Added team_config from group_chat''])))
        | _ \<Rightarrow> Inl (py_not_a_mapping py))
     else Inr (c, []))"

definition migrate_tool :: "pydantic \<Rightarrow> config \<Rightarrow> config \<times> string list" where
  "migrate_tool py c = (if ''is_async'' \<in> set (keys c) then (c, [])
     else (put ''is_async'' (JBool False) c, [''Tool '' @ shown_id py c @ '': Added is_async=False (default)'']))"

definition convert_v02_to_v04 :: "pydantic \<Rightarrow> int \<Rightarrow> config \<Rightarrow> string \<Rightarrow> string + (config \<times> string list)" where
  "convert_v02_to_v04 py now c config_type =
     (case (if config_type = ''agent'' then migrate_agent py now c
            else if config_type = ''workflow'' then migrate_workflow py c
            else if config_type = ''tool'' then Inr (migrate_tool py c)
            else Inl (''Unknown configuration type: '' @ config_type)) of
        Inl m \<Rightarrow> Inl (''Failed to migrate '' @ config_type @ '' configuration: '' @ m)
      | Inr r \<Rightarrow> Inr r)"

fun migrate_agent_configs :: "pydantic \<Rightarrow> int \<Rightarrow> config list \<Rightarrow> config list \<times> string list" where
  "migrate_agent_configs py now [] = ([], [])"
| "migrate_agent_configs py now (c # cs) =
     (let (ds, ws) = migrate_agent_configs py now cs in
      case convert_v02_to_v04 py now c ''agent'' of
        Inr (d, us) \<Rightarrow> (d # ds, us @ ws)
      | Inl m \<Rightarrow> (c # ds, (''Failed to migrate agent: '' @ m) # ws))"

definition validate_migration :: "config \<Rightarrow> config \<Rightarrow> string \<Rightarrow> string list" where
  "validate_migration original migrated config_type = (if config_type \<noteq> ''agent'' then [] else
     (if jget original ''id'' \<noteq> jget migrated ''id'' then [''Agent ID was not preserved''] else [])
     @ (if jget original ''name'' \<noteq> jget migrated ''name'' then [''Agent name was not preserved''] else [])
     @ (if jget original ''system_message'' \<noteq> jget migrated ''system_message'' then [''System message was not preserved''] else [])
     @ (if jget original ''tools'' \<noteq> jget migrated ''tools'' then [''Tools list was not preserved''] else [])
     @ (if truthy (jget original ''llm_config'') \<and> \<not> truthy (jget migrated ''model_client_config'')
        then [''LLM config was not converted to model_client_config''] else [])
     @ (if truthy (jget original ''retrieve_config'') \<and> \<not> truthy (jget migrated ''memory_config'')
        then [''Retrieve config was not converted to memory_config''] else []))"

subsection \<open>What a migration keeps\<close>

lemma migrated_fields [simp]:
  fixes now :: int
  defines "b \<equiv> \<lambda>a. fst (convert_agent_config_v02_to_v04 now a)"
  shows "ag_id (b a) = ag_id a" "ag_name (b a) = ag_name a" "ag_system_message (b a) = ag_system_message a" "ag_tools (b a) = ag_tools a"
    "ag_human_input (b a) = ag_human_input a" "ag_code_execution (b a) = ag_code_execution a" "ag_max_auto_reply (b a) = ag_max_auto_reply a"
    "ag_description (b a) = ag_description a" "ag_behavior (b a) = ag_behavior a" "ag_version (b a) = ag_version a + 1"
    "ag_type (b a) = (if executes_code a then CODE_EXECUTOR else ASSISTANT)" "ag_llm (b a) = Llm_none" "ag_retrieve (b a) = None"
    "ag_client (b a) = (case ag_llm a of Llm c \<Rightarrow> Some (convert_llm_config_to_model_client_config c) | _ \<Rightarrow> None)"
    "ag_memory (b a) = map_option convert_retrieve_config_to_memory_config (ag_retrieve a)" "ag_settings (b a) = None"
    "ag_output_key (b a) = None" "ag_model_override (b a) = None" "\<not> ag_is_selector (b a)"
  by (auto simp: b_def convert_agent_config_v02_to_v04_def convert_agent_type_v02_to_v04_def type_mapping_def split: agent_type.splits)

lemma converted_client: "convert_llm_config_to_model_client_config c = (client_of_llm c)\<lparr>mc_base_url := None, mc_api_key_env := None\<rparr>"
  by (simp add: convert_llm_config_to_model_client_config_def client_of_llm_def)

text \<open>Migrating an agent never fails: from a valid configuration it makes a valid one of the new format with the identity, prompt,
  tools and version of the old one; it is compatible with the new format exactly when the agent runs code or has an LLM
  configuration, and its model then is the old one without the base URL and the key variable, which are lost.\<close>

theorem migrated_agent_valid:
  assumes "agent_ok a"
  shows "let b = fst (convert_agent_config_v02_to_v04 now a) in agent_ok b \<and> validate_config b = None
    \<and> ag_id b = ag_id a \<and> ag_name b = ag_name a \<and> ag_system_message b = ag_system_message a \<and> ag_tools b = ag_tools a \<and> ag_version b = ag_version a + 1
    \<and> ag_llm b = Llm_none \<and> ag_retrieve b = None
    \<and> (is_v04_compatible b \<longleftrightarrow> executes_code a \<or> (\<exists>c. ag_llm a = Llm c))
    \<and> get_effective_model_config b
        = (case ag_llm a of Llm c \<Rightarrow> Some ((client_of_llm c)\<lparr>mc_base_url := None, mc_api_key_env := None\<rparr>) | _ \<Rightarrow> None)"
proof -
  let ?b = "fst (convert_agent_config_v02_to_v04 now a)"
  have "agent_ok ?b" using assms
    by (auto simp: agent_ok_def llm_config_ok_def model_client_ok_def convert_llm_config_to_model_client_config_def
      convert_retrieve_config_to_memory_config_def split: llm_setting.splits option.splits)
  moreover have "is_v04_compatible ?b \<longleftrightarrow> executes_code a \<or> (\<exists>c. ag_llm a = Llm c)"
    by (auto simp: is_v04_compatible_def validate_v04_compatibility_def executes_code_def split: llm_setting.splits)
  moreover have "get_effective_model_config ?b = (case ag_llm a of Llm c \<Rightarrow> Some ((client_of_llm c)\<lparr>mc_base_url := None, mc_api_key_env := None\<rparr>) | _ \<Rightarrow> None)"
    by (auto simp: get_effective_model_config_def converted_client split: llm_setting.splits)
  ultimately show ?thesis by (simp add: Let_def validate_config_def)
qed

definition old_llm :: llm_config where
  "old_llm = \<lparr>ll_provider_id = ''p'', ll_model = ''m'', ll_preset = None, ll_temperature = 1, ll_max_tokens = None, ll_cache_seed = None,
     ll_timeout = 60, ll_base_url = Some ''http://local'', ll_api_key_env = None, ll_top_p = None, ll_top_k = None, ll_max_completion_tokens = None,
     ll_max_output_tokens = None, ll_presence_penalty = None, ll_frequency_penalty = None, ll_seed = None, ll_reasoning_effort = None,
     ll_stop = None, ll_response_format = None\<rparr>"

definition old_agent :: agent where
  "old_agent = \<lparr>ag_id = ''a'', ag_type = CONVERSABLE, ag_name = ''A'', ag_output_key = None, ag_system_message = None, ag_is_selector = True,
     ag_model_override = None, ag_settings = None, ag_llm = Llm old_llm, ag_client = None, ag_memory = None, ag_reflect_on_tool_use = True,
     ag_human_input = NEVER, ag_code_execution = Code_flag False, ag_tools = [], ag_max_auto_reply = 10, ag_retrieve = None,
     ag_description = None, ag_behavior = None, ag_version = 1, ag_updated = 0\<rparr>"

lemma old_agent_ok: "agent_ok old_agent"
  by (simp add: agent_ok_def old_agent_def old_llm_def llm_config_ok_def at_least_def in_range_def agent_id_char_def code_def)

theorem migrated_agent_valid_witness:
  "let b = fst (convert_agent_config_v02_to_v04 5 old_agent) in agent_ok b \<and> is_v04_compatible b
     \<and> map_option mc_base_url (get_effective_model_config b) = Some None"
  using migrated_agent_valid [OF old_agent_ok, of 5] by (simp add: Let_def old_agent_def)

text \<open>Migrating is not idempotent: an agent that has been migrated, or was written in the new format, loses its model and its memory
  when it is migrated again, and is then no longer compatible with the new format unless it runs code.\<close>

theorem second_migration_loses_model:
  "let b = fst (convert_agent_config_v02_to_v04 now a); c = fst (convert_agent_config_v02_to_v04 later b) in
     get_effective_model_config c = None \<and> ag_memory c = None \<and> (\<not> executes_code a \<longrightarrow> \<not> is_v04_compatible c)"
  by (simp add: Let_def get_effective_model_config_def is_v04_compatible_def validate_v04_compatibility_def executes_code_def)

theorem second_migration_loses_model_witness:
  "\<not> is_v04_compatible (fst (convert_agent_config_v02_to_v04 2 (fst (convert_agent_config_v02_to_v04 1 old_agent))))"
  using second_migration_loses_model [of 1 old_agent 2] by (simp add: Let_def executes_code_def old_agent_def)

text \<open>A validated group chat becomes a valid team, a selector team exactly when there is a model to select with.\<close>

theorem team_conversion_ok:
  assumes "make_group_chat g given = Some g'" "config_id_ok team_id" "at_least_one max_turns"
  shows "\<exists>t ws. convert_group_chat_to_team_config py g' team_id max_turns llm = Inr (t, ws) \<and> tm_agents t = gc_agents g'
    \<and> te_max_messages (tm_termination t) = Some (gc_max_round g')
    \<and> (tm_type t = SELECTOR_TEAM \<longleftrightarrow> llm \<noteq> None \<and> gc_speaker_selection g' \<in> {AUTO, MANUAL})"
proof -
  have g: "team_agents_ok (gc_agents g')" "1 \<le> gc_max_round g'"
    using assms(1) by (auto simp: make_group_chat_def split: if_splits option.splits)
  obtain t ws where t: "team_from_group_chat g' team_id max_turns llm = (t, ws)" by fastforce
  have "1 \<le> (case max_turns of Some t \<Rightarrow> if t = 0 then gc_max_round g' else t | None \<Rightarrow> gc_max_round g')"
    using assms(3) g(2) by (auto simp: at_least_one_def split: option.splits)
  then have "team_ok t" "tm_agents t = gc_agents g'" "te_max_messages (tm_termination t) = Some (gc_max_round g')"
    "tm_type t = SELECTOR_TEAM \<longleftrightarrow> llm \<noteq> None \<and> gc_speaker_selection g' \<in> {AUTO, MANUAL}"
    using t g assms(2) by (auto simp: team_from_group_chat_def team_ok_def team_type_of_def at_least_one_def validate_termination_config_def
      Let_def split: if_splits)
  then show ?thesis using t by (simp add: convert_group_chat_to_team_config_def)
qed

text \<open>A batch keeps every agent in its place: converted, or as it was when its conversion fails.\<close>

definition migrated_as :: "pydantic \<Rightarrow> int \<Rightarrow> config \<Rightarrow> config \<Rightarrow> string list \<Rightarrow> bool" where
  "migrated_as py now c d ws \<longleftrightarrow> (case convert_v02_to_v04 py now c ''agent'' of
      Inr (e, us) \<Rightarrow> d = e \<and> set us \<subseteq> set ws | Inl m \<Rightarrow> d = c \<and> ''Failed to migrate agent: '' @ m \<in> set ws)"

lemma migrated_as_mono: "migrated_as py now c d ws \<Longrightarrow> set ws \<subseteq> set us \<Longrightarrow> migrated_as py now c d us"
  unfolding migrated_as_def by (cases "convert_v02_to_v04 py now c ''agent''") (simp_all add: subset_iff split: prod.splits)

theorem migrate_agent_configs_places:
  "migrate_agent_configs py now cs = (ds, ws) \<Longrightarrow> list_all2 (\<lambda>c d. migrated_as py now c d ws) cs ds"
proof (induction cs arbitrary: ds ws)
  case (Cons c cs)
  obtain ds' ws' where t: "migrate_agent_configs py now cs = (ds', ws')" by fastforce
  obtain d us where h: "ds = d # ds'" "ws = us @ ws'" "migrated_as py now c d us"
  proof (cases "convert_v02_to_v04 py now c ''agent''")
    case (Inl m)
    then show thesis using Cons.prems t by (intro that [of c "[''Failed to migrate agent: '' @ m]"]) (simp_all add: migrated_as_def)
  next
    case (Inr r)
    then show thesis using Cons.prems t by (intro that [of "fst r" "snd r"]) (simp_all add: migrated_as_def case_prod_beta)
  qed
  have "list_all2 (\<lambda>c d. migrated_as py now c d ws) cs ds'"
    by (rule list_all2_mono [OF Cons.IH [OF t]]) (erule migrated_as_mono, simp add: h(2))
  moreover have "migrated_as py now c d ws" using migrated_as_mono [OF h(3)] h(2) by simp
  ultimately show ?case using h(1) by simp
qed simp

text \<open>The check after a migration reports the tools of every agent that left the field out, since the dump spells out the default.\<close>

theorem validation_blames_default_tools:
  assumes "convert_v02_to_v04 py now c ''agent'' = Inr (d, ws)" "''tools'' \<notin> set (keys c)"
    "\<And>a. jget (py_dump_agent py a) ''tools'' = JList (map JStr (ag_tools a))"
  shows "''Tools list was not preserved'' \<in> set (validate_migration c d ''agent'')"
proof -
  have "jget c ''tools'' = JNull" using assms(2) by (simp add: jget_def get_default_def flip: get_None_iff)
  moreover have "jget d ''tools'' \<noteq> JNull"
    using assms(1,3) by (auto simp: convert_v02_to_v04_def migrate_agent_def split: sum.splits prod.splits)
  ultimately show ?thesis by (simp add: validate_migration_def)
qed

end
