(* ===== verification/Tools.thy ===== *)
theory Tools
  imports Prelude
begin

text \<open>
  Tool configurations and their registry, \<open>src/src/config/tool_models.py\<close> and \<open>src/src/config/tool_registry.py\<close>.  A
  configuration that its validator refuses is \<open>Inl\<close> with one constructor per \<open>raise\<close>; a setting of a type that cannot be
  hashed, for which Python raises \<open>TypeError\<close>, is refused with the same constructor.  Python functions are values of a
  type variable; importing, their attributes, and the functions built for API and factory tools are the fields of
  \<open>tool_world\<close>.
\<close>

subsection \<open>Configurations\<close>

type_synonym settings = "(string \<times> json) list"

record tool =
  tl_id :: string
  tl_name :: string
  tl_description :: string
  tl_entrypoint :: "string option"
  tl_enabled :: bool
  tl_settings :: settings
  tl_is_async :: bool
  tl_category :: "string option"
  tl_version :: int
  tl_updated :: int

datatype refusal = Unknown_type | No_api_url | No_entrypoint | Unknown_connector | No_connection | No_actions | Unknown_actions
  | Bad_transport | No_command | Url_with_stdio | Bad_args | Bad_url | Command_with_url | Bad_auth_type | No_auth_env_var
  | Bad_tool_filter | Bad_timeout | One_uri_needed | Uri_with_credentials | Bad_tables | No_database | Bad_collections
  | Bad_account | Bad_capabilities | Bad_entrypoint

definition valid_tool_types :: "string list" where
  "valid_tool_types = [''function'', ''api'', ''mcp'', ''database'', ''sql'', ''mongodb'', ''gmail'', ''connector'']"

definition mcp_transports :: "string list" where
  "mcp_transports = [''stdio'', ''sse'', ''streamable-http'']"

definition gmail_capabilities :: "string list" where
  "gmail_capabilities = [''read'', ''search'', ''send'']"

text \<open>A tool configuration knows the connectors: their names and the ids of their actions.\<close>

type_synonym connectors = "(string \<times> string list) list"

definition builtin_connectors :: connectors where
  "builtin_connectors =
     [(''jira'', [''search_issues'', ''get_issue'', ''list_projects'', ''list_transitions'', ''create_issue'', ''update_issue'',
        ''add_comment'', ''transition_issue'', ''assign_issue'']),
      (''gitlab'', [''search_projects'', ''list_merge_requests'', ''get_merge_request'', ''get_merge_request_changes'', ''list_issues'',
        ''get_file'', ''list_pipelines'', ''create_issue'', ''update_issue'', ''add_merge_request_note'', ''add_issue_note'',
        ''set_merge_request_labels'']),
      (''gmail'', [''search_emails'', ''read_email'', ''list_new_messages'', ''send_email'', ''reply_to_thread''])]"

definition json_in :: "json \<Rightarrow> string list \<Rightarrow> bool" where
  "json_in v ss = (case v of JStr s \<Rightarrow> s \<in> set ss | _ \<Rightarrow> False)"

definition is_str :: "json \<Rightarrow> bool" where
  "is_str v = (case v of JStr s \<Rightarrow> True | _ \<Rightarrow> False)"

definition strings_or_null :: "json \<Rightarrow> bool" where
  "strings_or_null v = (case v of JNull \<Rightarrow> True | JList xs \<Rightarrow> list_all is_str xs | _ \<Rightarrow> False)"

definition first_error :: "(bool \<times> refusal) list \<Rightarrow> refusal option" where
  "first_error checks = map_option snd (List.find fst checks)"

definition validate_connector_settings :: "(json \<Rightarrow> string) \<Rightarrow> connectors \<Rightarrow> settings \<Rightarrow> refusal option" where
  "validate_connector_settings show cs s = (case get cs (text_of show (get_default s ''connector'' (JStr []))) of
      None \<Rightarrow> Some Unknown_connector
    | Some known \<Rightarrow>
        if strip (text_of show (json_or (jget s ''connection_id'') (JStr []))) = [] then Some No_connection
        else (case jget s ''actions'' of
            JList as \<Rightarrow> if as = [] then Some No_actions else if list_all (\<lambda>a. json_in a known) as then None else Some Unknown_actions
          | _ \<Rightarrow> Some No_actions))"

text \<open>\<open>isinstance(timeout, (int, float)) and 1 <= timeout <= 300\<close>; a boolean is an integer.\<close>

definition timeout_ok :: "json \<Rightarrow> bool" where
  "timeout_ok v = (case v of JInt i \<Rightarrow> 1 \<le> i \<and> i \<le> 300 | JFloat r \<Rightarrow> 1 \<le> r \<and> r \<le> 300 | JBool b \<Rightarrow> b | _ \<Rightarrow> False)"

text \<open>Only a string prints as a URL.\<close>

definition http_url :: "json \<Rightarrow> bool" where
  "http_url v = (case v of JStr u \<Rightarrow> starts_with ''http://'' u \<or> starts_with ''https://'' u | _ \<Rightarrow> False)"

definition validate_mcp_settings :: "settings \<Rightarrow> refusal option" where
  "validate_mcp_settings s = first_error (
     [(\<not> json_in (jget s ''transport'') mcp_transports, Bad_transport)]
     @ (if jget s ''transport'' = JStr ''stdio'' then
         [(\<not> truthy (jget s ''command''), No_command), (truthy (jget s ''url''), Url_with_stdio), (\<not> strings_or_null (jget s ''args''), Bad_args)]
       else
         [(\<not> http_url (jget s ''url''), Bad_url), (truthy (jget s ''command''), Command_with_url),
          (\<not> json_in (get_default s ''auth_type'' (JStr ''none'')) [''none'', ''bearer''], Bad_auth_type),
          (get_default s ''auth_type'' (JStr ''none'') = JStr ''bearer'' \<and> \<not> truthy (jget s ''auth_env_var''), No_auth_env_var)])
     @ [(\<not> strings_or_null (jget s ''tool_filter''), Bad_tool_filter),
        (jget s ''connect_timeout'' \<noteq> JNull \<and> \<not> timeout_ok (jget s ''connect_timeout''), Bad_timeout)])"

definition holds_at :: "(json \<Rightarrow> string) \<Rightarrow> json \<Rightarrow> bool" where
  "holds_at show v \<longleftrightarrow> truthy v \<and> CHR 0x40 \<in> set (text_of show v)"

definition validate_database_settings :: "(json \<Rightarrow> string) \<Rightarrow> settings \<Rightarrow> refusal option" where
  "validate_database_settings show s = first_error
     [(truthy (jget s ''db_uri'') = truthy (jget s ''db_uri_env_var''), One_uri_needed), (holds_at show (jget s ''db_uri''), Uri_with_credentials),
      (\<not> strings_or_null (jget s ''tables''), Bad_tables)]"

definition validate_mongo_settings :: "(json \<Rightarrow> string) \<Rightarrow> settings \<Rightarrow> refusal option" where
  "validate_mongo_settings show s = first_error
     [(truthy (jget s ''uri'') = truthy (jget s ''uri_env_var''), One_uri_needed), (holds_at show (jget s ''uri''), Uri_with_credentials),
      (\<not> truthy (jget s ''database''), No_database), (\<not> strings_or_null (jget s ''collections''), Bad_collections)]"

text \<open>\<open>^[^@\s]+@[^@\s]+\.[^@\s]+$\<close>, where \<open>$\<close> also matches before a final line feed.\<close>

definition email_ok :: "string \<Rightarrow> bool" where
  "email_ok s = (let t = (if s \<noteq> [] \<and> last s = newline then butlast s else s); name = before_char CHR 0x40 t in
     case after_char CHR 0x40 t of None \<Rightarrow> False
     | Some d \<Rightarrow> name \<noteq> [] \<and> CHR 0x40 \<notin> set d \<and> \<not> list_ex is_space t
         \<and> list_ex (\<lambda>i. d ! i = CHR ''.'' \<and> 0 < i \<and> Suc i < length d) [0..<length d])"

definition capabilities_of :: "settings \<Rightarrow> json" where
  "capabilities_of s = get_default s ''capabilities'' (JList (map JStr gmail_capabilities))"

definition capabilities_ok :: "json \<Rightarrow> bool" where
  "capabilities_ok v = (case v of JList cs \<Rightarrow> cs \<noteq> [] \<and> list_all (\<lambda>c. json_in c gmail_capabilities) cs | _ \<Rightarrow> False)"

definition validate_gmail_settings :: "(json \<Rightarrow> string) \<Rightarrow> settings \<Rightarrow> refusal + settings" where
  "validate_gmail_settings show s =
     (let account = jget s ''account_email'' in
      if \<not> truthy account \<or> \<not> email_ok (text_of show account) then Inl Bad_account
      else if \<not> capabilities_ok (capabilities_of s) then Inl Bad_capabilities
      else Inr (put ''capabilities'' (capabilities_of s) s))"

definition tool_type :: "settings \<Rightarrow> json" where
  "tool_type s = get_default s ''type'' (JStr ''function'')"

definition unless_error :: "refusal option \<Rightarrow> tool \<Rightarrow> refusal + tool" where
  "unless_error e t = (case e of None \<Rightarrow> Inr t | Some x \<Rightarrow> Inl x)"

definition validate_tool_type :: "(json \<Rightarrow> string) \<Rightarrow> connectors \<Rightarrow> tool \<Rightarrow> refusal + tool" where
  "validate_tool_type show cs t = (let s = tl_settings t; ty = tool_type s in
     if \<not> json_in ty valid_tool_types then Inl Unknown_type
     else if ty = JStr ''api'' then
       (if \<not> truthy (jget s ''api_url'') then Inl No_api_url
        else if opt_truthy (tl_entrypoint t) then Inr t
        else Inr (t\<lparr>tl_entrypoint := Some ''src.tools.api_tool_executor:execute_api_tool''\<rparr>))
     else if ty = JStr ''mcp'' then unless_error (validate_mcp_settings s) t
     else if ty = JStr ''database'' \<or> ty = JStr ''sql'' then unless_error (validate_database_settings show s) t
     else if ty = JStr ''mongodb'' then unless_error (validate_mongo_settings show s) t
     else if ty = JStr ''gmail'' then map_sum id (\<lambda>s'. t\<lparr>tl_settings := s'\<rparr>) (validate_gmail_settings show s)
     else if ty = JStr ''connector'' then unless_error (validate_connector_settings show cs s) t
     else if opt_truthy (tl_entrypoint t) then Inr t else Inl No_entrypoint)"

definition validate_entrypoint :: "tool \<Rightarrow> bool" where
  "validate_entrypoint t \<longleftrightarrow> \<not> (opt_truthy (tl_entrypoint t) \<and> CHR '':'' \<notin> set (the (tl_entrypoint t)))"

definition is_api_tool :: "tool \<Rightarrow> bool" where
  "is_api_tool t \<longleftrightarrow> jget (tl_settings t) ''type'' = JStr ''api''"

definition find_tool :: "tool list \<Rightarrow> string \<Rightarrow> tool option" where
  "find_tool ts i = List.find (\<lambda>t. tl_id t = i) ts"

definition get_enabled_tools :: "tool list \<Rightarrow> tool list" where
  "get_enabled_tools ts = filter tl_enabled ts"

definition validate_all_tools :: "tool list \<Rightarrow> bool" where
  "validate_all_tools ts \<longleftrightarrow> list_all validate_entrypoint ts"

subsection \<open>The registry\<close>

record tool_factory =
  tf_type :: string
  tf_id :: string
  tf_name :: string
  tf_description :: string
  tf_settings :: settings

record 'f tool_def =
  td_id :: string
  td_function :: 'f
  td_name :: string
  td_description :: string
  td_async :: bool
  td_factory :: "tool_factory option"

record 'f tool_world =
  tw_import :: "string \<Rightarrow> string + (string \<Rightarrow> 'f option)"
  tw_callable :: "'f \<Rightarrow> bool"
  tw_name :: "'f \<Rightarrow> string"
  tw_doc :: "'f \<Rightarrow> string option"
  tw_coroutine :: "'f \<Rightarrow> bool"
  tw_api :: "string \<Rightarrow> settings \<Rightarrow> string \<Rightarrow> string + 'f"
  tw_sandbox :: "tool_factory \<Rightarrow> string + 'f"
  tw_missing :: "string \<Rightarrow> string"

type_synonym 'f registry = "(string \<times> 'f tool_def) list"

definition extract_description :: "'f tool_world \<Rightarrow> 'f \<Rightarrow> string" where
  "extract_description w f = (if opt_truthy (tw_doc w f) then strip (hd (split_on newline (strip (the (tw_doc w f)))))
     else ''Tool: '' @ tw_name w f)"

definition tool_definition ::
  "'f tool_world \<Rightarrow> string \<Rightarrow> 'f \<Rightarrow> string option \<Rightarrow> string option \<Rightarrow> bool option \<Rightarrow> tool_factory option \<Rightarrow> 'f tool_def" where
  "tool_definition w i f name description is_async factory = \<lparr>td_id = i, td_function = f, td_name = opt_or name (tw_name w f),
     td_description = opt_or description (extract_description w f),
     td_async = (case is_async of None \<Rightarrow> tw_coroutine w f | Some b \<Rightarrow> b), td_factory = factory\<rparr>"

definition register_tool ::
  "'f tool_world \<Rightarrow> string \<Rightarrow> 'f \<Rightarrow> string option \<Rightarrow> string option \<Rightarrow> bool option \<Rightarrow> 'f registry \<Rightarrow> string + 'f registry" where
  "register_tool w i f description name is_async reg =
     (if \<not> tw_callable w f then Inl (''Tool '' @ i @ '': function must be callable'')
      else Inr (put i (tool_definition w i f name description is_async None) reg))"

definition register_api_tool ::
  "'f tool_world \<Rightarrow> string \<Rightarrow> settings \<Rightarrow> string option \<Rightarrow> string option \<Rightarrow> 'f registry \<Rightarrow> string + 'f registry" where
  "register_api_tool w i s name description reg =
     (case (case tw_api w i s (opt_or description (''API tool: '' @ i)) of
          Inl e \<Rightarrow> Inl e | Inr f \<Rightarrow> register_tool w i f description name None reg) of
        Inl e \<Rightarrow> Inl (''Failed to register API tool '' @ i @ '': '' @ e)
      | Inr reg' \<Rightarrow> Inr reg')"

definition factory_types :: "string list" where
  "factory_types = [''mcp'', ''database'', ''gmail'', ''sql'', ''mongodb'', ''connector'']"

definition is_factory_tool_type :: "json \<Rightarrow> bool" where
  "is_factory_tool_type v = json_in v factory_types"

definition factory_of :: "string \<Rightarrow> string option \<Rightarrow> string option \<Rightarrow> settings \<Rightarrow> tool_factory" where
  "factory_of i name description s = (let ty = (case tool_type s of JStr u \<Rightarrow> u | _ \<Rightarrow> []) in
     \<lparr>tf_type = ty, tf_id = i, tf_name = opt_or name i, tf_description = opt_or description (ty @ '' tool: '' @ i), tf_settings = s\<rparr>)"

definition import_function :: "'f tool_world \<Rightarrow> string \<Rightarrow> string + 'f" where
  "import_function w entrypoint = (case after_char CHR '':'' entrypoint of
      None \<Rightarrow> Inl (''Invalid entrypoint format: '' @ entrypoint @ ''. Expected '' @ quoted ''module.path:function_name'')
    | Some f_name \<Rightarrow> (case tw_import w (before_char CHR '':'' entrypoint) of
        Inl e \<Rightarrow> Inl e
      | Inr attrs \<Rightarrow> (case attrs f_name of None \<Rightarrow> Inl (tw_missing w f_name) | Some f \<Rightarrow> Inr f)))"

definition register_tool_from_entrypoint ::
  "'f tool_world \<Rightarrow> string \<Rightarrow> string \<Rightarrow> string option \<Rightarrow> string option \<Rightarrow> settings \<Rightarrow> bool option \<Rightarrow> 'f registry \<Rightarrow> string + 'f registry" where
  "register_tool_from_entrypoint w i entrypoint name description s is_async reg =
     (if jget s ''type'' = JStr ''api'' then register_api_tool w i s name description reg
      else if is_factory_tool_type (tool_type s) then
        (let factory = factory_of i name description s in
         map_sum id (\<lambda>f. put i (tool_definition w i f (Some (opt_or name i)) description None (Some factory)) reg) (tw_sandbox w factory))
      else (case (case import_function w entrypoint of Inl e \<Rightarrow> Inl e | Inr f \<Rightarrow> register_tool w i f description name is_async reg) of
          Inl e \<Rightarrow> Inl (''Failed to register tool '' @ i @ '' from '' @ entrypoint @ '': '' @ e)
        | Inr reg' \<Rightarrow> Inr reg'))"

definition get_tool :: "'f registry \<Rightarrow> string \<Rightarrow> 'f tool_def option" where
  "get_tool reg i = get reg i"

definition get_tools_for_crewai_agent :: "'f registry \<Rightarrow> string list \<Rightarrow> 'f list" where
  "get_tools_for_crewai_agent reg is = map td_function (List.map_filter (get_tool reg) is)"

definition list_tools :: "'f registry \<Rightarrow> string list" where
  "list_tools reg = keys reg"

definition unregister_tool :: "string \<Rightarrow> 'f registry \<Rightarrow> 'f registry" where
  "unregister_tool i reg = (if i \<in> set (keys reg) then del i reg else reg)"

fun repeated_ids :: "string set \<Rightarrow> tool list \<Rightarrow> string set" where
  "repeated_ids seen [] = {}"
| "repeated_ids seen (t # ts) = (if tl_id t \<in> seen then {tl_id t} else {}) \<union> repeated_ids (insert (tl_id t) seen) ts"

text \<open>The loop over the enabled tools; the counts are of those loaded and those that failed.\<close>

fun load_enabled :: "'f tool_world \<Rightarrow> tool list \<Rightarrow> 'f registry \<times> nat \<times> nat \<Rightarrow> 'f registry \<times> nat \<times> nat" where
  "load_enabled w [] st = st"
| "load_enabled w (t # ts) (reg, loaded, failed) = load_enabled w ts
     (if \<not> opt_truthy (tl_entrypoint t) then (reg, loaded, Suc failed)
      else (case register_tool_from_entrypoint w (tl_id t) (the (tl_entrypoint t)) (Some (tl_name t)) (Some (tl_description t)) (tl_settings t)
          (Some (tl_is_async t)) reg of
        Inl e \<Rightarrow> (reg, loaded, Suc failed) | Inr reg' \<Rightarrow> (reg', Suc loaded, failed)))"

datatype load_error = Config_unreadable string | Duplicate_ids "string set"

text \<open>The configuration is what the loader returns, an error or the tools; the registry stays as it was when loading raises.\<close>

definition load_from_config :: "'f tool_world \<Rightarrow> string + tool list \<Rightarrow> 'f registry \<Rightarrow> load_error option \<times> 'f registry \<times> nat \<times> nat" where
  "load_from_config w config reg = (case config of
      Inl e \<Rightarrow> (Some (Config_unreadable e), reg, 0, 0)
    | Inr ts \<Rightarrow> if repeated_ids {} ts \<noteq> {} then (Some (Duplicate_ids (repeated_ids {} ts)), reg, 0, 0)
        else (None, load_enabled w (get_enabled_tools ts) (reg, 0, 0)))"

definition reload_from_config :: "'f tool_world \<Rightarrow> string + tool list \<Rightarrow> 'f registry \<Rightarrow> load_error option \<times> 'f registry \<times> nat \<times> nat" where
  "reload_from_config w config reg = load_from_config w config []"

definition get_tool_registry :: "'f tool_world \<Rightarrow> string + tool list \<Rightarrow> 'f registry option \<Rightarrow> 'f registry" where
  "get_tool_registry w config cached = (case cached of Some reg \<Rightarrow> reg | None \<Rightarrow> fst (snd (load_from_config w config [])))"

subsection \<open>What the validator guarantees\<close>

lemma first_error_None: "first_error cs = None \<longleftrightarrow> (\<forall>c \<in> set cs. \<not> fst c)"
  by (auto simp: first_error_def find_None_iff)

lemma unless_error_Inr: "unless_error e t = Inr t' \<longleftrightarrow> e = None \<and> t' = t"
  by (auto simp: unless_error_def split: option.splits)

lemma json_in_iff: "json_in v ss \<longleftrightarrow> v \<in> JStr ` set ss"
  by (cases v) (auto simp: json_in_def)

lemma eight_cases:
  "x \<in> {a, b, c, d, e, f, g, h} \<Longrightarrow> (x = a \<Longrightarrow> P) \<Longrightarrow> (x = b \<Longrightarrow> P) \<Longrightarrow> (x = c \<Longrightarrow> P) \<Longrightarrow> (x = d \<Longrightarrow> P)
     \<Longrightarrow> (x = e \<Longrightarrow> P) \<Longrightarrow> (x = f \<Longrightarrow> P) \<Longrightarrow> (x = g \<Longrightarrow> P) \<Longrightarrow> (x = h \<Longrightarrow> P) \<Longrightarrow> P"
  by blast

text \<open>An accepted tool can be run as its type says: a function or API tool has an entrypoint, a database or MongoDB tool names
  exactly one source and no inline address with credentials, an MCP server has a command or an HTTP address but not both, a Gmail
  tool lists only known capabilities, and a connector tool only actions of its connector; accepting changes nothing but defaults.\<close>

theorem accepted_tool_runs:
  assumes "validate_tool_type show cs t = Inr u"
  defines "s \<equiv> tl_settings u"
  shows "json_in (tool_type s) valid_tool_types
    \<and> (tool_type s \<in> {JStr ''function'', JStr ''api''} \<longrightarrow> opt_truthy (tl_entrypoint u))
    \<and> (tool_type s = JStr ''api'' \<longrightarrow> truthy (jget s ''api_url''))
    \<and> (tool_type s \<in> {JStr ''database'', JStr ''sql''} \<longrightarrow> truthy (jget s ''db_uri'') \<noteq> truthy (jget s ''db_uri_env_var'')
        \<and> \<not> holds_at show (jget s ''db_uri''))
    \<and> (tool_type s = JStr ''mongodb'' \<longrightarrow> truthy (jget s ''uri'') \<noteq> truthy (jget s ''uri_env_var'') \<and> \<not> holds_at show (jget s ''uri'')
        \<and> truthy (jget s ''database''))
    \<and> (tool_type s = JStr ''mcp'' \<longrightarrow> truthy (jget s ''command'') \<noteq> truthy (jget s ''url''))
    \<and> (tool_type s = JStr ''gmail'' \<longrightarrow> capabilities_ok (jget s ''capabilities''))
    \<and> (tool_type s = JStr ''connector'' \<longrightarrow> validate_connector_settings show cs s = None)
    \<and> tl_id u = tl_id t \<and> tl_enabled u = tl_enabled t \<and> tool_type s = tool_type (tl_settings t)"
proof -
  let ?s = "tl_settings t" let ?ty = "tool_type ?s"
  have v: "json_in ?ty valid_tool_types" using assms(1) by (auto simp: validate_tool_type_def Let_def split: if_splits)
  have url: "http_url v \<Longrightarrow> truthy v" for v by (cases v) (auto simp: http_url_def starts_with_def)
  consider (callable) "?ty = JStr ''function''" | (api) "?ty = JStr ''api''" | (mcp) "?ty = JStr ''mcp''" | (db) "?ty = JStr ''database''"
    | (sql) "?ty = JStr ''sql''" | (mongo) "?ty = JStr ''mongodb''" | (gmail) "?ty = JStr ''gmail''" | (connector) "?ty = JStr ''connector''"
    by (rule eight_cases [OF v [unfolded json_in_iff valid_tool_types_def list.set image_insert image_empty]])
  then show ?thesis
  proof cases
    case api
    then show ?thesis using assms v by (auto simp: validate_tool_type_def Let_def opt_truthy_def split: if_splits)
  next
    case mcp
    have u: "validate_mcp_settings ?s = None" "u = t" using assms(1) v mcp by (simp_all add: validate_tool_type_def unless_error_Inr)
    then show ?thesis using mcp v url [of "jget ?s ''url''"]
      by (auto simp: s_def validate_mcp_settings_def first_error_None split: if_splits)
  next
    case db
    have u: "validate_database_settings show ?s = None" "u = t" using assms(1) v db by (simp_all add: validate_tool_type_def unless_error_Inr)
    then show ?thesis using db v by (auto simp: s_def validate_database_settings_def first_error_None)
  next
    case sql
    have u: "validate_database_settings show ?s = None" "u = t" using assms(1) v sql by (simp_all add: validate_tool_type_def unless_error_Inr)
    then show ?thesis using sql v by (auto simp: s_def validate_database_settings_def first_error_None)
  next
    case mongo
    have u: "validate_mongo_settings show ?s = None" "u = t" using assms(1) v mongo by (simp_all add: validate_tool_type_def unless_error_Inr)
    then show ?thesis using mongo v by (auto simp: s_def validate_mongo_settings_def first_error_None)
  next
    case gmail
    then have "map_sum id (\<lambda>s'. t\<lparr>tl_settings := s'\<rparr>) (validate_gmail_settings show ?s) = Inr u"
      using assms(1) v by (simp add: validate_tool_type_def)
    then have "u = t\<lparr>tl_settings := put ''capabilities'' (capabilities_of ?s) ?s\<rparr>" "capabilities_ok (capabilities_of ?s)"
      by (auto simp: validate_gmail_settings_def Let_def split: if_splits)
    then show ?thesis using gmail v
      by (simp add: s_def tool_type_def jget_def get_default_put)
  next
    case connector
    have u: "validate_connector_settings show cs ?s = None" "u = t" using assms(1) v connector by (simp_all add: validate_tool_type_def unless_error_Inr)
    then show ?thesis using connector v by (simp add: s_def)
  next
    case callable
    then show ?thesis using assms v by (auto simp: validate_tool_type_def split: if_splits)
  qed
qed

definition demo_tool :: tool where
  "demo_tool = \<lparr>tl_id = ''db'', tl_name = ''db'', tl_description = ''d'', tl_entrypoint = None, tl_enabled = True,
     tl_settings = [(''type'', JStr ''sql''), (''db_uri_env_var'', JStr ''DB'')], tl_is_async = False, tl_category = None, tl_version = 1, tl_updated = 0\<rparr>"

lemma demo_tool_valid: "validate_tool_type show cs demo_tool = Inr demo_tool"
  by (simp add: validate_tool_type_def demo_tool_def tool_type_def jget_def get_default_def json_in_def valid_tool_types_def
    validate_database_settings_def first_error_def holds_at_def strings_or_null_def unless_error_def Let_def)

theorem accepted_tool_runs_witness: "truthy (jget (tl_settings demo_tool) ''db_uri'') \<noteq> truthy (jget (tl_settings demo_tool) ''db_uri_env_var'')"
  using accepted_tool_runs [OF demo_tool_valid [of "\<lambda>v. []" "[]"]]
  by (simp add: demo_tool_def tool_type_def get_default_def)

subsection \<open>What the registry holds\<close>

text \<open>The definition a configured tool gets, if it can be registered at all.\<close>

definition registered :: "'f tool_world \<Rightarrow> tool \<Rightarrow> 'f tool_def option" where
  "registered w t = (if \<not> tl_enabled t \<or> \<not> opt_truthy (tl_entrypoint t) then None
     else case register_tool_from_entrypoint w (tl_id t) (the (tl_entrypoint t)) (Some (tl_name t)) (Some (tl_description t)) (tl_settings t)
         (Some (tl_is_async t)) [] of Inl e \<Rightarrow> None | Inr reg \<Rightarrow> get reg (tl_id t))"

lemma register_puts:
  "(\<exists>e. register_tool_from_entrypoint w i ep nm ds s b [] = Inl e \<and> register_tool_from_entrypoint w i ep nm ds s b reg = Inl e)
   \<or> (\<exists>d. register_tool_from_entrypoint w i ep nm ds s b [] = Inr [(i, d)] \<and> register_tool_from_entrypoint w i ep nm ds s b reg = Inr (put i d reg))"
proof -
  note defs = register_tool_from_entrypoint_def register_api_tool_def register_tool_def
  consider (api) "jget s ''type'' = JStr ''api''" | (factory) "jget s ''type'' \<noteq> JStr ''api''" "is_factory_tool_type (tool_type s)"
    | (import) "jget s ''type'' \<noteq> JStr ''api''" "\<not> is_factory_tool_type (tool_type s)" by argo
  then show ?thesis
  proof cases
    case api
    then show ?thesis by (cases "tw_api w i s (opt_or ds (''API tool: '' @ i))") (simp_all add: defs)
  next
    case factory
    then show ?thesis by (cases "tw_sandbox w (factory_of i nm ds s)") (simp_all add: defs Let_def)
  next
    case import
    then show ?thesis by (cases "import_function w ep") (simp_all add: defs)
  qed
qed

lemma load_enabled_step:
  assumes "tl_enabled t"
  shows "load_enabled w (t # ts) (reg, l, f) = load_enabled w ts (case registered w t of
      None \<Rightarrow> (reg, l, Suc f) | Some d \<Rightarrow> (put (tl_id t) d reg, Suc l, f))"
  using register_puts [of w "tl_id t" "the (tl_entrypoint t)" "Some (tl_name t)" "Some (tl_description t)" "tl_settings t" "Some (tl_is_async t)" reg] assms
  by (auto simp: registered_def)

definition loaded_tools :: "'f tool_world \<Rightarrow> tool list \<Rightarrow> 'f registry" where
  "loaded_tools w ts = List.map_filter (\<lambda>t. map_option (Pair (tl_id t)) (registered w t)) ts"

lemma loaded_tools_simps [simp]: "loaded_tools w [] = []"
  "loaded_tools w (t # ts) = (case registered w t of None \<Rightarrow> loaded_tools w ts | Some d \<Rightarrow> (tl_id t, d) # loaded_tools w ts)"
  by (auto simp: loaded_tools_def List.map_filter_simps split: option.splits)

lemma load_enabled_appends:
  assumes "\<forall>t \<in> set ts. tl_enabled t" "distinct (map tl_id ts)" "set (keys reg) \<inter> tl_id ` set ts = {}"
  shows "load_enabled w ts (reg, l, f) = (reg @ loaded_tools w ts, l + length (loaded_tools w ts), f + (length ts - length (loaded_tools w ts)))
    \<and> length (loaded_tools w ts) \<le> length ts"
  using assms
proof (induction ts arbitrary: reg l f)
  case (Cons t ts)
  have e: "tl_enabled t" using Cons.prems(1) by simp
  show ?case
  proof (cases "registered w t")
    case None
    have "load_enabled w ts (reg, l, Suc f) = (reg @ loaded_tools w ts, l + length (loaded_tools w ts), Suc f + (length ts - length (loaded_tools w ts)))
        \<and> length (loaded_tools w ts) \<le> length ts" using Cons by auto
    moreover have "loaded_tools w (t # ts) = loaded_tools w ts" by (simp add: None)
    ultimately show ?thesis using load_enabled_step [OF e, of w ts reg l f] None by (auto simp: Suc_diff_le)
  next
    case (Some d)
    have p: "put (tl_id t) d reg = reg @ [(tl_id t, d)]" using Cons.prems(3) by (intro put_new) auto
    have "set (keys (reg @ [(tl_id t, d)])) \<inter> tl_id ` set ts = {}" using Cons.prems(2,3) by (auto simp: keys_def)
    then have "load_enabled w ts (reg @ [(tl_id t, d)], Suc l, f)
        = ((reg @ [(tl_id t, d)]) @ loaded_tools w ts, Suc l + length (loaded_tools w ts), f + (length ts - length (loaded_tools w ts)))
        \<and> length (loaded_tools w ts) \<le> length ts" using Cons by auto
    moreover have "loaded_tools w (t # ts) = (tl_id t, d) # loaded_tools w ts" by (simp add: Some)
    ultimately show ?thesis using load_enabled_step [OF e, of w ts reg l f] Some p by auto
  qed
qed simp

lemma repeated_ids_empty_iff: "repeated_ids seen ts = {} \<longleftrightarrow> distinct (map tl_id ts) \<and> tl_id ` set ts \<inter> seen = {}"
  by (induction ts arbitrary: seen) auto

lemma loaded_tools_enabled: "loaded_tools w (get_enabled_tools ts) = loaded_tools w ts"
proof (induction ts)
  case (Cons t ts)
  have "\<not> tl_enabled t \<Longrightarrow> registered w t = None" by (simp add: registered_def)
  then show ?case using Cons by (auto simp: get_enabled_tools_def split: option.splits)
qed (simp add: get_enabled_tools_def)

lemma reload_registers:
  assumes "reload_from_config w (Inr ts) reg = (None, reg', loaded, failed)"
  shows "reg' = loaded_tools w ts \<and> wf_odict reg' \<and> loaded = length reg' \<and> loaded + failed = length (get_enabled_tools ts)
    \<and> (\<forall>t \<in> set ts. get_tool reg' (tl_id t) = registered w t)"
proof -
  have d: "distinct (map tl_id ts)" using assms repeated_ids_empty_iff [of "{}" ts]
    by (auto simp: reload_from_config_def load_from_config_def split: if_splits)
  have e: "distinct (map tl_id (get_enabled_tools ts))" using d by (simp add: get_enabled_tools_def distinct_map_filter)
  have "load_enabled w (get_enabled_tools ts) ([], 0, 0) = (reg', loaded, failed)"
    using assms by (auto simp: reload_from_config_def load_from_config_def split: if_splits)
  with load_enabled_appends [of "get_enabled_tools ts" "[]" w 0 0] e
  have r: "reg' = loaded_tools w ts" "loaded = length reg'" "loaded + failed = length (get_enabled_tools ts)"
    using loaded_tools_enabled [of w ts] by (auto simp: keys_def get_enabled_tools_def)
  have g: "distinct (map tl_id us) \<Longrightarrow> set us \<subseteq> set ts \<Longrightarrow> distinct (map fst (loaded_tools w us)) \<and> set (map fst (loaded_tools w us)) \<subseteq> tl_id ` set us
      \<and> (\<forall>t \<in> set us. get (loaded_tools w us) (tl_id t) = registered w t)" for us
  proof (induction us)
    case (Cons t us)
    then have i: "distinct (map fst (loaded_tools w us))" "set (map fst (loaded_tools w us)) \<subseteq> tl_id ` set us"
      "\<forall>t \<in> set us. get (loaded_tools w us) (tl_id t) = registered w t" by auto
    have n: "tl_id t \<notin> tl_id ` set us" "\<forall>u \<in> set us. tl_id u \<noteq> tl_id t" using Cons.prems(1) by (simp, metis distinct.simps(2) image_eqI list.simps(9) set_map)
    then have "get (loaded_tools w us) (tl_id t) = None" using i(2) by (auto simp: map_of_eq_None_iff)
    then show ?case using i n by (cases "registered w t") auto
  qed simp
  show ?thesis using g [OF d] r by (auto simp: wf_odict_def keys_def get_tool_def)
qed

text \<open>C25: A reload that succeeds leaves exactly the tools of the configuration that are enabled and can be registered, in the order of
  the file and under their ids, and the counts it logs are of these and of the other enabled tools.\<close>

theorem reload_refines_config:
  assumes "reload_from_config w (Inr ts) reg = (None, reg', loaded, failed)"
  shows "reg' = loaded_tools w ts \<and> wf_odict reg' \<and> loaded = length reg' \<and> loaded + failed = length (get_enabled_tools ts)
    \<and> (\<forall>t \<in> set ts. get_tool reg' (tl_id t) = registered w t)"
  by (rule reload_registers [OF assms])

theorem reload_refines_config_witness: "\<exists>w :: nat tool_world. loaded_tools w [demo_tool] = [] \<and> wf_odict (loaded_tools w [demo_tool])"
proof -
  obtain w :: "nat tool_world" where True by simp
  have "reload_from_config w (Inr [demo_tool]) [] = (None, [], 0, 1)"
    by (simp add: reload_from_config_def load_from_config_def get_enabled_tools_def demo_tool_def opt_truthy_def)
  from reload_refines_config [OF this] have "loaded_tools w [demo_tool] = [] \<and> wf_odict (loaded_tools w [demo_tool])"
    by (elim conjE) (simp only: wf_Nil simp_thms)
  then show ?thesis by blast
qed

text \<open>A tool of a type that the runtime builds for each run needs no entrypoint to be accepted, but without one it is never
  registered, whether the server starts, reloads, or loads it again.\<close>

theorem factory_tool_never_loaded:
  assumes "t \<in> set ts" "\<not> opt_truthy (tl_entrypoint t)"
  shows "get_tool (get_tool_registry w (Inr ts) None) (tl_id t) = None
    \<and> (\<forall>reg. get_tool (fst (snd (reload_from_config w (Inr ts) reg))) (tl_id t) = None)"
proof -
  have "get_tool (fst (snd (reload_from_config w (Inr ts) reg))) (tl_id t) = None" for reg
  proof (cases "reload_from_config w (Inr ts) reg")
    case (fields e reg' l f)
    show ?thesis
    proof (cases e)
      case None
      then have "\<forall>t \<in> set ts. get_tool reg' (tl_id t) = registered w t"
        using reload_registers [of w ts reg reg' l f] fields by blast
      then show ?thesis using assms fields by (simp add: registered_def)
    next
      case (Some x)
      then show ?thesis using fields by (auto simp: reload_from_config_def load_from_config_def get_tool_def split: if_splits)
    qed
  qed
  then show ?thesis by (simp add: get_tool_registry_def reload_from_config_def)
qed

theorem factory_tool_never_loaded_witness:
  "validate_tool_type (\<lambda>v. []) builtin_connectors demo_tool = Inr demo_tool \<and> is_factory_tool_type (tool_type (tl_settings demo_tool))
    \<and> (\<forall>w :: nat tool_world. get_tool (get_tool_registry w (Inr [demo_tool]) None) ''db'' = None)"
proof -
  have "tl_id demo_tool = ''db''" "\<not> opt_truthy (tl_entrypoint demo_tool)" "is_factory_tool_type (tool_type (tl_settings demo_tool))"
    by (simp_all add: demo_tool_def opt_truthy_def is_factory_tool_type_def tool_type_def get_default_def json_in_def factory_types_def)
  then show ?thesis using factory_tool_never_loaded [of demo_tool "[demo_tool]"] demo_tool_valid by force
qed

text \<open>A reload clears the registry before it reads the file, so a file that cannot be read leaves no tool at all.\<close>

theorem failed_reload_empties: "fst (reload_from_config w config reg) \<noteq> None \<Longrightarrow> fst (snd (reload_from_config w config reg)) = []"
  by (auto simp: reload_from_config_def load_from_config_def split: sum.splits if_splits)

end
