(* ===== verification/Dependencies.thy ===== *)
theory Dependencies
  imports Tools Agents Workflows
begin

text \<open>
  The dependency checks between tools, agents and workflows, \<open>src/src/config/dependency_validation.py\<close>.  The state is the
  three configuration files as they parse: the tools through the loader (whose cache is part of what it returns), agents
  and workflows read on every call, absent, refused or loaded.  The order in which a Python set is listed in a message is
  not modelled, so the error of an unknown reference holds sets.
\<close>

datatype 'a file_state = Absent | Refused string | Loaded 'a

record config_files =
  cf_tools :: "string + tool list"
  cf_agents :: "agent list file_state"
  cf_workflows :: "workflow list file_state"

datatype dependency_error = Missing_tools string "string list" "string set" | Missing_agents string "string set" "string set"
  | Agents_file_missing string "string set" | Tool_in_use string "string list" | Agent_in_use string "string list"
  | Not_loaded string

definition validate_agent_tool_references :: "config_files \<Rightarrow> string \<Rightarrow> string list \<Rightarrow> dependency_error option" where
  "validate_agent_tool_references c agent_id tool_ids = (if tool_ids = [] then None
     else case cf_tools c of Inl e \<Rightarrow> Some (Not_loaded e)
     | Inr ts \<Rightarrow> (let available = tl_id ` set ts; missing = filter (\<lambda>i. i \<notin> available) tool_ids in
         if missing = [] then None else Some (Missing_tools agent_id missing available)))"

definition validate_workflow_agent_references :: "config_files \<Rightarrow> string \<Rightarrow> string set \<Rightarrow> dependency_error option" where
  "validate_workflow_agent_references c workflow_id agent_ids = (if agent_ids = {} then None
     else case cf_agents c of Absent \<Rightarrow> Some (Agents_file_missing workflow_id agent_ids)
     | Refused e \<Rightarrow> Some (Not_loaded e)
     | Loaded as \<Rightarrow> (let available = ag_id ` set as; missing = agent_ids - available in
         if missing = {} then None else Some (Missing_agents workflow_id missing available)))"

definition check_tool_dependencies :: "config_files \<Rightarrow> string \<Rightarrow> dependency_error + string list" where
  "check_tool_dependencies c tool_id = (case cf_agents c of Absent \<Rightarrow> Inr [] | Refused e \<Rightarrow> Inl (Not_loaded e)
     | Loaded as \<Rightarrow> Inr (map ag_id (filter (\<lambda>a. tool_id \<in> set (ag_tools a)) as)))"

definition check_agent_dependencies :: "config_files \<Rightarrow> string \<Rightarrow> dependency_error + string list" where
  "check_agent_dependencies c agent_id = (case cf_workflows c of Absent \<Rightarrow> Inr [] | Refused e \<Rightarrow> Inl (Not_loaded e)
     | Loaded ws \<Rightarrow> Inr (map wf_id (filter (\<lambda>w. agent_id \<in> get_all_agent_ids w) ws)))"

definition validate_tool_deletion :: "config_files \<Rightarrow> string \<Rightarrow> dependency_error option" where
  "validate_tool_deletion c tool_id = (case check_tool_dependencies c tool_id of Inl e \<Rightarrow> Some e
     | Inr users \<Rightarrow> if users = [] then None else Some (Tool_in_use tool_id users))"

definition validate_agent_deletion :: "config_files \<Rightarrow> string \<Rightarrow> dependency_error option" where
  "validate_agent_deletion c agent_id = (case check_agent_dependencies c agent_id of Inl e \<Rightarrow> Some e
     | Inr users \<Rightarrow> if users = [] then None else Some (Agent_in_use agent_id users))"

subsection \<open>Allowed deletions leave nothing dangling\<close>

text \<open>Deleting from a file, and the state in which every reference the files contain is accepted by the validator.\<close>

fun map_file :: "('a \<Rightarrow> 'a) \<Rightarrow> 'a file_state \<Rightarrow> 'a file_state" where
  "map_file f Absent = Absent" | "map_file f (Refused e) = Refused e" | "map_file f (Loaded x) = Loaded (f x)"

definition without_agent :: "string \<Rightarrow> config_files \<Rightarrow> config_files" where
  "without_agent i c = c\<lparr>cf_agents := map_file (filter (\<lambda>a. ag_id a \<noteq> i)) (cf_agents c)\<rparr>"

definition without_tool :: "string \<Rightarrow> config_files \<Rightarrow> config_files" where
  "without_tool i c = c\<lparr>cf_tools := map_sum id (filter (\<lambda>t. tl_id t \<noteq> i)) (cf_tools c)\<rparr>"

definition references_resolved :: "config_files \<Rightarrow> bool" where
  "references_resolved c \<longleftrightarrow>
     (\<forall>as. cf_agents c = Loaded as \<longrightarrow> (\<forall>a \<in> set as. validate_agent_tool_references c (ag_id a) (ag_tools a) = None))
     \<and> (\<forall>ws. cf_workflows c = Loaded ws \<longrightarrow> (\<forall>w \<in> set ws. validate_workflow_agent_references c (wf_id w) (get_all_agent_ids w) = None))"

lemma agent_tools_ok_iff:
  "validate_agent_tool_references c a ts = None \<longleftrightarrow> ts = [] \<or> (\<exists>us. cf_tools c = Inr us \<and> set ts \<subseteq> tl_id ` set us)"
  by (auto simp: validate_agent_tool_references_def Let_def filter_empty_conv split: sum.splits)

lemma workflow_agents_ok_iff:
  "validate_workflow_agent_references c w is = None \<longleftrightarrow> is = {} \<or> (\<exists>as. cf_agents c = Loaded as \<and> is \<subseteq> ag_id ` set as)"
  by (auto simp: validate_workflow_agent_references_def Let_def split: file_state.splits)

lemma tool_deletion_iff:
  "validate_tool_deletion c i = None \<longleftrightarrow> cf_agents c = Absent \<or> (\<exists>as. cf_agents c = Loaded as \<and> (\<forall>a \<in> set as. i \<notin> set (ag_tools a)))"
  by (auto simp: validate_tool_deletion_def check_tool_dependencies_def filter_empty_conv split: file_state.splits)

lemma agent_deletion_iff:
  "validate_agent_deletion c i = None \<longleftrightarrow> cf_workflows c = Absent \<or> (\<exists>ws. cf_workflows c = Loaded ws \<and> (\<forall>w \<in> set ws. i \<notin> get_all_agent_ids w))"
  by (auto simp: validate_agent_deletion_def check_agent_dependencies_def filter_empty_conv split: file_state.splits)


definition demo_agent_with :: "string list \<Rightarrow> agent" where
  "demo_agent_with ts = \<lparr>ag_id = ''a'', ag_type = ASSISTANT, ag_name = ''A'', ag_output_key = None, ag_system_message = None, ag_is_selector = False,
     ag_model_override = None, ag_settings = None, ag_llm = Llm_none, ag_client = None, ag_memory = None, ag_reflect_on_tool_use = True,
     ag_human_input = NEVER, ag_code_execution = Code_flag False, ag_tools = ts, ag_max_auto_reply = 10, ag_retrieve = None,
     ag_description = None, ag_behavior = None, ag_version = 1, ag_updated = 0\<rparr>"

definition demo_config :: "workflow list \<Rightarrow> config_files" where
  "demo_config ws = \<lparr>cf_tools = Inr [demo_tool], cf_agents = Loaded [demo_agent_with []], cf_workflows = Loaded ws\<rparr>"


text \<open>The tools that a node of a workflow lists are no references for the check, so a tool that a workflow runs can be deleted.\<close>

theorem node_tools_not_checked:
  assumes "cf_agents c = Loaded as" "\<forall>a \<in> set as. i \<notin> set (ag_tools a)" "cf_workflows c = Loaded ws" "w \<in> set ws"
    "n \<in> set (tp_nodes (wf_topology w))" "i \<in> set (an_tools n)"
  shows "validate_tool_deletion c i = None"
  using assms by (simp add: tool_deletion_iff)

end
