(* ===== verification/Sql_Guard.thy ===== *)
theory Sql_Guard
  imports Tools
begin

text \<open>
  The guarded database tools of an agent, \<open>src/src/tools/database_factories.py\<close>: the read-only check and the allowlist of SQL
  statements, the query runner over a database given as a function, and the MongoDB tool with its operator check.
  Regular expressions are written out: comments, whole words, and the names after \<open>from\<close>, \<open>join\<close>, \<open>into\<close> and
  \<open>update\<close>.  A database call answers with rows, a count or an error text; the values in rows are JSON.
\<close>

subsection \<open>The read-only check\<close>

definition write_verbs :: "string list" where
  "write_verbs = [''insert'', ''update'', ''delete'', ''drop'', ''truncate'', ''alter'', ''create'', ''grant'', ''revoke'', ''replace'', ''merge'',
     ''upsert'', ''call'', ''execute'', ''exec'', ''copy'', ''vacuum'', ''attach'', ''detach'', ''pragma'', ''set'', ''reset'']"

text \<open>What follows the end of a block comment, if it ends.\<close>

fun close_comment :: "string \<Rightarrow> string option" where
  "close_comment (c # d # s) = (if c = CHR ''*'' \<and> d = CHR ''/'' then Some s else close_comment (d # s))"
| "close_comment s = None"

text \<open>The rest after a comment that starts here: to the end of the line, or to the end of a closed block.\<close>

definition skip_comment :: "string \<Rightarrow> string option" where
  "skip_comment s = (if starts_with ''--'' s then Some (dropWhile (\<lambda>c. c \<noteq> newline) s)
     else if starts_with ''/*'' s then close_comment (drop 2 s) else None)"

lemma close_comment_shorter: "close_comment s = Some t \<Longrightarrow> length t < length s"
  by (induction s rule: close_comment.induct) (auto split: if_splits)

lemma skip_comment_shorter: "skip_comment s = Some t \<Longrightarrow> length t < length s"
proof -
  assume s: "skip_comment s = Some t"
  show "length t < length s"
  proof (cases "starts_with ''--'' s")
    case True
    then obtain u where u: "s = CHR ''-'' # CHR ''-'' # u" by (auto elim: starts_withE)
    then show ?thesis using s length_dropWhile_le [of "\<lambda>c. c \<noteq> newline" u] True by (auto simp: skip_comment_def newline_def)
  next
    case False
    then show ?thesis using s close_comment_shorter [of "drop 2 s" t] by (auto simp: skip_comment_def split: if_splits)
  qed
qed

function strip_comments :: "string \<Rightarrow> string" where
  "strip_comments [] = []"
| "strip_comments (c # s) = (case skip_comment (c # s) of Some t \<Rightarrow> CHR '' '' # strip_comments t | None \<Rightarrow> c # strip_comments s)"
  by pat_completeness auto
termination
proof (relation "measure length")
  fix c :: char and s t :: string
  assume "skip_comment (c # s) = Some t"
  then show "(t, c # s) \<in> measure length" using skip_comment_shorter [of "c # s" t] by simp
qed simp_all

function words_of :: "string \<Rightarrow> string list" where
  "words_of [] = []"
| "words_of (c # s) = (if is_word c then (c # takeWhile is_word s) # words_of (dropWhile is_word s) else words_of s)"
  by pat_completeness auto
termination by (relation "measure length") (auto simp: less_Suc_eq_le length_dropWhile_le)

definition has_write_verb :: "string \<Rightarrow> bool" where
  "has_write_verb s \<longleftrightarrow> list_ex (\<lambda>w. lower w \<in> set write_verbs) (words_of s)"

definition rstrip_char :: "char \<Rightarrow> string \<Rightarrow> string" where
  "rstrip_char c s = rev (dropWhile (\<lambda>d. d = c) (rev s))"

definition first_word :: "string \<Rightarrow> string" where
  "first_word s = lower (takeWhile (\<lambda>c. \<not> is_space c) s)"

definition read_words :: "string list" where
  "read_words = [''select'', ''with'', ''show'', ''describe'', ''desc'', ''explain'']"

definition read_only_message :: "string \<Rightarrow> string" where
  "read_only_message w = ''This tool is read-only; '' @ quoted (upper w) @ '' is not permitted. Only SELECT, WITH, SHOW, DESCRIBE, and EXPLAIN are allowed.''"

definition assert_read_only :: "string \<Rightarrow> string + string" where
  "assert_read_only sql =
     (let stripped = strip (strip_comments sql) in
      if stripped = [] then Inl ''Empty statement.''
      else let body = strip (rstrip_char CHR '';'' stripped) in
        if CHR '';'' \<in> set body then Inl ''Multiple statements are not allowed. Send one SELECT at a time.''
        else if first_word body \<notin> set read_words then Inl (read_only_message (first_word body))
        else if first_word body = ''with'' \<and> has_write_verb body then
          Inl ''The statement contains a data-modifying verb inside a CTE, which is not allowed.''
        else Inr body)"

subsection \<open>The SQL tool\<close>

type_synonym tool_report = "(string \<times> json) list"

datatype sql_outcome = Sql_error string | Sql_changed int | Sql_rows "string list" "json list list"

record table_info =
  ti_columns :: "json list"
  ti_foreign_keys :: "json list option"

record sql_world =
  sq_env :: "string \<Rightarrow> string option"
  sq_show :: "json \<Rightarrow> string"
  sq_dialect :: string
  sq_tables :: "string \<Rightarrow> string + (string \<times> table_info) list"
  sq_execute :: "string \<Rightarrow> string \<Rightarrow> sql_outcome"

definition resolve_uri :: "sql_world \<Rightarrow> string \<Rightarrow> settings \<Rightarrow> string + string" where
  "resolve_uri w i s = (let var = jget s ''db_uri_env_var''; name = text_of (sq_show w) var in
     if truthy var then
       (if opt_truthy (sq_env w name) then Inr (the (sq_env w name))
        else Inl (''SQL tool '' @ quoted i @ '': env var '' @ quoted name @ '' is not set (it should hold the SQLAlchemy database URI)''))
     else if truthy (jget s ''db_uri'') then Inr (text_of (sq_show w) (jget s ''db_uri''))
     else Inl (''SQL tool '' @ quoted i @ '': set either '' @ quoted ''db_uri_env_var'' @ '' (recommended) or '' @ quoted ''db_uri''
       @ '' in the tool settings.''))"

text \<open>The validator admits only a list of strings as \<open>tables\<close>.\<close>

definition allowed_names :: "(json \<Rightarrow> string) \<Rightarrow> json \<Rightarrow> string list option" where
  "allowed_names show v = (case v of JList xs \<Rightarrow> if xs = [] then None else Some (map (text_of show) xs) | _ \<Rightarrow> None)"

definition allowed_tables :: "sql_world \<Rightarrow> settings \<Rightarrow> string list option" where
  "allowed_tables w s = allowed_names (sq_show w) (jget s ''tables'')"

definition read_only :: "settings \<Rightarrow> bool" where
  "read_only s \<longleftrightarrow> \<not> truthy (get_default s ''allow_writes'' (JBool False))"

definition row_limit :: "settings \<Rightarrow> nat" where
  "row_limit s = (case get_default s ''max_rows'' (JInt 200) of JInt i \<Rightarrow> if i = 0 then 200 else nat i | _ \<Rightarrow> 200)"

definition sql_tool_error :: "string \<Rightarrow> tool_report" where
  "sql_tool_error m = [(''error'', JStr m)]"

definition table_entry :: "table_info \<Rightarrow> json" where
  "table_entry t = JObj ((''columns'', JList (ti_columns t))
     # (case ti_foreign_keys t of Some (k # ks) \<Rightarrow> [(''foreign_keys'', JList (k # ks))] | _ \<Rightarrow> []))"

definition describe_schema :: "sql_world \<Rightarrow> string \<Rightarrow> settings \<Rightarrow> string \<Rightarrow> tool_report" where
  "describe_schema w i s table = (case resolve_uri w i s of Inl m \<Rightarrow> sql_tool_error m
     | Inr uri \<Rightarrow> (case sq_tables w uri of Inl m \<Rightarrow> sql_tool_error (''Schema introspection failed: '' @ m)
       | Inr ts \<Rightarrow>
         (let names = filter (\<lambda>n. case allowed_tables w s of None \<Rightarrow> True | Some allowed \<Rightarrow> n \<in> set allowed) (map fst ts) in
          if table \<noteq> [] \<and> table \<notin> set names then
            sql_tool_error (''Table '' @ quoted table @ '' is not available. Tables: '' @ join '', '' names)
          else let shown = take 100 (if table \<noteq> [] then [table] else names);
                   schema = fold (\<lambda>n. put n (table_entry (the (get ts n)))) shown [] in
            [(''dialect'', JStr (sq_dialect w)), (''table_count'', JInt (int (length schema))), (''tables'', JObj schema),
             (''read_only'', JBool (read_only s))])))"

text \<open>\<open>\b(?:from|join|into|update)\s+["'`\[]?(\w+)\<close> at a position where a word may start: the name and what follows.\<close>

definition reference_words :: "string list" where
  "reference_words = [''from'', ''join'', ''into'', ''update'']"

definition name_after :: "string \<Rightarrow> (string \<times> string) option" where
  "name_after s = (let t = dropWhile is_space s;
       u = (if t \<noteq> [] \<and> hd t \<in> set [CHR 0x22, CHR 0x27, CHR 0x60, CHR ''[''] then tl t else t) in
     if s = t \<or> takeWhile is_word u = [] then None else Some (takeWhile is_word u, dropWhile is_word u))"

definition match_reference :: "string \<Rightarrow> (string \<times> string) option" where
  "match_reference s = (case List.find (\<lambda>k. starts_with k (lower s)) reference_words of
      None \<Rightarrow> None | Some k \<Rightarrow> name_after (drop (length k) s))"

lemma name_after_shorter: "name_after s = Some (n, r) \<Longrightarrow> length r \<le> length s"
proof -
  define t where "t = dropWhile is_space s"
  define u where "u = (if t \<noteq> [] \<and> hd t \<in> set [CHR 0x22, CHR 0x27, CHR 0x60, CHR ''[''] then tl t else t)"
  assume "name_after s = Some (n, r)"
  then have "r = dropWhile is_word u" unfolding name_after_def Let_def t_def [symmetric] u_def [symmetric] by (auto split: if_splits)
  then have "length r \<le> length u" by (simp add: length_dropWhile_le)
  also have "length u \<le> length t" by (simp add: u_def)
  also have "length t \<le> length s" by (simp add: t_def length_dropWhile_le)
  finally show ?thesis .
qed

lemma match_reference_shorter: "match_reference s = Some (n, r) \<Longrightarrow> length r < length s"
proof -
  assume m: "match_reference s = Some (n, r)"
  then obtain k where k: "k \<in> set reference_words" "starts_with k (lower s)" "name_after (drop (length k) s) = Some (n, r)"
    by (auto simp: match_reference_def dest!: find_SomeD split: option.splits)
  then have "0 < length k" "length k \<le> length s" by (auto simp: reference_words_def lower_def elim!: starts_withE)
  then show ?thesis using name_after_shorter [OF k(3)] by (cases "length k") auto
qed

function references :: "bool \<Rightarrow> string \<Rightarrow> string list" where
  "references in_word [] = []"
| "references in_word (c # s) = (case (if in_word then None else match_reference (c # s)) of
      Some (n, r) \<Rightarrow> n # references True r
    | None \<Rightarrow> references (is_word c) s)"
  by pat_completeness auto
termination
  by (relation "measure (\<lambda>(b, s). length s)") (auto split: if_splits dest: match_reference_shorter)

definition blocked_message :: "string list \<Rightarrow> string list \<Rightarrow> string" where
  "blocked_message blocked allowed = ''Table(s) not permitted for this tool: '' @ join '', '' (sort_strings blocked) @ ''. Allowed: ''
     @ join '', '' (sort_strings allowed)"

definition run_allowed :: "sql_world \<Rightarrow> string \<Rightarrow> settings \<Rightarrow> string \<Rightarrow> tool_report" where
  "run_allowed w i s sql = (case resolve_uri w i s of Inl m \<Rightarrow> sql_tool_error m
     | Inr uri \<Rightarrow> (case sq_execute w uri sql of
         Sql_error m \<Rightarrow> sql_tool_error (''Query failed: '' @ m)
       | Sql_changed n \<Rightarrow> [(''rows_affected'', JInt n), (''rows'', JList [])]
       | Sql_rows cols rs \<Rightarrow> (let shown = take (row_limit s) rs in
           [(''columns'', JList (map JStr cols)), (''row_count'', JInt (int (length shown))), (''truncated'', JBool (row_limit s < length rs)),
            (''rows'', JList (map (\<lambda>r. JObj (fold (\<lambda>(k, v). put k v) (zip cols r) [])) shown))])))"

definition run_query :: "sql_world \<Rightarrow> string \<Rightarrow> settings \<Rightarrow> string \<Rightarrow> tool_report" where
  "run_query w i s sql = (case (if read_only s then assert_read_only sql else Inr sql) of
      Inl m \<Rightarrow> [(''error'', JStr m), (''read_only'', JBool True)]
    | Inr body \<Rightarrow> (let blocked = (case allowed_tables w s of None \<Rightarrow> []
            | Some allowed \<Rightarrow> filter (\<lambda>n. n \<notin> set allowed) (remdups (references False body))) in
        if blocked \<noteq> [] then sql_tool_error (blocked_message blocked (remdups (the (allowed_tables w s))))
        else run_allowed w i s body))"

definition sample_table :: "sql_world \<Rightarrow> string \<Rightarrow> settings \<Rightarrow> string \<Rightarrow> int \<Rightarrow> tool_report" where
  "sample_table w i s table limit = (let allowed = allowed_tables w s in
     if allowed \<noteq> None \<and> table \<notin> set (the allowed) then
       sql_tool_error (''Table '' @ quoted table @ '' is not permitted. Allowed: '' @ join '', '' (sort_strings (remdups (the allowed))))
     else if table = [] \<or> \<not> list_all is_word table then sql_tool_error ''Table name must be a bare identifier.''
     else run_query w i s (''SELECT * FROM '' @ table @ '' LIMIT '' @ int_str (max 1 (min limit (int (row_limit s))))))"

text \<open>The action of the tool's test function; arguments left out are \<open>''''\<close> and 10.\<close>

definition sql_action :: "sql_world \<Rightarrow> string \<Rightarrow> settings \<Rightarrow> string \<Rightarrow> string \<Rightarrow> string \<Rightarrow> int \<Rightarrow> tool_report" where
  "sql_action w i s action table sql limit =
     (if action = ''schema'' then describe_schema w i s table
      else if action = ''query'' then run_query w i s sql
      else if action = ''sample'' then sample_table w i s table limit
      else sql_tool_error (''Unknown action '' @ quoted action @ ''. Use schema, query, or sample.''))"

subsection \<open>MongoDB\<close>

record mongo_world =
  mo_env :: "string \<Rightarrow> string option"
  mo_show :: "json \<Rightarrow> string"
  mo_type :: "json \<Rightarrow> string"
  mo_parse :: "string \<Rightarrow> string + json"
  mo_names :: "string \<Rightarrow> string \<Rightarrow> string + (string \<times> int) list"
  mo_find :: "string \<Rightarrow> string \<Rightarrow> string \<Rightarrow> (string \<times> json) list \<Rightarrow> nat \<Rightarrow> string + (string \<times> json) list list"

definition mongo_uri :: "mongo_world \<Rightarrow> string \<Rightarrow> settings \<Rightarrow> string + string" where
  "mongo_uri w i s = (let var = jget s ''uri_env_var''; name = text_of (mo_show w) var in
     if truthy var then
       (if opt_truthy (mo_env w name) then Inr (the (mo_env w name))
        else Inl (''MongoDB tool '' @ quoted i @ '': env var '' @ quoted name @ '' is not set.''))
     else if truthy (jget s ''uri'') then Inr (text_of (mo_show w) (jget s ''uri''))
     else Inl (''MongoDB tool '' @ quoted i @ '': set either '' @ quoted ''uri_env_var'' @ '' (recommended) or '' @ quoted ''uri'' @ ''.''))"

definition database_name :: "mongo_world \<Rightarrow> string \<Rightarrow> settings \<Rightarrow> string + string" where
  "database_name w i s = (if truthy (jget s ''database'') then Inr (text_of (mo_show w) (jget s ''database''))
     else Inl (''MongoDB tool '' @ quoted i @ '': '' @ quoted ''database'' @ '' is required in settings.''))"

text \<open>The client is opened once both resolve, the address first.\<close>

definition mongo_client :: "mongo_world \<Rightarrow> string \<Rightarrow> settings \<Rightarrow> string + string \<times> string" where
  "mongo_client w i s = (case mongo_uri w i s of Inl m \<Rightarrow> Inl m
     | Inr uri \<Rightarrow> (case database_name w i s of Inl m \<Rightarrow> Inl m | Inr db \<Rightarrow> Inr (uri, db)))"

definition allowed_collections :: "mongo_world \<Rightarrow> settings \<Rightarrow> string list option" where
  "allowed_collections w s = allowed_names (mo_show w) (jget s ''collections'')"

definition document_limit :: "settings \<Rightarrow> int" where
  "document_limit s = (case get_default s ''max_documents'' (JInt 50) of JInt i \<Rightarrow> if i = 0 then 50 else i | _ \<Rightarrow> 50)"

definition check_collection :: "mongo_world \<Rightarrow> settings \<Rightarrow> string \<Rightarrow> string option" where
  "check_collection w s c = (case allowed_collections w s of None \<Rightarrow> None
     | Some allowed \<Rightarrow> if c \<in> set allowed then None
       else Some (''Collection '' @ quoted c @ '' is not permitted. Allowed: '' @ join '', '' (sort_strings (remdups allowed))))"

definition list_collections :: "mongo_world \<Rightarrow> string \<Rightarrow> settings \<Rightarrow> tool_report" where
  "list_collections w i s = (case mongo_client w i s of Inl m \<Rightarrow> sql_tool_error m
     | Inr (uri, db) \<Rightarrow> (case mo_names w uri db of Inl m \<Rightarrow> sql_tool_error (''Could not list collections: '' @ m)
       | Inr counts \<Rightarrow>
         (let names = filter (\<lambda>n. case allowed_collections w s of None \<Rightarrow> True | Some allowed \<Rightarrow> n \<in> set allowed) (sort_strings (map fst counts)) in
          [(''database'', JStr db), (''count'', JInt (int (length names))),
           (''collections'', JList (map (\<lambda>n. JObj [(''name'', JStr n), (''documents'', JInt (the (get counts n)))]) (take 100 names)))])))"

text \<open>The fields seen in the sampled documents: the types of their values, without repetition, and in how many they occur.\<close>

type_synonym field_stats = "(string \<times> string list \<times> nat) list"

definition count_field :: "mongo_world \<Rightarrow> string \<times> json \<Rightarrow> field_stats \<Rightarrow> field_stats" where
  "count_field w kv stats = (let (types, n) = (case get stats (fst kv) of None \<Rightarrow> ([], 0) | Some e \<Rightarrow> e) in
     put (fst kv) (append_new (mo_type w (snd kv)) types, Suc n) stats)"

definition field_summary :: "mongo_world \<Rightarrow> (string \<times> json) list list \<Rightarrow> field_stats" where
  "field_summary w docs = fold (\<lambda>d. fold (count_field w) d) docs []"

definition field_object :: "nat \<Rightarrow> string list \<times> nat \<Rightarrow> json" where
  "field_object n_docs e = JObj [(''types'', JList (map JStr (sort_strings (fst e)))), (''present_in'', JStr (nat_str (snd e) @ ''/'' @ nat_str n_docs))]"

definition describe_collection :: "mongo_world \<Rightarrow> string \<Rightarrow> settings \<Rightarrow> string \<Rightarrow> int \<Rightarrow> tool_report" where
  "describe_collection w i s c sample = (case check_collection w s c of Some m \<Rightarrow> sql_tool_error m
     | None \<Rightarrow>
       (case (case mongo_client w i s of Inl m \<Rightarrow> Inl m | Inr (uri, db) \<Rightarrow> mo_find w uri db c [] (nat (max 1 (min sample 200)))) of
          Inl m \<Rightarrow> sql_tool_error (''Could not sample '' @ quoted c @ '': '' @ m)
        | Inr docs \<Rightarrow> (let stats = field_summary w docs in
            [(''collection'', JStr c), (''sampled'', JInt (int (length docs))),
             (''fields'', JObj (map (\<lambda>k. (k, field_object (length docs) (the (get stats k)))) (sort_strings (keys stats))))])))"

text \<open>\<open>_all_keys\<close>: the keys anywhere in a value.\<close>

fun all_keys :: "json \<Rightarrow> string list" where
  "all_keys (JObj kvs) = concat (map (\<lambda>kv. fst kv # all_keys (snd kv)) kvs)"
| "all_keys (JList xs) = concat (map all_keys xs)"
| "all_keys v = []"

definition forbidden_operators :: "string list" where
  "forbidden_operators = [''$where'', ''$function'', ''$accumulator'', ''$out'', ''$merge'']"

definition parse_filter :: "mongo_world \<Rightarrow> string \<Rightarrow> string + json" where
  "parse_filter w f = mo_parse w (if f = [] then ''{}'' else f)"

definition find_documents :: "mongo_world \<Rightarrow> string \<Rightarrow> settings \<Rightarrow> string \<Rightarrow> string \<Rightarrow> int \<Rightarrow> tool_report" where
  "find_documents w i s c filter_json limit = (case check_collection w s c of Some m \<Rightarrow> sql_tool_error m
     | None \<Rightarrow> (case parse_filter w filter_json of
         Inl m \<Rightarrow> sql_tool_error (quoted ''filter_json'' @ '' is not valid JSON: '' @ m)
       | Inr v \<Rightarrow> (case v of
           JObj query \<Rightarrow>
             if read_only s \<and> list_ex (\<lambda>k. k \<in> set forbidden_operators) (all_keys v) then
               sql_tool_error ''This tool is read-only; server-side execution operators are not allowed.''
             else (case (case mongo_client w i s of Inl m \<Rightarrow> Inl m
                 | Inr (uri, db) \<Rightarrow> mo_find w uri db c query (nat (max 1 (min limit (document_limit s))))) of
                 Inl m \<Rightarrow> sql_tool_error (''Query failed: '' @ m)
               | Inr docs \<Rightarrow> [(''collection'', JStr c), (''count'', JInt (int (length docs))), (''documents'', JList (map JObj docs))])
         | _ \<Rightarrow> sql_tool_error (quoted ''filter_json'' @ '' must be a JSON object.''))))"

definition mongo_action :: "mongo_world \<Rightarrow> string \<Rightarrow> settings \<Rightarrow> string \<Rightarrow> string \<Rightarrow> string \<Rightarrow> int \<Rightarrow> int \<Rightarrow> tool_report" where
  "mongo_action w i s action c filter_json sample limit =
     (if action = ''list'' then list_collections w i s
      else if action = ''describe'' then describe_collection w i s c sample
      else if action = ''find'' then find_documents w i s c filter_json limit
      else sql_tool_error (''Unknown action '' @ quoted action @ ''. Use list, describe, or find.''))"

subsection \<open>Comments stay away\<close>

lemma close_comment_append: "close_comment t = Some r \<Longrightarrow> close_comment (t @ u) = Some (r @ u)"
  by (induction t rule: close_comment.induct) (auto split: if_splits)

lemma close_comment_Cons: "close_comment (c # s) = None \<longleftrightarrow> \<not> (c = CHR ''*'' \<and> s \<noteq> [] \<and> hd s = CHR ''/'') \<and> close_comment s = None"
  by (cases s) auto

lemma close_comment_suffix: "close_comment (p @ t) = None \<Longrightarrow> close_comment t = None"
  by (induction p) (auto simp: close_comment_Cons)

lemma close_comment_prefix: "close_comment (t @ u) = None \<Longrightarrow> close_comment t = None"
  using close_comment_append [of t _ u] by (cases "close_comment t") auto

lemma close_comment_after: "close_comment s = Some t \<Longrightarrow> \<exists>p. s = p @ t"
proof (induction s rule: close_comment.induct)
  case (1 c d s)
  show ?case
  proof (cases "c = CHR ''*'' \<and> d = CHR ''/''")
    case True
    then show ?thesis using 1(2) by (intro exI [of _ "[c, d]"]) auto
  next
    case False
    then obtain p where "d # s = p @ t" using 1 by auto
    then show ?thesis by (intro exI [of _ "c # p"]) simp
  qed
qed auto

lemma skip_comment_after: "skip_comment s = Some t \<Longrightarrow> \<exists>p. s = p @ t"
proof -
  assume s: "skip_comment s = Some t"
  show "\<exists>p. s = p @ t"
  proof (cases "starts_with ''--'' s")
    case True
    then have "t = dropWhile (\<lambda>c. c \<noteq> newline) s" using s by (simp add: skip_comment_def)
    then show ?thesis by (intro exI [of _ "takeWhile (\<lambda>c. c \<noteq> newline) s"]) simp
  next
    case False
    then obtain p where "drop 2 s = p @ t" using s close_comment_after by (auto simp: skip_comment_def split: if_splits)
    then have "s = (take 2 s @ p) @ t" by (metis append_assoc append_take_drop_id)
    then show ?thesis by blast
  qed
qed

text \<open>A text without comments: none starts at any position.\<close>

definition no_comment :: "string \<Rightarrow> bool" where
  "no_comment s \<longleftrightarrow> (\<forall>p t. s = p @ t \<longrightarrow> skip_comment t = None)"

lemma skip_comment_iff: "skip_comment s = None \<longleftrightarrow> \<not> starts_with ''--'' s \<and> (starts_with ''/*'' s \<longrightarrow> close_comment (drop 2 s) = None)"
  by (simp add: skip_comment_def)

lemma skip_comment_prefix:
  assumes "skip_comment (t @ u) = None"
  shows "skip_comment t = None"
proof -
  have "\<not> starts_with ''--'' t" using assms starts_with_prefix [of "''--''" t u] by (auto simp: skip_comment_iff)
  moreover have "close_comment (drop 2 t) = None" if t: "starts_with ''/*'' t"
  proof -
    have "close_comment (drop 2 (t @ u)) = None" using assms starts_with_prefix [OF t, of u] by (simp add: skip_comment_iff)
    moreover have "drop 2 (t @ u) = drop 2 t @ u" using t by (auto elim!: starts_withE)
    ultimately show ?thesis using close_comment_prefix by simp
  qed
  ultimately show ?thesis by (simp add: skip_comment_iff)
qed

lemma no_comment_infix: "no_comment (p @ s @ q) \<Longrightarrow> no_comment s"
  unfolding no_comment_def by (metis append_assoc skip_comment_prefix)

lemma no_comment_strips: "no_comment s \<Longrightarrow> strip_comments s = s"
proof (induction s)
  case (Cons c s)
  have "skip_comment (c # s) = None" using Cons.prems unfolding no_comment_def by (metis append_Nil)
  moreover have "no_comment s" using no_comment_infix [of "[c]" s "[]"] Cons.prems by simp
  ultimately show ?case using Cons.IH by simp
qed simp

lemma no_comment_Cons: "no_comment (c # s) \<longleftrightarrow> skip_comment (c # s) = None \<and> no_comment s"
  unfolding no_comment_def by (metis append_Cons append_Nil append_eq_Cons_conv)

lemma close_comment_strip: "close_comment s = None \<Longrightarrow> close_comment (strip_comments s) = None"
proof (induction s rule: strip_comments.induct)
  case (2 c s)
  show ?case
  proof (cases "skip_comment (c # s)")
    case None
    have "close_comment s = None" using "2.prems" by (simp only: close_comment_Cons)
    moreover have "\<not> (c = CHR ''*'' \<and> strip_comments s \<noteq> [] \<and> hd (strip_comments s) = CHR ''/'')"
    proof (cases s)
      case (Cons d u)
      then show ?thesis using "2.prems" by (auto simp: close_comment_Cons split: option.splits)
    qed simp
    ultimately show ?thesis using 2(1) [OF None] None by (simp add: close_comment_Cons)
  next
    case (Some t)
    obtain p where "c # s = p @ t" using skip_comment_after [OF Some] by blast
    then have "close_comment t = None" using "2.prems" close_comment_suffix by metis
    then show ?thesis using 2(2) [OF Some] Some by (simp add: close_comment_Cons)
  qed
qed simp

lemma no_comment_strip: "no_comment (strip_comments s)"
proof (induction s rule: strip_comments.induct)
  case 1
  show ?case by (simp add: no_comment_def skip_comment_def starts_with_def)
next
  case (2 c s)
  show ?case
  proof (cases "skip_comment (c # s)")
    case (Some t)
    then show ?thesis using 2(2) [OF Some] by (simp add: no_comment_Cons skip_comment_def starts_with_def)
  next
    case None
    have "skip_comment (c # strip_comments s) = None"
    proof (cases s)
      case (Cons d u)
      show ?thesis
      proof (cases "skip_comment (d # u)")
        case (Some t)
        then show ?thesis using Cons by (simp add: skip_comment_def starts_with_def)
      next
        case n: None
        then have "strip_comments s = d # strip_comments u" using Cons by simp
        then show ?thesis using None Cons close_comment_strip [of u] by (auto simp: skip_comment_iff starts_with_def)
      qed
    qed (simp add: skip_comment_def starts_with_def)
    then show ?thesis using 2(1) [OF None] None by (simp add: no_comment_Cons)
  qed
qed

subsection \<open>What the guard accepts\<close>

lemma rstrip_char_infix: "\<exists>q. s = rstrip_char c s @ q"
  unfolding rstrip_char_def by (metis rev_append rev_rev_ident takeWhile_dropWhile_id)

lemma rstrip_char_absent: "c \<notin> set s \<Longrightarrow> rstrip_char c s = s"
  unfolding rstrip_char_def by (metis dropWhile_eq_self_iff hd_in_set rev_is_Nil_conv rev_rev_ident set_rev)

text \<open>The accepted statements, as a predicate on what is sent to the database.\<close>

definition guarded :: "string \<Rightarrow> bool" where
  "guarded q \<longleftrightarrow> no_comment q \<and> strip q = q \<and> CHR '';'' \<notin> set q \<and> first_word q \<in> set read_words
     \<and> (first_word q = ''with'' \<longrightarrow> \<not> has_write_verb q)"

lemma assert_read_only_guarded:
  assumes "assert_read_only sql = Inr body"
  shows "guarded body"
proof -
  define stripped where "stripped = strip (strip_comments sql)"
  have b: "body = strip (rstrip_char CHR '';'' stripped)" and ok: "CHR '';'' \<notin> set body" "first_word body \<in> set read_words"
      "first_word body = ''with'' \<Longrightarrow> \<not> has_write_verb body"
    using assms unfolding assert_read_only_def stripped_def [symmetric] by (auto simp: Let_def split: if_splits)
  obtain p1 q1 where 1: "strip_comments sql = p1 @ stripped @ q1" using strip_infix stripped_def by blast
  obtain q2 where 2: "stripped = rstrip_char CHR '';'' stripped @ q2" using rstrip_char_infix by blast
  obtain p3 q3 where 3: "rstrip_char CHR '';'' stripped = p3 @ body @ q3" using strip_infix b by blast
  have "no_comment stripped" using no_comment_strip [of sql] 1 no_comment_infix by metis
  then have "no_comment (rstrip_char CHR '';'' stripped)" using 2 no_comment_infix [of "[]"] by (metis append_Nil)
  then have "no_comment body" using 3 no_comment_infix by metis
  then show ?thesis using ok b by (simp add: guarded_def)
qed

lemma guarded_accepted: "guarded q \<Longrightarrow> assert_read_only q = Inr q"
proof -
  assume g: "guarded q"
  have "q \<noteq> []" using g by (auto simp: guarded_def first_word_def read_words_def lower_def)
  then show ?thesis using g by (simp add: assert_read_only_def guarded_def no_comment_strips rstrip_char_absent Let_def)
qed

text \<open>The same world, with every statement that the guard or the allowlist would not let through answered by another function.\<close>

definition fenced :: "(string \<Rightarrow> bool) \<Rightarrow> (string \<Rightarrow> string \<Rightarrow> sql_outcome) \<Rightarrow> sql_world \<Rightarrow> sql_world" where
  "fenced ok other w = w\<lparr>sq_execute := (\<lambda>u q. if ok q then sq_execute w u q else other u q)\<rparr>"

definition permitted :: "sql_world \<Rightarrow> settings \<Rightarrow> string \<Rightarrow> bool" where
  "permitted w s q \<longleftrightarrow> (read_only s \<longrightarrow> guarded q)
     \<and> (case allowed_tables w s of None \<Rightarrow> True | Some allowed \<Rightarrow> set (references False q) \<subseteq> set allowed)"

lemma fenced_simps [simp]:
  "sq_env (fenced ok other w) = sq_env w" "sq_show (fenced ok other w) = sq_show w"
  "sq_execute (fenced ok other w) u q = (if ok q then sq_execute w u q else other u q)"
  by (simp_all add: fenced_def)

lemma fenced_settings [simp]: "allowed_tables (fenced ok other w) = allowed_tables w" "resolve_uri (fenced ok other w) = resolve_uri w"
  unfolding allowed_tables_def resolve_uri_def fenced_simps by (rule refl)+

lemma run_allowed_fenced: "ok q \<Longrightarrow> run_allowed (fenced ok other w) i s q = run_allowed w i s q"
  by (cases "resolve_uri w i s") (simp_all add: run_allowed_def)


text \<open>The guard accepts a statement as it is or refuses it the next time too: what it returns, it returns unchanged.\<close>

theorem assert_read_only_stable: "assert_read_only sql = Inr body \<Longrightarrow> assert_read_only body = Inr body"
  by (rule guarded_accepted, rule assert_read_only_guarded)

theorem assert_read_only_stable_witness: "assert_read_only ''select 2'' = Inr ''select 2''"
proof (rule assert_read_only_stable)
  show "assert_read_only ''/* a */ select 2 ; -- b'' = Inr ''select 2''" by code_simp
qed

text \<open>Statements the guard lets through although they write, and a table that the allowlist does not see.\<close>

theorem explain_and_into_accepted:
  "assert_read_only ''EXPLAIN ANALYZE DELETE FROM users'' = Inr ''EXPLAIN ANALYZE DELETE FROM users''"
  "assert_read_only ''SELECT * INTO backup FROM users'' = Inr ''SELECT * INTO backup FROM users''"
  by code_simp+

theorem comma_join_unseen: "references False ''SELECT * FROM customers, secrets'' = [''customers'']"
  by code_simp

theorem string_literal_cut: "assert_read_only ''SELECT id FROM t WHERE note = 'a--b' AND secret = 0'' = Inr ''SELECT id FROM t WHERE note = 'a''"
  by code_simp

theorem cte_write_refused: "assert_read_only ''WITH x AS (DELETE FROM t RETURNING *) SELECT * FROM x''
  = Inl ''The statement contains a data-modifying verb inside a CTE, which is not allowed.''"
  by code_simp

subsection \<open>Operators at any depth\<close>

text \<open>A key occurs in a value: in an object, or inside one of its values or of a list's elements.\<close>

inductive occurs :: "string \<Rightarrow> json \<Rightarrow> bool" where
  here: "(k, v) \<in> set kvs \<Longrightarrow> occurs k (JObj kvs)"
| in_value: "(k', v) \<in> set kvs \<Longrightarrow> occurs k v \<Longrightarrow> occurs k (JObj kvs)"
| in_item: "v \<in> set xs \<Longrightarrow> occurs k v \<Longrightarrow> occurs k (JList xs)"

inductive_simps occurs_simps [simp]: "occurs k (JObj kvs)" "occurs k (JList xs)" "occurs k JNull" "occurs k (JBool b)" "occurs k (JInt i)"
  "occurs k (JFloat q)" "occurs k (JStr s)"

lemma all_keys_occurs: "k \<in> set (all_keys v) \<longleftrightarrow> occurs k v"
proof (induction v rule: all_keys.induct)
  case (1 kvs)
  show ?case
  proof
    assume "k \<in> set (all_keys (JObj kvs))"
    then obtain k' v where "(k', v) \<in> set kvs" "k = k' \<or> k \<in> set (all_keys v)" by auto
    then show "occurs k (JObj kvs)" using 1 [of "(k', v)"] by auto
  next
    assume "occurs k (JObj kvs)"
    then show "k \<in> set (all_keys (JObj kvs))" using 1 by force
  qed
qed auto

definition restricted :: "((string \<times> json) list \<Rightarrow> bool) \<Rightarrow> (string \<Rightarrow> string \<Rightarrow> string \<Rightarrow> (string \<times> json) list \<Rightarrow> nat \<Rightarrow> string + (string \<times> json) list list)
    \<Rightarrow> mongo_world \<Rightarrow> mongo_world" where
  "restricted ok other w = w\<lparr>mo_find := (\<lambda>u d c q n. if ok q then mo_find w u d c q n else other u d c q n)\<rparr>"

lemma restricted_simps [simp]:
  "mo_env (restricted ok other w) = mo_env w" "mo_show (restricted ok other w) = mo_show w" "mo_parse (restricted ok other w) = mo_parse w"
  "mo_find (restricted ok other w) u d c q n = (if ok q then mo_find w u d c q n else other u d c q n)"
  by (simp_all add: restricted_def)

lemma restricted_settings [simp]: "mongo_client (restricted ok other w) = mongo_client w" "check_collection (restricted ok other w) = check_collection w"
  "parse_filter (restricted ok other w) = parse_filter w"
  unfolding parse_filter_def mongo_client_def check_collection_def mongo_uri_def database_name_def allowed_collections_def restricted_simps by (rule refl)+

text \<open>A read-only MongoDB tool never sends a filter in which a forbidden operator occurs at any depth:
  with other answers for every such filter, its reports stay the same.\<close>

theorem find_documents_restricted:
  assumes "read_only s"
  shows "find_documents (restricted (\<lambda>q. \<forall>k. occurs k (JObj q) \<longrightarrow> k \<notin> set forbidden_operators) other w) i s c filter_json limit
    = find_documents w i s c filter_json limit"
proof -
  have sent: "\<forall>k. occurs k (JObj q) \<longrightarrow> k \<notin> set forbidden_operators" if n: "\<not> list_ex (\<lambda>k. k \<in> set forbidden_operators) (all_keys (JObj q))" for q
    using n unfolding all_keys_occurs [symmetric] by (simp only: list_ex_iff) blast
  show ?thesis
  proof (cases "parse_filter w filter_json")
    case (Inr v)
    show ?thesis
    proof (cases v)
      case (JObj q)
      show ?thesis
      proof (cases "list_ex (\<lambda>k. k \<in> set forbidden_operators) (all_keys (JObj q))")
        case True
        then show ?thesis using assms unfolding find_documents_def restricted_settings restricted_simps Inr JObj sum.case json.case by simp
      next
        case False
        have ok: "(\<forall>k. occurs k (JObj q) \<longrightarrow> k \<notin> set forbidden_operators) = True" using sent [OF False] by blast
        show ?thesis unfolding find_documents_def restricted_settings restricted_simps Inr JObj sum.case json.case ok if_True ..
      qed
    qed (simp_all add: find_documents_def Inr del: if_split split: option.split)
  qed (simp add: find_documents_def del: if_split split: option.split)
qed

definition sample_mongo :: mongo_world where
  "sample_mongo = \<lparr>mo_env = (\<lambda>_. None), mo_show = (\<lambda>_. []), mo_type = (\<lambda>v. case v of JInt _ \<Rightarrow> ''int'' | _ \<Rightarrow> ''str''),
     mo_parse = (\<lambda>_. Inr (JObj [(''or'', JList [JObj [(''$where'', JStr ''true'')]])])), mo_names = (\<lambda>_ _. Inr []), mo_find = (\<lambda>_ _ _ _ _. Inr [[]])\<rparr>"

definition sample_settings :: settings where
  "sample_settings = [(''uri'', JStr ''m''), (''database'', JStr ''d'')]"

theorem find_documents_restricted_witness:
  "find_documents (restricted (\<lambda>q. \<forall>k. occurs k (JObj q) \<longrightarrow> k \<notin> set forbidden_operators) (\<lambda>_ _ _ _ _. Inr []) sample_mongo)
     ''t'' sample_settings ''c'' ''f'' 5 = [(''error'', JStr ''This tool is read-only; server-side execution operators are not allowed.'')]"
proof -
  have r: "read_only sample_settings" by code_simp
  show ?thesis unfolding find_documents_restricted [OF r] by code_simp
qed

subsection \<open>Sampled fields\<close>

lemma count_fields:
  assumes "wf_odict d"
  shows "get (fold (count_field w) d stats) k = (case get d k of None \<Rightarrow> get stats k
    | Some v \<Rightarrow> (let (types, n) = (case get stats k of None \<Rightarrow> ([], 0) | Some e \<Rightarrow> e) in Some (append_new (mo_type w v) types, Suc n)))"
  using assms
proof (induction d arbitrary: stats)
  case (Cons kv d)
  obtain k' v where kv: "kv = (k', v)" by (cases kv)
  have d: "wf_odict d" "k' \<notin> set (keys d)" using Cons.prems kv by (auto simp: wf_odict_def keys_def)
  then have "get d k' = None" by (simp add: get_None_iff)
  then show ?case using Cons.IH [OF d(1), of "count_field w kv stats"] kv by (auto simp: count_field_def Let_def split: prod.splits option.splits)
qed simp

definition summary_of :: "mongo_world \<Rightarrow> (string \<times> json) list list \<Rightarrow> string \<Rightarrow> (string list \<times> nat) option \<Rightarrow> bool" where
  "summary_of w docs k e \<longleftrightarrow> (case e of None \<Rightarrow> \<forall>d \<in> set docs. get d k = None
     | Some (types, n) \<Rightarrow> 0 < n \<and> n = length (filter (\<lambda>d. get d k \<noteq> None) docs) \<and> distinct types
         \<and> set types = (\<Union>d \<in> set docs. mo_type w ` set_option (get d k)))"

text \<open>The sampled schema is exact: a field is listed if some sampled document has it, with the number of documents that
  have it and each type of its values once.\<close>

theorem field_summary_exact:
  assumes "\<forall>d \<in> set docs. wf_odict d"
  shows "summary_of w docs k (get (field_summary w docs) k)"
  using assms
proof (induction docs rule: rev_induct)
  case (snoc d docs)
  have IH: "summary_of w docs k (get (field_summary w docs) k)" using snoc by simp
  have step: "field_summary w (docs @ [d]) = fold (count_field w) d (field_summary w docs)" by (simp add: field_summary_def)
  have wf: "wf_odict d" using snoc.prems by simp
  show ?case
  proof (cases "get d k")
    case None
    then show ?thesis using IH unfolding step count_fields [OF wf] by (auto simp: summary_of_def split: option.splits)
  next
    case (Some v)
    show ?thesis
    proof (cases "get (field_summary w docs) k")
      case None
      then show ?thesis using IH Some unfolding step count_fields [OF wf]
        by (auto simp: summary_of_def append_new_def filter_empty_conv)
    next
      case (Some e)
      then obtain types n where "get (field_summary w docs) k = Some (types, n)" by (cases e) simp
      then show ?thesis using IH \<open>get d k = Some v\<close> unfolding step count_fields [OF wf] by (simp add: summary_of_def)
    qed
  qed
qed (simp add: field_summary_def summary_of_def)

theorem field_summary_exact_witness:
  "summary_of sample_mongo [[(''a'', JInt 1)], [(''a'', JStr ''x''), (''b'', JInt 2)]] ''a''
     (get (field_summary sample_mongo [[(''a'', JInt 1)], [(''a'', JStr ''x''), (''b'', JInt 2)]]) ''a'')
   \<and> field_summary sample_mongo [[(''a'', JInt 1)], [(''a'', JStr ''x''), (''b'', JInt 2)]]
     = [(''a'', [''int'', ''str''], 2), (''b'', [''int''], 1)]"
proof
  show "summary_of sample_mongo [[(''a'', JInt 1)], [(''a'', JStr ''x''), (''b'', JInt 2)]] ''a''
     (get (field_summary sample_mongo [[(''a'', JInt 1)], [(''a'', JStr ''x''), (''b'', JInt 2)]]) ''a'')"
    by (rule field_summary_exact) (simp add: wf_odict_def keys_def)
qed code_simp

end
