(* ===== verification/Behavior_Validator.thy ===== *)
theory Behavior_Validator
  imports Prelude
begin

text \<open>
  The validation of an agent's answer against its behaviour configuration, \<open>src/src/config/behavior_validator.py\<close> over the
  models of \<open>behavior_models.py\<close>: the output format, the constraints on length, patterns and languages, and the scan of
  the code blocks.  The configured patterns, the JSON parser, the schema check and the Python parser are parameters; the
  code-block pattern and the pattern of a function call are written out for ASCII texts.
\<close>

subsection \<open>Code blocks\<close>

record code_block =
  cb_language :: string
  cb_code :: string

text \<open>\<open>(.*?)```\<close>: the text before the first fence, and what follows the fence.\<close>

definition fence :: string where
  "fence = [CHR 0x60, CHR 0x60, CHR 0x60]"

fun until_fence :: "string \<Rightarrow> (string \<times> string) option" where
  "until_fence s = (if starts_with fence s then Some ([], drop 3 s)
     else (case s of [] \<Rightarrow> None | c # t \<Rightarrow> map_option (apfst ((#) c)) (until_fence t)))"

declare until_fence.simps [simp del]

lemma until_fence_Nil [simp]: "until_fence [] = None"
  by (subst until_fence.simps) (simp add: fence_def starts_with_def)

lemma until_fence_Cons: "until_fence (c # t) = (if starts_with fence (c # t) then Some ([], drop 3 (c # t)) else map_option (apfst ((#) c)) (until_fence t))"
  by (subst until_fence.simps) simp

lemma until_fence_append: "until_fence s = Some (a, r) \<Longrightarrow> s = a @ fence @ r"
proof (induction s arbitrary: a rule: until_fence.induct)
  case (1 s)
  show ?case
  proof (cases "starts_with fence s")
    case True
    then have "a = []" "r = drop 3 s" using 1(2) by (auto simp: until_fence.simps [of s])
    moreover obtain t where "s = fence @ t" using True by (auto elim: starts_withE)
    ultimately show ?thesis by (simp add: fence_def)
  next
    case False
    then obtain c t where s: "s = c # t" using 1(2) by (cases s) auto
    then obtain b where "until_fence t = Some (b, r)" "a = c # b" using 1(2) False by (auto simp: until_fence_Cons)
    then show ?thesis using 1(1) [OF False s] s by simp
  qed
qed

text \<open>A block whose opening fence is here: an optional language, the end of the line, and the code.\<close>

definition match_block :: "string \<Rightarrow> (code_block \<times> string) option" where
  "match_block s = (if starts_with fence s then
       (case dropWhile is_word (drop 3 s) of
          [] \<Rightarrow> None
        | c # body \<Rightarrow> if c = newline then
              map_option (\<lambda>(code, rest). (\<lparr>cb_language = takeWhile is_word (drop 3 s), cb_code = strip code\<rparr>, rest)) (until_fence body)
            else None)
     else None)"

lemma match_block_shorter: "match_block s = Some (b, rest) \<Longrightarrow> length rest < length s"
proof -
  assume m: "match_block s = Some (b, rest)"
  then obtain c body code where 1: "dropWhile is_word (drop 3 s) = c # body" "until_fence body = Some (code, rest)"
    by (auto simp: match_block_def split: if_splits list.splits)
  have "length (c # body) \<le> length s" using length_dropWhile_le [of is_word "drop 3 s"] 1(1) by simp
  then show ?thesis using until_fence_append [OF 1(2)] by simp
qed

function extract_code_blocks :: "string \<Rightarrow> code_block list" where
  "extract_code_blocks [] = []"
| "extract_code_blocks (c # s) = (case match_block (c # s) of Some (b, rest) \<Rightarrow> b # extract_code_blocks rest
     | None \<Rightarrow> extract_code_blocks s)"
  by pat_completeness auto
termination by (relation "measure length") (auto dest: match_block_shorter)

subsection \<open>Results\<close>

record validation =
  vr_valid :: bool
  vr_errors :: "string list"
  vr_warnings :: "string list"

definition passed :: validation where
  "passed = \<lparr>vr_valid = True, vr_errors = [], vr_warnings = []\<rparr>"

definition add_error :: "string \<Rightarrow> validation \<Rightarrow> validation" where
  "add_error e r = r\<lparr>vr_errors := vr_errors r @ [e], vr_valid := False\<rparr>"

definition add_warning :: "string \<Rightarrow> validation \<Rightarrow> validation" where
  "add_warning w r = r\<lparr>vr_warnings := vr_warnings r @ [w]\<rparr>"

text \<open>The errors of a sequence of checks, each added in order.\<close>

definition add_errors :: "string list \<Rightarrow> validation \<Rightarrow> validation" where
  "add_errors es r = fold add_error es r"

definition validation_str :: "validation \<Rightarrow> string" where
  "validation_str r = (if vr_valid r then ''Validation passed'' @ (if vr_warnings r = [] then []
       else '' with '' @ nat_str (length (vr_warnings r)) @ '' warning(s)'')
     else ''Validation failed with '' @ nat_str (length (vr_errors r)) @ '' error(s)'')"

subsection \<open>Configurations\<close>

datatype output_type = Json_output | Text_output | Code_output | Markdown_output

record output_format =
  of_type :: output_type
  of_language :: "string option"
  of_schema :: "json option"

record constraints =
  cn_max :: "nat option"
  cn_min :: "nat option"
  cn_require_language :: bool
  cn_forbidden :: "string list"
  cn_required :: "string list"
  cn_languages :: "string list option"

record security_config =
  sy_syntax_check :: bool
  sy_scan :: bool
  sy_functions :: "string list"
  sy_files :: bool
  sy_network :: bool

record behavior =
  bh_format :: "output_format option"
  bh_constraints :: "constraints option"
  bh_security :: "security_config option"
  bh_quality :: bool

definition validate_language :: "output_type \<Rightarrow> string option \<Rightarrow> string option" where
  "validate_language t l = (if t = Code_output \<and> l = None then Some ''auto_detect'' else l)"

definition has_validation :: "behavior \<Rightarrow> bool" where
  "has_validation b \<longleftrightarrow> bh_format b \<noteq> None \<or> bh_constraints b \<noteq> None \<or> bh_security b \<noteq> None \<or> bh_quality b"

text \<open>What the checks call: a search for a configured pattern, None when the pattern is not one; the JSON parser; the
  schema check, with its complaint; the syntax errors of Python code.\<close>

record engines =
  en_search :: "string \<Rightarrow> string \<Rightarrow> bool option"
  en_json :: "string \<Rightarrow> string + json"
  en_schema :: "json \<Rightarrow> json \<Rightarrow> string option"
  en_python :: "string \<Rightarrow> string option"

subsection \<open>The checks\<close>

definition validate_json_schema :: "engines \<Rightarrow> json \<Rightarrow> json \<Rightarrow> validation" where
  "validate_json_schema en data schema = (case en_schema en data schema of None \<Rightarrow> passed
     | Some m \<Rightarrow> add_error (''Schema validation failed: '' @ m) passed)"

definition language_mismatch :: "string \<Rightarrow> code_block \<Rightarrow> string" where
  "language_mismatch expected b = ''Code block language '' @ quoted (cb_language b) @ '' does not match expected '' @ quoted expected"

definition validate_output_format :: "engines \<Rightarrow> string \<Rightarrow> output_format \<Rightarrow> validation" where
  "validate_output_format en out f = (case of_type f of
      Json_output \<Rightarrow> (case en_json en out of
          Inl m \<Rightarrow> add_error (''Invalid JSON format: '' @ m) passed
        | Inr data \<Rightarrow> (case of_schema f of
            Some schema \<Rightarrow> if truthy schema then add_errors (vr_errors (validate_json_schema en data schema)) passed else passed
          | None \<Rightarrow> passed))
    | Code_output \<Rightarrow> (let blocks = extract_code_blocks out in
        if blocks = [] then add_error ''No code blocks found in output'' passed
        else (case of_language f of None \<Rightarrow> passed
          | Some l \<Rightarrow> if l = [] \<or> l = ''auto_detect'' then passed
              else fold add_warning (map (language_mismatch l) (filter (\<lambda>b. cb_language b \<noteq> l) blocks)) passed))
    | Markdown_output \<Rightarrow> if strip out = [] then add_error ''Empty markdown output'' passed else passed
    | Text_output \<Rightarrow> passed)"

definition length_errors :: "nat \<Rightarrow> constraints \<Rightarrow> string list" where
  "length_errors n c =
     (case cn_max c of None \<Rightarrow> [] | Some m \<Rightarrow> if m \<noteq> 0 \<and> m < n then [''Output length '' @ nat_str n @ '' exceeds maximum '' @ nat_str m] else [])
   @ (case cn_min c of None \<Rightarrow> [] | Some m \<Rightarrow> if m \<noteq> 0 \<and> n < m then [''Output length '' @ nat_str n @ '' is below minimum '' @ nat_str m] else [])"

text \<open>Each pattern is searched in turn, and a pattern that is not one raises.\<close>

fun pattern_errors :: "(string \<Rightarrow> bool option) \<Rightarrow> bool \<Rightarrow> string \<Rightarrow> string list \<Rightarrow> string list option" where
  "pattern_errors search bad message [] = Some []"
| "pattern_errors search bad message (p # ps) = (case search p of None \<Rightarrow> None
     | Some found \<Rightarrow> map_option ((@) (if found = bad then [message @ p] else [])) (pattern_errors search bad message ps))"

definition block_name :: "nat \<Rightarrow> string" where
  "block_name i = ''Code block '' @ nat_str (i + 1)"

definition unnamed_errors :: "code_block list \<Rightarrow> string list" where
  "unnamed_errors bs = concat (map (\<lambda>(i, b). if cb_language b = [] then [block_name i @ '' missing language specification''] else []) (enumerate 0 bs))"

definition language_errors :: "string list \<Rightarrow> code_block list \<Rightarrow> string list" where
  "language_errors allowed bs = concat (map (\<lambda>(i, b). let l = lower (cb_language b) in
     if l \<noteq> [] \<and> l \<notin> lower ` set allowed then [block_name i @ '' uses disallowed language: '' @ l] else []) (enumerate 0 bs))"

definition validate_constraints :: "engines \<Rightarrow> string \<Rightarrow> constraints \<Rightarrow> validation option" where
  "validate_constraints en out c =
     (case pattern_errors (\<lambda>p. en_search en p out) True ''Output contains forbidden pattern: '' (cn_forbidden c) of None \<Rightarrow> None
      | Some forbidden \<Rightarrow>
        (case pattern_errors (\<lambda>p. en_search en p out) False ''Output missing required pattern: '' (cn_required c) of None \<Rightarrow> None
         | Some required \<Rightarrow>
           Some (add_errors (length_errors (length out) c @ forbidden @ required
             @ (if cn_require_language c then unnamed_errors (extract_code_blocks out) else [])
             @ (case cn_languages c of Some (l # ls) \<Rightarrow> language_errors (l # ls) (extract_code_blocks out) | _ \<Rightarrow> [])) passed)))"

text \<open>\<open>\b\<close>, the function's name, spaces and a parenthesis, at some position.\<close>

definition boundary :: "bool \<Rightarrow> string \<Rightarrow> bool" where
  "boundary after_word s \<longleftrightarrow> after_word \<noteq> (s \<noteq> [] \<and> is_word (hd s))"

definition call_here :: "string \<Rightarrow> string \<Rightarrow> bool" where
  "call_here f s \<longleftrightarrow> starts_with f s \<and> starts_with ''('' (dropWhile is_space (drop (length f) s))"

fun calls :: "string \<Rightarrow> bool \<Rightarrow> string \<Rightarrow> bool" where
  "calls f after_word s = (boundary after_word s \<and> call_here f s \<or> (case s of [] \<Rightarrow> False | c # t \<Rightarrow> calls f (is_word c) t))"

declare calls.simps [simp del]

definition file_ops :: "string list" where
  "file_ops = [''open('', ''file('', ''os.remove'', ''os.unlink'', ''shutil.'']"

definition network_ops :: "string list" where
  "network_ops = [''requests.'', ''urllib.'', ''socket.'', ''http.'']"

definition block_errors :: "engines \<Rightarrow> security_config \<Rightarrow> nat \<times> code_block \<Rightarrow> string list" where
  "block_errors en c ib = (let name = block_name (fst ib); code = cb_code (snd ib) in
     (if sy_syntax_check c \<and> lower (cb_language (snd ib)) = ''python'' then
        (case en_python en code of None \<Rightarrow> [] | Some m \<Rightarrow> [name @ '' has syntax errors: '' @ m]) else [])
   @ (if sy_scan c then map (\<lambda>f. name @ '' contains dangerous function: '' @ f) (filter (\<lambda>f. calls f False code) (sy_functions c)) else [])
   @ (if \<not> sy_files c then map (\<lambda>o'. name @ '' contains disallowed file operation: '' @ o') (filter (\<lambda>o'. contains o' code) file_ops) else [])
   @ (if \<not> sy_network c then map (\<lambda>o'. name @ '' contains disallowed network operation: '' @ o') (filter (\<lambda>o'. contains o' code) network_ops) else []))"

definition apply_security_checks :: "engines \<Rightarrow> string \<Rightarrow> security_config \<Rightarrow> validation" where
  "apply_security_checks en out c = add_errors (concat (map (block_errors en c) (enumerate 0 (extract_code_blocks out)))) passed"

text \<open>\<open>validate\<close>: the results of the configured checks, one after the other.\<close>

definition absorb :: "validation \<Rightarrow> validation \<Rightarrow> validation" where
  "absorb part r = (let r' = (if vr_valid part then r else r\<lparr>vr_valid := False, vr_errors := vr_errors r @ vr_errors part\<rparr>) in
     r'\<lparr>vr_warnings := vr_warnings r' @ vr_warnings part\<rparr>)"

definition validate :: "engines \<Rightarrow> behavior \<Rightarrow> string \<Rightarrow> validation option" where
  "validate en b out =
     (let r1 = (case bh_format b of None \<Rightarrow> passed | Some f \<Rightarrow> absorb (validate_output_format en out f) passed);
          finish = (\<lambda>r. case bh_security b of None \<Rightarrow> r | Some c \<Rightarrow> absorb (apply_security_checks en out c) r) in
      case bh_constraints b of None \<Rightarrow> Some (finish r1)
      | Some c \<Rightarrow> map_option (\<lambda>part. finish (absorb part r1)) (validate_constraints en out c))"

subsection \<open>Blocks that are written are found\<close>

lemma until_fence_here: "until_fence (fence @ r) = Some ([], r)"
  by (subst until_fence.simps) (simp add: fence_def starts_with_def)

text \<open>A text with no fence in it, not even across its end and the fence that follows.\<close>

definition fenceless :: "string \<Rightarrow> bool" where
  "fenceless s \<longleftrightarrow> CHR 0x60 \<notin> set s"

lemma until_fence_fenceless: "fenceless a \<Longrightarrow> until_fence (a @ fence @ r) = Some (a, r)"
proof (induction a)
  case (Cons c a)
  then have "\<not> starts_with fence (c # a @ fence @ r)" by (auto simp: fenceless_def fence_def starts_with_def)
  then show ?case using Cons by (simp add: until_fence_Cons fenceless_def)
qed (simp add: until_fence_here)

definition render_block :: "code_block \<Rightarrow> string" where
  "render_block b = fence @ cb_language b @ [newline] @ cb_code b @ [newline] @ fence @ [newline]"

definition good_block :: "code_block \<Rightarrow> bool" where
  "good_block b \<longleftrightarrow> list_all is_word (cb_language b) \<and> fenceless (cb_code b) \<and> strip (cb_code b) = cb_code b"

lemma newline_no_word [simp]: "\<not> is_word newline"
  by (simp add: is_word_def newline_def is_alnum_def is_alpha_def is_digit_def is_upper_def is_lower_def code_def)

lemma newline_space [simp]: "is_space newline"
  by (simp add: is_space_def newline_def code_def)

lemma strip_newline:
  assumes s: "strip s = s"
  shows "strip (s @ [newline]) = s"
proof (cases "\<forall>x \<in> set s. is_space x")
  case True
  then have e: "dropWhile is_space s = []" by simp
  have "strip s = []" by (simp add: strip_def e)
  then have "s = []" using s by (rule trans [OF sym, rotated])
  then show ?thesis by (simp add: strip_def)
next
  case False
  then show ?thesis using s by (auto simp: strip_def dropWhile_append)
qed

lemma match_block_render: "good_block b \<Longrightarrow> match_block (render_block b @ rest) = Some (b, newline # rest)"
proof -
  assume g: "good_block b"
  have f: "fenceless (cb_code b @ [newline])" using g by (simp add: good_block_def fenceless_def newline_def)
  have d: "drop 3 (fence @ u) = u" for u by (simp add: fence_def)
  have w: "takeWhile is_word (cb_language b @ newline # u) = cb_language b" "dropWhile is_word (cb_language b @ newline # u) = newline # u" for u
    using g by (simp_all add: good_block_def list_all_iff)
  have u: "until_fence (cb_code b @ newline # fence @ v) = Some (cb_code b @ [newline], v)" for v
    using until_fence_fenceless [OF f, of v] by simp
  have "strip (cb_code b @ [newline]) = cb_code b" using g strip_newline by (simp add: good_block_def)
  then show ?thesis by (simp add: match_block_def render_block_def d w u del: drop_append)
qed

lemma extract_nonfence: "c \<noteq> CHR 0x60 \<Longrightarrow> extract_code_blocks (c # s) = extract_code_blocks s"
  by (simp add: match_block_def fence_def starts_with_def)

lemma extract_plain: "fenceless s \<Longrightarrow> extract_code_blocks (s @ t) = extract_code_blocks t"
  by (induction s) (auto simp: extract_nonfence fenceless_def simp del: extract_code_blocks.simps)

lemma extract_render: "good_block b \<Longrightarrow> extract_code_blocks (render_block b @ rest) = b # extract_code_blocks rest"
proof -
  assume g: "good_block b"
  obtain c u where c: "render_block b = c # u" by (simp add: render_block_def fence_def)
  have "extract_code_blocks (newline # rest) = extract_code_blocks rest" by (rule extract_nonfence) (simp add: newline_def)
  then show ?thesis using match_block_render [OF g, of rest] c by simp
qed

text \<open>A text written as paragraphs without backquotes and code blocks is read back exactly: the blocks are found in
  order, each with its language and its code, and nothing else is.\<close>

theorem extract_rendered:
  assumes "\<forall>(p, b) \<in> set parts. fenceless p \<and> good_block b" "fenceless rest"
  shows "extract_code_blocks (concat (map (\<lambda>(p, b). p @ render_block b) parts) @ rest) = map snd parts"
  using assms(1)
proof (induction parts)
  case Nil
  show ?case using extract_plain [OF assms(2), of "[]"] by simp
next
  case (Cons pb parts)
  obtain p b where pb: "pb = (p, b)" by (cases pb)
  then show ?case using Cons by (simp add: extract_plain extract_render del: extract_code_blocks.simps)
qed

theorem extract_rendered_witness:
  "extract_code_blocks (''Use:'' @ render_block \<lparr>cb_language = ''python'', cb_code = ''f(1)''\<rparr> @ ''done'') = [\<lparr>cb_language = ''python'', cb_code = ''f(1)''\<rparr>]"
proof -
  have "\<forall>(p, b) \<in> set [(''Use:'', \<lparr>cb_language = ''python'', cb_code = ''f(1)''\<rparr>)]. fenceless p \<and> good_block b" by code_simp
  moreover have "fenceless ''done''" by code_simp
  ultimately show ?thesis using extract_rendered [of "[(''Use:'', \<lparr>cb_language = ''python'', cb_code = ''f(1)''\<rparr>)]" "''done''"] by simp
qed

subsection \<open>What a passed validation says\<close>

lemma add_errors_simps: "vr_errors (add_errors es r) = vr_errors r @ es" "vr_valid (add_errors es r) \<longleftrightarrow> vr_valid r \<and> es = []"
  "vr_warnings (add_errors es r) = vr_warnings r"
  by (induction es arbitrary: r) (auto simp: add_errors_def add_error_def)

lemma add_warnings_simps: "vr_errors (fold add_warning ws r) = vr_errors r" "vr_valid (fold add_warning ws r) \<longleftrightarrow> vr_valid r"
  by (induction ws arbitrary: r) (auto simp: add_warning_def)

lemma passed_simps [simp]: "vr_valid passed" "vr_errors passed = []" "vr_warnings passed = []"
  by (simp_all add: passed_def)

text \<open>A result is consistent: it is valid exactly when it has no error.\<close>

definition consistent :: "validation \<Rightarrow> bool" where
  "consistent r \<longleftrightarrow> (vr_valid r \<longleftrightarrow> vr_errors r = [])"

lemma consistent_add: "consistent passed" "consistent (add_error e passed)" "consistent (add_errors es passed)" "consistent (fold add_warning ws passed)"
  by (auto simp: consistent_def add_errors_simps add_warnings_simps add_error_def)

lemma consistent_absorb: "consistent part \<Longrightarrow> consistent r \<Longrightarrow> consistent (absorb part r)"
  by (auto simp: consistent_def absorb_def Let_def)

lemma vr_valid_absorb: "consistent part \<Longrightarrow> vr_valid (absorb part r) \<longleftrightarrow> vr_valid part \<and> vr_valid r"
  by (auto simp: absorb_def Let_def)

lemma consistent_format: "consistent (validate_output_format en out f)"
  by (auto simp: validate_output_format_def Let_def consistent_add split: output_type.splits sum.splits option.splits)

lemma pattern_errors_some: "pattern_errors search bad m ps = Some es
  \<Longrightarrow> (\<forall>p \<in> set ps. search p \<noteq> None) \<and> (es = [] \<longleftrightarrow> (\<forall>p \<in> set ps. search p = Some (\<not> bad)))"
  by (induction ps arbitrary: es) (auto split: option.splits if_splits)

text \<open>The specification: what an answer has to satisfy.\<close>

definition format_ok :: "engines \<Rightarrow> string \<Rightarrow> output_format \<Rightarrow> bool" where
  "format_ok en out f \<longleftrightarrow> (case of_type f of
      Json_output \<Rightarrow> \<exists>data. en_json en out = Inr data \<and> (\<forall>schema. of_schema f = Some schema \<and> truthy schema \<longrightarrow> en_schema en data schema = None)
    | Code_output \<Rightarrow> extract_code_blocks out \<noteq> []
    | Markdown_output \<Rightarrow> strip out \<noteq> []
    | Text_output \<Rightarrow> True)"

definition constraints_ok :: "engines \<Rightarrow> string \<Rightarrow> constraints \<Rightarrow> bool" where
  "constraints_ok en out c \<longleftrightarrow>
     (\<forall>m. cn_max c = Some m \<and> m \<noteq> 0 \<longrightarrow> length out \<le> m) \<and> (\<forall>m. cn_min c = Some m \<longrightarrow> m \<le> length out)
   \<and> (\<forall>p \<in> set (cn_forbidden c). en_search en p out = Some False) \<and> (\<forall>p \<in> set (cn_required c). en_search en p out = Some True)
   \<and> (cn_require_language c \<longrightarrow> (\<forall>b \<in> set (extract_code_blocks out). cb_language b \<noteq> []))
   \<and> (\<forall>ls. cn_languages c = Some ls \<and> ls \<noteq> [] \<longrightarrow>
        (\<forall>b \<in> set (extract_code_blocks out). cb_language b \<noteq> [] \<longrightarrow> lower (cb_language b) \<in> lower ` set ls))"

definition block_safe :: "engines \<Rightarrow> security_config \<Rightarrow> code_block \<Rightarrow> bool" where
  "block_safe en c b \<longleftrightarrow>
     (sy_syntax_check c \<and> lower (cb_language b) = ''python'' \<longrightarrow> en_python en (cb_code b) = None)
   \<and> (sy_scan c \<longrightarrow> (\<forall>f \<in> set (sy_functions c). \<not> calls f False (cb_code b)))
   \<and> (sy_files c \<or> (\<forall>p \<in> set file_ops. \<not> contains p (cb_code b)))
   \<and> (sy_network c \<or> (\<forall>p \<in> set network_ops. \<not> contains p (cb_code b)))"

lemma concat_enumerate_Nil: "(\<And>i b. (f (i, b) = []) \<longleftrightarrow> P b) \<Longrightarrow> concat (map f (enumerate n bs)) = [] \<longleftrightarrow> (\<forall>b \<in> set bs. P b)"
  by (induction bs arbitrary: n) auto

lemma block_errors_Nil: "block_errors en c (i, b) = [] \<longleftrightarrow> block_safe en c b"
  unfolding block_errors_def block_safe_def Let_def append_is_Nil_conv fst_conv snd_conv
  by (intro arg_cong2 [where f = conj]) (auto simp: filter_empty_conv split: option.splits)

lemma format_valid: "vr_valid (validate_output_format en out f) \<longleftrightarrow> format_ok en out f"
  by (auto simp: validate_output_format_def format_ok_def validate_json_schema_def Let_def add_errors_simps add_warnings_simps add_error_def
      split: output_type.splits sum.splits option.splits)

lemma security_valid: "vr_valid (apply_security_checks en out c) \<longleftrightarrow> (\<forall>b \<in> set (extract_code_blocks out). block_safe en c b)"
  unfolding apply_security_checks_def add_errors_simps
  by (simp only: concat_enumerate_Nil [where f = "block_errors en c", OF block_errors_Nil] passed_simps simp_thms)

lemma unnamed_Nil: "unnamed_errors bs = [] \<longleftrightarrow> (\<forall>b \<in> set bs. cb_language b \<noteq> [])"
  unfolding unnamed_errors_def by (rule concat_enumerate_Nil) simp

lemma language_Nil: "language_errors ls bs = [] \<longleftrightarrow> (\<forall>b \<in> set bs. cb_language b \<noteq> [] \<longrightarrow> lower (cb_language b) \<in> lower ` set ls)"
  unfolding language_errors_def by (rule concat_enumerate_Nil) (auto simp: Let_def lower_def)

lemma constraints_valid:
  assumes "validate_constraints en out c = Some r"
  shows "consistent r" "vr_valid r \<longleftrightarrow> constraints_ok en out c"
proof -
  obtain forbidden required where p:
      "pattern_errors (\<lambda>p. en_search en p out) True ''Output contains forbidden pattern: '' (cn_forbidden c) = Some forbidden"
      "pattern_errors (\<lambda>p. en_search en p out) False ''Output missing required pattern: '' (cn_required c) = Some required"
    using assms unfolding validate_constraints_def by (auto split: option.splits)
  have 1: "forbidden = [] \<longleftrightarrow> (\<forall>p \<in> set (cn_forbidden c). en_search en p out = Some False)"
    and 2: "required = [] \<longleftrightarrow> (\<forall>p \<in> set (cn_required c). en_search en p out = Some True)"
    using pattern_errors_some [OF p(1)] pattern_errors_some [OF p(2)] by simp_all
  have 3: "length_errors (length out) c = [] \<longleftrightarrow>
      (\<forall>m. cn_max c = Some m \<and> m \<noteq> 0 \<longrightarrow> length out \<le> m) \<and> (\<forall>m. cn_min c = Some m \<longrightarrow> m \<le> length out)"
    by (auto simp: length_errors_def split: option.splits)
  have 4: "(if cn_require_language c then unnamed_errors bs else []) = [] \<longleftrightarrow> (cn_require_language c \<longrightarrow> (\<forall>b \<in> set bs. cb_language b \<noteq> []))" for bs
    by (simp add: unnamed_Nil)
  have 5: "(case cn_languages c of Some (l # ls) \<Rightarrow> language_errors (l # ls) bs | _ \<Rightarrow> []) = [] \<longleftrightarrow>
      (\<forall>ls. cn_languages c = Some ls \<and> ls \<noteq> [] \<longrightarrow> (\<forall>b \<in> set bs. cb_language b \<noteq> [] \<longrightarrow> lower (cb_language b) \<in> lower ` set ls))" for bs
    by (auto simp: language_Nil simp del: list.set split: option.split list.split)
  have r: "r = add_errors (length_errors (length out) c @ forbidden @ required @ (if cn_require_language c then unnamed_errors (extract_code_blocks out) else [])
      @ (case cn_languages c of Some (l # ls) \<Rightarrow> language_errors (l # ls) (extract_code_blocks out) | _ \<Rightarrow> [])) passed"
    using assms unfolding validate_constraints_def p option.case by (simp only: option.inject)
  show "consistent r" unfolding r by (rule consistent_add)
  show "vr_valid r \<longleftrightarrow> constraints_ok en out c"
    unfolding r add_errors_simps append_is_Nil_conv 1 2 3 4 5 constraints_ok_def by auto
qed

definition meets :: "engines \<Rightarrow> behavior \<Rightarrow> string \<Rightarrow> bool" where
  "meets en b out \<longleftrightarrow> (\<forall>f. bh_format b = Some f \<longrightarrow> format_ok en out f) \<and> (\<forall>c. bh_constraints b = Some c \<longrightarrow> constraints_ok en out c)
       \<and> (\<forall>c. bh_security b = Some c \<longrightarrow> (\<forall>k \<in> set (extract_code_blocks out). block_safe en c k))"

definition unsearchable :: "engines \<Rightarrow> behavior \<Rightarrow> string \<Rightarrow> bool" where
  "unsearchable en b out \<longleftrightarrow> (\<exists>c p. bh_constraints b = Some c \<and> p \<in> set (cn_forbidden c @ cn_required c) \<and> en_search en p out = None)"

lemma pattern_errors_None: "pattern_errors search bad m ps = None \<longleftrightarrow> (\<exists>p \<in> set ps. search p = None)"
  by (induction ps) (auto split: option.splits)

lemma validate_constraints_None:
  "validate_constraints en out c = None \<longleftrightarrow> (\<exists>p \<in> set (cn_forbidden c @ cn_required c). en_search en p out = None)"
  (is "_ \<longleftrightarrow> (\<exists>p \<in> _. ?s p = None)")
proof (cases "pattern_errors ?s True ''Output contains forbidden pattern: '' (cn_forbidden c)")
  case None
  then show ?thesis using iffD1 [OF pattern_errors_None None] by (auto simp: validate_constraints_def)
next
  case 1: (Some es)
  show ?thesis
  proof (cases "pattern_errors ?s False ''Output missing required pattern: '' (cn_required c)")
    case None
    then show ?thesis using iffD1 [OF pattern_errors_None None] 1 by (auto simp: validate_constraints_def)
  next
    case 2: (Some fs)
    then show ?thesis using pattern_errors_some [OF 1] pattern_errors_some [OF 2] 1 by (auto simp: validate_constraints_def)
  qed
qed

text \<open>The validation of an answer raises exactly when a configured pattern cannot be searched; otherwise its result is
  consistent and valid exactly when the answer meets the configured format, every constraint, and every block is safe.\<close>

theorem validate_exact:
  "case validate en b out of None \<Rightarrow> unsearchable en b out
   | Some r \<Rightarrow> \<not> unsearchable en b out \<and> (vr_valid r \<longleftrightarrow> vr_errors r = []) \<and> (vr_valid r \<longleftrightarrow> meets en b out)"
proof -
  define r1 where "r1 = (case bh_format b of None \<Rightarrow> passed | Some f \<Rightarrow> absorb (validate_output_format en out f) passed)"
  define finish where "finish = (\<lambda>r. case bh_security b of None \<Rightarrow> r | Some c \<Rightarrow> absorb (apply_security_checks en out c) r)"
  have v: "validate en b out = (case bh_constraints b of None \<Rightarrow> Some (finish r1)
      | Some c \<Rightarrow> map_option (\<lambda>part. finish (absorb part r1)) (validate_constraints en out c))"
    unfolding validate_def Let_def r1_def finish_def ..
  have c1: "consistent r1" and v1: "vr_valid r1 \<longleftrightarrow> (\<forall>f. bh_format b = Some f \<longrightarrow> format_ok en out f)"
    unfolding r1_def by (auto simp: consistent_add consistent_format consistent_absorb vr_valid_absorb format_valid split: option.split)
  have cs: "consistent (apply_security_checks en out c)" for c
    unfolding apply_security_checks_def by (rule consistent_add)
  have fin: "consistent (finish r)" "vr_valid (finish r) \<longleftrightarrow> vr_valid r \<and>
      (\<forall>c. bh_security b = Some c \<longrightarrow> (\<forall>k \<in> set (extract_code_blocks out). block_safe en c k))" if "consistent r" for r
    unfolding finish_def using that by (auto simp: cs consistent_absorb vr_valid_absorb security_valid split: option.split)
  show ?thesis
  proof (cases "bh_constraints b")
    case None
    then show ?thesis using fin [OF c1] v1 by (simp add: v unsearchable_def meets_def consistent_def)
  next
    case (Some c)
    show ?thesis
    proof (cases "validate_constraints en out c")
      case None
      then have "validate en b out = None" "unsearchable en b out" using Some validate_constraints_None [of en out c] by (auto simp: v unsearchable_def)
      then show ?thesis by simp
    next
      case p: (Some part)
      have cp: "consistent (absorb part r1)" "vr_valid (absorb part r1) \<longleftrightarrow> constraints_ok en out c \<and> vr_valid r1"
        using constraints_valid [OF p] c1 by (simp_all add: consistent_absorb vr_valid_absorb)
      have "\<not> unsearchable en b out" using p Some validate_constraints_None [of en out c] by (auto simp: unsearchable_def)
      then show ?thesis using fin [OF cp(1)] cp(2) v1 Some p by (auto simp: v meets_def consistent_def)
    qed
  qed
qed

text \<open>A block whose language is followed by a space, or has a sign in it, is not a block to the validator, so its code
  is never scanned.\<close>

definition strict_security :: behavior where
  "strict_security = \<lparr>bh_format = None, bh_constraints = None,
     bh_security = Some \<lparr>sy_syntax_check = False, sy_scan = True, sy_functions = [''eval'', ''exec'', ''compile'', ''__import__''],
       sy_files = False, sy_network = False\<rparr>, bh_quality = True\<rparr>"

definition hidden_call :: "string \<Rightarrow> string" where
  "hidden_call tag = fence @ tag @ [newline] @ ''eval(x)'' @ [newline] @ fence"

theorem hidden_block_passes:
  "map_option vr_valid (validate en strict_security (hidden_call ''python'')) = Some False"
  "map_option vr_valid (validate en strict_security (hidden_call ''python '')) = Some True"
  "map_option vr_valid (validate en strict_security (hidden_call ''c++'')) = Some True"
  by code_simp+

end
