(* ===== verification/Model_Choice.thy ===== *)
theory Model_Choice
  imports Provider_Routing
begin

text \<open>
  The model the builder works with, \<open>src/src/api/builder_models.py\<close>, and the credentials it calls it with
  (\<open>_get_provider_credentials\<close> of \<open>src/src/api/routers/builder.py\<close>), over the provider registry of
  \<open>Provider_Routing\<close>.  \<open>Inl Ill_typed\<close> stands for an exception on a configuration of an unexpected shape.
\<close>

subsection \<open>Preferences\<close>

record model_choice =
  mc_provider :: string
  mc_model :: string
  mc_escalated :: bool
  mc_reason :: string

definition preferences :: "(string, string list) odict" where
  "preferences =
    [(''plan'', [''anthropic/claude-opus-5'', ''openai/gpt-5.6-sol'', ''anthropic/claude-sonnet-5'', ''openai/gpt-5.5'',
        ''google/gemini-3.1-pro-preview'', ''gemini-3.1-pro-preview'', ''google/gemini-3.6-flash'', ''gemini-3.6-flash'']),
     (''config'', [''anthropic/claude-opus-5'', ''openai/gpt-5.6-sol'', ''anthropic/claude-sonnet-5'', ''openai/gpt-5.5'',
        ''google/gemini-3.6-flash'', ''gemini-3.6-flash'']),
     (''tool'', [''anthropic/claude-opus-5'', ''openai/gpt-5.6-sol'', ''anthropic/claude-sonnet-5'', ''google/gemini-3.1-pro-preview'',
        ''gemini-3.1-pro-preview'', ''google/gemini-3.6-flash'', ''gemini-3.6-flash'']),
     (''frontend'', [''anthropic/claude-opus-5'', ''anthropic/claude-sonnet-5'', ''openai/gpt-5.6-sol'', ''google/gemini-3.6-flash'',
        ''gemini-3.6-flash'']),
     (''design'', [''anthropic/claude-sonnet-5'', ''google/gemini-3.6-flash'', ''gemini-3.6-flash'', ''openai/gpt-5.6-sol'',
        ''google/gemini-3.5-flash'']),
     (''chat'', [''anthropic/claude-sonnet-5'', ''openai/gpt-5.6-sol'', ''google/gemini-3.6-flash'', ''gemini-3.6-flash'',
        ''anthropic/claude-opus-5'']),
     (''explain'', [''google/gemini-3.6-flash'', ''gemini-3.6-flash'', ''anthropic/claude-sonnet-5'', ''openai/gpt-5.6-sol''])]"

definition ranked_models :: "string \<Rightarrow> string list" where
  "ranked_models task = get_default preferences task []"

definition ranked_for :: "string \<Rightarrow> string list" where
  "ranked_for task = get_default preferences task (the (get preferences ''config''))"

subsection \<open>What can be called\<close>

text \<open>\<open>provider.get("models", []) or []\<close>, iterated.\<close>

definition listed_models :: "(string, json) odict \<Rightarrow> provider_error + json list" where
  "listed_models p = (let v = jget p ''models'' in if \<not> truthy v then Inr [] else
     case v of JList xs \<Rightarrow> Inr xs | JObj d \<Rightarrow> Inr (map (\<lambda>(k, v). JStr k) d) | JStr s \<Rightarrow> Inr (map (\<lambda>c. JStr [c]) s) | _ \<Rightarrow> Inl Ill_typed)"

definition entry_name :: "json \<Rightarrow> json" where
  "entry_name e = (case e of JObj d \<Rightarrow> jget d ''name'' | _ \<Rightarrow> e)"

definition provider_pairs :: "world_config \<Rightarrow> (string, json) odict \<Rightarrow> provider_error + (string \<times> string) list" where
  "provider_pairs wc p = (let pid = provider_id_text wc p in
     if pid = [] then Inr []
     else case auth_object p of Inl e \<Rightarrow> Inl e
     | Inr auth \<Rightarrow> (case (if truthy (get_default auth ''required'' (JBool True)) then key_source wc pid else Inr Inline) of
         Inl e \<Rightarrow> Inl e
       | Inr source \<Rightarrow> if source = No_key then Inr []
           else (case listed_models p of Inl e \<Rightarrow> Inl e
             | Inr es \<Rightarrow> Inr (map (\<lambda>e. (pid, text_of (wc_show wc) (entry_name e))) (filter (\<lambda>e. truthy (entry_name e)) es)))))"

fun all_pairs :: "world_config \<Rightarrow> (string, json) odict list \<Rightarrow> provider_error + (string \<times> string) list" where
  "all_pairs wc [] = Inr []"
| "all_pairs wc (p # ps) = (case provider_pairs wc p of Inl e \<Rightarrow> Inl e
     | Inr xs \<Rightarrow> (case all_pairs wc ps of Inl e \<Rightarrow> Inl e | Inr ys \<Rightarrow> Inr (xs @ ys)))"

definition available :: "world_config \<Rightarrow> provider_error + (string \<times> string) list" where
  "available wc = all_pairs wc (list_llm_providers wc)"

text \<open>The first pair of the best-ranked model that is offered.\<close>

fun best_match :: "string list \<Rightarrow> (string \<times> string) list \<Rightarrow> (string \<times> string) option" where
  "best_match [] pairs = None"
| "best_match (m # ms) pairs = (case List.find (\<lambda>pair. snd pair = m) pairs of Some pair \<Rightarrow> Some pair | None \<Rightarrow> best_match ms pairs)"

definition escalate_choice :: "string \<Rightarrow> string \<times> string \<Rightarrow> model_choice" where
  "escalate_choice reason pair = \<lparr>mc_provider = fst pair, mc_model = snd pair, mc_escalated = True, mc_reason = reason\<rparr>"

definition choose_model :: "world_config \<Rightarrow> string \<Rightarrow> string \<Rightarrow> string \<Rightarrow> provider_error + model_choice" where
  "choose_model wc task provider model =
     (if model \<noteq> [] then
        Inr \<lparr>mc_provider = str_or provider ''openrouter'', mc_model = model, mc_escalated = False, mc_reason = ''pinned by caller''\<rparr>
      else case available wc of Inl e \<Rightarrow> Inl e
      | Inr pairs \<Rightarrow>
        if provider \<noteq> [] then
          (let scoped = filter (\<lambda>pair. fst pair = provider) pairs in
           case best_match (ranked_for task) scoped of
             Some pair \<Rightarrow> Inr (escalate_choice (''best available from '' @ quoted provider @ '' for '' @ task) pair)
           | None \<Rightarrow> (case scoped of
               pair # _ \<Rightarrow> Inr (escalate_choice (''first usable from '' @ quoted provider @ '' for '' @ task) pair)
             | [] \<Rightarrow> Inr \<lparr>mc_provider = provider, mc_model = [], mc_escalated = False,
                 mc_reason = ''provider '' @ quoted provider @ '' has no usable model''\<rparr>))
        else
          (case best_match (ranked_for task) pairs of
             Some pair \<Rightarrow> Inr (escalate_choice (''best available for '' @ task) pair)
           | None \<Rightarrow> (case pairs of
               pair # _ \<Rightarrow> Inr (escalate_choice (''no preferred model configured; first usable for '' @ task) pair)
             | [] \<Rightarrow> Inr \<lparr>mc_provider = ''openrouter'', mc_model = [], mc_escalated = False, mc_reason = ''no provider with a usable key''\<rparr>)))"

subsection \<open>Credentials\<close>

text \<open>Errors of the resolution and a missing endpoint are answered with status 400; \<open>Ill_typed\<close> is not caught.\<close>

datatype credential_error = Not_resolved provider_error | No_endpoint string

definition get_provider_credentials :: "world_config \<Rightarrow> string \<Rightarrow> credential_error + string \<times> string \<times> bool" where
  "get_provider_credentials wc pid = (case resolve_openai_endpoint wc pid of
      Inl e \<Rightarrow> Inl (Not_resolved e)
    | Inr (url, key, required) \<Rightarrow>
        if \<not> opt_truthy url then Inl (No_endpoint pid)
        else Inr (the url, opt_or key [], opt_truthy key \<or> \<not> required))"

text \<open>\<open>_resolve_builder_model\<close>: the provider and model the request goes on with.\<close>

definition resolve_builder_model :: "world_config \<Rightarrow> string \<Rightarrow> string \<Rightarrow> string \<Rightarrow> provider_error + string \<times> string" where
  "resolve_builder_model wc task provider model = (case choose_model wc task provider model of Inl e \<Rightarrow> Inl e
     | Inr c \<Rightarrow> Inr (mc_provider c, if mc_model c \<noteq> [] then mc_model c else model))"

subsection \<open>Properties\<close>

lemma best_match_Some:
  "best_match ms pairs = Some pair \<Longrightarrow> pair \<in> set pairs \<and> (\<exists>above below. ms = above @ snd pair # below \<and> (\<forall>m \<in> set above. m \<notin> snd ` set pairs))"
proof (induction ms)
  case (Cons m ms)
  show ?case
  proof (cases "List.find (\<lambda>pair. snd pair = m) pairs")
    case None
    then have m: "m \<notin> snd ` set pairs" by (auto dest: find_NoneD)
    from Cons None obtain above below where "pair \<in> set pairs" "ms = above @ snd pair # below" "\<forall>m \<in> set above. m \<notin> snd ` set pairs"
      by auto
    then show ?thesis using m by (intro conjI exI [of _ "m # above"] exI [of _ below]) auto
  next
    case (Some q)
    then show ?thesis using Cons.prems find_SomeD [OF Some] by (intro conjI exI [of _ "[]"] exI [of _ ms]) auto
  qed
qed simp

lemma best_match_None: "best_match ms pairs = None \<longleftrightarrow> (\<forall>m \<in> set ms. m \<notin> snd ` set pairs)"
  by (induction ms) (auto split: option.split dest: find_SomeD find_NoneD)

text \<open>The reachable pairs the request may be routed to.\<close>

definition scope :: "world_config \<Rightarrow> string \<Rightarrow> (string \<times> string) list \<Rightarrow> (string \<times> string) list" where
  "scope wc provider pairs = (if provider \<noteq> [] then filter (\<lambda>pair. fst pair = provider) pairs else pairs)"

definition best_of :: "string \<Rightarrow> (string \<times> string) list \<Rightarrow> string \<times> string \<Rightarrow> bool" where
  "best_of task pairs pair \<longleftrightarrow> pair \<in> set pairs
     \<and> ((\<exists>above below. ranked_for task = above @ snd pair # below \<and> (\<forall>m \<in> set above. m \<notin> snd ` set pairs))
        \<or> (\<forall>m \<in> set (ranked_for task). m \<notin> snd ` set pairs) \<and> pair = hd pairs)"

text \<open>An unpinned request is answered with the best ranked model among the reachable ones of the requested provider, or of
  all when none is requested, with the first of them when none is ranked, and with no model when there is none.\<close>

theorem choose_model_best:
  assumes "available wc = Inr pairs"
  shows "\<exists>c. choose_model wc task provider [] = Inr c
    \<and> (if scope wc provider pairs = [] then mc_model c = [] \<and> \<not> mc_escalated c \<and> mc_provider c = str_or provider ''openrouter''
       else mc_escalated c \<and> best_of task (scope wc provider pairs) (mc_provider c, mc_model c))"
proof -
  have s: "best_of task ps pair" if "best_match (ranked_for task) ps = Some pair" for ps pair
    using best_match_Some [OF that] by (auto simp: best_of_def)
  have n: "best_of task (pair # ps) pair" if "best_match (ranked_for task) (pair # ps) = None" for ps pair
    using that unfolding best_match_None by (auto simp: best_of_def)
  have e: "ps \<noteq> []" if "best_match (ranked_for task) ps = Some pair" for ps pair
    using best_match_Some [OF that] by auto
  show ?thesis
    by (cases "best_match (ranked_for task) (scope wc provider pairs)"; cases "scope wc provider pairs")
      (auto simp: choose_model_def assms scope_def escalate_choice_def str_or_def dest: s n e split: if_splits)
qed

theorem choose_model_best_witness:
  "\<exists>c. choose_model demo_config ''plan'' [] [] = Inr c \<and> mc_model c = []"
proof -
  have a: "available demo_config = Inr []" by code_simp
  show ?thesis using choose_model_best [OF a, of "''plan''" "[]"] by (auto simp: scope_def)
qed

text \<open>Providers have distinct textual ids.\<close>

definition named_apart :: "world_config \<Rightarrow> bool" where
  "named_apart wc \<longleftrightarrow> list_all (\<lambda>p. \<exists>s \<in> {provider_id_text wc p}. jget p ''id'' = JStr s) (wc_providers wc)
     \<and> distinct (map (provider_id_text wc) (wc_providers wc))"

lemma find_unique: "distinct (map f xs) \<Longrightarrow> x \<in> set xs \<Longrightarrow> (\<And>y. y \<in> set xs \<Longrightarrow> Q y \<longleftrightarrow> f y = f x) \<Longrightarrow> List.find Q xs = Some x"
  by (induction xs) auto

lemma find_provider_listed:
  assumes "named_apart wc" "p \<in> set (list_llm_providers wc)"
  shows "find_provider wc (provider_id_text wc p) = Inr p"
proof -
  have p: "p \<in> set (wc_providers wc)" "enabled_provider p" "llm_provider p" using assms(2) by (auto simp: list_llm_providers_def)
  have id: "jget q ''id'' = JStr (provider_id_text wc q)" if "q \<in> set (wc_providers wc)" for q
    using assms(1) that by (auto simp: named_apart_def list_all_iff)
  have "List.find (\<lambda>q. is_str (provider_id_text wc p) (jget q ''id'')) (wc_providers wc) = Some p"
    by (rule find_unique [where f = "provider_id_text wc"]) (use assms(1) p id in \<open>auto simp: named_apart_def\<close>)
  then show ?thesis using p by (simp add: find_provider_def)
qed

lemma all_pairs_member: "all_pairs wc ps = Inr xs \<Longrightarrow> x \<in> set xs \<Longrightarrow> \<exists>p \<in> set ps. \<exists>ys. provider_pairs wc p = Inr ys \<and> x \<in> set ys"
proof (induction ps arbitrary: xs)
  case (Cons p ps)
  then obtain ys zs where "provider_pairs wc p = Inr ys" "all_pairs wc ps = Inr zs" "xs = ys @ zs" by (auto split: sum.splits)
  then show ?case using Cons.IH [of zs] Cons.prems(2) by auto
qed simp

lemma sourced_key:
  assumes "\<forall>v. truthy v \<longrightarrow> wc_show wc v \<noteq> []" "find_provider wc pid = Inr p" "key_source wc pid = Inr s" "s \<noteq> No_key"
    "provider_key wc p = Inr k"
  shows "opt_truthy k"
proof -
  note g = get_secret_not_Nil [OF assms(1), of "wc_secrets wc" pid] and i = provider_id_text_found [OF assms(2)]
  have e: "env_key wc p a \<noteq> Some []" for a by (simp add: env_key_def env_of_not_Nil)
  have t: "truthy (jget p ''api_key'') \<Longrightarrow> text_of (wc_show wc) (jget p ''api_key'') \<noteq> []" by (rule text_of_not_Nil [OF assms(1)])
  show ?thesis using assms(3-5) e g t
    by (auto simp: key_source_def assms(2) provider_key_def i Let_def opt_truthy_def split: option.splits sum.splits if_splits)
qed

text \<open>A model that was chosen for the caller is one whose provider can be called: whenever its endpoint resolves, its key
  is there or not needed, so the choice never ends in an authentication error.\<close>

theorem escalated_choice_ready:
  assumes "\<forall>v. truthy v \<longrightarrow> wc_show wc v \<noteq> []" "named_apart wc"
    and "choose_model wc task provider [] = Inr c" "mc_escalated c"
    and "get_provider_credentials wc (mc_provider c) = Inr (url, key, ready)"
  shows "ready"
proof -
  obtain pairs where a: "available wc = Inr pairs" using assms(3) by (auto simp: choose_model_def split: sum.splits)
  have "(mc_provider c, mc_model c) \<in> set pairs"
    using assms(3,4) by (auto simp: choose_model_def a escalate_choice_def Let_def filter_eq_Cons_iff dest!: best_match_Some split: if_splits option.splits list.splits)
  then obtain p ys where p: "p \<in> set (list_llm_providers wc)" "provider_pairs wc p = Inr ys" "(mc_provider c, mc_model c) \<in> set ys"
    using all_pairs_member a unfolding available_def by blast
  then obtain auth where auth: "mc_provider c = provider_id_text wc p" "auth_object p = Inr auth"
      "truthy (get_default auth ''required'' (JBool True)) \<Longrightarrow> \<exists>s. key_source wc (mc_provider c) = Inr s \<and> s \<noteq> No_key"
    by (auto simp: provider_pairs_def Let_def split: if_splits sum.splits)
  have f: "find_provider wc (mc_provider c) = Inr p" using find_provider_listed [OF assms(2) p(1)] auth(1) by simp
  then obtain k required where k: "provider_key wc p = Inr k" "auth_required p = Inr required" "ready = (opt_truthy k \<or> \<not> required)"
    using assms(5) by (auto simp: get_provider_credentials_def resolve_openai_endpoint_def split: sum.splits if_splits)
  have "required \<Longrightarrow> truthy (get_default auth ''required'' (JBool True))"
    using k(2) auth(2) by (auto simp: auth_required_def auth_object_def Let_def split: if_splits json.splits)
  then show ?thesis using auth(3) sourced_key [OF assms(1) f _ _ k(1)] k(3) by blast
qed

definition keyed_provider :: "(string, json) odict" where
  "keyed_provider = [(''id'', JStr ''acme''), (''base_url'', JStr ''http://a/v1''), (''api_key'', JStr ''k1''),
     (''auth'', JObj [(''required'', JBool True)]), (''models'', JList [JObj [(''name'', JStr ''m'')], JStr ''gemini-3.6-flash''])]"

definition keyed_config :: world_config where
  "keyed_config = \<lparr>wc_show = \<lambda>v. ''?'', wc_env = \<lambda>v. None, wc_secrets = None, wc_providers = [demo_provider, keyed_provider]\<rparr>"

theorem escalated_choice_ready_witness:
  "\<exists>u k ready. get_provider_credentials keyed_config ''acme'' = Inr (u, k, ready) \<and> ready"
proof -
  have c: "choose_model keyed_config ''chat'' [] [] = Inr (escalate_choice ''best available for chat'' (''acme'', ''gemini-3.6-flash''))" by code_simp
  have s: "\<forall>v. truthy v \<longrightarrow> wc_show keyed_config v \<noteq> []" by (simp add: keyed_config_def)
  have n: "named_apart keyed_config" by code_simp
  have e: "mc_escalated (escalate_choice ''best available for chat'' (''acme'', ''gemini-3.6-flash''))" by (simp add: escalate_choice_def)
  have "isl (get_provider_credentials keyed_config ''acme'') = False" by code_simp
  then obtain u k ready where g: "get_provider_credentials keyed_config ''acme'' = Inr (u, k, ready)"
    by (cases "get_provider_credentials keyed_config ''acme''") auto
  have "ready" by (rule escalated_choice_ready [OF s n c e, of u k]) (simp add: g escalate_choice_def)
  then show ?thesis using g by blast
qed

text \<open>A local provider without an \<open>auth\<close> entry can be called without a key, but is never chosen.\<close>

theorem local_provider_not_available:
  "available demo_config = Inr []" "get_provider_credentials demo_config ''lmstudio'' = Inr (''http://localhost:1234/v1'', [], True)"
  by code_simp+

text \<open>A provider with a key and no endpoint is chosen, and the request then fails.\<close>

theorem endpointless_provider_chosen:
  "choose_model (keyed_config\<lparr>wc_providers := [del ''base_url'' keyed_provider]\<rparr>) ''chat'' [] []
     = Inr (escalate_choice ''best available for chat'' (''acme'', ''gemini-3.6-flash''))"
  "get_provider_credentials (keyed_config\<lparr>wc_providers := [del ''base_url'' keyed_provider]\<rparr>) ''acme'' = Inl (No_endpoint ''acme'')"
  by code_simp+

end
