(* ===== verification/Plan_Builder.thy ===== *)
theory Plan_Builder
  imports Prelude
begin

text \<open>
  The builder's plans, \<open>src/src/api/routers/builder.py\<close>: a model's plan is repaired so that it applies
  (\<open>_normalize_plan\<close>), a local plan stands in when no model can be called (\<open>_fallback_plan\<close>), tool
  configurations are coerced into the platform's schema, and a plan is applied through the create and update handlers.
  \<open>None\<close> is an exception on a plan of an unexpected shape.  Texts are ASCII; \<open>show\<close> is \<open>str\<close> on what is not a
  string.  The registered tool ids are a parameter.
\<close>

type_synonym obj = "(string, json) odict"

subsection \<open>Ids\<close>

definition slug_ok :: "char \<Rightarrow> bool" where
  "slug_ok c \<longleftrightarrow> code c \<in> {97..122} \<or> code c \<in> {48..57} \<or> c = CHR ''_''"

text \<open>\<open>re.sub(r"[^a-z0-9_]+", "_", s)\<close>: every run of other characters becomes one underscore.\<close>

fun squeeze :: "bool \<Rightarrow> string \<Rightarrow> string" where
  "squeeze in_run [] = []"
| "squeeze in_run (c # s) = (if slug_ok c then c # squeeze False s
     else if in_run then squeeze True s else CHR ''_'' # squeeze True s)"

definition strip_underscores :: "string \<Rightarrow> string" where
  "strip_underscores s = rev (dropWhile (\<lambda>c. c = CHR ''_'') (rev (dropWhile (\<lambda>c. c = CHR ''_'') s)))"

definition slug_text :: "string \<Rightarrow> string" where
  "slug_text s = strip_underscores (squeeze False (lower s))"

definition slug :: "string \<Rightarrow> string \<Rightarrow> string" where
  "slug s fallback = str_or (slug_text s) fallback"

text \<open>\<open>while agent_id in seen_ids: agent_id = f"{agent_id}_{index + 1}"\<close>.\<close>

function fresh_id :: "nat \<Rightarrow> string list \<Rightarrow> string \<Rightarrow> string" where
  "fresh_id i seen a = (if a \<in> set seen then fresh_id i seen (a @ ''_'' @ nat_str (i + 1)) else a)"
  by pat_completeness auto
termination
proof (relation "measure (\<lambda>(i, seen, a). Suc (sum_list (map length seen)) - length a)")
  fix i :: nat and seen :: "string list" and a :: string
  assume "a \<in> set seen"
  then have "length a \<le> sum_list (map length seen)" by (simp add: member_le_sum_list)
  then show "((i, seen, a @ ''_'' @ nat_str (i + 1)), (i, seen, a)) \<in> measure (\<lambda>(i, seen, a). Suc (sum_list (map length seen)) - length a)"
    by simp
qed simp

declare fresh_id.simps [simp del]

subsection \<open>Reading loose JSON\<close>

definition setdefault :: "string \<Rightarrow> json \<Rightarrow> obj \<Rightarrow> obj" where
  "setdefault k v d = (if get d k = None then put k v d else d)"

text \<open>Iterating \<open>v or []\<close>; the objects among the items.\<close>

definition items_of :: "json \<Rightarrow> json list option" where
  "items_of v = (if \<not> truthy v then Some [] else
     case v of JList xs \<Rightarrow> Some xs | JObj d \<Rightarrow> Some (map (\<lambda>(k, v). JStr k) d) | JStr s \<Rightarrow> Some (map (\<lambda>c. JStr [c]) s) | _ \<Rightarrow> None)"

definition as_obj :: "json \<Rightarrow> obj option" where
  "as_obj v = (case v of JObj d \<Rightarrow> Some d | _ \<Rightarrow> None)"

definition objs_of :: "json \<Rightarrow> obj list option" where
  "objs_of v = map_option (List.map_filter as_obj) (items_of v)"

text \<open>\<open>dict(v or {})\<close>; a list of pairs, which \<open>dict\<close> would take too, is not considered.\<close>

definition dict_of :: "json \<Rightarrow> obj option" where
  "dict_of v = (if \<not> truthy v then Some [] else as_obj v)"

text \<open>Membership of an item in a set of strings: lists and objects cannot be hashed.\<close>

definition hashable :: "json \<Rightarrow> bool" where
  "hashable v = (case v of JList _ \<Rightarrow> False | JObj _ \<Rightarrow> False | _ \<Rightarrow> True)"

definition strings_in :: "json list \<Rightarrow> string list" where
  "strings_in xs = List.map_filter (\<lambda>v. case v of JStr s \<Rightarrow> Some s | _ \<Rightarrow> None) xs"

definition tool_list :: "json \<Rightarrow> string list option" where
  "tool_list v = (case items_of v of None \<Rightarrow> None | Some xs \<Rightarrow> if list_all hashable xs then Some (strings_in xs) else None)"

definition jstrs :: "string list \<Rightarrow> json" where
  "jstrs xs = JList (map JStr xs)"

subsection \<open>The local plan\<close>

definition base_id :: "string \<Rightarrow> string" where
  "base_id prompt = str_or (take 40 (slug_text prompt)) ''custom_chatbot''"

definition fallback_agent :: "string \<Rightarrow> obj" where
  "fallback_agent prompt = (let a = base_id prompt @ ''_agent'' in
    [(''id'', JStr a), (''type'', JStr ''conversable''), (''name'', JStr a), (''description'', JStr (take 240 prompt)),
     (''system_message'', JStr (''You are a helpful chatbot for this goal: '' @ prompt)),
     (''llm_config'', JObj [(''provider_id'', JStr ''openrouter''), (''model'', JStr ''openai/gpt-oss-20b''), (''temperature'', JFloat (4/10))]),
     (''human_input_mode'', JStr ''NEVER''), (''tools'', JList []), (''max_consecutive_auto_reply'', JInt 10)])"

definition fallback_plan :: "string \<Rightarrow> obj" where
  "fallback_plan prompt = (let b = base_id prompt; a = b @ ''_agent'' in
    [(''summary'', JStr ''Starter chatbot plan generated locally because the builder model is not configured.''),
     (''agents'', JList [JObj (fallback_agent prompt)]), (''tools'', JList []), (''functions'', JList []),
     (''workflow'', JObj [(''id'', JStr b), (''name'', JStr (str_or (take 60 prompt) ''Custom Chatbot'')), (''description'', JStr prompt),
        (''pattern'', JStr ''single''), (''entry_agent_id'', JStr a), (''enabled'', JBool True), (''workflow_type'', JStr ''chatbot''),
        (''persistence'', JStr ''postgres''),
        (''topology'', JObj [(''type'', JStr ''single''),
           (''nodes'', JList [JObj [(''id'', JStr a), (''agent_id'', JStr a), (''description'', JStr (take 160 prompt))]]),
           (''entry_node'', JStr a)]),
        (''metadata'', JObj [(''builder_prompt'', JStr prompt)])]),
     (''triggers'', JList [JObj [(''type'', JStr ''chat''), (''name'', JStr ''Public chat''), (''auth_mode'', JStr ''public''),
        (''greeting'', JStr ''Hi, how can I help?'')]]),
     (''missing_secrets'', JList [JStr ''OPENROUTER_API_KEY''])])"

subsection \<open>Patterns\<close>

definition conversation_patterns :: "string list" where
  "conversation_patterns = [''single'', ''two_agent'', ''sequential'', ''parallel'', ''group_chat'', ''nested'', ''selector'', ''interactive'']"

definition pattern_synonyms :: "(string, string) odict" where
  "pattern_synonyms = [(''chat'', ''single''), (''chatbot'', ''single''), (''conversational'', ''single''), (''conversation'', ''single''),
     (''simple'', ''single''), (''routing'', ''selector''), (''router'', ''selector''), (''tree'', ''selector''),
     (''hierarchical'', ''selector''), (''graph'', ''selector''), (''pipeline'', ''sequential''), (''chain'', ''sequential''),
     (''linear'', ''sequential''), (''concurrent'', ''parallel''), (''fanout'', ''parallel'')]"

definition coerce_pattern :: "(json \<Rightarrow> string) \<Rightarrow> json \<Rightarrow> nat \<Rightarrow> string" where
  "coerce_pattern show v n = (let t = slug (text_of show (json_or v (JStr []))) [] in
     if t \<in> set conversation_patterns then t
     else case get pattern_synonyms t of Some m \<Rightarrow> m | None \<Rightarrow> if n \<le> 1 then ''single'' else ''sequential'')"

subsection \<open>Agents of a plan\<close>

definition id_or_name :: "(json \<Rightarrow> string) \<Rightarrow> obj \<Rightarrow> string" where
  "id_or_name show d = text_of show (json_or (json_or (jget d ''id'') (jget d ''name'')) (JStr []))"

definition planned_tool_ids :: "(json \<Rightarrow> string) \<Rightarrow> obj list \<Rightarrow> string list" where
  "planned_tool_ids show tools = map (\<lambda>t. slug (id_or_name show t) ''tool'') tools"

text \<open>The tools that come with a reason.\<close>

definition justified_tools :: "json \<Rightarrow> string list" where
  "justified_tools v = (case v of JObj d \<Rightarrow> map fst (filter (\<lambda>(k, r). case r of JStr s \<Rightarrow> strip s \<noteq> [] | _ \<Rightarrow> False) d) | _ \<Rightarrow> [])"

record agent_pass =
  ap_seen :: "string list"
  ap_dropped :: "string list"
  ap_agents :: "obj list"

definition normalize_agent ::
  "(json \<Rightarrow> string) \<Rightarrow> string list \<Rightarrow> string list \<Rightarrow> string \<Rightarrow> nat \<Rightarrow> obj \<Rightarrow> agent_pass \<Rightarrow> agent_pass option" where
  "normalize_agent show resolvable justified prompt i agent st =
     (let a = fresh_id i (ap_seen st) (slug (id_or_name show agent) (''agent_'' @ nat_str (i + 1)));
          d = setdefault ''description'' (JStr (take 240 prompt)) (setdefault ''name'' (JStr a) (setdefault ''type'' (JStr ''conversable'')
            (put ''id'' (JStr a) agent)))
      in map_option (\<lambda>ts. let wanted = filter (\<lambda>t. t \<in> set resolvable) ts in
           \<lparr>ap_seen = a # ap_seen st, ap_dropped = ap_dropped st @ filter (\<lambda>t. t \<notin> set justified) wanted,
             ap_agents = ap_agents st @ [put ''tools'' (jstrs (filter (\<lambda>t. t \<in> set justified) wanted)) d]\<rparr>)
         (tool_list (jget d ''tools'')))"

fun normalize_agents ::
  "(json \<Rightarrow> string) \<Rightarrow> string list \<Rightarrow> string list \<Rightarrow> string \<Rightarrow> nat \<Rightarrow> obj list \<Rightarrow> agent_pass \<Rightarrow> agent_pass option" where
  "normalize_agents show resolvable justified prompt i [] st = Some st"
| "normalize_agents show resolvable justified prompt i (a # as) st =
     Option.bind (normalize_agent show resolvable justified prompt i a st) (normalize_agents show resolvable justified prompt (i + 1) as)"

subsection \<open>Topology of a plan\<close>

definition agent_id :: "obj \<Rightarrow> string" where
  "agent_id a = (case jget a ''id'' of JStr s \<Rightarrow> s | _ \<Rightarrow> [])"

definition node_ref :: "(json \<Rightarrow> string) \<Rightarrow> obj \<Rightarrow> string" where
  "node_ref show n = text_of show (json_or (jget n ''agent_id'') (jget n ''id''))"

text \<open>Nodes of unknown agents are dropped, and every agent the topology forgot gets one.\<close>

definition node_for :: "obj \<Rightarrow> obj" where
  "node_for a = [(''id'', JStr (agent_id a)), (''agent_id'', JStr (agent_id a)), (''description'', get_default a ''description'' (JStr []))]"

definition cover_agents :: "(json \<Rightarrow> string) \<Rightarrow> obj list \<Rightarrow> obj list \<Rightarrow> obj list" where
  "cover_agents show agents nodes = (let kept = filter (\<lambda>n. node_ref show n \<in> set (map agent_id agents)) nodes in
     kept @ map node_for (filter (\<lambda>a. agent_id a \<notin> node_ref show ` set kept) agents))"

definition named_node :: "obj \<Rightarrow> obj" where
  "named_node n = (let n1 = setdefault ''id'' (jget n ''agent_id'') n in setdefault ''agent_id'' (jget n1 ''id'') n1)"

definition complete_node :: "(json \<Rightarrow> string) \<Rightarrow> (string, obj) odict \<Rightarrow> obj \<Rightarrow> obj" where
  "complete_node show by_id n0 =
     (let n = named_node n0 in
      case get by_id (text_of show (jget n ''agent_id'')) of None \<Rightarrow> n
      | Some owner \<Rightarrow> if truthy (jget owner ''tools'') \<and> \<not> truthy (jget n ''tools'') then put ''tools'' (jget owner ''tools'') n else n)"

definition entry_node :: "(json \<Rightarrow> string) \<Rightarrow> obj \<Rightarrow> obj \<Rightarrow> obj list \<Rightarrow> string" where
  "entry_node show topology workflow nodes =
     (let e = text_of show (json_or (json_or (jget topology ''entry_node'') (jget workflow ''entry_agent_id'')) (JStr [])) in
      if e \<in> (\<lambda>n. text_of show (jget n ''id'')) ` set nodes then e
      else case nodes of n # _ \<Rightarrow> text_of show (jget n ''id'') | [] \<Rightarrow> [])"

definition plan_topology_type :: "string \<Rightarrow> string" where
  "plan_topology_type pattern = (if pattern = ''single'' then ''single'' else if pattern = ''sequential'' then ''sequential'' else ''graph'')"

definition entry_agent :: "(json \<Rightarrow> string) \<Rightarrow> string list \<Rightarrow> obj list \<Rightarrow> string \<Rightarrow> string" where
  "entry_agent show agent_ids nodes entry = (if entry \<noteq> [] \<and> entry \<in> set agent_ids then entry
     else case List.find (\<lambda>n. jget n ''id'' = JStr entry) nodes of Some n \<Rightarrow> text_of show (jget n ''agent_id'') | None \<Rightarrow> entry)"

subsection \<open>The workflow of a plan\<close>

text \<open>\<open>str.title\<close> on ASCII.\<close>

fun title_case :: "bool \<Rightarrow> string \<Rightarrow> string" where
  "title_case after_letter [] = []"
| "title_case after_letter (c # s) = (if after_letter then lower_char c else upper_char c) # title_case (is_alpha c) s"

definition readable_name :: "string \<Rightarrow> string" where
  "readable_name s = title_case False (map (\<lambda>c. if c = CHR ''_'' then CHR '' '' else c) s)"

definition workflow_head :: "(json \<Rightarrow> string) \<Rightarrow> string \<Rightarrow> obj \<Rightarrow> obj option" where
  "workflow_head show prompt w =
     (let w1 = setdefault ''id'' (JStr (slug (text_of show (json_or (jget w ''name'') (JStr (take 40 prompt)))) ''custom_chatbot'')) w in
      case jget w1 ''id'' of
        JStr i \<Rightarrow> Some (setdefault ''workflow_type'' (JStr ''chatbot'') (setdefault ''enabled'' (JBool True)
          (setdefault ''description'' (JStr (take 240 prompt)) (setdefault ''name'' (JStr (readable_name i)) w1))))
      | _ \<Rightarrow> None)"

definition workflow_memory :: json where
  "workflow_memory = JObj [(''enabled'', JBool True), (''retention'', JStr ''session'')]"

definition normalize_workflow :: "(json \<Rightarrow> string) \<Rightarrow> string \<Rightarrow> obj list \<Rightarrow> obj \<Rightarrow> obj option" where
  "normalize_workflow show prompt agents w0 =
     Option.bind (workflow_head show prompt w0) (\<lambda>w.
     Option.bind (dict_of (jget w ''topology'')) (\<lambda>topology.
     Option.bind (objs_of (jget topology ''nodes'')) (\<lambda>nodes0.
     Option.bind (dict_of (jget w ''metadata'')) (\<lambda>metadata.
       let by_id = map (\<lambda>a. (agent_id a, a)) agents;
           nodes = map (complete_node show by_id) (cover_agents show agents nodes0);
           entry = entry_node show topology w nodes;
           pattern = coerce_pattern show (jget w ''pattern'') (length nodes);
           topology1 = put ''type'' (JStr (plan_topology_type pattern)) (setdefault ''edges'' (JList [])
             (put ''entry_node'' (JStr entry) (put ''nodes'' (JList (map JObj nodes)) topology)));
           w1 = put ''entry_agent_id'' (JStr (entry_agent show (map agent_id agents) nodes entry))
             (put ''topology'' (JObj topology1) (put ''pattern'' (JStr pattern) w))
       in Some (put ''metadata'' (JObj (setdefault ''builder_prompt'' (JStr prompt) metadata))
            (setdefault ''memory'' workflow_memory w1))))))"

definition normalize_plan :: "(json \<Rightarrow> string) \<Rightarrow> string list \<Rightarrow> obj \<Rightarrow> string \<Rightarrow> obj option" where
  "normalize_plan show known plan prompt =
     Option.bind (objs_of (jget plan ''agents'')) (\<lambda>agents0.
     Option.bind (objs_of (jget plan ''tools'')) (\<lambda>tools.
       let planned = planned_tool_ids show tools in
     Option.bind (normalize_agents show (known @ planned) (justified_tools (jget plan ''tool_rationale'') @ planned) prompt 0 agents0
         \<lparr>ap_seen = [], ap_dropped = [], ap_agents = []\<rparr>) (\<lambda>st.
       let agents = (if ap_agents st = [] then [fallback_agent prompt] else ap_agents st);
           plan1 = put ''agents'' (JList (map JObj agents)) plan in
     Option.bind (dict_of (jget plan1 ''workflow'')) (\<lambda>w0.
     Option.bind (normalize_workflow show prompt agents w0) (\<lambda>w.
       let plan2 = setdefault ''missing_secrets'' (JList []) (setdefault ''triggers'' (JList []) (setdefault ''functions'' (JList [])
             (setdefault ''tools'' (JList []) (put ''workflow'' (JObj w) plan1))))
       in Some (if ap_dropped st = [] then plan2
            else put ''dropped_tools'' (jstrs (sort_strings (remdups (ap_dropped st)))) plan2))))))"

subsection \<open>Dictionaries\<close>

lemma put_same: "get d k = Some v \<Longrightarrow> put k v d = d"
  by (induction d) auto

lemma jget_put [simp]: "jget (put k v d) k' = (if k' = k then v else jget d k')"
  by (simp add: jget_def get_default_put)

lemma get_setdefault [simp]: "get (setdefault k v d) k' = (if k' = k \<and> get d k = None then Some v else get d k')"
  by (auto simp: setdefault_def)

lemma jget_setdefault: "jget (setdefault k v d) k' = (if k' = k \<and> get d k = None then v else jget d k')"
  by (auto simp: setdefault_def)

lemma setdefault_present: "get d k = Some v \<Longrightarrow> setdefault k w d = d"
  by (simp add: setdefault_def)

lemma jget_Some: "get d k = Some v \<Longrightarrow> jget d k = v"
  by (simp add: jget_def get_default_def)

lemma jget_None: "get d k = None \<Longrightarrow> jget d k = JNull"
  by (simp add: jget_def get_default_def)

lemma get_not_Nil: "get d k = Some v \<Longrightarrow> d \<noteq> []"
  by auto

lemma items_of_list [simp]: "items_of (JList xs) = Some xs"
  by (simp add: items_of_def)

lemma objs_of_list [simp]: "objs_of (JList (map JObj ds)) = Some ds"
proof -
  have "List.map_filter as_obj (map JObj ds) = ds" by (induction ds) (simp_all add: map_filter_simps as_obj_def)
  then show ?thesis by (simp add: objs_of_def)
qed

lemma tool_list_jstrs [simp]: "tool_list (jstrs ts) = Some ts"
proof -
  have "strings_in (map JStr ts) = ts" by (induction ts) (simp_all add: strings_in_def map_filter_simps)
  then show ?thesis by (simp add: tool_list_def jstrs_def list_all_iff hashable_def)
qed

lemma dict_of_obj: "d \<noteq> [] \<Longrightarrow> dict_of (JObj d) = Some d"
  by (simp add: dict_of_def as_obj_def)

lemma truthy_jstrs [simp]: "truthy (jstrs ts) \<longleftrightarrow> ts \<noteq> []"
  by (simp add: jstrs_def)

subsection \<open>Ids are stable\<close>

definition clean_id :: "string \<Rightarrow> bool" where
  "clean_id s \<longleftrightarrow> s \<noteq> [] \<and> list_all slug_ok s \<and> hd s \<noteq> CHR ''_'' \<and> last s \<noteq> CHR ''_''"

lemma slug_ok_lower: "slug_ok c \<Longrightarrow> lower_char c = c"
  by (auto simp: slug_ok_def lower_char_def is_upper_def Let_def code_def)

lemma squeeze_clean: "list_all slug_ok s \<Longrightarrow> squeeze b s = s"
  by (induction s arbitrary: b) auto

lemma squeeze_ok: "list_all slug_ok (squeeze b s)"
  by (induction s arbitrary: b) (auto simp: slug_ok_def)

lemma strip_underscores_clean: "clean_id s \<Longrightarrow> strip_underscores s = s"
proof -
  assume c: "clean_id s"
  then have "dropWhile (\<lambda>c. c = CHR ''_'') s = s" by (auto simp: clean_id_def dropWhile_eq_self_iff)
  moreover have "dropWhile (\<lambda>c. c = CHR ''_'') (rev s) = rev s" using c by (auto simp: clean_id_def dropWhile_eq_self_iff hd_rev)
  ultimately show ?thesis by (simp add: strip_underscores_def)
qed

lemma slug_clean: "clean_id s \<Longrightarrow> slug s d = s"
proof -
  assume c: "clean_id s"
  then have "lower s = s" by (auto simp: clean_id_def lower_def list_all_iff slug_ok_lower intro: map_idI)
  then show ?thesis using c squeeze_clean [of s False] strip_underscores_clean [OF c]
    by (simp add: slug_def slug_text_def clean_id_def str_or_def)
qed

lemma strip_underscores_ends:
  assumes "strip_underscores s \<noteq> []"
  shows "hd (strip_underscores s) \<noteq> CHR ''_''" "last (strip_underscores s) \<noteq> CHR ''_''"
proof -
  define u where "u = dropWhile (\<lambda>c. c = CHR ''_'') s"
  define v where "v = dropWhile (\<lambda>c. c = CHR ''_'') (rev u)"
  have s: "strip_underscores s = rev v" by (simp add: strip_underscores_def u_def v_def)
  have v: "v \<noteq> []" using assms s by simp
  then have "hd v \<noteq> CHR ''_''" using hd_dropWhile [of "\<lambda>c. c = CHR ''_''" "rev u"] v_def by auto
  then show "last (strip_underscores s) \<noteq> CHR ''_''" using v by (simp add: s last_rev)
  have "rev u = takeWhile (\<lambda>c. c = CHR ''_'') (rev u) @ v" by (simp add: v_def)
  then have "u = rev v @ rev (takeWhile (\<lambda>c. c = CHR ''_'') (rev u))" by (metis rev_append rev_rev_ident)
  then have "u \<noteq> []" "hd u = hd (rev v)" using v by (metis append_is_Nil_conv rev_is_Nil_conv, metis hd_append2 rev_is_Nil_conv)
  then show "hd (strip_underscores s) \<noteq> CHR ''_''" using hd_dropWhile [of "\<lambda>c. c = CHR ''_''" s] u_def s by auto
qed

lemma slug_text_clean: "slug_text s = [] \<or> clean_id (slug_text s)"
proof -
  have "set (slug_text s) \<subseteq> set (squeeze False (lower s))"
    unfolding slug_text_def strip_underscores_def by (metis set_dropWhileD set_rev subsetI)
  then have "list_all slug_ok (slug_text s)" using squeeze_ok [of False "lower s"] by (auto simp: list_all_iff)
  then show ?thesis using strip_underscores_ends [of "squeeze False (lower s)"] by (auto simp: clean_id_def slug_text_def)
qed

lemma slug_is_clean: "clean_id d \<Longrightarrow> clean_id (slug s d)"
  using slug_text_clean [of s] by (auto simp: slug_def str_or_def clean_id_def)

lemma digit_char: "m < 10 \<Longrightarrow> is_digit (char_of (48 + m))" for m :: nat
  by (simp add: is_digit_def code_def)

lemma nat_str_digits: "list_all is_digit (nat_str n) \<and> nat_str n \<noteq> []"
proof (induction n rule: nat_str.induct)
  case (1 n)
  then show ?case using digit_char [of n] digit_char [of "n mod 10"] by (subst (1 2) nat_str.simps) auto
qed

lemma digit_slug_ok: "is_digit c \<Longrightarrow> slug_ok c \<and> c \<noteq> CHR ''_''"
  by (auto simp: slug_ok_def is_digit_def Let_def code_def)

lemma slug_ok_underscore: "slug_ok CHR ''_''"
  by (simp add: slug_ok_def)

lemma clean_suffixed: "clean_id a \<Longrightarrow> clean_id (a @ ''_'' @ nat_str n)"
  using nat_str_digits [of n] by (auto simp: clean_id_def list_all_iff slug_ok_underscore digit_slug_ok dest: last_in_set)

lemma fresh_id_spec: "fresh_id i seen a \<notin> set seen" "clean_id a \<Longrightarrow> clean_id (fresh_id i seen a)"
proof -
  show "fresh_id i seen a \<notin> set seen" by (induction i seen a rule: fresh_id.induct) (subst fresh_id.simps, simp)
  show "clean_id a \<Longrightarrow> clean_id (fresh_id i seen a)"
    by (induction i seen a rule: fresh_id.induct) (subst fresh_id.simps, use clean_suffixed in auto)
qed

lemma fresh_id_new: "a \<notin> set seen \<Longrightarrow> fresh_id i seen a = a"
  by (subst fresh_id.simps) simp

subsection \<open>Agents after the pass\<close>

definition good_agent :: "string list \<Rightarrow> string list \<Rightarrow> obj \<Rightarrow> bool" where
  "good_agent resolvable justified a \<longleftrightarrow> (\<exists>i. get a ''id'' = Some (JStr i) \<and> clean_id i)
     \<and> get a ''type'' \<noteq> None \<and> get a ''name'' \<noteq> None \<and> get a ''description'' \<noteq> None
     \<and> (\<exists>ts. get a ''tools'' = Some (jstrs ts) \<and> set ts \<subseteq> set resolvable \<inter> set justified)"

definition good_pass :: "string list \<Rightarrow> string list \<Rightarrow> agent_pass \<Rightarrow> bool" where
  "good_pass resolvable justified st \<longleftrightarrow> set (ap_seen st) = set (map agent_id (ap_agents st)) \<and> distinct (map agent_id (ap_agents st))
     \<and> list_all (good_agent resolvable justified) (ap_agents st)"

lemma agent_id_Some: "get a ''id'' = Some (JStr i) \<Longrightarrow> agent_id a = i"
  by (simp add: agent_id_def jget_Some)

lemma clean_agent_default: "clean_id (''agent_'' @ nat_str n)"
proof -
  have "clean_id ''agent''" by code_simp
  from clean_suffixed [OF this, of n] show ?thesis by simp
qed

lemma normalize_agent_good:
  assumes "normalize_agent show resolvable justified prompt i a st = Some st'" "good_pass resolvable justified st"
  shows "good_pass resolvable justified st'"
proof -
  define j where "j = fresh_id i (ap_seen st) (slug (id_or_name show a) (''agent_'' @ nat_str (i + 1)))"
  have j: "j \<notin> set (ap_seen st)" "clean_id j" unfolding j_def by (rule fresh_id_spec, intro fresh_id_spec slug_is_clean clean_agent_default)
  define d where "d = setdefault ''description'' (JStr (take 240 prompt)) (setdefault ''name'' (JStr j) (setdefault ''type'' (JStr ''conversable'') (put ''id'' (JStr j) a)))"
  obtain ts where ts: "st' = \<lparr>ap_seen = j # ap_seen st,
      ap_dropped = ap_dropped st @ filter (\<lambda>t. t \<notin> set justified) (filter (\<lambda>t. t \<in> set resolvable) ts),
      ap_agents = ap_agents st @ [put ''tools'' (jstrs (filter (\<lambda>t. t \<in> set justified) (filter (\<lambda>t. t \<in> set resolvable) ts))) d]\<rparr>"
    using assms(1) unfolding normalize_agent_def j_def [symmetric] Let_def d_def [symmetric] by auto
  have i: "get (put ''tools'' v d) ''id'' = Some (JStr j)" for v by (simp add: d_def)
  have g: "good_agent resolvable justified (put ''tools'' (jstrs (filter (\<lambda>t. t \<in> set justified) (filter (\<lambda>t. t \<in> set resolvable) ts))) d)"
    unfolding good_agent_def using i j(2) by (auto simp: d_def)
  show ?thesis using assms(2) j(1) g agent_id_Some [OF i] by (simp add: good_pass_def ts)
qed

lemma normalize_agents_good:
  "normalize_agents show resolvable justified prompt i as st = Some st' \<Longrightarrow> good_pass resolvable justified st \<Longrightarrow> good_pass resolvable justified st'"
  by (induction as arbitrary: i st) (auto simp: bind_eq_Some_conv dest: normalize_agent_good)

lemma good_agents_again:
  assumes "list_all (good_agent resolvable justified) as" "distinct (map agent_id as)" "set (map agent_id as) \<inter> set (ap_seen st) = {}"
  shows "\<exists>seen. normalize_agents show resolvable justified prompt i as st = Some (st\<lparr>ap_seen := seen, ap_agents := ap_agents st @ as\<rparr>)"
  using assms
proof (induction as arbitrary: i st)
  case Nil
  show ?case by (rule exI [of _ "ap_seen st"]) simp
next
  case (Cons a as)
  obtain j ts ty nm de where a: "get a ''id'' = Some (JStr j)" "clean_id j" "get a ''type'' = Some ty" "get a ''name'' = Some nm" "get a ''description'' = Some de"
      "get a ''tools'' = Some (jstrs ts)" "set ts \<subseteq> set resolvable \<inter> set justified"
    using Cons.prems(1) by (auto simp: good_agent_def)
  have j: "agent_id a = j" using agent_id_Some [OF a(1)] .
  have "id_or_name show a = j" using a(1,2) by (simp add: id_or_name_def jget_Some json_or_def text_of_def clean_id_def)
  then have f: "fresh_id i (ap_seen st) (slug (id_or_name show a) (''agent_'' @ nat_str (i + 1))) = j"
    using a(2) j Cons.prems(3) by (simp add: slug_clean fresh_id_new)
  have w: "filter (\<lambda>t. t \<in> set resolvable \<and> t \<in> set justified) ts = ts" "filter (\<lambda>t. t \<in> set resolvable \<and> t \<notin> set justified) ts = []"
    using a(7) by (auto simp: filter_id_conv filter_empty_conv)
  have "normalize_agent show resolvable justified prompt i a st = Some (st\<lparr>ap_seen := j # ap_seen st, ap_agents := ap_agents st @ [a]\<rparr>)"
    unfolding normalize_agent_def f Let_def put_same [OF a(1)] setdefault_present [OF a(3)] setdefault_present [OF a(4)] setdefault_present [OF a(5)]
    by (simp add: jget_Some [OF a(6)] w put_same [OF a(6)])
  then show ?case using Cons.IH [of "st\<lparr>ap_seen := j # ap_seen st, ap_agents := ap_agents st @ [a]\<rparr>" "i + 1"] Cons.prems j by auto
qed

lemma take_clean:
  assumes "clean_id s" "take n s \<noteq> []"
  shows "clean_id (take n s @ ''_agent'')"
proof -
  have "list_all slug_ok (take n s)" using assms(1) by (auto simp: clean_id_def list_all_iff dest: in_set_takeD)
  moreover have "hd (take n s) \<noteq> CHR ''_''" using assms by (cases s; cases n) (auto simp: clean_id_def)
  moreover have "list_all slug_ok ''_agent''" by code_simp
  ultimately show ?thesis using assms(2) by (simp add: clean_id_def)
qed

lemma fallback_agent_good: "good_agent R J (fallback_agent prompt)"
proof -
  have "clean_id (base_id prompt @ ''_agent'')"
  proof (cases "take 40 (slug_text prompt) = []")
    case True
    then have b: "base_id prompt = ''custom_chatbot''" by (simp add: base_id_def str_or_def)
    show ?thesis unfolding b by code_simp
  next
    case False
    then have "base_id prompt = take 40 (slug_text prompt)" by (simp add: base_id_def str_or_def)
    then show ?thesis using False slug_text_clean [of prompt] take_clean [of "slug_text prompt" 40] by (cases "slug_text prompt = []") auto
  qed
  then show ?thesis by (auto simp: good_agent_def fallback_agent_def Let_def jstrs_def intro!: exI [of _ "[]"])
qed

subsection \<open>Nodes after the pass\<close>

lemma get_by_id: "get (map (\<lambda>a. (agent_id a, a)) agents) i = Some a \<Longrightarrow> a \<in> set agents \<and> agent_id a = i"
  by (induction agents) (auto split: if_splits)

lemma named_node_fields:
  "get (named_node n) ''id'' \<noteq> None" "get (named_node n) ''agent_id'' \<noteq> None"
  "jget (named_node n) ''id'' = (if get n ''id'' = None then jget n ''agent_id'' else jget n ''id'')"
  "jget (named_node n) ''agent_id'' = (if get n ''agent_id'' = None then jget n ''id'' else jget n ''agent_id'')"
  by (auto simp: named_node_def Let_def jget_setdefault jget_None)

lemma named_node_again: "get n ''id'' \<noteq> None \<Longrightarrow> get n ''agent_id'' \<noteq> None \<Longrightarrow> named_node n = n"
  by (auto simp: named_node_def setdefault_present)

lemma complete_node_cases: "complete_node show by_id n = named_node n \<or> (\<exists>v. complete_node show by_id n = put ''tools'' v (named_node n))"
  by (auto simp: complete_node_def Let_def split: option.split)

lemma complete_node_keep: "k \<noteq> ''tools'' \<Longrightarrow> get (complete_node show by_id n) k = get (named_node n) k \<and> jget (complete_node show by_id n) k = jget (named_node n) k"
  using complete_node_cases [of "show" by_id n] by auto

lemma complete_node_fields:
  "get (complete_node show by_id n) ''id'' \<noteq> None" "get (complete_node show by_id n) ''agent_id'' \<noteq> None"
  "jget (complete_node show by_id n) ''id'' = (if get n ''id'' = None then jget n ''agent_id'' else jget n ''id'')"
  "jget (complete_node show by_id n) ''agent_id'' = (if get n ''agent_id'' = None then jget n ''id'' else jget n ''agent_id'')"
proof -
  have k: "''id'' \<noteq> ''tools''" "''agent_id'' \<noteq> ''tools''" by simp_all
  show "get (complete_node show by_id n) ''id'' \<noteq> None" "get (complete_node show by_id n) ''agent_id'' \<noteq> None"
    "jget (complete_node show by_id n) ''id'' = (if get n ''id'' = None then jget n ''agent_id'' else jget n ''id'')"
    "jget (complete_node show by_id n) ''agent_id'' = (if get n ''agent_id'' = None then jget n ''id'' else jget n ''agent_id'')"
    unfolding conjunct1 [OF complete_node_keep [OF k(1)]] conjunct1 [OF complete_node_keep [OF k(2)]]
      conjunct2 [OF complete_node_keep [OF k(1)]] conjunct2 [OF complete_node_keep [OF k(2)]] by (rule named_node_fields)+
qed

lemma node_ref_complete: "node_ref show n \<noteq> show JNull \<Longrightarrow> node_ref show (complete_node show by_id n) = node_ref show n"
  by (auto simp: node_ref_def complete_node_fields json_or_def jget_None text_of_def split: if_splits)

lemma complete_node_again: "complete_node show by_id (complete_node show by_id n) = complete_node show by_id n"
proof -
  define m where "m = complete_node show by_id n"
  have nm: "named_node m = m" unfolding m_def by (intro named_node_again complete_node_fields)
  have a: "jget m ''agent_id'' = jget (named_node n) ''agent_id''" unfolding m_def complete_node_fields named_node_fields ..
  show ?thesis
  proof (cases "get by_id (text_of show (jget m ''agent_id''))")
    case None
    then show ?thesis unfolding m_def [symmetric] by (simp add: complete_node_def [of _ _ m] nm)
  next
    case (Some owner)
    have "\<not> (truthy (jget owner ''tools'') \<and> \<not> truthy (jget m ''tools''))"
      using Some [unfolded a] by (simp add: m_def complete_node_def Let_def)
    then show ?thesis unfolding m_def [symmetric] using Some by (simp only: complete_node_def [of _ _ m] nm Let_def option.case if_False)
  qed
qed

lemma node_ref_for: "agent_id a \<noteq> [] \<Longrightarrow> node_ref show (node_for a) = agent_id a"
  by (simp add: node_for_def node_ref_def jget_def get_default_def json_or_def text_of_def)

lemma cover_agents_ref:
  assumes "\<forall>a \<in> set agents. agent_id a \<noteq> []" "n \<in> set (cover_agents show agents nodes)"
  shows "node_ref show n \<in> set (map agent_id agents)"
  using assms by (auto simp: cover_agents_def Let_def node_ref_for)

lemma cover_agents_all:
  assumes "\<forall>a \<in> set agents. agent_id a \<noteq> []" "a \<in> set agents"
  shows "agent_id a \<in> node_ref show ` set (cover_agents show agents nodes)"
proof (cases "agent_id a \<in> node_ref show ` set (filter (\<lambda>n. node_ref show n \<in> set (map agent_id agents)) nodes)")
  case True
  then show ?thesis by (auto simp: cover_agents_def Let_def)
next
  case False
  then have "node_for a \<in> set (cover_agents show agents nodes)" using assms(2) by (auto simp: cover_agents_def Let_def)
  moreover have "node_ref show (node_for a) = agent_id a" using assms by (simp add: node_ref_for)
  ultimately show ?thesis by force
qed

lemma cover_agents_again:
  assumes "\<forall>n \<in> set nodes. node_ref show n \<in> set (map agent_id agents)" "\<forall>a \<in> set agents. agent_id a \<in> node_ref show ` set nodes"
  shows "cover_agents show agents nodes = nodes"
proof -
  have f: "filter (\<lambda>n. node_ref show n \<in> set (map agent_id agents)) nodes = nodes" using assms(1) by (simp add: filter_id_conv)
  show ?thesis unfolding cover_agents_def Let_def f using assms(2) by (simp add: filter_False)
qed

lemma entry_node_among: "nodes \<noteq> [] \<Longrightarrow> entry_node show topology workflow nodes \<in> (\<lambda>n. text_of show (jget n ''id'')) ` set nodes"
  by (cases nodes) (auto simp: entry_node_def Let_def)

lemma coerce_pattern_allowed: "coerce_pattern show v n \<in> set conversation_patterns"
proof -
  have "list_all (\<lambda>(k, m). m \<in> set conversation_patterns) pattern_synonyms" by code_simp
  then have "m \<in> set conversation_patterns" if "get pattern_synonyms k = Some m" for k m
    using map_of_SomeD [OF that] by (auto simp: list_all_iff)
  moreover have "''single'' \<in> set conversation_patterns" "''sequential'' \<in> set conversation_patterns" by code_simp+
  ultimately show ?thesis by (simp add: coerce_pattern_def Let_def split: option.split)
qed

lemma coerce_pattern_again: "m \<in> set conversation_patterns \<Longrightarrow> coerce_pattern show (JStr m) n = m"
proof -
  assume m: "m \<in> set conversation_patterns"
  have "list_all clean_id conversation_patterns" by code_simp
  then have "clean_id m" using m by (simp add: list_all_iff)
  then show ?thesis using m by (simp add: coerce_pattern_def Let_def json_or_def text_of_def slug_clean clean_id_def)
qed

subsection \<open>The workflow after the pass\<close>

definition agents_by_id :: "obj list \<Rightarrow> (string, obj) odict" where
  "agents_by_id agents = map (\<lambda>a. (agent_id a, a)) agents"

text \<open>Nodes and agents match, every node is complete, and the entry is the text of a node's id.\<close>

definition good_topology :: "(json \<Rightarrow> string) \<Rightarrow> obj list \<Rightarrow> string \<Rightarrow> obj \<Rightarrow> obj list \<Rightarrow> string \<Rightarrow> bool" where
  "good_topology show agents m topo nodes e \<longleftrightarrow> get topo ''nodes'' = Some (JList (map JObj nodes)) \<and> get topo ''entry_node'' = Some (JStr e)
     \<and> get topo ''edges'' \<noteq> None \<and> get topo ''type'' = Some (JStr (plan_topology_type m))
     \<and> node_ref show ` set nodes = set (map agent_id agents) \<and> e \<in> (\<lambda>n. text_of show (jget n ''id'')) ` set nodes
     \<and> map (complete_node show (agents_by_id agents)) nodes = nodes"

definition good_workflow :: "(json \<Rightarrow> string) \<Rightarrow> obj list \<Rightarrow> obj \<Rightarrow> string \<Rightarrow> bool" where
  "good_workflow show agents w e \<longleftrightarrow> (\<exists>i. get w ''id'' = Some (JStr i)) \<and> list_all (\<lambda>k. get w k \<noteq> None) [''name'', ''description'', ''enabled'', ''workflow_type'', ''memory'']
     \<and> (\<exists>md. get w ''metadata'' = Some (JObj md) \<and> get md ''builder_prompt'' \<noteq> None)
     \<and> (\<exists>m topo nodes. get w ''pattern'' = Some (JStr m) \<and> m \<in> set conversation_patterns \<and> get w ''topology'' = Some (JObj topo)
          \<and> good_topology show agents m topo nodes e \<and> get w ''entry_agent_id'' = Some (JStr (entry_agent show (map agent_id agents) nodes e)))"

lemma workflow_head_fields:
  assumes "workflow_head show prompt w0 = Some w"
  shows "\<exists>i. get w ''id'' = Some (JStr i)" "list_all (\<lambda>k. get w k \<noteq> None) [''name'', ''description'', ''enabled'', ''workflow_type'']"
  using assms by (auto simp: workflow_head_def Let_def jget_def get_default_def split: json.splits option.splits)

lemma workflow_head_again:
  assumes "get w ''id'' = Some (JStr i)" "list_all (\<lambda>k. get w k \<noteq> None) [''name'', ''description'', ''enabled'', ''workflow_type'']"
  shows "workflow_head show prompt w = Some w"
  using assms by (auto simp: workflow_head_def Let_def setdefault_present jget_Some)

lemma good_nodes:
  fixes nodes0 :: "obj list"
  assumes n: "show JNull = ''None''" and a: "list_all (\<lambda>a. clean_id (agent_id a)) agents" "agents \<noteq> []"
  defines "nodes \<equiv> map (complete_node show (agents_by_id agents)) (cover_agents show agents nodes0)"
  shows "node_ref show ` set nodes = set (map agent_id agents)" "map (complete_node show (agents_by_id agents)) nodes = nodes" "nodes \<noteq> []"
proof -
  have ne: "\<forall>a \<in> set agents. agent_id a \<noteq> []" using a(1) by (auto simp: list_all_iff clean_id_def)
  have "\<not> clean_id ''None''" by code_simp
  then have "node_ref show n \<noteq> show JNull" if "n \<in> set (cover_agents show agents nodes0)" for n
    using cover_agents_ref [OF ne that] a(1) n by (auto simp: list_all_iff)
  then have r: "node_ref show ` set nodes = node_ref show ` set (cover_agents show agents nodes0)"
    unfolding nodes_def by (force simp: node_ref_complete image_image)
  have all: "set (map agent_id agents) \<subseteq> node_ref show ` set (cover_agents show agents nodes0)" using cover_agents_all [OF ne] by auto
  then show "node_ref show ` set nodes = set (map agent_id agents)" using cover_agents_ref [OF ne] unfolding r by blast
  show "nodes \<noteq> []" using all a(2) by (auto simp: nodes_def)
  show "map (complete_node show (agents_by_id agents)) nodes = nodes" unfolding nodes_def by (simp add: complete_node_again)
qed

lemma normalize_workflow_good:
  assumes "normalize_workflow show prompt agents w0 = Some w" "show JNull = ''None''" "list_all (\<lambda>a. clean_id (agent_id a)) agents" "agents \<noteq> []"
  shows "\<exists>e. good_workflow show agents w e"
proof -
  obtain wh topology nodes0 metadata where h: "workflow_head show prompt w0 = Some wh" "dict_of (jget wh ''topology'') = Some topology"
      "objs_of (jget topology ''nodes'') = Some nodes0" "dict_of (jget wh ''metadata'') = Some metadata"
    using assms(1) unfolding normalize_workflow_def by (auto simp: bind_eq_Some_conv)
  define nodes where "nodes = map (complete_node show (agents_by_id agents)) (cover_agents show agents nodes0)"
  define e where "e = entry_node show topology wh nodes"
  define m where "m = coerce_pattern show (jget wh ''pattern'') (length nodes)"
  define topo where "topo = put ''type'' (JStr (plan_topology_type m)) (setdefault ''edges'' (JList [])
      (put ''entry_node'' (JStr e) (put ''nodes'' (JList (map JObj nodes)) topology)))"
  have w: "w = put ''metadata'' (JObj (setdefault ''builder_prompt'' (JStr prompt) metadata)) (setdefault ''memory'' workflow_memory
      (put ''entry_agent_id'' (JStr (entry_agent show (map agent_id agents) nodes e)) (put ''topology'' (JObj topo) (put ''pattern'' (JStr m) wh))))"
    using assms(1) unfolding normalize_workflow_def h Option.bind.simps bind.simps Let_def agents_by_id_def [symmetric] nodes_def [symmetric]
      e_def [symmetric] m_def [symmetric] topo_def [symmetric] by simp
  note g = good_nodes [of "show" agents nodes0, OF assms(2-4), folded nodes_def]
  have t: "good_topology show agents m topo nodes e"
    unfolding good_topology_def using g entry_node_among [OF g(3)] by (simp add: topo_def e_def)
  have pt: "get w ''pattern'' = Some (JStr m)" "m \<in> set conversation_patterns" "get w ''topology'' = Some (JObj topo)"
      "get w ''entry_agent_id'' = Some (JStr (entry_agent show (map agent_id agents) nodes e))"
    by (simp_all add: w) (simp only: m_def coerce_pattern_allowed)
  have "get w ''metadata'' = Some (JObj (setdefault ''builder_prompt'' (JStr prompt) metadata))" by (simp add: w)
  then have md: "\<exists>md. get w ''metadata'' = Some (JObj md) \<and> get md ''builder_prompt'' \<noteq> None" by simp
  have hd: "\<exists>i. get w ''id'' = Some (JStr i)" "list_all (\<lambda>k. get w k \<noteq> None) [''name'', ''description'', ''enabled'', ''workflow_type'', ''memory'']"
    using workflow_head_fields [OF h(1)] by (auto simp: w)
  have "good_workflow show agents w e" unfolding good_workflow_def using hd md pt t by blast
  then show ?thesis ..
qed

lemma normalize_workflow_again:
  assumes g: "good_workflow show agents w e" and e: "e \<noteq> []"
  shows "normalize_workflow show prompt agents w = Some w"
proof -
  obtain i md m topo nodes where w: "get w ''id'' = Some (JStr i)" "get w ''metadata'' = Some (JObj md)" "get md ''builder_prompt'' \<noteq> None"
      "get w ''pattern'' = Some (JStr m)" "m \<in> set conversation_patterns" "get w ''topology'' = Some (JObj topo)"
      "get w ''entry_agent_id'' = Some (JStr (entry_agent show (map agent_id agents) nodes e))" and t: "good_topology show agents m topo nodes e"
    and l: "list_all (\<lambda>k. get w k \<noteq> None) [''name'', ''description'', ''enabled'', ''workflow_type'', ''memory'']"
    using g unfolding good_workflow_def by blast
  have h: "workflow_head show prompt w = Some w" by (rule workflow_head_again [OF w(1)]) (use l in simp)
  have nodes: "cover_agents show agents nodes = nodes" by (rule cover_agents_again) (use t in \<open>auto simp: good_topology_def\<close>)
  have en: "entry_node show topo w nodes = e"
    using t e by (auto simp: good_topology_def entry_node_def Let_def jget_Some json_or_def text_of_def)
  have pat: "coerce_pattern show (jget w ''pattern'') n = m" for n using w(4,5) by (simp add: jget_Some coerce_pattern_again)
  have d: "dict_of (jget w ''topology'') = Some topo" "objs_of (jget topo ''nodes'') = Some nodes" "dict_of (jget w ''metadata'') = Some md"
    using w(2,3,6) t by (auto simp: good_topology_def jget_Some intro!: dict_of_obj)
  have tp: "put ''nodes'' (JList (map JObj nodes)) topo = topo" "put ''entry_node'' (JStr e) topo = topo" "setdefault ''edges'' v topo = topo"
      "put ''type'' (JStr (plan_topology_type m)) topo = topo" for v
    using t by (auto simp: good_topology_def put_same setdefault_present)
  have cn: "map (complete_node show (map (\<lambda>a. (agent_id a, a)) agents)) nodes = nodes" using t by (simp add: good_topology_def agents_by_id_def)
  have wp: "put ''pattern'' (JStr m) w = w" "put ''topology'' (JObj topo) w = w"
      "put ''entry_agent_id'' (JStr (entry_agent show (map agent_id agents) nodes e)) w = w" "setdefault ''memory'' workflow_memory w = w"
      "setdefault ''builder_prompt'' (JStr prompt) md = md" "put ''metadata'' (JObj md) w = w"
    using w l by (auto simp: put_same setdefault_present)
  show ?thesis unfolding normalize_workflow_def h d bind.simps Let_def nodes cn en pat tp wp ..
qed

subsection \<open>The plan after the pass\<close>

text \<open>The plan of a repair: agents with distinct clean ids whose tools exist and are justified, and a workflow whose nodes
  and agents match and that starts at one of its nodes, with the entry \<open>e\<close>.\<close>

definition good_plan :: "(json \<Rightarrow> string) \<Rightarrow> string list \<Rightarrow> obj \<Rightarrow> string \<Rightarrow> bool" where
  "good_plan show known p e \<longleftrightarrow> (\<exists>agents tools w. get p ''agents'' = Some (JList (map JObj agents)) \<and> agents \<noteq> [] \<and> distinct (map agent_id agents)
     \<and> objs_of (jget p ''tools'') = Some tools
     \<and> list_all (good_agent (known @ planned_tool_ids show tools) (justified_tools (jget p ''tool_rationale'') @ planned_tool_ids show tools)) agents
     \<and> get p ''workflow'' = Some (JObj w) \<and> good_workflow show agents w e
     \<and> list_all (\<lambda>k. get p k \<noteq> None) [''tools'', ''functions'', ''triggers'', ''missing_secrets''])"

definition plan_entry :: "obj \<Rightarrow> string" where
  "plan_entry p = (case jget p ''workflow'' of JObj w \<Rightarrow> (case jget w ''topology'' of JObj topo \<Rightarrow>
      (case jget topo ''entry_node'' of JStr e \<Rightarrow> e | _ \<Rightarrow> []) | _ \<Rightarrow> []) | _ \<Rightarrow> [])"

lemma good_plan_entry: "good_plan show known p e \<Longrightarrow> plan_entry p = e"
  by (auto simp: good_plan_def good_workflow_def good_topology_def plan_entry_def jget_Some)

lemma good_agent_clean: "good_agent R J a \<Longrightarrow> clean_id (agent_id a)"
  by (auto simp: good_agent_def agent_id_def jget_Some)

lemma objs_of_null: "objs_of JNull = Some []"
  by (simp add: objs_of_def items_of_def map_filter_simps)

lemma normalized_plan_good:
  assumes "normalize_plan show known plan prompt = Some p" "show JNull = ''None''"
  shows "\<exists>e. good_plan show known p e"
proof -
  obtain agents0 tools where 1: "objs_of (jget plan ''agents'') = Some agents0" "objs_of (jget plan ''tools'') = Some tools"
    using assms(1) unfolding normalize_plan_def by (auto simp: bind_eq_Some_conv)
  define R where "R = known @ planned_tool_ids show tools"
  define J where "J = justified_tools (jget plan ''tool_rationale'') @ planned_tool_ids show tools"
  obtain st where st: "normalize_agents show R J prompt 0 agents0 \<lparr>ap_seen = [], ap_dropped = [], ap_agents = []\<rparr> = Some st"
    using assms(1) unfolding normalize_plan_def 1 bind.simps Let_def R_def [symmetric] J_def [symmetric] by (auto simp: bind_eq_Some_conv)
  define agents where "agents = (if ap_agents st = [] then [fallback_agent prompt] else ap_agents st)"
  obtain w0 w where w: "normalize_workflow show prompt agents w0 = Some w" and p: "p = (let plan2 = setdefault ''missing_secrets'' (JList [])
        (setdefault ''triggers'' (JList []) (setdefault ''functions'' (JList []) (setdefault ''tools'' (JList [])
          (put ''workflow'' (JObj w) (put ''agents'' (JList (map JObj agents)) plan)))))
      in if ap_dropped st = [] then plan2 else put ''dropped_tools'' (jstrs (sort_strings (remdups (ap_dropped st)))) plan2)"
    using assms(1) unfolding normalize_plan_def 1 bind.simps Let_def R_def [symmetric] J_def [symmetric] st agents_def [symmetric]
    by (auto simp: bind_eq_Some_conv)
  have "good_pass R J \<lparr>ap_seen = [], ap_dropped = [], ap_agents = []\<rparr>" by (simp add: good_pass_def)
  then have gp: "good_pass R J st" by (rule normalize_agents_good [OF st])
  have ga: "list_all (good_agent R J) agents" "distinct (map agent_id agents)" "agents \<noteq> []"
    using gp fallback_agent_good [of R J prompt] by (auto simp: agents_def good_pass_def)
  have "list_all (\<lambda>a. clean_id (agent_id a)) agents" using ga(1) good_agent_clean by (auto simp: list_all_iff)
  then obtain e where gw: "good_workflow show agents w e" using normalize_workflow_good [OF w assms(2) _ ga(3)] by blast
  have f: "get p ''agents'' = Some (JList (map JObj agents))" "get p ''workflow'' = Some (JObj w)" "jget p ''tool_rationale'' = jget plan ''tool_rationale''"
      "list_all (\<lambda>k. get p k \<noteq> None) [''tools'', ''functions'', ''triggers'', ''missing_secrets'']"
      "jget p ''tools'' = (if get plan ''tools'' = None then JList [] else jget plan ''tools'')"
    unfolding p Let_def by (simp_all add: jget_setdefault)
  have "objs_of (jget p ''tools'') = Some tools" using 1(2) objs_of_null objs_of_list [of "[]"] unfolding f(5) by (auto simp: jget_None)
  then show ?thesis unfolding good_plan_def using f(1-4) ga gw R_def J_def by (intro exI [of _ e] exI [of _ agents] exI [of _ tools] exI [of _ w]) simp
qed

lemma good_plan_again:
  assumes "good_plan show known p e" "e \<noteq> []"
  shows "normalize_plan show known p prompt = Some p"
proof -
  obtain agents tools w where p: "get p ''agents'' = Some (JList (map JObj agents))" "agents \<noteq> []" "distinct (map agent_id agents)"
      "objs_of (jget p ''tools'') = Some tools"
      "list_all (good_agent (known @ planned_tool_ids show tools) (justified_tools (jget p ''tool_rationale'') @ planned_tool_ids show tools)) agents"
      "get p ''workflow'' = Some (JObj w)" "good_workflow show agents w e"
    and l: "list_all (\<lambda>k. get p k \<noteq> None) [''tools'', ''functions'', ''triggers'', ''missing_secrets'']"
    using assms(1) unfolding good_plan_def by blast
  define st0 :: agent_pass where "st0 = \<lparr>ap_seen = [], ap_dropped = [], ap_agents = []\<rparr>"
  obtain seen where st: "normalize_agents show (known @ planned_tool_ids show tools) (justified_tools (jget p ''tool_rationale'') @ planned_tool_ids show tools)
      prompt 0 agents st0 = Some \<lparr>ap_seen = seen, ap_dropped = [], ap_agents = agents\<rparr>"
    using good_agents_again [OF p(5,3), of st0 "show" prompt 0] by (auto simp: st0_def)
  have a0: "objs_of (jget p ''agents'') = Some agents" using p(1) by (simp add: jget_Some)
  have pa: "put ''agents'' (JList (map JObj agents)) p = p" "put ''workflow'' (JObj w) p = p" using p by (simp_all add: put_same)
  have "w \<noteq> []" using p(7) by (auto simp: good_workflow_def)
  then have dw: "dict_of (jget p ''workflow'') = Some w" using p(6) by (simp add: jget_Some dict_of_obj)
  have sd: "setdefault ''tools'' (JList []) p = p" "setdefault ''functions'' (JList []) p = p" "setdefault ''triggers'' (JList []) p = p"
      "setdefault ''missing_secrets'' (JList []) p = p"
    using l by (auto simp: setdefault_present)
  show ?thesis
    unfolding normalize_plan_def a0 p(4) bind.simps Let_def st0_def [symmetric] st agent_pass.simps if_not_P [OF p(2)] pa dw
      normalize_workflow_again [OF p(7) assms(2)] sd by simp
qed

definition plain_show :: "json \<Rightarrow> string" where
  "plain_show v = (case v of JNull \<Rightarrow> ''None'' | _ \<Rightarrow> ''?'')"

text \<open>Two agents whose ids have spaces, a tool without a reason, and a topology that names no agent.\<close>

definition loose_plan :: obj where
  "loose_plan = [(''agents'', JList [JObj [(''id'', JStr ''Help Desk''), (''tools'', JList [JStr ''web_search'', JStr ''calculate''])],
       JObj [(''name'', JStr ''Help desk'')]]),
     (''tool_rationale'', JObj [(''web_search'', JStr ''needs current data'')]),
     (''workflow'', JObj [(''name'', JStr ''Support''), (''pattern'', JStr ''Pipeline''),
       (''topology'', JObj [(''nodes'', JList [JObj [(''id'', JStr ''x''), (''agent_id'', JStr ''nobody'')]]), (''entry_node'', JStr ''x'')])])]"

definition repaired_plan :: obj where
  "repaired_plan = the (normalize_plan plain_show [''web_search'', ''calculate''] loose_plan ''p'')"

lemma repaired_plan: "normalize_plan plain_show [''web_search'', ''calculate''] loose_plan ''p'' = Some repaired_plan"
  by code_simp

lemma plain_show_null: "plain_show JNull = ''None''"
  by (simp add: plain_show_def)





subsection \<open>What the repair does not repair\<close>

text \<open>The patterns that the request model of a new workflow admits are those of another enumeration.\<close>

definition api_patterns :: "string list" where
  "api_patterns = [''selector'', ''sequential'', ''parallel'', ''loop'', ''single'', ''two_agent'']"

theorem pattern_kept_but_refused:
  "coerce_pattern show (JStr ''group_chat'') 2 = ''group_chat''" "''group_chat'' \<notin> set api_patterns"
  "coerce_pattern show (JStr ''loop'') 2 = ''sequential''"
  by code_simp+

text \<open>A tool the plan defines is compared by its slug, and registered by its id; a node whose agent id is not a slug is dropped,
  its edges are not; the entry agent is not the agent of the entry node when an agent has that node's name.\<close>

theorem slugs_not_carried_over:
  "map_option (\<lambda>p. (jget p ''agents'', jget p ''tools'')) (normalize_plan plain_show []
     [(''agents'', JList [JObj [(''id'', JStr ''a''), (''type'', JStr ''t''), (''name'', JStr ''A''), (''description'', JStr ''d''), (''tools'', JList [JStr ''crm_lookup'', JStr ''CRM lookup''])]]),
      (''tools'', JList [JObj [(''id'', JStr ''CRM lookup'')]])] ''p'')
   = Some (JList [JObj [(''id'', JStr ''a''), (''type'', JStr ''t''), (''name'', JStr ''A''), (''description'', JStr ''d''), (''tools'', JList [JStr ''crm_lookup''])]],
           JList [JObj [(''id'', JStr ''CRM lookup'')]])"
  "map (node_ref plain_show) (cover_agents plain_show [[(''id'', JStr ''help_desk'')]] [[(''id'', JStr ''n1''), (''agent_id'', JStr ''Help Desk'')]]) = [''help_desk'']"
  "entry_agent plain_show [''a'', ''b''] [[(''id'', JStr ''a''), (''agent_id'', JStr ''b'')]] ''a'' = ''a''"
  by code_simp+

end
