(* ===== verification/Config_Api.thy ===== *)
theory Config_Api
  imports Dependencies Plan_Builder
begin

text \<open>
  The handlers that create, change and delete agents, tools and workflows, \<open>src/src/api/routers/agents.py\<close>,
  \<open>tools.py\<close> and \<open>workflows.py\<close>, over the JSON documents of the three configuration files.  Every handler that
  writes replaces the file and the configuration loader's copy of it; the dependency validator reads agents and workflows
  from the files, but tools through a loader of its own, which keeps the first list it has loaded
  (\<open>ConfigurationLoader.load_tools\<close> of \<open>src/src/config/loader.py\<close>).  How the configuration and response models
  read a document is a parameter.  Entries have an id; the files exist and can be read and written.
\<close>

subsection \<open>State\<close>

record parsers =
  ps_tool :: "obj \<Rightarrow> tool option"
  ps_agent :: "obj \<Rightarrow> agent option"
  ps_workflow :: "obj \<Rightarrow> workflow option"
  ps_agent_response :: "obj \<Rightarrow> bool"
  ps_tool_response :: "obj \<Rightarrow> bool"
  ps_workflow_response :: "obj \<Rightarrow> bool"

record api_store =
  as_agents :: "obj list"
  as_tools :: "obj list"
  as_workflows :: "obj list"
  as_cached_tools :: "tool list option"

definition entry_id :: "obj \<Rightarrow> string" where
  "entry_id d = (case jget d ''id'' of JStr s \<Rightarrow> s | _ \<Rightarrow> [])"

fun parse_all :: "(obj \<Rightarrow> 'a option) \<Rightarrow> obj list \<Rightarrow> 'a list option" where
  "parse_all f [] = Some []"
| "parse_all f (d # ds) = (case f d of None \<Rightarrow> None | Some x \<Rightarrow> map_option ((#) x) (parse_all f ds))"

definition parse_file :: "(obj \<Rightarrow> 'a option) \<Rightarrow> obj list \<Rightarrow> 'a list file_state" where
  "parse_file f ds = (case parse_all f ds of None \<Rightarrow> Refused ''invalid configuration'' | Some xs \<Rightarrow> Loaded xs)"

definition parse_agents :: "parsers \<Rightarrow> obj list \<Rightarrow> agent list file_state" where
  "parse_agents p ds = (case parse_file (ps_agent p) ds of
      Loaded as \<Rightarrow> if distinct (map ag_id as) then Loaded as else Refused ''duplicate agent ids'' | r \<Rightarrow> r)"

text \<open>\<open>load_tools\<close>: the kept list, or the file, whose entrypoints are checked too.\<close>

definition file_tools :: "parsers \<Rightarrow> obj list \<Rightarrow> string + tool list" where
  "file_tools p ds = (case parse_all (ps_tool p) ds of None \<Rightarrow> Inl ''invalid configuration''
     | Some ts \<Rightarrow> if validate_all_tools ts then Inr ts else Inl ''invalid entrypoint'')"

definition load_tools :: "parsers \<Rightarrow> api_store \<Rightarrow> string + tool list" where
  "load_tools p st = (case as_cached_tools st of Some ts \<Rightarrow> Inr ts | None \<Rightarrow> file_tools p (as_tools st))"

definition files :: "parsers \<Rightarrow> api_store \<Rightarrow> config_files" where
  "files p st = \<lparr>cf_tools = load_tools p st, cf_agents = parse_agents p (as_agents st),
     cf_workflows = parse_file (ps_workflow p) (as_workflows st)\<rparr>"

text \<open>After a check of a non-empty list of tools, the list that was loaded is kept.\<close>

definition keep_tools :: "parsers \<Rightarrow> string list \<Rightarrow> api_store \<Rightarrow> api_store" where
  "keep_tools p ts st = (case load_tools p st of Inr loaded \<Rightarrow> if ts = [] then st else st\<lparr>as_cached_tools := Some loaded\<rparr> | Inl _ \<Rightarrow> st)"

subsection \<open>Answers\<close>

datatype api_error = Already_exists string | Not_found string | Dependency dependency_error | Needs_instructions | Server_error string

text \<open>A dependency error is the client's; a file the validator cannot load is the server's.\<close>

definition dependency_answer :: "dependency_error \<Rightarrow> api_error" where
  "dependency_answer e = (case e of Not_loaded m \<Rightarrow> Server_error m | _ \<Rightarrow> Dependency e)"

type_synonym 'a answer = "api_store \<times> (api_error + 'a)"

definition respond :: "(obj \<Rightarrow> bool) \<Rightarrow> obj \<Rightarrow> api_error + obj" where
  "respond ok d = (if ok d then Inr d else Inl (Server_error ''invalid response''))"

definition list_entries :: "(obj \<Rightarrow> bool) \<Rightarrow> obj list \<Rightarrow> api_error + obj list" where
  "list_entries ok ds = (if list_all ok ds then Inr ds else Inl (Server_error ''invalid response''))"

definition find_entry :: "string \<Rightarrow> obj list \<Rightarrow> obj option" where
  "find_entry i ds = List.find (\<lambda>d. entry_id d = i) ds"

definition get_entry :: "(obj \<Rightarrow> bool) \<Rightarrow> obj list \<Rightarrow> string \<Rightarrow> api_error + obj" where
  "get_entry ok ds i = (case find_entry i ds of None \<Rightarrow> Inl (Not_found i) | Some d \<Rightarrow> respond ok d)"

definition list_agents :: "parsers \<Rightarrow> api_store \<Rightarrow> api_error + obj list" where
  "list_agents p st = list_entries (ps_agent_response p) (as_agents st)"

definition get_api_agent :: "parsers \<Rightarrow> string \<Rightarrow> api_store \<Rightarrow> api_error + obj" where
  "get_api_agent p i st = get_entry (ps_agent_response p) (as_agents st) i"

definition list_api_tools :: "parsers \<Rightarrow> api_store \<Rightarrow> api_error + obj list" where
  "list_api_tools p st = list_entries (ps_tool_response p) (as_tools st)"

definition get_api_tool :: "parsers \<Rightarrow> string \<Rightarrow> api_store \<Rightarrow> api_error + obj" where
  "get_api_tool p i st = get_entry (ps_tool_response p) (as_tools st) i"

definition list_api_workflows :: "parsers \<Rightarrow> api_store \<Rightarrow> api_error + obj list" where
  "list_api_workflows p st = list_entries (ps_workflow_response p) (as_workflows st)"

definition get_api_workflow :: "parsers \<Rightarrow> string \<Rightarrow> api_store \<Rightarrow> api_error + obj" where
  "get_api_workflow p i st = get_entry (ps_workflow_response p) (as_workflows st) i"

text \<open>Writing the merged entry back at the index of the first one with the id.\<close>

fun replace_entry :: "string \<Rightarrow> obj \<Rightarrow> obj list \<Rightarrow> obj list" where
  "replace_entry i d [] = []"
| "replace_entry i d (e # es) = (if entry_id e = i then d # es else e # replace_entry i d es)"

definition without_entry :: "string \<Rightarrow> obj list \<Rightarrow> obj list" where
  "without_entry i ds = filter (\<lambda>d. entry_id d \<noteq> i) ds"

subsection \<open>Agents\<close>

definition placeholder_instructions :: "string list" where
  "placeholder_instructions = [''you are a helpful ai assistant.'', ''you are a helpful assistant.'']"

definition has_instructions :: "json \<Rightarrow> bool" where
  "has_instructions v = (case v of JStr s \<Rightarrow> strip s \<noteq> [] \<and> lower (strip s) \<notin> set placeholder_instructions | _ \<Rightarrow> False)"

text \<open>The tools of a request, a list of strings; null is no list.\<close>

definition request_tools :: "obj \<Rightarrow> string list" where
  "request_tools d = (case jget d ''tools'' of JList xs \<Rightarrow> strings_in xs | _ \<Rightarrow> [])"

definition create_api_agent :: "parsers \<Rightarrow> obj \<Rightarrow> api_store \<Rightarrow> obj answer" where
  "create_api_agent p d st =
     (if \<not> has_instructions (jget d ''system_message'') then (st, Inl Needs_instructions)
      else if entry_id d \<in> entry_id ` set (as_agents st) then (st, Inl (Already_exists (entry_id d)))
      else case validate_agent_tool_references (files p st) (entry_id d) (request_tools d) of
        Some e \<Rightarrow> (keep_tools p (request_tools d) st, Inl (dependency_answer e))
      | None \<Rightarrow> ((keep_tools p (request_tools d) st)\<lparr>as_agents := as_agents st @ [d]\<rparr>, respond (ps_agent_response p) d))"

definition update_agent :: "parsers \<Rightarrow> string \<Rightarrow> obj \<Rightarrow> api_store \<Rightarrow> obj answer" where
  "update_agent p i u st = (case find_entry i (as_agents st) of
      None \<Rightarrow> (st, Inl (Not_found i))
    | Some d \<Rightarrow>
        if get u ''system_message'' \<noteq> None \<and> \<not> has_instructions (jget u ''system_message'') then (st, Inl Needs_instructions)
        else case (if get u ''tools'' \<noteq> None then validate_agent_tool_references (files p st) i (request_tools u) else None) of
          Some e \<Rightarrow> (keep_tools p (request_tools u) st, Inl (dependency_answer e))
        | None \<Rightarrow> ((keep_tools p (request_tools u) st)\<lparr>as_agents := replace_entry i (merge d u) (as_agents st)\<rparr>,
            respond (ps_agent_response p) (merge d u)))"

definition delete_agent :: "parsers \<Rightarrow> string \<Rightarrow> api_store \<Rightarrow> unit answer" where
  "delete_agent p i st = (if find_entry i (as_agents st) = None then (st, Inl (Not_found i))
     else case validate_agent_deletion (files p st) i of
       Some e \<Rightarrow> (st, Inl (dependency_answer e))
     | None \<Rightarrow> (st\<lparr>as_agents := without_entry i (as_agents st)\<rparr>, Inr ()))"

subsection \<open>Tools\<close>

text \<open>The request of \<open>register_new_tool\<close> has been validated as a tool; that of \<open>update_tool\<close> is merged as it is.  The
  run-time registry, whose failures are only logged, is left out here.\<close>

definition register_new_tool :: "parsers \<Rightarrow> obj \<Rightarrow> api_store \<Rightarrow> obj answer" where
  "register_new_tool p d st = (if entry_id d \<in> entry_id ` set (as_tools st) then (st, Inl (Already_exists (entry_id d)))
     else (st\<lparr>as_tools := as_tools st @ [d]\<rparr>, respond (ps_tool_response p) d))"

definition update_tool :: "parsers \<Rightarrow> string \<Rightarrow> obj \<Rightarrow> api_store \<Rightarrow> obj answer" where
  "update_tool p i u st = (case find_entry i (as_tools st) of
      None \<Rightarrow> (st, Inl (Not_found i))
    | Some d \<Rightarrow> (st\<lparr>as_tools := replace_entry i (merge d u) (as_tools st)\<rparr>, respond (ps_tool_response p) (merge d u)))"

definition delete_tool :: "parsers \<Rightarrow> string \<Rightarrow> api_store \<Rightarrow> unit answer" where
  "delete_tool p i st = (if find_entry i (as_tools st) = None then (st, Inl (Not_found i))
     else case validate_tool_deletion (files p st) i of
       Some e \<Rightarrow> (st, Inl (dependency_answer e))
     | None \<Rightarrow> (st\<lparr>as_tools := without_entry i (as_tools st)\<rparr>, Inr ()))"

subsection \<open>Workflows\<close>

definition checked_workflow :: "parsers \<Rightarrow> api_store \<Rightarrow> string \<Rightarrow> obj \<Rightarrow> api_error option" where
  "checked_workflow p st i d = (case ps_workflow p d of None \<Rightarrow> Some (Server_error ''invalid workflow'')
     | Some w \<Rightarrow> map_option dependency_answer (validate_workflow_agent_references (files p st) i (get_all_agent_ids w)))"

definition create_workflow :: "parsers \<Rightarrow> obj \<Rightarrow> api_store \<Rightarrow> obj answer" where
  "create_workflow p d st = (if entry_id d \<in> entry_id ` set (as_workflows st) then (st, Inl (Already_exists (entry_id d)))
     else case checked_workflow p st (entry_id d) d of Some e \<Rightarrow> (st, Inl e)
     | None \<Rightarrow> (st\<lparr>as_workflows := as_workflows st @ [d]\<rparr>, respond (ps_workflow_response p) d))"

definition update_api_workflow :: "parsers \<Rightarrow> string \<Rightarrow> obj \<Rightarrow> api_store \<Rightarrow> obj answer" where
  "update_api_workflow p i u st = (case find_entry i (as_workflows st) of
      None \<Rightarrow> (st, Inl (Not_found i))
    | Some d \<Rightarrow> (case checked_workflow p st i (merge d u) of Some e \<Rightarrow> (st, Inl e)
        | None \<Rightarrow> (st\<lparr>as_workflows := replace_entry i (merge d u) (as_workflows st)\<rparr>, respond (ps_workflow_response p) (merge d u))))"

definition delete_workflow :: "parsers \<Rightarrow> string \<Rightarrow> api_store \<Rightarrow> unit answer" where
  "delete_workflow p i st = (if without_entry i (as_workflows st) = as_workflows st then (st, Inl (Not_found i))
     else (st\<lparr>as_workflows := without_entry i (as_workflows st)\<rparr>, Inr ()))"

subsection \<open>Requests\<close>

text \<open>Update requests carry only the fields of their model that were given, so no id.\<close>

datatype api_request = Create_agent obj | Update_agent string obj | Delete_agent string
  | Register_tool obj | Update_tool string obj | Delete_tool string
  | Create_workflow obj | Update_workflow string obj | Delete_workflow string

fun handle :: "parsers \<Rightarrow> api_request \<Rightarrow> api_store \<Rightarrow> api_store" where
  "handle p (Create_agent d) st = fst (create_api_agent p d st)"
| "handle p (Update_agent i u) st = fst (update_agent p i u st)"
| "handle p (Delete_agent i) st = fst (delete_agent p i st)"
| "handle p (Register_tool d) st = fst (register_new_tool p d st)"
| "handle p (Update_tool i u) st = fst (update_tool p i u st)"
| "handle p (Delete_tool i) st = fst (delete_tool p i st)"
| "handle p (Create_workflow d) st = fst (create_workflow p d st)"
| "handle p (Update_workflow i u) st = fst (update_api_workflow p i u st)"
| "handle p (Delete_workflow i) st = fst (delete_workflow p i st)"

subsection \<open>Documents\<close>

lemma parse_all_map: "parse_all f ds = (if \<forall>d \<in> set ds. f d \<noteq> None then Some (map (the \<circ> f) ds) else None)"
  by (induction ds) (auto split: option.split)

text \<open>The configuration models read the id and the tools of a document as they are.\<close>

definition readers :: "parsers \<Rightarrow> bool" where
  "readers p \<longleftrightarrow> (\<forall>d x. ps_tool p d = Some x \<longrightarrow> tl_id x = entry_id d)
     \<and> (\<forall>d x. ps_agent p d = Some x \<longrightarrow> ag_id x = entry_id d \<and> ag_tools x = request_tools d)
     \<and> (\<forall>d x. ps_workflow p d = Some x \<longrightarrow> wf_id x = entry_id d)"

definition good_tool_doc :: "parsers \<Rightarrow> obj \<Rightarrow> bool" where
  "good_tool_doc p d \<longleftrightarrow> ps_tool p d \<noteq> None \<and> validate_entrypoint (the (ps_tool p d))"

definition workflow_agents :: "parsers \<Rightarrow> obj \<Rightarrow> string set" where
  "workflow_agents p d = get_all_agent_ids (the (ps_workflow p d))"

definition ids :: "obj list \<Rightarrow> string set" where
  "ids ds = entry_id ` set ds"

text \<open>Every document can be read, ids are unique, every reference names an entry, and the validator's tools are those of the file.\<close>

definition healthy :: "parsers \<Rightarrow> api_store \<Rightarrow> bool" where
  "healthy p st \<longleftrightarrow> (\<forall>d \<in> set (as_agents st). ps_agent p d \<noteq> None \<and> set (request_tools d) \<subseteq> ids (as_tools st))
     \<and> (\<forall>d \<in> set (as_tools st). good_tool_doc p d) \<and> (\<forall>d \<in> set (as_workflows st). ps_workflow p d \<noteq> None \<and> workflow_agents p d \<subseteq> ids (as_agents st))
     \<and> distinct (map entry_id (as_agents st)) \<and> distinct (map entry_id (as_tools st)) \<and> distinct (map entry_id (as_workflows st))
     \<and> (as_cached_tools st = None \<or> as_cached_tools st = Some (map (the \<circ> ps_tool p) (as_tools st)))"

lemma load_tools_healthy: "healthy p st \<Longrightarrow> load_tools p st = Inr (map (the \<circ> ps_tool p) (as_tools st))"
  by (auto simp: healthy_def load_tools_def file_tools_def parse_all_map good_tool_doc_def validate_all_tools_def list_all_iff)

lemma agent_read:
  assumes "readers p" "healthy p st" "d \<in> set (as_agents st)"
  shows "ag_id (the (ps_agent p d)) = entry_id d" "ag_tools (the (ps_agent p d)) = request_tools d" "set (request_tools d) \<subseteq> ids (as_tools st)"
proof -
  have d: "ps_agent p d \<noteq> None" "set (request_tools d) \<subseteq> ids (as_tools st)" using assms(2,3) by (simp_all add: healthy_def)
  then obtain x where "ps_agent p d = Some x" by blast
  then show "ag_id (the (ps_agent p d)) = entry_id d" "ag_tools (the (ps_agent p d)) = request_tools d" using assms(1) by (auto simp: readers_def)
  show "set (request_tools d) \<subseteq> ids (as_tools st)" by (rule d)
qed

lemma tool_ids:
  assumes "readers p" "healthy p st"
  shows "tl_id ` set (map (the \<circ> ps_tool p) (as_tools st)) = ids (as_tools st)"
proof -
  have "tl_id (the (ps_tool p d)) = entry_id d" if "d \<in> set (as_tools st)" for d
    using that assms by (auto simp: healthy_def good_tool_doc_def readers_def)
  then show ?thesis by (simp add: ids_def image_image)
qed

lemma parse_agents_healthy:
  assumes "readers p" "healthy p st"
  shows "parse_agents p (as_agents st) = Loaded (map (the \<circ> ps_agent p) (as_agents st))"
    "ag_id ` set (map (the \<circ> ps_agent p) (as_agents st)) = ids (as_agents st)"
proof -
  have m: "map ag_id (map (the \<circ> ps_agent p) (as_agents st)) = map entry_id (as_agents st)"
    using agent_read(1) [OF assms] by simp
  then have d: "distinct (map ag_id (map (the \<circ> ps_agent p) (as_agents st)))" unfolding m using assms(2) by (simp add: healthy_def)
  have a: "parse_all (ps_agent p) (as_agents st) = Some (map (the \<circ> ps_agent p) (as_agents st))"
    using assms(2) by (simp add: parse_all_map healthy_def)
  show "parse_agents p (as_agents st) = Loaded (map (the \<circ> ps_agent p) (as_agents st))"
    unfolding parse_agents_def parse_file_def a option.case file_state.case by (simp only: d if_True)
  show "ag_id ` set (map (the \<circ> ps_agent p) (as_agents st)) = ids (as_agents st)"
    using arg_cong [OF m, of set] by (simp add: ids_def image_image)
qed

lemma tools_ok_healthy:
  "readers p \<Longrightarrow> healthy p st \<Longrightarrow> validate_agent_tool_references (files p st) i ts = None \<longleftrightarrow> set ts \<subseteq> ids (as_tools st)"
  unfolding agent_tools_ok_iff using load_tools_healthy [of p st] tool_ids [of p st] by (auto simp: files_def)

lemma agents_ok_healthy:
  "readers p \<Longrightarrow> healthy p st \<Longrightarrow> validate_workflow_agent_references (files p st) i as = None \<longleftrightarrow> as \<subseteq> ids (as_agents st)"
  unfolding workflow_agents_ok_iff using parse_agents_healthy [of p st] by (auto simp: files_def)

lemma workflows_healthy: "healthy p st \<Longrightarrow> cf_workflows (files p st) = Loaded (map (the \<circ> ps_workflow p) (as_workflows st))"
  by (simp add: files_def parse_file_def parse_all_map healthy_def)

lemma agent_deletion_healthy:
  assumes "readers p" "healthy p st" "validate_agent_deletion (files p st) i = None"
  shows "\<forall>d \<in> set (as_workflows st). i \<notin> workflow_agents p d"
  using assms(3) unfolding agent_deletion_iff workflows_healthy [OF assms(2)] by (auto simp: workflow_agents_def)

lemma tool_deletion_healthy:
  assumes "readers p" "healthy p st" "validate_tool_deletion (files p st) i = None"
  shows "\<forall>d \<in> set (as_agents st). i \<notin> set (request_tools d)"
proof -
  have "cf_agents (files p st) = Loaded (map (the \<circ> ps_agent p) (as_agents st))" using parse_agents_healthy [OF assms(1,2)] by (simp add: files_def)
  then have "\<forall>a \<in> set (map (the \<circ> ps_agent p) (as_agents st)). i \<notin> set (ag_tools a)" using assms(3) unfolding tool_deletion_iff by auto
  then show ?thesis using agent_read(2) [OF assms(1,2)] by simp
qed

text \<open>In a healthy store every reference resolves, as the validator sees it.\<close>

lemma healthy_resolved:
  assumes "readers p" "healthy p st"
  shows "references_resolved (files p st)"
proof -
  have a: "cf_agents (files p st) = Loaded (map (the \<circ> ps_agent p) (as_agents st))" using parse_agents_healthy [OF assms] by (simp add: files_def)
  have "set (ag_tools x) \<subseteq> ids (as_tools st)" if "x \<in> set (map (the \<circ> ps_agent p) (as_agents st))" for x
    using that agent_read(2,3) [OF assms] by fastforce
  moreover have "get_all_agent_ids x \<subseteq> ids (as_agents st)" if "x \<in> set (map (the \<circ> ps_workflow p) (as_workflows st))" for x
    using that assms(2) by (auto simp: healthy_def workflow_agents_def)
  ultimately show ?thesis
    unfolding references_resolved_def a workflows_healthy [OF assms(2)] tools_ok_healthy [OF assms] agents_ok_healthy [OF assms] by blast
qed

subsection \<open>Healthy stores stay healthy\<close>

lemma keep_tools_fields [simp]: "as_agents (keep_tools p ts st) = as_agents st" "as_tools (keep_tools p ts st) = as_tools st"
  "as_workflows (keep_tools p ts st) = as_workflows st"
  by (simp_all add: keep_tools_def split: sum.split)

lemma keep_tools_healthy: "healthy p st \<Longrightarrow> healthy p (keep_tools p ts st)"
  by (simp add: keep_tools_def load_tools_healthy) (simp add: healthy_def)

lemma find_entry_Some: "find_entry i ds = Some d \<Longrightarrow> d \<in> set ds \<and> entry_id d = i"
  by (auto simp: find_entry_def dest: find_SomeD)

lemma replace_entry_ids: "entry_id d = i \<Longrightarrow> map entry_id (replace_entry i d ds) = map entry_id ds"
  by (induction ds) auto

lemma set_replace_entry: "x \<in> set (replace_entry i d ds) \<Longrightarrow> x = d \<or> x \<in> set ds"
  by (induction ds) (auto split: if_splits)

lemma ids_replace_entry: "entry_id d = i \<Longrightarrow> ids (replace_entry i d ds) = ids ds"
  using arg_cong [OF replace_entry_ids, of d i set ds] by (simp add: ids_def)

lemma ids_without_entry: "ids (without_entry i ds) = ids ds - {i}"
  by (auto simp: ids_def without_entry_def)

lemma distinct_without_entry: "distinct (map entry_id ds) \<Longrightarrow> distinct (map entry_id (without_entry i ds))"
  by (simp add: without_entry_def distinct_map_filter)

lemma jget_merge_absent: "get u k = None \<Longrightarrow> jget (merge d u) k = jget d k"
  by (simp add: jget_def get_default_def get_merge map_add_def map_of_eq_None_iff split: option.split)
    (metis in_set_conv_decomp map_of_eq_None_iff not_Some_eq set_rev rev_map)

lemma entry_id_merge: "get u ''id'' = None \<Longrightarrow> entry_id (merge d u) = entry_id d"
  by (simp add: entry_id_def jget_merge_absent)

lemma request_tools_merge: "get u ''tools'' = None \<Longrightarrow> request_tools (merge d u) = request_tools d"
  by (simp add: request_tools_def jget_merge_absent)

lemma healthy_agents:
  assumes "healthy p st" "\<forall>d \<in> set ds. ps_agent p d \<noteq> None \<and> set (request_tools d) \<subseteq> ids (as_tools st)" "distinct (map entry_id ds)"
    "\<forall>d \<in> set (as_workflows st). workflow_agents p d \<subseteq> ids ds"
  shows "healthy p (st\<lparr>as_agents := ds\<rparr>)"
  using assms by (auto simp: healthy_def)

lemma healthy_workflows:
  assumes "healthy p st" "\<forall>d \<in> set ds. ps_workflow p d \<noteq> None \<and> workflow_agents p d \<subseteq> ids (as_agents st)" "distinct (map entry_id ds)"
  shows "healthy p (st\<lparr>as_workflows := ds\<rparr>)"
  using assms by (auto simp: healthy_def)

lemma healthy_tools:
  assumes "healthy p st" "\<forall>d \<in> set ds. good_tool_doc p d" "distinct (map entry_id ds)" "as_cached_tools st = None"
    "\<forall>d \<in> set (as_agents st). set (request_tools d) \<subseteq> ids ds"
  shows "healthy p (st\<lparr>as_tools := ds\<rparr>)"
  using assms by (auto simp: healthy_def)

text \<open>What a request brings: its document can be read by the configuration model, updates carry no id, and tools are only written
  as long as the validator has not loaded any.\<close>

fun well_formed_request :: "parsers \<Rightarrow> api_store \<Rightarrow> api_request \<Rightarrow> bool" where
  "well_formed_request p st (Create_agent d) = (ps_agent p d \<noteq> None)"
| "well_formed_request p st (Update_agent i u) = (get u ''id'' = None \<and> (\<forall>d \<in> set (as_agents st). ps_agent p (merge d u) \<noteq> None
     \<and> (get u ''tools'' \<noteq> None \<longrightarrow> request_tools (merge d u) = request_tools u)))"
| "well_formed_request p st (Register_tool d) = (good_tool_doc p d \<and> as_cached_tools st = None)"
| "well_formed_request p st (Update_tool i u) = (get u ''id'' = None \<and> as_cached_tools st = None \<and> (\<forall>d \<in> set (as_tools st). good_tool_doc p (merge d u)))"
| "well_formed_request p st (Delete_tool i) = (as_cached_tools st = None)"
| "well_formed_request p st (Update_workflow i u) = (get u ''id'' = None)"
| "well_formed_request p st r = True"

lemma create_agent_healthy:
  assumes "readers p" "healthy p st" "ps_agent p d \<noteq> None"
  shows "healthy p (fst (create_api_agent p d st))"
proof (cases "validate_agent_tool_references (files p st) (entry_id d) (request_tools d)")
  case None
  then have r: "set (request_tools d) \<subseteq> ids (as_tools st)" using tools_ok_healthy [OF assms(1,2)] by simp
  have "healthy p ((keep_tools p (request_tools d) st)\<lparr>as_agents := as_agents st @ [d]\<rparr>)" if "entry_id d \<notin> entry_id ` set (as_agents st)"
    by (rule healthy_agents [OF keep_tools_healthy [OF assms(2)]])
      (use assms(2,3) r that in \<open>auto simp: healthy_def ids_def subset_iff\<close>)
  then show ?thesis using assms(2) None by (simp add: create_api_agent_def)
qed (use assms(2) keep_tools_healthy in \<open>simp add: create_api_agent_def\<close>)

lemma update_agent_healthy:
  assumes "readers p" "healthy p st" "well_formed_request p st (Update_agent i u)"
  shows "healthy p (fst (update_agent p i u st))"
proof (cases "find_entry i (as_agents st)")
  case (Some d)
  have d: "d \<in> set (as_agents st)" "entry_id d = i" using find_entry_Some [OF Some] by simp_all
  have i: "entry_id (merge d u) = i" using d assms(3) by (simp add: entry_id_merge)
  have "healthy p ((keep_tools p (request_tools u) st)\<lparr>as_agents := replace_entry i (merge d u) (as_agents st)\<rparr>)"
    if ok: "(if get u ''tools'' \<noteq> None then validate_agent_tool_references (files p st) i (request_tools u) else None) = None"
  proof (rule healthy_agents [OF keep_tools_healthy [OF assms(2)]])
    have t: "set (request_tools (merge d u)) \<subseteq> ids (as_tools st)"
    proof (cases "get u ''tools'' = None")
      case True
      then show ?thesis using agent_read(3) [OF assms(1,2) d(1)] by (simp add: request_tools_merge)
    next
      case False
      then show ?thesis using ok assms(3) d(1) tools_ok_healthy [OF assms(1,2), of i "request_tools u"] by simp
    qed
    show "\<forall>x \<in> set (replace_entry i (merge d u) (as_agents st)). ps_agent p x \<noteq> None \<and> set (request_tools x) \<subseteq> ids (as_tools (keep_tools p (request_tools u) st))"
      using t assms(2,3) d(1) by (auto dest!: set_replace_entry simp: healthy_def)
    show "distinct (map entry_id (replace_entry i (merge d u) (as_agents st)))" using assms(2) by (simp add: replace_entry_ids i healthy_def)
    show "\<forall>x \<in> set (as_workflows (keep_tools p (request_tools u) st)). workflow_agents p x \<subseteq> ids (replace_entry i (merge d u) (as_agents st))"
      using assms(2) by (simp add: ids_replace_entry i healthy_def)
  qed
  then show ?thesis using assms(2) keep_tools_healthy [OF assms(2)] by (simp add: update_agent_def Some split: option.split)
qed (simp add: update_agent_def assms(2))

lemma delete_agent_healthy:
  assumes "readers p" "healthy p st"
  shows "healthy p (fst (delete_agent p i st))"
proof (cases "validate_agent_deletion (files p st) i")
  case None
  have "healthy p (st\<lparr>as_agents := without_entry i (as_agents st)\<rparr>)"
  proof (rule healthy_agents [OF assms(2)])
    show "\<forall>d \<in> set (as_workflows st). workflow_agents p d \<subseteq> ids (without_entry i (as_agents st))"
      using assms(2) agent_deletion_healthy [OF assms None] by (auto simp: healthy_def ids_without_entry)
  qed (use assms(2) in \<open>auto simp: healthy_def distinct_without_entry without_entry_def distinct_map_filter\<close>)
  then show ?thesis using assms(2) None by (simp add: delete_agent_def)
qed (simp add: delete_agent_def assms(2))

lemma tool_requests_healthy:
  assumes "readers p" "healthy p st"
  shows "well_formed_request p st (Register_tool d) \<Longrightarrow> healthy p (fst (register_new_tool p d st))"
    "well_formed_request p st (Update_tool i u) \<Longrightarrow> healthy p (fst (update_tool p i u st))"
    "well_formed_request p st (Delete_tool i) \<Longrightarrow> healthy p (fst (delete_tool p i st))"
proof -
  show "healthy p (fst (register_new_tool p d st))" if w: "well_formed_request p st (Register_tool d)"
  proof (cases "entry_id d \<in> entry_id ` set (as_tools st)")
    case False
    have "healthy p (st\<lparr>as_tools := as_tools st @ [d]\<rparr>)"
      by (rule healthy_tools [OF assms(2)]) (use assms(2) w False in \<open>auto simp: healthy_def ids_def\<close>)
    then show ?thesis using False by (simp add: register_new_tool_def)
  qed (simp add: register_new_tool_def assms(2))
  show "healthy p (fst (update_tool p i u st))" if w: "well_formed_request p st (Update_tool i u)"
  proof (cases "find_entry i (as_tools st)")
    case (Some d)
    have d: "d \<in> set (as_tools st)" "entry_id (merge d u) = i" using find_entry_Some [OF Some] w by (simp_all add: entry_id_merge)
    have "healthy p (st\<lparr>as_tools := replace_entry i (merge d u) (as_tools st)\<rparr>)"
    proof (rule healthy_tools [OF assms(2)])
      show "\<forall>x \<in> set (replace_entry i (merge d u) (as_tools st)). good_tool_doc p x"
        using w d(1) assms(2) by (auto dest!: set_replace_entry simp: healthy_def)
    qed (use assms(2) w d(2) in \<open>simp_all add: healthy_def replace_entry_ids ids_replace_entry\<close>)
    then show ?thesis by (simp add: update_tool_def Some)
  qed (simp add: update_tool_def assms(2))
  show "healthy p (fst (delete_tool p i st))" if w: "well_formed_request p st (Delete_tool i)"
  proof (cases "validate_tool_deletion (files p st) i")
    case None
    have "healthy p (st\<lparr>as_tools := without_entry i (as_tools st)\<rparr>)"
    proof (rule healthy_tools [OF assms(2)])
      show "\<forall>d \<in> set (as_agents st). set (request_tools d) \<subseteq> ids (without_entry i (as_tools st))"
        using assms(2) tool_deletion_healthy [OF assms None] by (auto simp: healthy_def ids_without_entry)
    qed (use assms(2) w in \<open>auto simp: healthy_def distinct_without_entry without_entry_def distinct_map_filter\<close>)
    then show ?thesis using assms(2) None by (simp add: delete_tool_def)
  qed (simp add: delete_tool_def assms(2))
qed

lemma checked_workflow_ok:
  assumes "readers p" "healthy p st" "checked_workflow p st i d = None"
  shows "ps_workflow p d \<noteq> None" "workflow_agents p d \<subseteq> ids (as_agents st)"
  using assms agents_ok_healthy [OF assms(1,2)] by (auto simp: checked_workflow_def workflow_agents_def split: option.splits)

lemma workflow_requests_healthy:
  assumes "readers p" "healthy p st"
  shows "healthy p (fst (create_workflow p d st))" "get u ''id'' = None \<Longrightarrow> healthy p (fst (update_api_workflow p i u st))"
    "healthy p (fst (delete_workflow p i st))"
proof -
  show "healthy p (fst (create_workflow p d st))"
  proof (cases "checked_workflow p st (entry_id d) d")
    case None
    have "healthy p (st\<lparr>as_workflows := as_workflows st @ [d]\<rparr>)" if "entry_id d \<notin> entry_id ` set (as_workflows st)"
      by (rule healthy_workflows [OF assms(2)]) (use assms(2) that checked_workflow_ok [OF assms None] in \<open>auto simp: healthy_def\<close>)
    then show ?thesis using assms(2) None by (simp add: create_workflow_def)
  qed (simp add: create_workflow_def assms(2))
  show "healthy p (fst (update_api_workflow p i u st))" if u: "get u ''id'' = None"
  proof (cases "find_entry i (as_workflows st)")
    case (Some d)
    have d: "entry_id (merge d u) = i" using find_entry_Some [OF Some] u by (simp add: entry_id_merge)
    show ?thesis
    proof (cases "checked_workflow p st i (merge d u)")
      case None
      have "healthy p (st\<lparr>as_workflows := replace_entry i (merge d u) (as_workflows st)\<rparr>)"
      proof (rule healthy_workflows [OF assms(2)])
        show "\<forall>x \<in> set (replace_entry i (merge d u) (as_workflows st)). ps_workflow p x \<noteq> None \<and> workflow_agents p x \<subseteq> ids (as_agents st)"
          using assms(2) checked_workflow_ok [OF assms None] by (auto dest!: set_replace_entry simp: healthy_def)
      qed (use assms(2) in \<open>simp add: healthy_def replace_entry_ids d\<close>)
      then show ?thesis by (simp add: update_api_workflow_def Some None)
    qed (simp add: update_api_workflow_def Some assms(2))
  qed (simp add: update_api_workflow_def assms(2))
  show "healthy p (fst (delete_workflow p i st))"
  proof -
    have "healthy p (st\<lparr>as_workflows := without_entry i (as_workflows st)\<rparr>)"
      by (rule healthy_workflows [OF assms(2)]) (use assms(2) in \<open>auto simp: healthy_def without_entry_def distinct_map_filter\<close>)
    then show ?thesis using assms(2) by (simp add: delete_workflow_def)
  qed
qed


definition demo_parsers :: parsers where
  "demo_parsers = \<lparr>ps_tool = (\<lambda>d. Some (demo_tool\<lparr>tl_id := entry_id d\<rparr>)),
     ps_agent = (\<lambda>d. if jget d ''type'' = JStr ''conversable'' then Some ((demo_agent_with (request_tools d))\<lparr>ag_id := entry_id d\<rparr>) else None),
     ps_workflow = (\<lambda>d. None), ps_agent_response = (\<lambda>d. True), ps_tool_response = (\<lambda>d. True), ps_workflow_response = (\<lambda>d. True)\<rparr>"

definition demo_doc :: "string \<Rightarrow> string \<Rightarrow> string list \<Rightarrow> obj" where
  "demo_doc i ty ts = [(''id'', JStr i), (''type'', JStr ty), (''system_message'', JStr ''Answer.''), (''tools'', jstrs ts)]"

definition demo_store :: api_store where
  "demo_store = \<lparr>as_agents = [], as_tools = [[(''id'', JStr ''db'')]], as_workflows = [], as_cached_tools = None\<rparr>"


subsection \<open>What the validator does not see\<close>

text \<open>C27: Once the validator has loaded tools, a tool registered later does not exist for it: an agent that uses the new tool is
  refused, whatever the file holds.\<close>

theorem new_tool_refused:
  assumes "as_cached_tools st = Some ts" "t \<in> set (request_tools d)" "t \<notin> tl_id ` set ts"
    "has_instructions (jget d ''system_message'')" "entry_id d \<notin> ids (as_agents st)"
  shows "\<exists>missing. t \<in> set missing \<and> create_api_agent p d st = (st, Inl (Dependency (Missing_tools (entry_id d) missing (tl_id ` set ts))))"
proof -
  define missing where "missing = filter (\<lambda>i. i \<notin> tl_id ` set ts) (request_tools d)"
  have ne: "request_tools d \<noteq> []" "missing \<noteq> []" "t \<in> set missing" using assms(2,3) by (auto simp: missing_def filter_empty_conv)
  have "cf_tools (files p st) = Inr ts" by (simp add: files_def load_tools_def assms(1))
  then have "validate_agent_tool_references (files p st) (entry_id d) (request_tools d) = Some (Missing_tools (entry_id d) missing (tl_id ` set ts))"
    using ne by (simp add: validate_agent_tool_references_def Let_def missing_def)
  moreover have "keep_tools p (request_tools d) st = st" using assms(1) by (simp add: keep_tools_def load_tools_def)
  ultimately show ?thesis using assms(4,5) ne(3) by (simp add: create_api_agent_def dependency_answer_def ids_def)
qed

theorem new_tool_refused_witness:
  "\<exists>missing available. snd (create_api_agent demo_parsers (demo_doc ''b'' ''conversable'' [''crm''])
       (handle demo_parsers (Register_tool [(''id'', JStr ''crm'')]) (handle demo_parsers (Create_agent (demo_doc ''a'' ''conversable'' [''db''])) demo_store)))
     = Inl (Dependency (Missing_tools ''b'' missing available)) \<and> ''crm'' \<in> set missing"
proof -
  define st where "st = handle demo_parsers (Register_tool [(''id'', JStr ''crm'')]) (handle demo_parsers (Create_agent (demo_doc ''a'' ''conversable'' [''db''])) demo_store)"
  have f: "as_cached_tools st = Some [demo_tool]" "map entry_id (as_agents st) = [''a'']" unfolding st_def by code_simp+
  have a: "entry_id (demo_doc ''b'' ''conversable'' [''crm'']) \<notin> ids (as_agents st)" unfolding st_def ids_def by code_simp
  have t: "''crm'' \<in> set (request_tools (demo_doc ''b'' ''conversable'' [''crm'']))" "''crm'' \<notin> tl_id ` set [demo_tool]"
    "has_instructions (jget (demo_doc ''b'' ''conversable'' [''crm'']) ''system_message'')" by code_simp+
  have "entry_id (demo_doc ''b'' ''conversable'' [''crm'']) = ''b''" by code_simp
  then show ?thesis using new_tool_refused [OF f(1) t(1,2,3) a, of demo_parsers] unfolding st_def by fastforce
qed

text \<open>A deleted tool, on the other hand, still exists for it.\<close>

theorem deleted_tool_accepted:
  assumes "as_cached_tools st = Some ts" "set (request_tools d) \<subseteq> tl_id ` set ts" "has_instructions (jget d ''system_message'')" "entry_id d \<notin> ids (as_agents st)"
  shows "d \<in> set (as_agents (fst (create_api_agent p d st)))"
proof -
  have "cf_tools (files p st) = Inr ts" by (simp add: files_def load_tools_def assms(1))
  then have "validate_agent_tool_references (files p st) (entry_id d) (request_tools d) = None" using assms(2) unfolding agent_tools_ok_iff by simp
  then show ?thesis using assms(3,4) by (simp add: create_api_agent_def ids_def)
qed

text \<open>The agent handler stores any type of agent; when the configuration model cannot read the stored agent, such as the
  \<open>LlmAgent\<close> that the builder's prompt asks for, no workflow with agents can be created or changed any more.\<close>

theorem unreadable_agent_blocks_workflows:
  assumes "has_instructions (jget d ''system_message'')" "entry_id d \<notin> ids (as_agents st)" "request_tools d = []" "ps_agent p d = None"
    and "ps_workflow p w = Some x" "get_all_agent_ids x \<noteq> {}" "entry_id w \<notin> ids (as_workflows st)"
  shows "\<exists>m. snd (create_workflow p w (handle p (Create_agent d) st)) = Inl (Server_error m)"
proof -
  have h: "handle p (Create_agent d) st = st\<lparr>as_agents := as_agents st @ [d]\<rparr>"
    using assms(1-3) by (auto simp: create_api_agent_def validate_agent_tool_references_def ids_def keep_tools_def split: sum.split)
  have "parse_all (ps_agent p) (as_agents st @ [d]) = None" using assms(4) by (simp add: parse_all_map)
  then have "cf_agents (files p (handle p (Create_agent d) st)) = Refused ''invalid configuration''"
    by (simp only: h) (simp add: files_def parse_agents_def parse_file_def)
  then have "checked_workflow p (handle p (Create_agent d) st) (entry_id w) w = Some (Server_error ''invalid configuration'')"
    using assms(5,6) by (simp add: checked_workflow_def validate_workflow_agent_references_def dependency_answer_def)
  moreover have "entry_id w \<notin> entry_id ` set (as_workflows (handle p (Create_agent d) st))" using assms(7) by (simp only: h) (simp add: ids_def)
  ultimately show ?thesis by (simp add: create_workflow_def)
qed

theorem unreadable_agent_blocks_workflows_witness:
  "\<exists>m. snd (create_workflow (demo_parsers\<lparr>ps_workflow := (\<lambda>d. Some (default_workflow ''w'' fork))\<rparr>) [(''id'', JStr ''w'')]
     (handle (demo_parsers\<lparr>ps_workflow := (\<lambda>d. Some (default_workflow ''w'' fork))\<rparr>) (Create_agent (demo_doc ''a'' ''LlmAgent'' [])) demo_store)) = Inl (Server_error m)"
proof (rule unreadable_agent_blocks_workflows)
  show "has_instructions (jget (demo_doc ''a'' ''LlmAgent'' []) ''system_message'')" "request_tools (demo_doc ''a'' ''LlmAgent'' []) = []" by code_simp+
  show "ps_agent (demo_parsers\<lparr>ps_workflow := (\<lambda>d. Some (default_workflow ''w'' fork))\<rparr>) (demo_doc ''a'' ''LlmAgent'' []) = None"
    by (simp add: demo_parsers_def demo_doc_def jget_def get_default_def)
  show "ps_workflow (demo_parsers\<lparr>ps_workflow := (\<lambda>d. Some (default_workflow ''w'' fork))\<rparr>) [(''id'', JStr ''w'')] = Some (default_workflow ''w'' fork)" by simp
  show "get_all_agent_ids (default_workflow ''w'' fork) \<noteq> {}" by (simp add: get_all_agent_ids_def topology_agents_def default_workflow_def fork_def)
  show "entry_id (demo_doc ''a'' ''LlmAgent'' []) \<notin> ids (as_agents demo_store)" "entry_id [(''id'', JStr ''w'')] \<notin> ids (as_workflows demo_store)"
    by (simp_all add: ids_def demo_store_def)
qed

end
