(* ===== verification/Workflow_Tests.thy ===== *)
theory Workflow_Tests
  imports Sessions Dependencies Diagnostics
begin

text \<open>
  Running a workflow outside a chat: \<open>src/src/core/workflow_test_runner.py\<close> (validation, execution, test cases and their
  verdicts) and the handlers of \<open>src/src/api/routers/workflows.py\<close> that execute a workflow, validate it, and keep test cases,
  results and runs.  An execution goes through the session manager of \<open>Sessions\<close>; the runner has a manager of its own.
  Parameters: the regular expression engine, the printing of values, the text of pydantic's and of dependency errors,
  fresh ids and clock readings.  The metadata a run returns holds lists of strings under its list keys, as the runtime
  writes them.
\<close>

subsection \<open>Test cases\<close>

datatype test_status = PENDING | RUNNING | PASSED | FAILED | TEST_ERROR | SKIPPED

text \<open>A stored case is a dictionary: an update may leave \<open>None\<close> in any of its fields.\<close>

record stored_case =
  kc_id :: string
  kc_workflow :: string
  kc_name :: "string option"
  kc_description :: "string option"
  kc_input :: "string option"
  kc_agent :: "string option"
  kc_tools :: "string list option"
  kc_contains :: "string list option"
  kc_pattern :: "string option"
  kc_timeout :: "int option"
  kc_enabled :: "bool option"
  kc_created :: int
  kc_updated :: int
  kc_meta :: "obj option"

record test_case =
  te_id :: string
  te_workflow :: string
  te_name :: string
  te_description :: "string option"
  te_input :: string
  te_agent :: "string option"
  te_tools :: "string list option"
  te_contains :: "string list option"
  te_pattern :: "string option"
  te_timeout :: int
  te_enabled :: bool
  te_created :: int
  te_updated :: int
  te_meta :: obj

text \<open>\<open>WorkflowTestCaseResponse(**tc)\<close>, which needs the fields that are not optional.\<close>

definition case_response :: "stored_case \<Rightarrow> test_case option" where
  "case_response c = (case (kc_name c, kc_input c, kc_timeout c, kc_enabled c, kc_meta c) of
      (Some name, Some input, Some timeout, Some enabled, Some meta) \<Rightarrow> Some
        \<lparr>te_id = kc_id c, te_workflow = kc_workflow c, te_name = name, te_description = kc_description c, te_input = input,
         te_agent = kc_agent c, te_tools = kc_tools c, te_contains = kc_contains c, te_pattern = kc_pattern c,
         te_timeout = timeout, te_enabled = enabled, te_created = kc_created c, te_updated = kc_updated c, te_meta = meta\<rparr>
    | _ \<Rightarrow> None)"

record case_request =
  cq_name :: string
  cq_description :: "string option"
  cq_input :: string
  cq_agent :: "string option"
  cq_tools :: "string list option"
  cq_contains :: "string list option"
  cq_pattern :: "string option"
  cq_timeout :: int
  cq_enabled :: bool
  cq_meta :: obj

text \<open>An update: a field that is not sent, sent as null, or sent with a value.\<close>

record case_update =
  cu_name :: "string option option"
  cu_description :: "string option option"
  cu_input :: "string option option"
  cu_agent :: "string option option"
  cu_tools :: "string list option option"
  cu_contains :: "string list option option"
  cu_pattern :: "string option option"
  cu_timeout :: "int option option"
  cu_enabled :: "bool option option"
  cu_meta :: "obj option option"

definition updated :: "'a option option \<Rightarrow> 'a option \<Rightarrow> 'a option" where
  "updated u old = (case u of None \<Rightarrow> old | Some v \<Rightarrow> v)"

definition apply_update :: "int \<Rightarrow> case_update \<Rightarrow> stored_case \<Rightarrow> stored_case" where
  "apply_update now u c = c\<lparr>kc_name := updated (cu_name u) (kc_name c), kc_description := updated (cu_description u) (kc_description c),
     kc_input := updated (cu_input u) (kc_input c), kc_agent := updated (cu_agent u) (kc_agent c),
     kc_tools := updated (cu_tools u) (kc_tools c), kc_contains := updated (cu_contains u) (kc_contains c),
     kc_pattern := updated (cu_pattern u) (kc_pattern c), kc_timeout := updated (cu_timeout u) (kc_timeout c),
     kc_enabled := updated (cu_enabled u) (kc_enabled c), kc_meta := updated (cu_meta u) (kc_meta c), kc_updated := now\<rparr>"

record test_result =
  re_id :: string
  re_case :: string
  re_workflow :: string
  re_status :: test_status
  re_response :: "string option"
  re_agent :: "string option"
  re_tools :: "string list option"
  re_elapsed :: int
  re_message :: "string option"
  re_trace :: "json list option"
  re_started :: int
  re_completed :: int
  re_run :: "string option"

record test_run =
  tr_id :: string
  tr_workflow :: string
  tr_name :: "string option"
  tr_total :: nat
  tr_passed :: nat
  tr_failed :: nat
  tr_errors :: nat
  tr_skipped :: nat
  tr_status :: test_status
  tr_started :: int
  tr_completed :: int
  tr_meta :: obj

definition pass_rate :: "test_run \<Rightarrow> rat" where
  "pass_rate r = (if 0 < tr_total r then of_nat (tr_passed r) / of_nat (tr_total r) * 100 else 0)"

record test_store =
  st_cases :: "(string, stored_case) odict"
  st_results :: "(string, test_result) odict"
  st_runs :: "(string, test_run) odict"

datatype test_error = Workflow_unknown string | Case_not_found string | Case_not_in_workflow string | No_enabled_cases string
  | Invalid_case string | Run_raised string

subsection \<open>Handlers of the cases\<close>

definition create_test_case ::
  "string list \<Rightarrow> string \<Rightarrow> int \<Rightarrow> string \<Rightarrow> case_request \<Rightarrow> test_store \<Rightarrow> test_store \<times> (test_error + test_case)" where
  "create_test_case known fresh now wid q s =
     (if wid \<notin> set known then (s, Inl (Workflow_unknown wid))
      else let c = \<lparr>kc_id = fresh, kc_workflow = wid, kc_name = Some (cq_name q), kc_description = cq_description q,
            kc_input = Some (cq_input q), kc_agent = cq_agent q, kc_tools = cq_tools q, kc_contains = cq_contains q,
            kc_pattern = cq_pattern q, kc_timeout = Some (cq_timeout q), kc_enabled = Some (cq_enabled q),
            kc_created = now, kc_updated = now, kc_meta = Some (cq_meta q)\<rparr>
        in (s\<lparr>st_cases := put fresh c (st_cases s)\<rparr>,
            case case_response c of None \<Rightarrow> Inl (Invalid_case fresh) | Some t \<Rightarrow> Inr t))"

text \<open>Responses for several cases: the first that is invalid raises.\<close>

fun case_responses :: "stored_case list \<Rightarrow> test_error + test_case list" where
  "case_responses [] = Inr []"
| "case_responses (c # cs) = (case case_response c of None \<Rightarrow> Inl (Invalid_case (kc_id c))
     | Some t \<Rightarrow> map_sum id ((#) t) (case_responses cs))"

definition list_test_cases :: "string \<Rightarrow> bool \<Rightarrow> test_store \<Rightarrow> test_error + test_case list" where
  "list_test_cases wid enabled_only s = case_responses
     (filter (\<lambda>c. kc_workflow c = wid \<and> (\<not> enabled_only \<or> kc_enabled c = Some True)) (map snd (st_cases s)))"

definition find_case :: "string \<Rightarrow> string \<Rightarrow> test_store \<Rightarrow> test_error + stored_case" where
  "find_case wid i s = (case get (st_cases s) i of None \<Rightarrow> Inl (Case_not_found i)
     | Some c \<Rightarrow> if kc_workflow c \<noteq> wid then Inl (Case_not_in_workflow wid) else Inr c)"

definition one_response :: "stored_case \<Rightarrow> test_error + test_case" where
  "one_response c = (case case_response c of None \<Rightarrow> Inl (Invalid_case (kc_id c)) | Some t \<Rightarrow> Inr t)"

definition get_test_case :: "string \<Rightarrow> string \<Rightarrow> test_store \<Rightarrow> test_error + test_case" where
  "get_test_case wid i s = (case find_case wid i s of Inl e \<Rightarrow> Inl e | Inr c \<Rightarrow> one_response c)"

definition update_test_case :: "int \<Rightarrow> string \<Rightarrow> string \<Rightarrow> case_update \<Rightarrow> test_store \<Rightarrow> test_store \<times> (test_error + test_case)" where
  "update_test_case now wid i u s = (case find_case wid i s of Inl e \<Rightarrow> (s, Inl e)
     | Inr c \<Rightarrow> (s\<lparr>st_cases := put i (apply_update now u c) (st_cases s)\<rparr>, one_response (apply_update now u c)))"

definition delete_test_case :: "string \<Rightarrow> string \<Rightarrow> test_store \<Rightarrow> test_store \<times> (test_error + unit)" where
  "delete_test_case wid i s = (case find_case wid i s of Inl e \<Rightarrow> (s, Inl e)
     | Inr c \<Rightarrow> (s\<lparr>st_cases := del i (st_cases s)\<rparr>, Inr ()))"

subsection \<open>Execution\<close>

record execute_request =
  eq_message :: string
  eq_meta :: obj
  eq_timeout :: int
  eq_dry_run :: bool

record execution =
  ex_workflow :: string
  ex_response :: string
  ex_elapsed :: int
  ex_agents :: "string list"
  ex_tools :: "string list"
  ex_trace :: "json list"
  ex_success :: bool
  ex_message :: "string option"
  ex_meta :: obj

text \<open>The runner's surroundings, and what is fresh in one execution.\<close>

record runner =
  rn_run :: "run_args \<Rightarrow> runtime_outcome"
  rn_files :: config_files
  rn_dependency_text :: "dependency_error \<Rightarrow> string"
  rn_search :: "string \<Rightarrow> string \<Rightarrow> string + bool"
  rn_repr :: "string \<Rightarrow> string"

record launch =
  la_world :: world
  la_session :: nat
  la_record :: nat
  la_test_run :: string
  la_result :: string
  la_elapsed :: int
  la_started :: int
  la_completed :: int

definition chat_error_text :: "world \<Rightarrow> chat_error \<Rightarrow> string" where
  "chat_error_text wo e = (case e of
      Workflow_not_found i \<Rightarrow> ''Workflow not found: '' @ i
    | Session_not_found i \<Rightarrow> ''Session not found: '' @ wo_id_text wo i
    | Session_inactive i \<Rightarrow> ''Session is no longer active: '' @ wo_id_text wo i
    | Run_failed ty msg \<Rightarrow> msg)"

text \<open>\<open>WorkflowTestRunner.validate_workflow\<close>: an exception of the validator that is not a dependency error goes on; every
  workflow runs on CrewAI, the only runtime its model allows.\<close>

definition check_workflow :: "runner \<Rightarrow> Workflow_Registry.registry \<Rightarrow> string \<Rightarrow> string + string option" where
  "check_workflow rn reg wid = (case find_workflow reg wid of
      None \<Rightarrow> Inr (Some (''Workflow not found: '' @ wid))
    | Some w \<Rightarrow>
       if \<not> wf_enabled w then Inr (Some (''Workflow is disabled: '' @ wid))
       else if tp_nodes (wf_topology w) = [] then Inr (Some (''Workflow '' @ wid @ '' has no topology nodes''))
       else if tp_entry (wf_topology w) \<notin> set (node_ids (wf_topology w)) then
         Inr (Some (''Workflow '' @ wid @ '' entry_node is not present in topology nodes''))
       else (case validate_workflow_agent_references (rn_files rn) wid (get_all_agent_ids w) of
           None \<Rightarrow> Inr None
         | Some (Not_loaded m) \<Rightarrow> Inl m
         | Some e \<Rightarrow> Inr (Some (rn_dependency_text rn e))))"

definition run_workflow_test ::
  "runner \<Rightarrow> launch \<Rightarrow> string \<Rightarrow> string \<Rightarrow> string option \<Rightarrow> obj \<Rightarrow> session_manager \<Rightarrow> (chat_error + chat_reply) \<times> session_manager" where
  "run_workflow_test rn l wid message user meta m =
     (case create_session (la_world l) (la_session l) wid user (merge [(''test_run_id'', JStr (la_test_run l))] meta) m of
        (Inl e, m1) \<Rightarrow> (Inl e, m1)
      | (Inr c, m1) \<Rightarrow> process_message (rn_run rn) (la_world l) (la_record l) (cv_id c) message None meta m1)"

text \<open>\<open>asyncio.wait_for\<close> cancels a run that takes too long: the manager sees \<open>CancelledError\<close>, the runner \<open>TimeoutError\<close>;
  a \<open>TimeoutError\<close> of the run itself is taken for one too.\<close>

definition timed_out :: "chat_error \<Rightarrow> bool" where
  "timed_out e = (case e of Run_failed ty msg \<Rightarrow> ty = ''CancelledError'' \<or> ty = ''TimeoutError'' | _ \<Rightarrow> False)"

definition names_of :: "world \<Rightarrow> obj \<Rightarrow> string \<Rightarrow> string list" where
  "names_of wo meta k = map (text_of (wo_show wo)) (json_items (jget meta k))"

definition not_run :: "string \<Rightarrow> int \<Rightarrow> string \<Rightarrow> obj \<Rightarrow> execution" where
  "not_run wid elapsed msg meta = \<lparr>ex_workflow = wid, ex_response = [], ex_elapsed = elapsed, ex_agents = [], ex_tools = [],
     ex_trace = [], ex_success = False, ex_message = Some msg, ex_meta = meta\<rparr>"

text \<open>The user id of the request's metadata; when it is there it also overrides the one of the session.\<close>

definition request_user :: "obj \<Rightarrow> string option" where
  "request_user meta = (case get meta ''user_id'' of None \<Rightarrow> Some ''workflow-runner'' | Some (JStr u) \<Rightarrow> Some u | Some _ \<Rightarrow> None)"

definition execute_workflow ::
  "runner \<Rightarrow> launch \<Rightarrow> string \<Rightarrow> execute_request \<Rightarrow> session_manager \<Rightarrow> (string + execution) \<times> session_manager" where
  "execute_workflow rn l wid q m = (case check_workflow rn (sg_registry m) wid of
      Inl e \<Rightarrow> (Inl e, m)
    | Inr (Some msg) \<Rightarrow> (Inr (not_run wid (la_elapsed l) msg [(''runtime'', JStr ''crewai''), (''validated'', JBool False)]), m)
    | Inr None \<Rightarrow>
       if eq_dry_run q then
         (Inr \<lparr>ex_workflow = wid, ex_response = ''Dry run passed. CrewAI workflow topology, agents, and tools are valid.'',
            ex_elapsed = la_elapsed l, ex_agents = [], ex_tools = [], ex_trace = [], ex_success = True, ex_message = None,
            ex_meta = [(''runtime'', JStr ''crewai''), (''dry_run'', JBool True), (''validated'', JBool True)]\<rparr>, m)
       else (case run_workflow_test rn l wid (eq_message q) (request_user (eq_meta q))
             (merge [(''source'', JStr ''workflow_execute'')] (eq_meta q)) m of
           (Inl e, m1) \<Rightarrow> (Inr (if timed_out e
              then not_run wid (la_elapsed l) (''Timed out after '' @ int_str (eq_timeout q) @ ''s'')
                [(''runtime'', JStr ''crewai''), (''timed_out'', JBool True)]
              else not_run wid (la_elapsed l) (chat_error_text (la_world l) e) [(''runtime'', JStr ''crewai'')]), m1)
         | (Inr r, m1) \<Rightarrow> (Inr \<lparr>ex_workflow = wid, ex_response = cr_response r, ex_elapsed = la_elapsed l,
              ex_agents = names_of (la_world l) (cr_metadata r) ''agents_called'',
              ex_tools = names_of (la_world l) (cr_metadata r) ''tools_called'',
              ex_trace = json_items (jget (cr_metadata r) ''trace_steps''), ex_success = True, ex_message = None,
              ex_meta = cr_metadata r\<rparr>, m1)))"

text \<open>The handler of \<open>POST /{workflow_id}/execute\<close>; an exception is answered with status 500.\<close>

datatype execute_answer = Not_there string | Switched_off string | Crashed string | Answered execution

definition execute_endpoint ::
  "runner \<Rightarrow> launch \<Rightarrow> string \<Rightarrow> execute_request \<Rightarrow> session_manager \<Rightarrow> execute_answer \<times> session_manager" where
  "execute_endpoint rn l wid q m = (case find_workflow (sg_registry m) wid of
      None \<Rightarrow> (Not_there wid, m)
    | Some w \<Rightarrow> if \<not> wf_enabled w then (Switched_off wid, m)
        else (case execute_workflow rn l wid q m of (Inl e, m1) \<Rightarrow> (Crashed e, m1) | (Inr x, m1) \<Rightarrow> (Answered x, m1)))"

subsection \<open>Verdicts\<close>

definition plain_char :: "char \<Rightarrow> bool" where
  "plain_char c \<longleftrightarrow> (97 \<le> code c \<and> code c \<le> 122) \<or> is_digit c"

definition norm_name :: "string \<Rightarrow> string" where
  "norm_name v = filter plain_char (lower v)"

definition responding_agent :: "world \<Rightarrow> execution \<Rightarrow> string option" where
  "responding_agent wo x =
     (let ids = json_items (jget (ex_meta x) ''agent_ids_called''); manager = jget (ex_meta x) ''manager_agent_id'';
          specialists = filter (\<lambda>a. a \<noteq> manager) ids
      in if specialists \<noteq> [] then Some (text_of (wo_show wo) (last specialists))
         else if ids \<noteq> [] then Some (text_of (wo_show wo) (hd ids))
         else if ex_agents x \<noteq> [] then Some (hd (ex_agents x)) else None)"

definition ran_names :: "world \<Rightarrow> execution \<Rightarrow> string list" where
  "ran_names wo x = map norm_name (ex_agents x @ names_of wo (ex_meta x) ''agent_ids_called'')"

definition agent_failures :: "world \<Rightarrow> test_case \<Rightarrow> execution \<Rightarrow> string list" where
  "agent_failures wo t x = (if opt_truthy (te_agent t) \<and> norm_name (the (te_agent t)) \<notin> set (ran_names wo x)
     then [''expected agent '' @ quoted (the (te_agent t)) @ '' did not run (ran: '' @ str_or (join '', '' (ex_agents x)) ''none'' @ '')''] else [])"

definition tool_failures :: "test_case \<Rightarrow> execution \<Rightarrow> string list" where
  "tool_failures t x = (let missing = filter (\<lambda>k. norm_name k \<notin> set (map norm_name (ex_tools x))) (opt_or (te_tools t) []) in
     if missing \<noteq> [] then [''expected tools not called: '' @ join '', '' missing @ '' (called: '' @ str_or (join '', '' (ex_tools x)) ''none'' @ '')'']
     else [])"

definition output_failures :: "(string \<Rightarrow> string) \<Rightarrow> test_case \<Rightarrow> execution \<Rightarrow> string list" where
  "output_failures repr t x = (let absent = filter (\<lambda>k. \<not> contains (lower k) (lower (ex_response x))) (opt_or (te_contains t) []) in
     if absent \<noteq> [] then [''response does not contain: '' @ join '', '' (map repr absent)] else [])"

definition pattern_failures :: "runner \<Rightarrow> test_case \<Rightarrow> execution \<Rightarrow> string list" where
  "pattern_failures rn t x = (if opt_truthy (te_pattern t) then
       (case rn_search rn (the (te_pattern t)) (ex_response x) of
          Inl e \<Rightarrow> [''expected_output_pattern is not a valid regex: '' @ e]
        | Inr found \<Rightarrow> if found then [] else [''response does not match pattern '' @ rn_repr rn (the (te_pattern t))])
     else [])"

definition judge :: "runner \<Rightarrow> world \<Rightarrow> test_case \<Rightarrow> execution \<Rightarrow> string list" where
  "judge rn wo t x = agent_failures wo t x @ tool_failures t x @ output_failures (rn_repr rn) t x @ pattern_failures rn t x"

definition run_test_case ::
  "runner \<Rightarrow> launch \<Rightarrow> test_case \<Rightarrow> session_manager \<Rightarrow> (string + execution option \<times> test_status \<times> string option) \<times> session_manager" where
  "run_test_case rn l t m =
     (if \<not> te_enabled t then (Inr (None, SKIPPED, Some ''Test case is disabled''), m)
      else case execute_workflow rn l (te_workflow t)
          \<lparr>eq_message = te_input t, eq_meta = [(''test_case_id'', JStr (te_id t))], eq_timeout = te_timeout t, eq_dry_run = False\<rparr> m of
        (Inl e, m1) \<Rightarrow> (Inl e, m1)
      | (Inr x, m1) \<Rightarrow>
         (if \<not> ex_success x then (Inr (Some x, TEST_ERROR, Some (opt_or (ex_message x) ''Workflow run failed'')), m1)
          else let failures = judge rn (la_world l) t x in
            if failures \<noteq> [] then (Inr (Some x, FAILED, Some (join ''; '' failures)), m1)
            else (Inr (Some x, PASSED, None), m1)))"

subsection \<open>Running and recording\<close>

text \<open>\<open>_run_and_record\<close>: an exception is recorded as an error.\<close>

definition result_of :: "launch \<Rightarrow> string option \<Rightarrow> test_case \<Rightarrow> string + execution option \<times> test_status \<times> string option \<Rightarrow> test_result" where
  "result_of l run t v = (let (x, verdict, msg) = (case v of Inl e \<Rightarrow> (None, TEST_ERROR, Some e) | Inr v \<Rightarrow> v) in
     \<lparr>re_id = la_result l, re_case = te_id t, re_workflow = te_workflow t, re_status = verdict,
      re_response = map_option ex_response x, re_agent = Option.bind x (responding_agent (la_world l)),
      re_tools = map_option ex_tools x,
      re_elapsed = (case x of Some x \<Rightarrow> ex_elapsed x | None \<Rightarrow> (la_completed l - la_started l) div 1000),
      re_message = msg, re_trace = map_option ex_trace x, re_started = la_started l, re_completed = la_completed l, re_run = run\<rparr>)"

definition run_and_record ::
  "runner \<Rightarrow> launch \<Rightarrow> string option \<Rightarrow> test_case \<Rightarrow> test_store \<times> session_manager \<Rightarrow> test_result \<times> test_store \<times> session_manager" where
  "run_and_record rn l run t s = (let (v, m) = run_test_case rn l t (snd s); r = result_of l run t v in
     (r, (fst s)\<lparr>st_results := put (re_id r) r (st_results (fst s))\<rparr>, m))"

definition run_one_case ::
  "runner \<Rightarrow> launch \<Rightarrow> string \<Rightarrow> string \<Rightarrow> test_store \<times> session_manager \<Rightarrow> (test_store \<times> session_manager) \<times> (test_error + test_result)" where
  "run_one_case rn l wid i s = (case find_case wid i (fst s) of
      Inl e \<Rightarrow> (s, Inl e)
    | Inr c \<Rightarrow> (case case_response c of
        None \<Rightarrow> (s, Inl (Invalid_case i))
      | Some t \<Rightarrow> (let (r, s1) = run_and_record rn l None t s in (s1, Inr r))))"

fun run_cases ::
  "runner \<Rightarrow> (nat \<Rightarrow> launch) \<Rightarrow> string \<Rightarrow> nat \<Rightarrow> test_case list \<Rightarrow> test_store \<times> session_manager
    \<Rightarrow> test_result list \<times> test_store \<times> session_manager" where
  "run_cases rn ls run k [] s = ([], s)"
| "run_cases rn ls run k (t # ts) s =
     (let (r, s1) = run_and_record rn (ls k) (Some run) t s; (rs, s2) = run_cases rn ls run (Suc k) ts s1 in (r # rs, s2))"

definition count_status :: "test_status \<Rightarrow> test_result list \<Rightarrow> nat" where
  "count_status v rs = length (filter (\<lambda>r. re_status r = v) rs)"

record run_request_body =
  rb_name :: "string option"
  rb_meta :: obj

definition run_workflow_tests ::
  "runner \<Rightarrow> (nat \<Rightarrow> launch) \<Rightarrow> string \<Rightarrow> int \<Rightarrow> int \<Rightarrow> string \<Rightarrow> run_request_body option \<Rightarrow> test_store \<times> session_manager
    \<Rightarrow> (test_store \<times> session_manager) \<times> (test_error + test_run)" where
  "run_workflow_tests rn ls run started completed wid body s = (case list_test_cases wid True (fst s) of
      Inl e \<Rightarrow> (s, Inl e)
    | Inr ts \<Rightarrow>
       if ts = [] then (s, Inl (No_enabled_cases wid))
       else (let (rs, s1) = run_cases rn ls run 0 ts s;
               passed = count_status PASSED rs; failed = count_status FAILED rs; errors = count_status TEST_ERROR rs;
               skipped = count_status SKIPPED rs;
               status = (if errors > 0 then TEST_ERROR else if failed > 0 then FAILED else PASSED);
               r = \<lparr>tr_id = run, tr_workflow = wid, tr_name = (case body of None \<Rightarrow> Some (''Test run '' @ run) | Some b \<Rightarrow> rb_name b),
                 tr_total = length ts, tr_passed = passed, tr_failed = failed, tr_errors = errors, tr_skipped = skipped,
                 tr_status = status, tr_started = started, tr_completed = completed,
                 tr_meta = (case body of None \<Rightarrow> [] | Some b \<Rightarrow> rb_meta b)\<rparr>
             in (((fst s1)\<lparr>st_runs := put run r (st_runs (fst s1))\<rparr>, snd s1), Inr r)))"

text \<open>\<open>xs[:n]\<close>, and the two listings, newest first.\<close>

definition slice_to :: "int \<Rightarrow> 'a list \<Rightarrow> 'a list" where
  "slice_to n xs = (if n < 0 then take (length xs - nat (- n)) xs else take (nat n) xs)"

definition list_test_results :: "string \<Rightarrow> int \<Rightarrow> test_store \<Rightarrow> test_result list" where
  "list_test_results wid n s = slice_to n (sort_key (\<lambda>r. - re_started r) (filter (\<lambda>r. re_workflow r = wid) (map snd (st_results s))))"

definition list_test_runs :: "string \<Rightarrow> int \<Rightarrow> test_store \<Rightarrow> test_run list" where
  "list_test_runs wid n s = slice_to n (sort_key (\<lambda>r. - tr_started r) (filter (\<lambda>r. tr_workflow r = wid) (map snd (st_runs s))))"

subsection \<open>Validation of a saved or drawn workflow\<close>

text \<open>The library as the configuration loader gives it, \<open>None\<close> when a file cannot be read; the nodes and edges of a saved
  workflow are lists of objects, as its model requires.\<close>

record library =
  lb_agents :: "obj list option"
  lb_tools :: "obj list option"
  lb_providers :: "obj list option"
  lb_workflow :: "string \<Rightarrow> obj option"

definition snapshot_lists :: "library \<Rightarrow> obj list \<times> obj list \<times> obj list" where
  "snapshot_lists lib = (case_option [] id (lb_agents lib), case_option [] id (lb_tools lib), case_option [] id (lb_providers lib))"

definition objects_in :: "json \<Rightarrow> obj list" where
  "objects_in v = List.map_filter (\<lambda>x. case x of JObj d \<Rightarrow> Some d | _ \<Rightarrow> None) (json_items v)"

definition library_input :: "library \<Rightarrow> obj list \<Rightarrow> obj list \<Rightarrow> string option \<Rightarrow> obj option \<Rightarrow> bool \<Rightarrow> diagnosis_input" where
  "library_input lib ns conns entry topology probe = (let (agents, tools, providers) = snapshot_lists lib in
     \<lparr>di_nodes = ns, di_connections = conns, di_agents = agents, di_tools = tools, di_providers = providers,
      di_entry = entry, di_topology = topology, di_probe = probe\<rparr>)"

definition diagnose_saved :: "world_config \<Rightarrow> import_system \<Rightarrow> library \<Rightarrow> string \<Rightarrow> bool \<Rightarrow> diagnostic list option" where
  "diagnose_saved wc im lib wid probe = (case lb_workflow lib wid of None \<Rightarrow> Some []
     | Some w \<Rightarrow> if w = [] then Some []
        else (let t = (case jget w ''topology'' of JObj d \<Rightarrow> d | _ \<Rightarrow> []);
                conns = json_or (jget t ''connections'') (jget t ''edges'')
          in diagnose_graph wc im (library_input lib (objects_in (jget t ''nodes'')) (objects_in conns)
               (case jget t ''entry_node'' of JStr e \<Rightarrow> Some e | _ \<Rightarrow> None) (Some t) probe)))"

record graph_request =
  gq_nodes :: "obj list"
  gq_connections :: "obj list"
  gq_entry :: "string option"
  gq_topology :: "obj option"
  gq_probe :: bool

definition validate_graph :: "world_config \<Rightarrow> import_system \<Rightarrow> library \<Rightarrow> graph_request \<Rightarrow> (bool \<times> diagnostic list) option" where
  "validate_graph wc im lib q = map_option (\<lambda>ds. (\<not> list_ex (\<lambda>d. dg_severity d = Sev_error) ds, ds))
     (diagnose_graph wc im (library_input lib (gq_nodes q) (gq_connections q) (gq_entry q) (gq_topology q) (gq_probe q)))"

record validation_report =
  va_valid :: bool
  va_errors :: "(string \<times> string \<times> string) list"
  va_warnings :: "string list"

definition add_blocking :: "diagnostic \<Rightarrow> (string \<times> string \<times> string) list \<Rightarrow> (string \<times> string \<times> string) list" where
  "add_blocking d es = (if dg_message d \<in> (\<lambda>(f, m, ty). m) ` set es then es
     else es @ [(opt_or (dg_field d) ''workflow'', dg_message d, dg_code d)])"

text \<open>The handler of \<open>POST /{workflow_id}/validate\<close>; \<open>raised\<close> is the text of an exception of the diagnosis.\<close>

definition validate_workflow_config ::
  "world_config \<Rightarrow> import_system \<Rightarrow> library \<Rightarrow> runner \<Rightarrow> Workflow_Registry.registry \<Rightarrow> string \<Rightarrow> string \<Rightarrow> validation_report" where
  "validate_workflow_config wc im lib rn reg raised wid =
     (let failed = (\<lambda>e. \<lparr>va_valid = False, va_errors = [(''workflow'', e, ''validation_error'')], va_warnings = []\<rparr>) in
      case check_workflow rn reg wid of Inl e \<Rightarrow> failed e
      | Inr err \<Rightarrow> (case diagnose_saved wc im lib wid False of None \<Rightarrow> failed raised
        | Some ds \<Rightarrow>
           (let errors = fold add_blocking (filter (\<lambda>d. dg_severity d = Sev_error) ds)
              (if opt_truthy err then [(''workflow'', the err, ''validation_error'')] else [])
            in \<lparr>va_valid = (err = None \<and> errors = []), va_errors = errors,
               va_warnings = map dg_message (filter (\<lambda>d. dg_severity d \<noteq> Sev_error) ds)\<rparr>)))"

text \<open>A workflow is reported as valid exactly when the runner accepts it and the diagnosis found no error.\<close>

lemma add_blocking_ne: "add_blocking d es \<noteq> []"
  unfolding add_blocking_def by (cases es) (simp_all split del: if_split split: if_split)

lemma fold_blocking_Nil: "fold add_blocking ds es = [] \<longleftrightarrow> ds = [] \<and> es = []"
  by (induction ds arbitrary: es) (simp_all add: add_blocking_ne)

theorem saved_workflow_valid_iff: "va_valid (validate_workflow_config wc im lib rn reg raised wid) \<longleftrightarrow> check_workflow rn reg wid = Inr None
    \<and> (\<exists>ds. diagnose_saved wc im lib wid False = Some ds \<and> (\<forall>d \<in> set ds. dg_severity d \<noteq> Sev_error))"
proof (cases "check_workflow rn reg wid")
  case (Inr err)
  show ?thesis
  proof (cases "diagnose_saved wc im lib wid False")
    case (Some ds)
    have "(if opt_truthy err then [(''workflow'', the err, ''validation_error'')] else []) = [] \<longleftrightarrow> \<not> opt_truthy err" by simp
    then show ?thesis unfolding validate_workflow_config_def Inr Some Let_def sum.case option.case validation_report.simps fold_blocking_Nil filter_empty_conv
      by (auto simp: opt_truthy_def)
  qed (simp add: validate_workflow_config_def Inr)
qed (simp add: validate_workflow_config_def)

subsection \<open>What a verdict means\<close>

text \<open>What a case asks of an execution.\<close>

definition meets_expectations :: "runner \<Rightarrow> world \<Rightarrow> test_case \<Rightarrow> execution \<Rightarrow> bool" where
  "meets_expectations rn wo t x \<longleftrightarrow>
     (\<forall>a. te_agent t = Some a \<and> a \<noteq> [] \<longrightarrow> norm_name a \<in> norm_name ` (set (ex_agents x) \<union> set (names_of wo (ex_meta x) ''agent_ids_called'')))
     \<and> (\<forall>ks. te_tools t = Some ks \<longrightarrow> norm_name ` set ks \<subseteq> norm_name ` set (ex_tools x))
     \<and> (\<forall>ks. te_contains t = Some ks \<longrightarrow> (\<forall>k \<in> set ks. \<exists>a b. lower (ex_response x) = a @ lower k @ b))
     \<and> (\<forall>p. te_pattern t = Some p \<and> p \<noteq> [] \<longrightarrow> rn_search rn p (ex_response x) = Inr True)"

lemma agent_failures_Nil: "agent_failures wo t x = [] \<longleftrightarrow>
    (\<forall>a. te_agent t = Some a \<and> a \<noteq> [] \<longrightarrow> norm_name a \<in> norm_name ` (set (ex_agents x) \<union> set (names_of wo (ex_meta x) ''agent_ids_called'')))"
  by (cases "te_agent t") (simp_all add: agent_failures_def opt_truthy_def ran_names_def image_Un)

lemma tool_failures_Nil: "tool_failures t x = [] \<longleftrightarrow> (\<forall>ks. te_tools t = Some ks \<longrightarrow> norm_name ` set ks \<subseteq> norm_name ` set (ex_tools x))"
  by (cases "te_tools t") (auto simp: tool_failures_def opt_or_def filter_empty_conv)

lemma output_failures_Nil: "output_failures repr t x = [] \<longleftrightarrow>
    (\<forall>ks. te_contains t = Some ks \<longrightarrow> (\<forall>k \<in> set ks. \<exists>a b. lower (ex_response x) = a @ lower k @ b))"
  by (cases "te_contains t") (auto simp: output_failures_def opt_or_def filter_empty_conv contains_iff)

lemma pattern_failures_Nil: "pattern_failures rn t x = [] \<longleftrightarrow> (\<forall>p. te_pattern t = Some p \<and> p \<noteq> [] \<longrightarrow> rn_search rn p (ex_response x) = Inr True)"
  by (cases "te_pattern t") (auto simp: pattern_failures_def opt_truthy_def split: sum.split)

lemma judge_Nil: "judge rn wo t x = [] \<longleftrightarrow> meets_expectations rn wo t x"
  unfolding judge_def meets_expectations_def append_is_Nil_conv agent_failures_Nil tool_failures_Nil output_failures_Nil pattern_failures_Nil ..

definition verdict_sound :: "runner \<Rightarrow> world \<Rightarrow> test_case \<Rightarrow> execution option \<times> test_status \<times> string option \<Rightarrow> bool" where
  "verdict_sound rn wo t v \<longleftrightarrow> (case v of
      (Some x, PASSED, msg) \<Rightarrow> te_enabled t \<and> ex_success x \<and> meets_expectations rn wo t x \<and> msg = None
    | (Some x, FAILED, msg) \<Rightarrow> te_enabled t \<and> ex_success x \<and> \<not> meets_expectations rn wo t x \<and> msg \<noteq> None
    | (Some x, TEST_ERROR, msg) \<Rightarrow> te_enabled t \<and> \<not> ex_success x \<and> msg \<noteq> None
    | (None, SKIPPED, msg) \<Rightarrow> \<not> te_enabled t \<and> msg \<noteq> None
    | _ \<Rightarrow> False)"

lemma run_test_case_sound:
  assumes "run_test_case rn l t m = (Inr v, m')"
  shows "verdict_sound rn (la_world l) t v"
  using assms unfolding run_test_case_def
  by (auto simp: verdict_sound_def Let_def judge_Nil split: if_splits prod.splits sum.splits)

text \<open>A test case passes exactly when its run succeeded and met every expectation: the agent ran, the tools were called, the
  texts are in the answer, the pattern was found; it fails when it did not, is an error when the run did not succeed, and skipped
  when it is disabled.  A message is there exactly when the case did not pass.\<close>

theorem verdict_exact: "case fst (run_test_case rn l t m) of Inl e \<Rightarrow> te_enabled t | Inr v \<Rightarrow> verdict_sound rn (la_world l) t v"
proof (cases "fst (run_test_case rn l t m)")
  case (Inl e)
  then show ?thesis by (auto simp: run_test_case_def split: if_splits)
next
  case (Inr v)
  then have "run_test_case rn l t m = (Inr v, snd (run_test_case rn l t m))" by (metis prod.collapse)
  then show ?thesis using run_test_case_sound Inr by simp
qed

subsection \<open>What a test run stores\<close>

lemma result_status:
  assumes "te_enabled t"
  shows "re_status (fst (run_and_record rn l run t s)) \<in> {PASSED, FAILED, TEST_ERROR}"
proof -
  have "(case fst (run_test_case rn l t (snd s)) of Inl e \<Rightarrow> True | Inr v \<Rightarrow> fst (snd v) \<in> {PASSED, FAILED, TEST_ERROR})"
    using assms by (auto simp: run_test_case_def Let_def split: prod.split sum.split)
  then show ?thesis by (auto simp: run_and_record_def result_of_def Let_def split: prod.splits sum.splits)
qed

lemma run_and_record_facts:
  "re_id (fst (run_and_record rn l run t s)) = la_result l" "re_case (fst (run_and_record rn l run t s)) = te_id t"
  "re_run (fst (run_and_record rn l run t s)) = run" "re_workflow (fst (run_and_record rn l run t s)) = te_workflow t"
  "fst (snd (run_and_record rn l run t s)) = (fst s)\<lparr>st_results := put (la_result l) (fst (run_and_record rn l run t s)) (st_results (fst s))\<rparr>"
  by (simp_all add: run_and_record_def result_of_def Let_def split_beta)

text \<open>Fresh ids for the results of a run.\<close>

definition fresh_results :: "(nat \<Rightarrow> launch) \<Rightarrow> nat \<Rightarrow> nat \<Rightarrow> test_store \<Rightarrow> bool" where
  "fresh_results ls k n s \<longleftrightarrow> distinct (map (\<lambda>i. la_result (ls i)) [k..<k + n]) \<and> (\<lambda>i. la_result (ls i)) ` {k..<k + n} \<inter> set (keys (st_results s)) = {}"

lemma fresh_results_Suc:
  assumes "fresh_results ls k (Suc n) s"
  shows "la_result (ls k) \<notin> set (keys (st_results s))"
    "fresh_results ls (Suc k) n (s\<lparr>st_results := put (la_result (ls k)) r (st_results s)\<rparr>)"
proof -
  have "[k..<k + Suc n] = k # [Suc k..<Suc k + n]" by (simp add: upt_conv_Cons)
  then have d: "la_result (ls k) \<notin> (\<lambda>i. la_result (ls i)) ` {Suc k..<Suc k + n}" "distinct (map (\<lambda>i. la_result (ls i)) [Suc k..<Suc k + n])"
    using assms by (auto simp: fresh_results_def simp del: upt_Suc)
  have i: "{k..<k + Suc n} = insert k {Suc k..<Suc k + n}" by auto
  show "la_result (ls k) \<notin> set (keys (st_results s))" using assms unfolding fresh_results_def i by auto
  show "fresh_results ls (Suc k) n (s\<lparr>st_results := put (la_result (ls k)) r (st_results s)\<rparr>)"
    using assms d unfolding fresh_results_def i by (simp del: upt_Suc)
qed

lemma run_cases_stores:
  assumes "run_cases rn ls run k ts s = (rs, s')" "fresh_results ls k (length ts) (fst s)" "\<forall>t \<in> set ts. te_enabled t"
  shows "st_results (fst s') = st_results (fst s) @ map (\<lambda>r. (re_id r, r)) rs \<and> map re_case rs = map te_id ts
    \<and> (\<forall>r \<in> set rs. re_run r = Some run \<and> re_status r \<in> {PASSED, FAILED, TEST_ERROR})
    \<and> st_cases (fst s') = st_cases (fst s) \<and> st_runs (fst s') = st_runs (fst s)"
  using assms
proof (induction ts arbitrary: k s rs)
  case (Cons t ts)
  define r where "r = fst (run_and_record rn (ls k) (Some run) t s)"
  define s1 where "s1 = snd (run_and_record rn (ls k) (Some run) t s)"
  note facts = run_and_record_facts [of rn "ls k" "Some run" t s, folded r_def s1_def]
  obtain rs' where rs: "rs = r # rs'" "run_cases rn ls run (Suc k) ts s1 = (rs', s')"
    using Cons.prems(1) by (auto simp: r_def s1_def Let_def split: prod.splits)
  have f: "la_result (ls k) \<notin> set (keys (st_results (fst s)))" "fresh_results ls (Suc k) (length ts) (fst s1)"
    using fresh_results_Suc [of ls k "length ts" "fst s"] Cons.prems(2) facts(5) by simp_all
  have p: "st_results (fst s1) = st_results (fst s) @ [(re_id r, r)]" using f(1) facts(1,5) by (simp add: put_new)
  have st: "re_status r \<in> {PASSED, FAILED, TEST_ERROR}" using result_status [of t rn "ls k" "Some run" s] Cons.prems(3) r_def by simp
  have "\<forall>t \<in> set ts. te_enabled t" using Cons.prems(3) by simp
  from Cons.IH [OF rs(2) f(2) this] show ?case using p st facts(1-5) by (simp add: rs(1))
qed simp

lemma case_response_fields:
  assumes "case_response c = Some t"
  shows "te_id t = kc_id c" "te_workflow t = kc_workflow c" "kc_enabled c = Some (te_enabled t)"
  using assms by (auto simp: case_response_def split: option.splits)

lemma case_responses_ids: "case_responses cs = Inr ts \<Longrightarrow> map te_id ts = map kc_id cs"
proof (induction cs arbitrary: ts)
  case (Cons c cs)
  then obtain t us where "case_response c = Some t" "case_responses cs = Inr us" "ts = t # us"
    by (cases "case_responses cs") (auto split: option.splits)
  then show ?case using Cons.IH case_response_fields(1) by simp
qed simp

lemma case_responses_from: "case_responses cs = Inr ts \<Longrightarrow> t \<in> set ts \<Longrightarrow> \<exists>c \<in> set cs. case_response c = Some t"
proof (induction cs arbitrary: ts)
  case (Cons c cs)
  then obtain t' us where "case_response c = Some t'" "case_responses cs = Inr us" "ts = t' # us"
    by (cases "case_responses cs") (auto split: option.splits)
  then show ?case using Cons.IH Cons.prems(2) by auto
qed simp

text \<open>The enabled cases of a workflow.\<close>

definition enabled_cases :: "string \<Rightarrow> test_store \<Rightarrow> stored_case list" where
  "enabled_cases wid s = filter (\<lambda>c. kc_workflow c = wid \<and> kc_enabled c = Some True) (map snd (st_cases s))"

lemma list_enabled: "list_test_cases wid True s = case_responses (enabled_cases wid s)"
  by (simp add: list_test_cases_def enabled_cases_def)

lemma listed_enabled:
  assumes "list_test_cases wid True s = Inr ts" "t \<in> set ts"
  shows "te_enabled t"
proof -
  obtain c where c: "c \<in> set (enabled_cases wid s)" "case_response c = Some t"
    using case_responses_from assms unfolding list_enabled by blast
  then show ?thesis using case_response_fields(3) [OF c(2)] by (simp add: enabled_cases_def)
qed

lemma count_status_cover:
  assumes "\<forall>r \<in> set rs. re_status r \<in> {PASSED, FAILED, TEST_ERROR}"
  shows "count_status PASSED rs + count_status FAILED rs + count_status TEST_ERROR rs = length rs" "count_status SKIPPED rs = 0"
  using assms by (induction rs) (auto simp: count_status_def)

lemma count_status_0: "count_status v rs = 0 \<longleftrightarrow> (\<forall>r \<in> set rs. re_status r \<noteq> v)"
  by (auto simp: count_status_def filter_empty_conv)

text \<open>C31: A test run executes exactly the enabled cases of its workflow, once each and in order, and appends one result per case
  under its id; its counts are those of these results and add up to the number of cases, none is skipped, and its status is the
  worst of theirs.\<close>

theorem test_run_exact:
  assumes "run_workflow_tests rn ls run started completed wid body s = (s', Inr r)"
    and "fresh_results ls 0 (length (enabled_cases wid (fst s))) (fst s)" "run \<notin> set (keys (st_runs (fst s)))"
  shows "\<exists>rs. st_results (fst s') = st_results (fst s) @ map (\<lambda>x. (re_id x, x)) rs \<and> (\<forall>x \<in> set rs. re_run x = Some run)
    \<and> map re_case rs = map kc_id (enabled_cases wid (fst s))
    \<and> st_runs (fst s') = st_runs (fst s) @ [(run, r)] \<and> st_cases (fst s') = st_cases (fst s)
    \<and> tr_total r = length rs \<and> tr_passed r + tr_failed r + tr_errors r = tr_total r \<and> tr_skipped r = 0
    \<and> tr_passed r = count_status PASSED rs \<and> tr_failed r = count_status FAILED rs
    \<and> (tr_status r = PASSED \<longleftrightarrow> (\<forall>x \<in> set rs. re_status x = PASSED)) \<and> (tr_status r = TEST_ERROR \<longleftrightarrow> (\<exists>x \<in> set rs. re_status x = TEST_ERROR))"
proof -
  obtain ts where ts: "list_test_cases wid True (fst s) = Inr ts" "ts \<noteq> []"
    using assms(1) by (auto simp: run_workflow_tests_def split: sum.splits if_splits)
  obtain rs s1 where rs: "run_cases rn ls run 0 ts s = (rs, s1)" by (metis surj_pair)
  define status where "status = (if count_status TEST_ERROR rs > 0 then TEST_ERROR else if count_status FAILED rs > 0 then FAILED else PASSED)"
  have s': "fst s' = (fst s1)\<lparr>st_runs := put run r (st_runs (fst s1))\<rparr>" and r: "tr_total r = length ts" "tr_passed r = count_status PASSED rs"
    "tr_failed r = count_status FAILED rs" "tr_errors r = count_status TEST_ERROR rs" "tr_skipped r = count_status SKIPPED rs" "tr_status r = status"
    using assms(1) ts rs by (auto simp: run_workflow_tests_def Let_def status_def)
  have en: "\<forall>t \<in> set ts. te_enabled t" using listed_enabled [OF ts(1)] by blast
  have ids: "map te_id ts = map kc_id (enabled_cases wid (fst s))" using case_responses_ids ts(1) unfolding list_enabled by blast
  then have n: "length ts = length (enabled_cases wid (fst s))" by (metis length_map)
  note st = run_cases_stores [OF rs assms(2) [folded n] en]
  have ok: "\<forall>x \<in> set rs. re_status x \<in> {PASSED, FAILED, TEST_ERROR}" using st by blast
  note cover = count_status_cover [OF ok]
  have len: "length rs = length ts" using st by (metis length_map)
  have "status = PASSED \<longleftrightarrow> count_status TEST_ERROR rs = 0 \<and> count_status FAILED rs = 0" "status = TEST_ERROR \<longleftrightarrow> count_status TEST_ERROR rs \<noteq> 0"
    by (simp_all add: status_def)
  then have "status = PASSED \<longleftrightarrow> (\<forall>x \<in> set rs. re_status x = PASSED)" "status = TEST_ERROR \<longleftrightarrow> (\<exists>x \<in> set rs. re_status x = TEST_ERROR)"
    unfolding count_status_0 using ok by auto
  moreover have "st_runs (fst s') = st_runs (fst s) @ [(run, r)]" using st s' assms(3) by (simp add: put_new)
  ultimately show ?thesis using st cover r len ids s' by (intro exI [of _ rs]) simp
qed

subsection \<open>Cases that cannot be shown\<close>

definition nulls_a_field :: "case_update \<Rightarrow> bool" where
  "nulls_a_field u \<longleftrightarrow> cu_name u = Some None \<or> cu_input u = Some None \<or> cu_timeout u = Some None \<or> cu_enabled u = Some None \<or> cu_meta u = Some None"

lemma case_response_None: "kc_name c = None \<or> kc_input c = None \<or> kc_timeout c = None \<or> kc_enabled c = None \<or> kc_meta c = None
    \<Longrightarrow> case_response c = None"
  by (elim disjE) (simp_all add: case_response_def split: option.split)

lemma nulled_response:
  assumes "nulls_a_field u"
  shows "case_response (apply_update now u c) = None"
  by (rule case_response_None) (use assms in \<open>auto simp: nulls_a_field_def apply_update_def updated_def\<close>)

lemma case_responses_stuck: "c \<in> set cs \<Longrightarrow> case_response c = None \<Longrightarrow> \<exists>e. case_responses cs = Inl e"
  by (induction cs) (auto split: option.split)

text \<open>An update that sends null for the name, the message, the time limit, the switch or the metadata is answered with an error
  but stored all the same; from then on the cases of the workflow cannot be listed, and when the case is still enabled no test of
  the workflow can be run.\<close>

theorem nulled_case_blocks:
  assumes "find_case wid i s = Inr c" "nulls_a_field u"
  shows "\<exists>s' e. update_test_case now wid i u s = (s', Inl (Invalid_case (kc_id c))) \<and> list_test_cases wid False s' = Inl e
    \<and> (kc_enabled c = Some True \<and> cu_enabled u = None \<longrightarrow> (\<exists>e. run_workflow_tests rn ls run t0 t1 wid body (s', m) = ((s', m), Inl e)))"
proof -
  let ?c = "apply_update now u c" let ?s = "s\<lparr>st_cases := put i (apply_update now u c) (st_cases s)\<rparr>"
  have c: "get (st_cases s) i = Some c" "kc_workflow c = wid" using assms(1) by (auto simp: find_case_def split: option.splits if_splits)
  have u: "update_test_case now wid i u s = (?s, Inl (Invalid_case (kc_id c)))"
    using assms nulled_response [OF assms(2), of now c] by (simp add: update_test_case_def one_response_def) (simp add: apply_update_def)
  have "(i, ?c) \<in> set (put i ?c (st_cases s))" by (rule map_of_SomeD) simp
  then have m: "?c \<in> set (map snd (st_cases ?s))" by force
  have w: "kc_workflow ?c = wid" using c(2) by (simp add: apply_update_def)
  have l: "\<exists>e. list_test_cases wid b ?s = Inl e" if "\<not> b \<or> kc_enabled ?c = Some True" for b
    unfolding list_test_cases_def by (rule case_responses_stuck [OF _ nulled_response [OF assms(2)]]) (use m w that in auto)
  have "\<exists>e. run_workflow_tests rn ls run t0 t1 wid body (?s, m) = ((?s, m), Inl e)" if "kc_enabled c = Some True" "cu_enabled u = None"
    using l [of True] that by (auto simp: run_workflow_tests_def apply_update_def updated_def)
  moreover obtain e where "list_test_cases wid False ?s = Inl e" using l [of False] by blast
  ultimately show ?thesis using u by (intro exI [of _ ?s] exI [of _ e]) simp
qed

subsection \<open>Two managers, one file\<close>

text \<open>The sessions that the manager and the file know are among given ids.\<close>

definition within_ids :: "nat set \<Rightarrow> session_manager \<Rightarrow> bool" where
  "within_ids S m \<longleftrightarrow> cv_id ` snd ` set (sg_sessions m) \<subseteq> S"

definition file_within :: "nat set \<Rightarrow> session_manager \<Rightarrow> bool" where
  "file_within S m \<longleftrightarrow> (case sg_file m of Saved cs \<Rightarrow> cv_id ` set cs \<subseteq> S | _ \<Rightarrow> True)"

lemma ids_put: "cv_id ` snd ` set (put k c d) \<subseteq> insert (cv_id c) (cv_id ` snd ` set d)"
  by (induction d) auto

lemma within_put: "within_ids S m \<Longrightarrow> cv_id c \<in> S \<Longrightarrow> sg_sessions m' = put k c (sg_sessions m) \<Longrightarrow> within_ids S m'"
  using ids_put [of k c "sg_sessions m"] unfolding within_ids_def by (simp only:) (meson insert_subset order_trans)

lemma within_store: "within_ids S m \<Longrightarrow> cv_id c \<in> S \<Longrightarrow> within_ids S (store_session c m)"
  by (erule within_put) simp_all

lemma within_save [simp]: "within_ids S (save_sessions wo m) \<longleftrightarrow> within_ids S m"
  by (simp add: within_ids_def)

lemma file_save: "within_ids S m \<Longrightarrow> wo_fs_ok wo \<or> file_within S m \<Longrightarrow> file_within S (save_sessions wo m)"
  by (auto simp: save_sessions_def file_within_def within_ids_def)

lemma file_store [simp]: "file_within S (store_session c m) \<longleftrightarrow> file_within S m"
  by (simp add: file_within_def store_session_def)

lemma start_run_record_file: "start_run_record wo i wid c message meta m = (rec, m') \<Longrightarrow> sg_file m' = sg_file m"
  by (auto simp: start_run_record_def Let_def split: if_splits prod.splits)

lemma finish_run_record_file [simp]: "sg_file (finish_run_record wo i out m) = sg_file m"
  by (simp add: finish_run_record_def split: sum.splits)

lemma fail_message_file [simp]: "sg_file (fail_message wo rec e m) = sg_file m"
  by (simp add: fail_message_def split: option.splits)

lemma complete_message_within:
  assumes "complete_message wo rec c res m = (r, m')" "within_ids S m" "file_within S m" "cv_id c \<in> S"
  shows "within_ids S m' \<and> file_within S m'"
proof -
  define c1 where "c1 = add_message (wo_now wo) message_role.ASSISTANT (str_or (sc_response res) ''I could not generate a response.'')
    [(''runtime'', JStr ''crewai''), (''trace_steps'', sc_trace res)] c"
  define c2 where "c2 = c1\<lparr>cv_meta := put ''last_run'' (JObj (sc_meta res)) (put ''last_trace_steps'' (sc_trace res) (cv_meta c1)), cv_updated := wo_now wo\<rparr>"
  have c2: "cv_id c2 = cv_id c" "sg_sessions m' = put (cv_id c2) c2 (sg_sessions m)" "sg_file m' = sg_file (save_sessions wo (store_session c2 m))"
    using assms(1) unfolding complete_message_def Let_def c1_def [symmetric] c2_def [symmetric]
    by (auto simp: c1_def c2_def split: option.splits)
  have "file_within S (save_sessions wo (store_session c2 m))" by (rule file_save) (simp_all add: within_store assms c2(1))
  then show ?thesis using within_put [OF assms(2), of c2 m'] c2 assms(4) by (simp add: file_within_def)
qed

lemma run_accepted_within:
  assumes "run_accepted run wo i w wid c message meta m = (res, m')" "within_ids S m" "file_within S m" "cv_id c \<in> S"
  shows "within_ids S m' \<and> file_within S m'"
  using assms(1)
proof (cases rule: run_acceptedE)
  case (failed e rec m1)
  then show ?thesis using assms(2,3) start_run_record_sessions start_run_record_file by (simp add: within_ids_def file_within_def)
next
  case (completed sc rec m1 r)
  have "within_ids S m1" "file_within S m1"
    using assms(2,3) start_run_record_sessions [OF completed(1)] start_run_record_file [OF completed(1)] by (simp_all add: within_ids_def file_within_def)
  then show ?thesis using complete_message_within [OF completed(3)] assms(4) by blast
qed

lemma process_message_within:
  assumes "process_message run wo i sid message mt meta m = (res, m')" "within_ids S m" "file_within S m" "sid \<in> S" "manager_ok m"
  shows "within_ids S m' \<and> file_within S m'"
proof (cases "get (sg_sessions m) sid")
  case None
  then show ?thesis using assms by (simp add: process_message_def get_session_def)
next
  case (Some c)
  have id: "cv_id c \<in> S" using assms(4,5) Some by (auto simp: manager_ok_def)
  let ?c = "increment_turn (wo_now wo) (add_message (wo_now wo) message_role.USER message [(''runtime'', JStr ''crewai'')] c)"
  let ?l = "add_message (wo_now wo) message_role.ASSISTANT limit_reply [(''runtime'', JStr ''crewai''), (''limited'', JBool True)] (?c\<lparr>cv_active := False\<rparr>)"
  consider "m' = m" | "m' = save_sessions wo (store_session ?l m)"
    | w wid where "run_accepted run wo i w wid ?c message meta (store_session ?c m) = (res, m')"
    using assms(1) Some by (auto simp: process_message_def get_session_def Let_def split: if_splits option.splits)
  then show ?thesis
  proof cases
    case 2
    then show ?thesis using assms(2,3) id by (simp add: within_store file_save)
  next
    case 3
    have "within_ids S (store_session ?c m)" by (rule within_store [OF assms(2)]) (simp add: id)
    then show ?thesis by (rule run_accepted_within [OF 3]) (simp_all add: assms(3) id)
  qed (simp add: assms)
qed

lemma execution_within:
  assumes "execute_workflow rn l wid q m = (v, m')" "check_workflow rn (sg_registry m) wid = Inr None" "\<not> eq_dry_run q"
    and "manager_ok m" "wo_fs_ok (la_world l)" "within_ids S m" "la_session l \<in> S"
  shows "file_within S m'"
proof -
  obtain w where w: "find_workflow (sg_registry m) wid = Some w" using assms(2) by (auto simp: check_workflow_def split: option.splits)
  obtain c m1 where c: "create_session (la_world l) (la_session l) wid u meta m = (Inr c, m1)" "cv_id c = la_session l"
      "m1 = save_sessions (la_world l) (m\<lparr>sg_sessions := put (la_session l) c (sg_sessions m)\<rparr>)"
      if "u = request_user (eq_meta q)" "meta = merge [(''test_run_id'', JStr (la_test_run l))] (merge [(''source'', JStr ''workflow_execute'')] (eq_meta q))"
    for u meta using w by (simp add: create_session_def Let_def)
  let ?u = "request_user (eq_meta q)" let ?meta = "merge [(''source'', JStr ''workflow_execute'')] (eq_meta q)"
  note c = c [OF refl refl]
  have m0: "within_ids S (m\<lparr>sg_sessions := put (la_session l) c (sg_sessions m)\<rparr>)" by (rule within_put [OF assms(6)]) (simp_all add: c(2) assms(7))
  have m1: "within_ids S m1" "file_within S m1" "manager_ok m1"
    using m0 file_save [OF m0] assms(5) manager_ok_put [OF assms(4), of m1 c] by (simp_all add: c)
  obtain res m2 where p: "process_message (rn_run rn) (la_world l) (la_record l) (la_session l) (eq_message q) None ?meta m1 = (res, m2)" by fastforce
  have "m' = m2" using assms(1-3) c p by (auto simp: execute_workflow_def run_workflow_test_def split: sum.splits)
  then show ?thesis using process_message_within [OF p m1(1,2) assms(7) m1(3)] by simp
qed

lemma load_within:
  assumes "file_within S m" "k \<notin> S"
  shows "get (sg_sessions (load_sessions (m\<lparr>sg_sessions := []\<rparr>))) k = None"
proof -
  have h: "get (fold (\<lambda>c. put (cv_id c) c) cs d) k = get d k" if "cv_id ` set cs \<subseteq> S" for cs d
    using that assms(2) by (induction cs arbitrary: d) auto
  show ?thesis
  proof (cases "sg_file m")
    case (Saved cs)
    then have "cv_id ` set cs \<subseteq> S" using assms(1) by (simp add: file_within_def)
    from h [OF this, of "[]"] show ?thesis by (simp add: load_sessions_def Saved)
  qed (simp_all add: load_sessions_def)
qed


subsection \<open>A failed run passes\<close>

text \<open>What a case hands to the session manager.\<close>

definition case_meta :: "test_case \<Rightarrow> obj" where
  "case_meta t = [(''source'', JStr ''workflow_execute''), (''test_case_id'', JStr (te_id t))]"

definition case_session :: "launch \<Rightarrow> test_case \<Rightarrow> conversation" where
  "case_session l t = \<lparr>cv_id = la_session l, cv_messages = [], cv_notes = [], cv_turns = 0, cv_active = True,
     cv_created = wo_now (la_world l), cv_updated = wo_now (la_world l),
     cv_meta = [(''workflow_id'', JStr (te_workflow t)), (''user_id'', JStr ''workflow-runner''), (''runtime'', JStr ''crewai''),
       (''test_run_id'', JStr (la_test_run l)), (''source'', JStr ''workflow_execute''), (''test_case_id'', JStr (te_id t))]\<rparr>"

text \<open>C33: A test case without expectations passes although CrewAI's work ended in an exception: the text of the exception is
  taken for the workflow's answer.\<close>

theorem failed_run_passes:
  assumes "rn_run rn = crew_runtime (\<lambda>_. Inl e) show env frames"
    and "find_workflow (sg_registry m) (te_workflow t) = Some w" "te_workflow t \<noteq> []" "check_workflow rn (sg_registry m) (te_workflow t) = Inr None"
    and "te_enabled t" "\<not> opt_truthy (te_agent t)" "\<not> opt_truthy (te_tools t)" "\<not> opt_truthy (te_contains t)" "\<not> opt_truthy (te_pattern t)"
    and "0 < sg_limit m" "wo_db_ok (la_world l)" "la_record l \<notin> ru_id ` set (sg_runs m)" "sg_since_prune m + 1 < 50"
    and "prepare_run show env w (te_input t) (wo_id_text (la_world l) (la_session l)) ''workflow-runner''
       (run_metadata (la_world l) (with_user_message (la_world l) (te_input t) (case_session l t)) (case_meta t)) = Inr p"
  shows "\<exists>x m'. run_test_case rn l t m = (Inr (Some x, PASSED, None), m') \<and> ex_response x = strip (''Error during CrewAI execution: '' @ e)"
proof -
  let ?wo = "la_world l" let ?c = "case_session l t"
  let ?q = "\<lparr>eq_message = te_input t, eq_meta = [(''test_case_id'', JStr (te_id t))], eq_timeout = te_timeout t, eq_dry_run = False\<rparr>"
  have meta: "merge [(''source'', JStr ''workflow_execute'')] [(''test_case_id'', JStr (te_id t))] = case_meta t" by (simp add: merge_def case_meta_def)
  have user: "request_user [(''test_case_id'', JStr (te_id t))] = Some ''workflow-runner''" by (simp add: request_user_def)
  define m1 where "m1 = save_sessions ?wo (m\<lparr>sg_sessions := put (la_session l) ?c (sg_sessions m)\<rparr>)"
  have c: "create_session ?wo (la_session l) (te_workflow t) (Some ''workflow-runner'') (merge [(''test_run_id'', JStr (la_test_run l))] (case_meta t)) m = (Inr ?c, m1)"
    using assms(2) by (simp add: create_session_def Let_def m1_def case_session_def merge_def case_meta_def opt_or_def)
  have f: "get (sg_sessions m1) (la_session l) = Some ?c" "cv_active ?c" "sg_registry m1 = sg_registry m" "sg_limit m1 = sg_limit m" "sg_runs m1 = sg_runs m"
    "sg_since_prune m1 = sg_since_prune m" "cv_id ?c = la_session l" "workflow_of ?wo ?c = te_workflow t" "opt_or (user_of (wo_show ?wo) (cv_meta ?c)) [] = ''workflow-runner''"
    by (simp_all add: m1_def case_session_def workflow_of_def jget_def get_default_def text_of_def assms(3) user_of_def opt_or_def)
  obtain res m2 where p: "process_message (rn_run rn) ?wo (la_record l) (la_session l) (te_input t) None (case_meta t) m1 = (res, m2)" by fastforce
  obtain r where r: "res = Inr r" "cr_response r = strip (''Error during CrewAI execution: '' @ e)"
    using failed_kickoff_reply [of m1 "la_session l" ?c ?wo w "la_record l" e "show" env frames "te_input t" "case_meta t" res m2 p] p assms f by auto
  have "\<exists>x. execute_workflow rn l (te_workflow t) ?q m = (Inr x, m2) \<and> ex_success x \<and> ex_response x = strip (''Error during CrewAI execution: '' @ e)"
    using assms(4) c p r by (simp add: execute_workflow_def run_workflow_test_def meta user f(7))
  then obtain x where x: "execute_workflow rn l (te_workflow t) ?q m = (Inr x, m2)" "ex_success x" "ex_response x = strip (''Error during CrewAI execution: '' @ e)" by blast
  have "meets_expectations rn ?wo t x" using assms(6-9) by (auto simp: meets_expectations_def opt_truthy_def split: option.splits)
  then have "run_test_case rn l t m = (Inr (Some x, PASSED, None), m2)" using x(1,2) assms(5) by (simp add: run_test_case_def judge_Nil)
  then show ?thesis using x(3) by blast
qed

subsection \<open>Examples\<close>

definition demo_runner :: "(run_args \<Rightarrow> runtime_outcome) \<Rightarrow> runner" where
  "demo_runner run = \<lparr>rn_run = run, rn_files = \<lparr>cf_tools = Inr [], cf_agents = Loaded [Runtime_Plan.demo_agent ''a''], cf_workflows = Absent\<rparr>,
     rn_dependency_text = (\<lambda>_. []), rn_search = (\<lambda>_ _. Inr True), rn_repr = id\<rparr>"

definition demo_launch :: launch where
  "demo_launch = \<lparr>la_world = Sessions.demo_world, la_session = 2, la_record = 0, la_test_run = ''t'', la_result = ''r'', la_elapsed = 0,
     la_started = 0, la_completed = 0\<rparr>"

definition demo_case :: stored_case where
  "demo_case = \<lparr>kc_id = ''k'', kc_workflow = ''w'', kc_name = Some ''n'', kc_description = None, kc_input = Some ''hi'', kc_agent = None,
     kc_tools = None, kc_contains = None, kc_pattern = None, kc_timeout = Some 60, kc_enabled = Some True, kc_created = 0, kc_updated = 0,
     kc_meta = Some []\<rparr>"

definition demo_store :: test_store where
  "demo_store = \<lparr>st_cases = [(''k'', demo_case)], st_results = [], st_runs = []\<rparr>"

lemma demo_check: "check_workflow (demo_runner run) (sg_registry demo_manager) ''w'' = Inr None"
  by (simp add: check_workflow_def demo_manager_facts(5) demo_runner_def demo_workflow_def default_workflow_def one_node_def default_node_def
      node_ids_def validate_workflow_agent_references_def get_all_agent_ids_def topology_agents_def Runtime_Plan.demo_agent_def)

theorem test_run_exact_witness:
  "\<exists>s' r. run_workflow_tests (demo_runner (\<lambda>_. \<lparr>oc_frames = [], oc_result = Inl (''E'', [])\<rparr>)) (\<lambda>_. demo_launch) ''u'' 0 0 ''w'' None (demo_store, demo_manager)
     = (s', Inr r) \<and> tr_total r = 1 \<and> length (st_results (fst s')) = 1"
proof -
  let ?rn = "demo_runner (\<lambda>_. \<lparr>oc_frames = [], oc_result = Inl (''E'', [])\<rparr>)"
  have l: "list_test_cases ''w'' True demo_store = Inr [the (case_response demo_case)]" "enabled_cases ''w'' demo_store = [demo_case]"
    by (simp_all add: list_test_cases_def demo_store_def demo_case_def case_response_def enabled_cases_def)
  obtain s' r where run: "run_workflow_tests ?rn (\<lambda>_. demo_launch) ''u'' 0 0 ''w'' None (demo_store, demo_manager) = (s', Inr r)"
    by (cases "run_cases ?rn (\<lambda>_. demo_launch) ''u'' 0 [the (case_response demo_case)] (demo_store, demo_manager)")
      (simp add: run_workflow_tests_def l(1) Let_def)
  have fresh: "fresh_results (\<lambda>_. demo_launch) 0 (length (enabled_cases ''w'' (fst (demo_store, demo_manager)))) (fst (demo_store, demo_manager))"
    by (simp add: l(2) fresh_results_def) (simp add: demo_store_def keys_def)
  have "''u'' \<notin> set (keys (st_runs (fst (demo_store, demo_manager))))" by (simp add: demo_store_def keys_def)
  from test_run_exact [OF run fresh this] obtain rs where rs: "st_results (fst s') = st_results demo_store @ map (\<lambda>x. (re_id x, x)) rs"
      "map re_case rs = map kc_id (enabled_cases ''w'' demo_store)" "tr_total r = length rs" unfolding fst_conv by blast
  have "length (map re_case rs) = 1" by (simp only: rs(2) l(2)) simp
  then have "length rs = 1" by simp
  then show ?thesis using run rs(1,3) by (auto simp: demo_store_def)
qed

definition no_update :: case_update where
  "no_update = \<lparr>cu_name = None, cu_description = None, cu_input = None, cu_agent = None, cu_tools = None, cu_contains = None, cu_pattern = None,
     cu_timeout = None, cu_enabled = None, cu_meta = None\<rparr>"

theorem nulled_case_blocks_witness:
  "\<exists>s' e. update_test_case 1 ''w'' ''k'' (no_update\<lparr>cu_meta := Some None\<rparr>) demo_store = (s', Inl (Invalid_case ''k'')) \<and> list_test_cases ''w'' False s' = Inl e"
proof -
  have f: "find_case ''w'' ''k'' demo_store = Inr demo_case" by (simp add: find_case_def demo_store_def demo_case_def)
  have n: "nulls_a_field (no_update\<lparr>cu_meta := Some None\<rparr>)" by (simp add: nulls_a_field_def)
  have "kc_id demo_case = ''k''" by (simp add: demo_case_def)
  then show ?thesis
    using nulled_case_blocks [OF f n, of 1 "demo_runner (\<lambda>_. \<lparr>oc_frames = [], oc_result = Inl ([], [])\<rparr>)" "\<lambda>_. demo_launch" "''u''" 0 0 None demo_manager]
    by auto
qed


theorem failed_run_passes_witness:
  "\<exists>x m'. run_test_case (demo_runner (crew_runtime (\<lambda>_. Inl ''boom'') (\<lambda>v. []) demo_env [])) demo_launch (the (case_response demo_case)) demo_manager
     = (Inr (Some x, PASSED, None), m') \<and> ex_response x = strip ''Error during CrewAI execution: boom''"
proof -
  let ?t = "the (case_response demo_case)" let ?rn = "demo_runner (crew_runtime (\<lambda>_. Inl ''boom'') (\<lambda>v. []) demo_env [])"
  let ?md = "run_metadata (la_world demo_launch) (with_user_message (la_world demo_launch) (te_input ?t) (case_session demo_launch ?t)) (case_meta ?t)"
  have t: "te_workflow ?t = ''w''" "te_enabled ?t" "te_agent ?t = None" "te_tools ?t = None" "te_contains ?t = None" "te_pattern ?t = None" "te_id ?t = ''k''"
    by (simp_all add: demo_case_def case_response_def)
  have w: "find_workflow (sg_registry demo_manager) (te_workflow ?t) = Some demo_workflow" using demo_manager_facts(5) t(1) by simp
  have c: "check_workflow ?rn (sg_registry demo_manager) (te_workflow ?t) = Inr None" using demo_check t(1) by simp
  have o: "\<not> opt_truthy (te_agent ?t)" "\<not> opt_truthy (te_tools ?t)" "\<not> opt_truthy (te_contains ?t)" "\<not> opt_truthy (te_pattern ?t)"
    by (simp_all add: t opt_truthy_def)
  have h: "jget ?md ''history'' = JList (take_last 20 (conversation_history (wo_iso (la_world demo_launch))
      (with_user_message (la_world demo_launch) (te_input ?t) (case_session demo_launch ?t))))"
    by (rule run_metadata_history) (simp_all add: wf_odict_def keys_def case_meta_def)
  have m: "jget ?md ''model_override'' = JNull"
    by (simp add: run_metadata_def Let_def jget_def get_default_def with_user_message_def case_session_def merge_def)
  from demo_prepare [OF h m] obtain p where p: "prepare_run (\<lambda>v. []) demo_env demo_workflow (te_input ?t) (wo_id_text (la_world demo_launch) (la_session demo_launch))
      ''workflow-runner'' ?md = Inr p" by blast
  have l: "wo_db_ok (la_world demo_launch)" "la_record demo_launch \<notin> ru_id ` set (sg_runs demo_manager)" "te_workflow ?t \<noteq> []"
    by (simp_all add: demo_launch_def demo_manager_facts t)
  have rn: "rn_run ?rn = crew_runtime (\<lambda>_. Inl ''boom'') (\<lambda>v. []) demo_env []" by (simp add: demo_runner_def)
  from failed_run_passes [OF rn w l(3) c t(2) o demo_manager_facts(6) l(1,2) demo_manager_facts(9) p] show ?thesis by simp
qed

end
