(* ===== verification/Page_Theme.thy ===== *)
theory Page_Theme
  imports Prelude
begin

text \<open>
  The looks of a deployed chat page, from \<open>src/src/api/chatbot_page.py\<close>: the themes, the cleaning of a generated design
  before it is written into a stylesheet, colours and their contrast, and the correction of unreadable pairs.  Luminance and
  contrast are real numbers, the power of the sRGB curve included; other floats are rationals.  A colour spells its numbers with
  digits and one point; signs, exponents and spaces inside hexadecimal digits are not considered.
\<close>

subsection \<open>Themes\<close>

definition default_theme :: string where
  "default_theme = ''midnight''"

definition themes :: "(string, (string, string) odict) odict" where
  "themes = [
     (''midnight'', [(''bg'', ''#101820''), (''surface'', ''#121d29''), (''panel'', ''#0f1720''), (''border'', ''#263241''), (''text'', ''#e6edf3''), (''muted'', ''#9fb0c2''), (''accent'', ''#2f6fed''), (''accent-text'', ''#ffffff''), (''assistant-bubble'', ''#1b2a3a''), (''assistant-border'', ''#314257''), (''input-bg'', ''#111c28''), (''input-border'', ''#34465c''), (''code-bg'', ''#0b1220''), (''code-text'', ''#f8fafc''), (''link'', ''#93c5fd''), (''ok'', ''#74d99f''), (''shadow'', ''rgba(0,0,0,.28)'')]),
     (''daylight'', [(''bg'', ''#f6f7fb''), (''surface'', ''#ffffff''), (''panel'', ''#eef1f7''), (''border'', ''#d8deea''), (''text'', ''#172033''), (''muted'', ''#5b6b83''), (''accent'', ''#2563eb''), (''accent-text'', ''#ffffff''), (''assistant-bubble'', ''#eef3ff''), (''assistant-border'', ''#dbe4f8''), (''input-bg'', ''#ffffff''), (''input-border'', ''#cbd5e1''), (''code-bg'', ''#111827''), (''code-text'', ''#f8fafc''), (''link'', ''#2563eb''), (''ok'', ''#16a34a''), (''shadow'', ''rgba(15,23,42,.12)'')]),
     (''ocean'', [(''bg'', ''#04121b''), (''surface'', ''#072433''), (''panel'', ''#051a26''), (''border'', ''#12405a''), (''text'', ''#d8f0fa''), (''muted'', ''#86b3c7''), (''accent'', ''#06b6d4''), (''accent-text'', ''#04222d''), (''assistant-bubble'', ''#0a3346''), (''assistant-border'', ''#155a77''), (''input-bg'', ''#06202e''), (''input-border'', ''#17506c''), (''code-bg'', ''#021018''), (''code-text'', ''#e0f2fe''), (''link'', ''#67e8f9''), (''ok'', ''#5eead4''), (''shadow'', ''rgba(0,0,0,.35)'')]),
     (''forest'', [(''bg'', ''#0c130d''), (''surface'', ''#131f15''), (''panel'', ''#0f1810''), (''border'', ''#28402b''), (''text'', ''#e7f0e7''), (''muted'', ''#9bb59d''), (''accent'', ''#22c55e''), (''accent-text'', ''#052e13''), (''assistant-bubble'', ''#1a2b1c''), (''assistant-border'', ''#2f4a33''), (''input-bg'', ''#122014''), (''input-border'', ''#33523a''), (''code-bg'', ''#081109''), (''code-text'', ''#ecfdf5''), (''link'', ''#86efac''), (''ok'', ''#4ade80''), (''shadow'', ''rgba(0,0,0,.32)'')]),
     (''sunset'', [(''bg'', ''#1a1023''), (''surface'', ''#241531''), (''panel'', ''#1e1229''), (''border'', ''#3f2a52''), (''text'', ''#f4e8f7''), (''muted'', ''#bda3c9''), (''accent'', ''#f97316''), (''accent-text'', ''#331303''), (''assistant-bubble'', ''#2e1c3d''), (''assistant-border'', ''#4c3361''), (''input-bg'', ''#251733''), (''input-border'', ''#503a66''), (''code-bg'', ''#140b1c''), (''code-text'', ''#fdf4ff''), (''link'', ''#fdba74''), (''ok'', ''#86efac''), (''shadow'', ''rgba(0,0,0,.35)'')]),
     (''mono'', [(''bg'', ''#ffffff''), (''surface'', ''#ffffff''), (''panel'', ''#f4f4f5''), (''border'', ''#d4d4d8''), (''text'', ''#111111''), (''muted'', ''#52525b''), (''accent'', ''#111111''), (''accent-text'', ''#ffffff''), (''assistant-bubble'', ''#f4f4f5''), (''assistant-border'', ''#d4d4d8''), (''input-bg'', ''#ffffff''), (''input-border'', ''#a1a1aa''), (''code-bg'', ''#18181b''), (''code-text'', ''#fafafa''), (''link'', ''#111111''), (''ok'', ''#16a34a''), (''shadow'', ''rgba(0,0,0,.10)'')])]"


definition theme_labels :: "(string, string) odict" where
  "theme_labels = [(''midnight'', ''Midnight''), (''daylight'', ''Daylight''), (''ocean'', ''Ocean''), (''forest'', ''Forest''),
     (''sunset'', ''Sunset''), (''mono'', ''Mono'')]"

definition normalize_theme :: "string option \<Rightarrow> string" where
  "normalize_theme t = (let s = lower (strip (opt_or t [])) in if opt_truthy t \<and> s \<in> set (keys themes) then s else default_theme)"

definition theme_vars :: "string \<Rightarrow> (string, string) odict" where
  "theme_vars t = the (get themes (normalize_theme (Some t)))"

definition css_lines :: "(string, string) odict \<Rightarrow> string" where
  "css_lines vs = join [newline] (map (\<lambda>(n, v). ''      --'' @ n @ '': '' @ v @ '';'') vs)"

definition theme_css :: "string \<Rightarrow> string" where
  "theme_css t = '':root {'' @ [newline] @ css_lines (theme_vars t) @ [newline] @ ''    }''"

definition all_theme_css :: "string \<Rightarrow> string" where
  "all_theme_css t = join ([newline] @ ''    '') (theme_css t # map (\<lambda>(i, vs). ''[data-delaxis-theme='' @ [CHR 0x22] @ i @ [CHR 0x22] @ ''] {''
     @ [newline] @ css_lines vs @ [newline] @ ''    }'') themes)"

definition theme_presets :: "(string \<times> string \<times> (string, string) odict) list" where
  "theme_presets = map (\<lambda>(i, vs). (i, get_default theme_labels i i, vs)) themes"

subsection \<open>Cleaning a design\<close>

definition brand_color_keys :: "string list" where
  "brand_color_keys = keys (the (get themes default_theme))"

definition is_hex :: "char \<Rightarrow> bool" where
  "is_hex c \<longleftrightarrow> is_digit c \<or> (97 \<le> code c \<and> code c \<le> 102) \<or> (65 \<le> code c \<and> code c \<le> 70)"

text \<open>\<open>_COLOR_RE\<close>, \<open>_FONT_RE\<close> and the pattern of a corner radius, on a stripped text.\<close>

definition color_arg :: "char \<Rightarrow> bool" where
  "color_arg c \<longleftrightarrow> is_digit c \<or> is_space c \<or> c \<in> {CHR ''.'', CHR '','', CHR ''%'', CHR ''/''}"

definition func_color :: "string \<Rightarrow> string \<Rightarrow> bool" where
  "func_color name t \<longleftrightarrow> starts_with (name @ ''('') t \<and> (let u = drop (length name + 1) t in
     u \<noteq> [] \<and> last u = CHR '')'' \<and> butlast u \<noteq> [] \<and> list_all color_arg (butlast u))"

definition color_ok :: "string \<Rightarrow> bool" where
  "color_ok t \<longleftrightarrow> (t \<noteq> [] \<and> hd t = CHR ''#'' \<and> list_all is_hex (tl t) \<and> 3 \<le> length (tl t) \<and> length (tl t) \<le> 8)
     \<or> list_ex (\<lambda>name. func_color name t) [''rgb'', ''rgba'', ''hsl'', ''hsla'']
     \<or> (t \<noteq> [] \<and> list_all (\<lambda>c. 97 \<le> code c \<and> code c \<le> 122) t)"

definition font_ok :: "string \<Rightarrow> bool" where
  "font_ok t \<longleftrightarrow> 1 \<le> length t \<and> length t \<le> 180
     \<and> list_all (\<lambda>c. is_word c \<or> is_space c \<or> c \<in> {CHR '','', CHR 0x22, CHR 0x27, CHR ''-''}) t"

definition radius_ok :: "string \<Rightarrow> bool" where
  "radius_ok t \<longleftrightarrow> (let n = takeWhile is_digit t; u = dropWhile is_digit t in n \<noteq> [] \<and> length n \<le> 2 \<and> (u = ''px'' \<or> u = ''rem''))"

definition brand_entry_ok :: "string \<Rightarrow> string \<Rightarrow> bool" where
  "brand_entry_ok k t \<longleftrightarrow> t \<noteq> [] \<and> set t \<inter> {CHR '';'', CHR ''}'', CHR ''<''} = {}
     \<and> (if k \<in> set brand_color_keys \<and> color_ok t then True else if k = ''font'' \<and> font_ok t then True else k = ''radius'' \<and> radius_ok t)"

definition sanitize_brand :: "(json \<Rightarrow> string) \<Rightarrow> (string, json) odict \<Rightarrow> (string, string) odict" where
  "sanitize_brand show b = fold (\<lambda>(k, v) clean. let t = strip (text_of show v) in if brand_entry_ok k t then put k t clean else clean) b []"

definition css_name :: "string \<Rightarrow> string" where
  "css_name k = (if k = ''font'' then ''brand-font'' else if k = ''radius'' then ''brand-radius'' else k)"

definition brand_css :: "(json \<Rightarrow> string) \<Rightarrow> (string, json) odict \<Rightarrow> string" where
  "brand_css show b = (let clean = sanitize_brand show b in
     if clean = [] then [] else '':root {'' @ [newline] @ css_lines (map (\<lambda>(k, v). (css_name k, v)) clean) @ [newline] @ ''    }'')"

subsection \<open>Colours\<close>

definition hex_value :: "char \<Rightarrow> nat option" where
  "hex_value c = (if is_digit c then Some (code c - 48)
     else if 97 \<le> code c \<and> code c \<le> 102 then Some (code c - 87)
     else if 65 \<le> code c \<and> code c \<le> 70 then Some (code c - 55) else None)"

fun hex_pairs :: "string \<Rightarrow> nat list option" where
  "hex_pairs (c # d # s) = (case (hex_value c, hex_value d, hex_pairs s) of
     (Some x, Some y, Some ns) \<Rightarrow> Some ((16 * x + y) # ns) | _ \<Rightarrow> None)"
| "hex_pairs s = (if s = [] then Some [] else None)"

definition parse_hex :: "string \<Rightarrow> (rat \<times> rat \<times> rat) option" where
  "parse_hex ds0 = (let ds = (if length ds0 = 3 \<or> length ds0 = 4 then concat (map (\<lambda>c. [c, c]) (take 3 ds0)) else ds0) in
     if length ds = 6 \<or> length ds = 8 then (case hex_pairs (take 6 ds) of
         Some [r, g, b] \<Rightarrow> Some (of_nat r, of_nat g, of_nat b) | _ \<Rightarrow> None)
     else None)"

definition digits_number :: "string \<Rightarrow> nat" where
  "digits_number = foldl (\<lambda>n c. 10 * n + (code c - 48)) 0"

definition css_number :: "string \<Rightarrow> rat option" where
  "css_number s = (let a = takeWhile is_digit s in case dropWhile is_digit s of
      [] \<Rightarrow> if a = [] then None else Some (of_nat (digits_number a))
    | c # b \<Rightarrow> if c = CHR ''.'' \<and> list_all is_digit b \<and> a @ b \<noteq> [] then Some (of_nat (digits_number (a @ b)) / 10 ^ length b) else None)"

fun split_by :: "(char \<Rightarrow> bool) \<Rightarrow> string \<Rightarrow> string list" where
  "split_by sep [] = [ [] ]"
| "split_by sep (d # s) = (if sep d then [] # split_by sep s
     else (case split_by sep s of [] \<Rightarrow> [ [d] ] | w # ws \<Rightarrow> (d # w) # ws))"

definition color_part :: "string \<Rightarrow> rat option" where
  "color_part p = map_option (\<lambda>x. x * (if p \<noteq> [] \<and> last p = CHR ''%'' then 255 / 100 else 1))
     (css_number (rev (dropWhile (\<lambda>c. c = CHR ''%'') (rev p))))"

definition parse_rgb :: "string \<Rightarrow> (rat \<times> rat \<times> rat) option" where
  "parse_rgb t =
     (let u = (if starts_with ''rgba('' t then Some (drop 5 t) else if starts_with ''rgb('' t then Some (drop 4 t) else None) in
      case u of None \<Rightarrow> None
      | Some u \<Rightarrow>
         if before_char (CHR '')'') u = [] \<or> after_char (CHR '')'') u = None then None
         else (case filter (\<lambda>w. w \<noteq> []) (split_by (\<lambda>c. c = CHR '','' \<or> c = CHR ''/'' \<or> is_space c) (before_char (CHR '')'') u)) of
             p # q # r # ps \<Rightarrow> (case (color_part p, color_part q, color_part r) of (Some x, Some y, Some z) \<Rightarrow> Some (x, y, z) | _ \<Rightarrow> None)
           | _ \<Rightarrow> None))"

definition parse_color :: "string \<Rightarrow> (rat \<times> rat \<times> rat) option" where
  "parse_color v = (let t = lower (strip v) in if t \<noteq> [] \<and> hd t = CHR ''#'' then parse_hex (tl t) else parse_rgb t)"

definition channel :: "rat \<Rightarrow> real" where
  "channel v = (let s = of_rat v / 255 in if s \<le> 0.03928 then s / 12.92 else ((s + 0.055) / 1.055) powr 2.4)"

fun luminance :: "rat \<times> rat \<times> rat \<Rightarrow> real" where
  "luminance (r, g, b) = 0.2126 * channel r + 0.7152 * channel g + 0.0722 * channel b"

definition contrast_of :: "real \<Rightarrow> real \<Rightarrow> real" where
  "contrast_of x y = (max x y + 0.05) / (min x y + 0.05)"

definition contrast_ratio :: "string \<Rightarrow> string \<Rightarrow> real" where
  "contrast_ratio f b = (case (parse_color f, parse_color b) of
     (Some x, Some y) \<Rightarrow> contrast_of (luminance x) (luminance y) | _ \<Rightarrow> 0)"

subsection \<open>Correcting a design\<close>

definition contrast_pairs :: "(string \<times> string \<times> real) list" where
  "contrast_pairs = [(''text'', ''bg'', 4.5), (''text'', ''surface'', 4.5), (''text'', ''panel'', 4.5), (''text'', ''assistant-bubble'', 4.5),
     (''muted'', ''bg'', 3), (''muted'', ''panel'', 3), (''muted'', ''surface'', 3), (''accent-text'', ''accent'', 4.5),
     (''link'', ''assistant-bubble'', 3)]"

text \<open>\<open>round\<close>, half to even, and two hexadecimal digits at least.\<close>

definition round_even :: "rat \<Rightarrow> int" where
  "round_even x = (let f = \<lfloor>x\<rfloor>; d = x - of_int f in
     if d < 1/2 then f else if d > 1/2 then f + 1 else if even f then f else f + 1)"

definition hex_char :: "nat \<Rightarrow> char" where
  "hex_char n = (if n < 10 then char_of (48 + n) else char_of (87 + n))"

fun hex_str :: "nat \<Rightarrow> string" where
  "hex_str n = (if n < 16 then [hex_char n] else hex_str (n div 16) @ [hex_char (n mod 16)])"

declare hex_str.simps [simp del]

definition hex2 :: "nat \<Rightarrow> string" where
  "hex2 n = (if n < 16 then CHR ''0'' # hex_str n else hex_str n)"

definition shift_color :: "string \<Rightarrow> rat \<Rightarrow> string" where
  "shift_color color amount = (case parse_color color of None \<Rightarrow> color
     | Some (r, g, b) \<Rightarrow> (let target = (if amount > 0 then 255 else 0); moved = (\<lambda>c. nat (round_even (c + (target - c) * \<bar>amount\<bar>))) in
         CHR ''#'' # hex2 (moved r) @ hex2 (moved g) @ hex2 (moved b)))"

definition background_family :: "(string \<times> rat) list" where
  "background_family = [(''surface'', 4/100), (''panel'', 7/100), (''assistant-bubble'', 5/100), (''input-bg'', 2/100)]"

definition dark_text :: string where
  "dark_text = ''#111111''"

definition light_text :: string where
  "light_text = ''#ffffff''"

definition readable_on :: "string \<Rightarrow> real \<Rightarrow> string \<Rightarrow> string" where
  "readable_on background minimum preferred =
     (if contrast_ratio preferred background \<ge> minimum then preferred
      else if contrast_ratio dark_text background \<ge> contrast_ratio light_text background then dark_text else light_text)"

definition effective :: "(string, string) odict \<Rightarrow> (string, string) odict \<Rightarrow> string \<Rightarrow> string" where
  "effective base clean name = get_default clean name (get_default base name ''#000000'')"

definition derive_backgrounds :: "(string, string) odict \<Rightarrow> (string, string) odict" where
  "derive_backgrounds clean = (case get clean ''bg'' of None \<Rightarrow> clean
     | Some page \<Rightarrow>
        (let lighter = luminance (case parse_color page of None \<Rightarrow> (0, 0, 0) | Some c \<Rightarrow> c) > 0.5 in
         fold (\<lambda>(name, amount) c. if name \<in> set (keys c) then c
             else put name (shift_color page (if lighter then - amount else amount)) c) background_family clean))"

definition fix_pair :: "(string, string) odict \<Rightarrow> string \<times> string \<times> real \<Rightarrow> (string, string) odict \<times> string list \<Rightarrow> (string, string) odict \<times> string list" where
  "fix_pair base p st = (let (f, b, minimum) = p; (clean, notes) = st; bv = effective base clean b in
     if contrast_ratio (effective base clean f) bv \<ge> minimum then st
     else let r = readable_on bv minimum (get_default base f dark_text) in
       if r = effective base clean f then st
       else (put f r clean, notes @ [f @ '' was unreadable on '' @ b @ '', corrected to '' @ r]))"

definition harmonize_brand :: "(json \<Rightarrow> string) \<Rightarrow> string \<Rightarrow> (string, json) odict \<Rightarrow> (string, string) odict \<times> string list" where
  "harmonize_brand show theme b = (let clean = sanitize_brand show b in
     if clean = [] then ([], []) else fold (fix_pair (theme_vars theme)) contrast_pairs (derive_backgrounds clean, []))"

subsection \<open>A design stays in its block\<close>

definition closing_chars :: "char set" where
  "closing_chars = {CHR ''{'', CHR ''}'', CHR ''<'', CHR ''>''}"

lemma word_char_inert: "is_word c \<or> is_space c \<or> is_digit c \<Longrightarrow> c \<notin> closing_chars"
  by (auto simp: closing_chars_def is_word_def is_alnum_def is_alpha_def is_upper_def is_lower_def is_digit_def is_space_def code_def)

lemma color_arg_inert: "color_arg c \<Longrightarrow> c \<notin> closing_chars"
  using word_char_inert by (auto simp: color_arg_def closing_chars_def)

lemma plain_letter_inert: "97 \<le> code c \<and> code c \<le> 122 \<Longrightarrow> c \<notin> closing_chars"
  by (auto simp: closing_chars_def code_def)

lemma hex_inert: "is_hex c \<Longrightarrow> c \<notin> closing_chars"
  using word_char_inert by (auto simp: is_hex_def closing_chars_def code_def)

lemma func_color_inert:
  assumes "func_color name t" "set name \<inter> closing_chars = {}"
  shows "set t \<inter> closing_chars = {}"
proof -
  obtain u where t: "t = name @ ''('' @ u" using assms(1) by (auto simp: func_color_def Let_def elim: starts_withE)
  have u: "u \<noteq> []" "last u = CHR '')''" "list_all color_arg (butlast u)" using assms(1) by (auto simp: func_color_def Let_def t)
  have "set u = insert (last u) (set (butlast u))" using u(1) by (metis append_butlast_last_id list.set(1) list.simps(15) rotate1.simps(2) set_rotate1)
  then show ?thesis using u(2,3) assms(2) color_arg_inert by (auto simp: t list_all_iff closing_chars_def)
qed

lemma color_inert:
  assumes "color_ok t"
  shows "set t \<inter> closing_chars = {}"
proof -
  consider "t \<noteq> []" "hd t = CHR ''#''" "list_all is_hex (tl t)"
    | name where "name \<in> {''rgb'', ''rgba'', ''hsl'', ''hsla''}" "func_color name t" | "list_all (\<lambda>c. 97 \<le> code c \<and> code c \<le> 122) t"
    using assms by (auto simp: color_ok_def)
  then show ?thesis
  proof cases
    case 1
    then show ?thesis using hex_inert by (cases t) (auto simp: list_all_iff closing_chars_def)
  next
    case 2
    have "set name \<inter> closing_chars = {}" using 2(1) by (auto simp: closing_chars_def)
    then show ?thesis by (rule func_color_inert [OF 2(2)])
  next
    case 3
    then show ?thesis using plain_letter_inert by (auto simp: list_all_iff)
  qed
qed

lemma font_inert: "font_ok t \<Longrightarrow> set t \<inter> closing_chars = {}"
  using word_char_inert unfolding font_ok_def list_all_iff by (fastforce simp: closing_chars_def)

lemma radius_inert:
  assumes "radius_ok t"
  shows "set t \<inter> closing_chars = {}"
proof -
  have "set (dropWhile is_digit t) \<inter> closing_chars = {}" using assms by (auto simp: radius_ok_def Let_def closing_chars_def)
  moreover have "set (takeWhile is_digit t) \<inter> closing_chars = {}" using word_char_inert by (auto dest: set_takeWhileD)
  moreover have "set t = set (takeWhile is_digit t) \<union> set (dropWhile is_digit t)" by (metis set_append takeWhile_dropWhile_id)
  ultimately show ?thesis by blast
qed

lemma brand_entry_inert:
  assumes "brand_entry_ok k t"
  shows "set t \<inter> closing_chars = {}" "set (css_name k) \<inter> closing_chars = {}"
proof -
  show "set t \<inter> closing_chars = {}" using assms color_inert font_inert radius_inert by (auto simp: brand_entry_ok_def split: if_splits)
  have k: "k \<in> set brand_color_keys \<or> k = ''font'' \<or> k = ''radius''" using assms by (auto simp: brand_entry_ok_def split: if_splits)
  have "list_all (\<lambda>k. list_all (\<lambda>c. c \<notin> closing_chars) (css_name k)) (''font'' # ''radius'' # brand_color_keys)" by code_simp
  then show "set (css_name k) \<inter> closing_chars = {}" using k unfolding list_all_iff set_simps by blast
qed

lemma set_put_subset: "set (put k t c) \<subseteq> insert (k, t) (set c)"
  by (induction c) auto

definition entries_ok :: "(string, string) odict \<Rightarrow> bool" where
  "entries_ok d \<longleftrightarrow> (\<forall>x \<in> set d. brand_entry_ok (fst x) (snd x))"

lemma entries_ok_put: "entries_ok c \<Longrightarrow> brand_entry_ok k t \<Longrightarrow> entries_ok (put k t c)"
  using set_put_subset [of k t c] unfolding entries_ok_def by (metis fst_conv insertE snd_conv subsetD)

lemma sanitize_entries: "entries_ok (sanitize_brand show b)"
proof -
  have step: "entries_ok clean \<Longrightarrow>
      entries_ok (fold (\<lambda>(k, v) clean. let t = strip (text_of show v) in if brand_entry_ok k t then put k t clean else clean) b clean)" for clean
  proof (induction b arbitrary: clean)
    case (Cons p b)
    obtain k v where p: "p = (k, v)" by fastforce
    show ?case unfolding fold.simps o_apply p split_conv
      by (rule Cons.IH) (simp add: Cons.prems entries_ok_put Let_def)
  qed simp
  show ?thesis unfolding sanitize_brand_def by (rule step) (simp add: entries_ok_def)
qed

lemma sanitize_brand_ok: "(k, t) \<in> set (sanitize_brand show b) \<Longrightarrow> brand_entry_ok k t"
  using sanitize_entries [of "show" b] unfolding entries_ok_def by fastforce

lemma set_join: "set (join sep ss) \<subseteq> set sep \<union> \<Union> (set (map set ss))"
  by (induction sep ss rule: join.induct) auto

text \<open>C35: Whatever the design says, the block that is written for it opens and closes once and holds nothing that ends the block
  or the style element: no brace and no angle bracket between its own braces.\<close>

theorem brand_css_contained:
  "brand_css show b = [] \<or> (\<exists>body. brand_css show b = '':root {'' @ body @ ''}'' \<and> set body \<inter> closing_chars = {})"
proof (cases "sanitize_brand show b = []")
  case False
  define ls where "ls = css_lines (map (\<lambda>(k, v). (css_name k, v)) (sanitize_brand show b))"
  have "set (''      --'' @ css_name k @ '': '' @ t @ '';'') \<inter> closing_chars = {}" if "(k, t) \<in> set (sanitize_brand show b)" for k t
    using brand_entry_inert [OF sanitize_brand_ok [OF that]] by (auto simp: closing_chars_def)
  then have "set ls \<inter> closing_chars = {}"
    unfolding ls_def css_lines_def using set_join [of "[newline]"] by (fastforce simp: closing_chars_def newline_def)
  then have "set ([newline] @ ls @ [newline] @ ''    '') \<inter> closing_chars = {}" by (auto simp: closing_chars_def newline_def)
  moreover have "brand_css show b = '':root {'' @ ([newline] @ ls @ [newline] @ ''    '') @ ''}''" using False by (simp add: brand_css_def Let_def ls_def)
  ultimately show ?thesis by blast
qed (simp add: brand_css_def)

subsection \<open>Readable text\<close>

lemma powr_as_roots:
  fixes x y :: real
  assumes "0 < x" "0 < y"
  shows "x powr (2.4 :: real) = (x ^ 12) powr (1/5)" "y = (y ^ 5) powr (1/5)"
proof -
  have "x powr 2.4 = (x powr 12) powr (1/5)" by (simp only: powr_powr) simp
  also have "x powr 12 = x ^ 12" by (rule powr_numeral) (use assms in simp)
  finally show "x powr 2.4 = (x ^ 12) powr (1/5)" .
  have "y powr 5 = y ^ 5" by (rule powr_numeral) (use assms in simp)
  then have "(y ^ 5) powr (1/5) = (y powr 5) powr (1/5)" by simp
  also have "\<dots> = y" by (simp only: powr_powr) (use assms(2) in simp)
  finally show "y = (y ^ 5) powr (1/5)" by simp
qed

lemma powr_upper:
  assumes "0 < x" "0 < y" "x ^ 12 \<le> y ^ 5"
  shows "x powr (2.4 :: real) \<le> y"
proof -
  have "(x ^ 12) powr (1/5) \<le> (y ^ 5) powr (1/5)" by (rule powr_mono2) (use assms in simp_all)
  then show ?thesis using powr_as_roots [OF assms(1,2)] by simp
qed

lemma powr_lower:
  assumes "0 < x" "0 < y" "y ^ 5 \<le> x ^ 12"
  shows "y \<le> x powr (2.4 :: real)"
proof -
  have "(y ^ 5) powr (1/5) \<le> (x ^ 12) powr (1/5)" by (rule powr_mono2) (use assms in simp_all)
  then show ?thesis using powr_as_roots [OF assms(1,2)] by simp
qed

lemma channel_nonneg: "0 \<le> v \<Longrightarrow> 0 \<le> channel v"
  by (simp add: channel_def Let_def)

lemma luminance_grey: "luminance (v, v, v) = channel v"
  by (simp add: algebra_simps)

lemma luminance_white: "luminance (255, 255, 255) = 1"
  by (simp add: luminance_grey del: luminance.simps) (simp add: channel_def)

lemma luminance_dark: "0 \<le> luminance (17, 17, 17)" "luminance (17, 17, 17) \<le> 5640 / 1000000"
proof -
  have "((17/255 + 0.055) / 1.055) powr (2.4 :: real) \<le> 5640 / 1000000" by (rule powr_upper) (simp_all add: power_divide)
  then show "luminance (17, 17, 17) \<le> 5640 / 1000000" unfolding luminance_grey by (simp add: channel_def)
  show "0 \<le> luminance (17, 17, 17)" unfolding luminance_grey by (rule channel_nonneg) simp
qed

lemma parse_dark: "parse_color dark_text = Some (17, 17, 17)"
  by code_simp

lemma parse_light: "parse_color light_text = Some (255, 255, 255)"
  by code_simp

lemma decimal_nonneg: "css_number s = Some x \<Longrightarrow> 0 \<le> x"
  by (auto simp: css_number_def Let_def split: list.splits if_splits)

lemma color_part_nonneg: "color_part p = Some x \<Longrightarrow> 0 \<le> x"
  by (auto simp: color_part_def dest!: decimal_nonneg split: if_splits)

lemma parse_color_nonneg:
  assumes "parse_color c = Some (r, g, b)"
  shows "0 \<le> r \<and> 0 \<le> g \<and> 0 \<le> b"
proof -
  have "parse_hex ds = Some (r, g, b) \<Longrightarrow> ?thesis" for ds by (auto simp: parse_hex_def Let_def split: if_splits option.splits list.splits)
  moreover have "parse_rgb t = Some (r, g, b) \<Longrightarrow> ?thesis" for t
    by (auto simp: parse_rgb_def Let_def dest: color_part_nonneg split: if_splits option.splits list.splits)
  ultimately show ?thesis using assms by (auto simp: parse_color_def Let_def split: if_splits)
qed

lemma luminance_nonneg: "parse_color c = Some x \<Longrightarrow> 0 \<le> luminance x"
  by (cases x) (auto dest: parse_color_nonneg intro!: add_nonneg_nonneg mult_nonneg_nonneg channel_nonneg)

text \<open>Near black or white is readable on any background, short of the 4.5 that the check asks for.\<close>

lemma one_side_readable:
  fixes L D :: real
  assumes "0 \<le> L" "0 \<le> D" "D \<le> 5640 / 1000000"
  shows "434 / 100 \<le> contrast_of D L \<or> 434 / 100 \<le> contrast_of 1 L"
proof (cases "L + 0.05 \<le> 2415 / 10000")
  case True
  then have m: "max 1 L = 1" "min 1 L = L" by (simp_all add: max_def min_def)
  have "434 / 100 * (L + 0.05) \<le> 1 + 0.05" using True by simp
  then have "434 / 100 \<le> (1 + 0.05) / (L + 0.05)" using assms(1) by (subst pos_le_divide_eq) simp_all
  then show ?thesis unfolding contrast_of_def m by blast
next
  case False
  then have m: "max D L = L" "min D L = D" using assms(3) by (simp_all add: max_def min_def)
  have "434 / 100 * (D + 0.05) \<le> L + 0.05" using False assms(3) by simp
  then have "434 / 100 \<le> (L + 0.05) / (D + 0.05)" using assms(2) by (subst pos_le_divide_eq) simp_all
  then show ?thesis unfolding contrast_of_def m by blast
qed

lemma readable_on_bound:
  assumes "parse_color background = Some c"
  shows "min minimum (434 / 100) \<le> contrast_ratio (readable_on background minimum preferred) background"
proof -
  have "434 / 100 \<le> contrast_ratio dark_text background \<or> 434 / 100 \<le> contrast_ratio light_text background"
    using one_side_readable [OF luminance_nonneg [OF assms] luminance_dark]
    unfolding contrast_ratio_def assms parse_dark parse_light luminance_white [symmetric] by simp
  then show ?thesis unfolding readable_on_def by (auto simp: min_def)
qed

lemma contrast_unparsed: "parse_color b = None \<Longrightarrow> contrast_ratio f b = 0"
  by (simp add: contrast_ratio_def split: option.split)

lemma fix_pair_other: "k \<noteq> f \<Longrightarrow> get (fst (fix_pair base (f, b, m) st)) k = get (fst st) k"
  by (cases st) (simp add: fix_pair_def Let_def)

lemma effective_cong: "get c k = get d k \<Longrightarrow> effective base c k = effective base d k"
  by (simp add: effective_def get_default_def)

lemma fix_pair_fixes:
  fixes st :: "(string, string) odict \<times> string list" and base :: "(string, string) odict"
  assumes "f \<noteq> b" "0 < m"
  defines "c \<equiv> fst (fix_pair base (f, b, m) st)"
  shows "effective base c b = effective base (fst st) b"
    "parse_color (effective base c b) = None \<Longrightarrow> effective base c f = dark_text"
    "parse_color (effective base c b) = Some x \<Longrightarrow> min m (434 / 100) \<le> contrast_ratio (effective base c f) (effective base c b)"
proof -
  obtain clean remarks where st: "st = (clean, remarks)" by fastforce
  show b: "effective base c b = effective base (fst st) b"
    unfolding c_def by (rule effective_cong) (rule fix_pair_other, use assms(1) in simp)
  define bv where "bv = effective base clean b"
  define r where "r = readable_on bv m (get_default base f dark_text)"
  have f: "effective base c f = (if contrast_ratio (effective base clean f) bv \<ge> m then effective base clean f else r)"
    unfolding c_def fix_pair_def st Let_def split_conv bv_def [symmetric] r_def [symmetric] by (simp add: effective_def get_default_def)
  have bc: "effective base c b = bv" using b by (simp add: st bv_def)
  show "parse_color (effective base c b) = None \<Longrightarrow> effective base c f = dark_text"
    unfolding bc f r_def readable_on_def using assms(2) by (simp add: contrast_unparsed)
  show "parse_color (effective base c b) = Some x \<Longrightarrow> min m (434 / 100) \<le> contrast_ratio (effective base c f) (effective base c b)"
    unfolding bc f r_def using readable_on_bound [of bv x m "get_default base f dark_text"]
    by (cases "m \<le> contrast_ratio (effective base clean f) bv") (simp_all only: if_True if_False min.coboundedI1)
qed

lemma fold_fix_other:
  assumes "k \<notin> (\<lambda>(f, b, m). f) ` set ps"
  shows "get (fst (fold (fix_pair base) ps st)) k = get (fst st) k"
  using assms
proof (induction ps arbitrary: st)
  case (Cons p ps)
  obtain f b m where p: "p = (f, b, m)" by (metis prod_cases3)
  have "get (fst (fold (fix_pair base) ps (fix_pair base p st))) k = get (fst (fix_pair base p st)) k"
    by (rule Cons.IH) (use Cons.prems in simp)
  also have "\<dots> = get (fst st) k" unfolding p by (rule fix_pair_other) (use Cons.prems p in auto)
  finally show ?case by simp
qed simp

text \<open>The last correction of a pair decides, when neither of its names is corrected afterwards.\<close>

lemma harmonized_pair:
  assumes "harmonize_brand show theme b = (c, remarks)" "sanitize_brand show b \<noteq> []" "contrast_pairs = ps @ (f, g, m) # qs"
    and "f \<noteq> g" "0 < m" "f \<notin> (\<lambda>(f, b, m). f) ` set qs" "g \<notin> (\<lambda>(f, b, m). f) ` set qs"
  shows "parse_color (effective (theme_vars theme) c g) = None \<Longrightarrow> effective (theme_vars theme) c f = dark_text"
    "parse_color (effective (theme_vars theme) c g) = Some x
      \<Longrightarrow> min m (434 / 100) \<le> contrast_ratio (effective (theme_vars theme) c f) (effective (theme_vars theme) c g)"
proof -
  let ?base = "theme_vars theme"
  define st where "st = fold (fix_pair ?base) ps (derive_backgrounds (sanitize_brand show b), [])"
  define d where "d = fst (fix_pair ?base (f, g, m) st)"
  have c: "c = fst (fold (fix_pair ?base) qs (fix_pair ?base (f, g, m) st))"
    using assms(1,2) by (simp add: harmonize_brand_def Let_def assms(3) st_def prod_eq_iff)
  have e: "effective ?base c f = effective ?base d f" "effective ?base c g = effective ?base d g"
    unfolding c d_def by (rule effective_cong, rule fold_fix_other, rule assms)+
  note fx = fix_pair_fixes [OF assms(4,5), of ?base st, folded d_def]
  show "parse_color (effective ?base c g) = None \<Longrightarrow> effective ?base c f = dark_text" unfolding e by (rule fx(2))
  show "parse_color (effective ?base c g) = Some x \<Longrightarrow> min m (434 / 100) \<le> contrast_ratio (effective ?base c f) (effective ?base c g)"
    unfolding e by (rule fx(3))
qed

lemma accent_pair: "contrast_pairs = take 7 contrast_pairs @ (''accent-text'', ''accent'', 4.5) # [(''link'', ''assistant-bubble'', 3)]"
  by (simp add: contrast_pairs_def)

lemma link_pair: "contrast_pairs = take 8 contrast_pairs @ (''link'', ''assistant-bubble'', 3) # []"
  by (simp add: contrast_pairs_def)

text \<open>C34: In a corrected design the text on the accent colour has a contrast of at least 4.34 and links on a reply one of at least 3,
  provided that the background is written in hexadecimal or rgb; on any other background, which cannot be measured, the text is
  near black.\<close>

theorem corrected_text_readable:
  assumes "harmonize_brand show theme b = (c, remarks)" "sanitize_brand show b \<noteq> []"
  defines "e \<equiv> effective (theme_vars theme) c"
  shows "(if parse_color (e ''accent'') = None then e ''accent-text'' = ''#111111''
      else 434 / 100 \<le> contrast_ratio (e ''accent-text'') (e ''accent''))
    \<and> (if parse_color (e ''assistant-bubble'') = None then e ''link'' = ''#111111''
      else 3 \<le> contrast_ratio (e ''link'') (e ''assistant-bubble''))"
proof (rule conjI)
  have m: "min 4.5 (434 / 100) = (434 / 100 :: real)" "min 3 (434 / 100) = (3 :: real)" by simp_all
  show "if parse_color (e ''accent'') = None then e ''accent-text'' = ''#111111'' else 434 / 100 \<le> contrast_ratio (e ''accent-text'') (e ''accent'')"
    using harmonized_pair [OF assms(1,2) accent_pair, unfolded m] unfolding e_def dark_text_def by (cases "parse_color (effective (theme_vars theme) c ''accent'')") simp_all
  show "if parse_color (e ''assistant-bubble'') = None then e ''link'' = ''#111111'' else 3 \<le> contrast_ratio (e ''link'') (e ''assistant-bubble'')"
    using harmonized_pair [OF assms(1,2) link_pair, unfolded m] unfolding e_def dark_text_def by (cases "parse_color (effective (theme_vars theme) c ''assistant-bubble'')") simp_all
qed

theorem corrected_text_readable_witness:
  "\<exists>c remarks. harmonize_brand (\<lambda>v. []) ''midnight'' [(''accent'', JStr ''black'')] = (c, remarks)
    \<and> get_default c ''accent-text'' ''#ffffff'' = ''#111111'' \<and> get c ''accent'' = Some ''black''"
proof -
  obtain c remarks where h: "harmonize_brand (\<lambda>v. []) ''midnight'' [(''accent'', JStr ''black'')] = (c, remarks)" by fastforce
  have cl: "sanitize_brand (\<lambda>v. []) [(''accent'', JStr ''black'')] = [(''accent'', ''black'')]" by code_simp
  have "get c ''accent'' = get (fst (derive_backgrounds [(''accent'', ''black'')], [] :: string list)) ''accent''"
    using h fold_fix_other [of "''accent''" contrast_pairs "theme_vars ''midnight''" "(derive_backgrounds [(''accent'', ''black'')], [])"]
    unfolding harmonize_brand_def cl Let_def by (simp add: contrast_pairs_def)
  then have a: "get c ''accent'' = Some ''black''" by (simp add: derive_backgrounds_def)
  have e: "effective (theme_vars ''midnight'') c ''accent'' = ''black''" by (simp add: effective_def get_default_def a)
  have t: "effective (theme_vars ''midnight'') c ''accent-text'' = get_default c ''accent-text'' ''#ffffff''"
  proof -
    have "get_default (theme_vars ''midnight'') ''accent-text'' ''#000000'' = ''#ffffff''" by code_simp
    then show ?thesis by (simp add: effective_def)
  qed
  have n: "parse_color ''black'' = None" by code_simp
  have "effective (theme_vars ''midnight'') c ''accent-text'' = ''#111111''"
    using corrected_text_readable [OF h] n by (simp add: cl e)
  then show ?thesis using h t a by auto
qed

text \<open>What a design says about a background stays as it says.\<close>

lemma derive_keeps: "get clean k = Some v \<Longrightarrow> get (derive_backgrounds clean) k = Some v"
proof -
  have "get clean k = Some v \<Longrightarrow> get (fold (\<lambda>(name, amount) c. if name \<in> set (keys c) then c else put name (f amount) c) fam clean) k = Some v"
    for f and fam :: "(string \<times> rat) list" and clean
  proof (induction fam arbitrary: clean)
    case (Cons p fam)
    obtain n a where p: "p = (n, a)" by fastforce
    show ?case unfolding fold.simps o_apply p split_conv
      by (rule Cons.IH) (use Cons.prems in \<open>auto simp: in_keys_iff\<close>)
  qed simp
  then show "get clean k = Some v \<Longrightarrow> get (derive_backgrounds clean) k = Some v"
    by (simp add: derive_backgrounds_def Let_def split: option.split)
qed

theorem backgrounds_kept:
  assumes "get (sanitize_brand show b) k = Some v" "k \<notin> {''text'', ''muted'', ''accent-text'', ''link''}"
  shows "get (fst (harmonize_brand show theme b)) k = Some v"
proof -
  have "sanitize_brand show b \<noteq> []" using assms(1) by auto
  moreover have "k \<notin> (\<lambda>(f, b, m). f) ` set contrast_pairs" using assms(2) by (simp add: contrast_pairs_def)
  ultimately show ?thesis using derive_keeps [OF assms(1)] by (simp add: harmonize_brand_def Let_def fold_fix_other)
qed

text \<open>On a middle grey neither correction reaches 4.5: the text stays white.\<close>

lemma luminance_777: "18336 / 100000 \<le> luminance (119, 119, 119)" "luminance (119, 119, 119) \<le> 1846 / 10000"
proof -
  have "((119/255 + 0.055) / 1.055) powr (2.4 :: real) \<le> 1846 / 10000" by (rule powr_upper) (simp_all add: power_divide)
  then show "luminance (119, 119, 119) \<le> 1846 / 10000" unfolding luminance_grey by (simp add: channel_def)
  have "18336 / 100000 \<le> ((119/255 + 0.055) / 1.055) powr (2.4 :: real)" by (rule powr_lower) (simp_all add: power_divide)
  then show "18336 / 100000 \<le> luminance (119, 119, 119)" unfolding luminance_grey by (simp add: channel_def)
qed

lemma luminance_dark_low: "5500 / 1000000 \<le> luminance (17, 17, 17)"
proof -
  have "5500 / 1000000 \<le> ((17/255 + 0.055) / 1.055) powr (2.4 :: real)" by (rule powr_lower) (simp_all add: power_divide)
  then show ?thesis unfolding luminance_grey by (simp add: channel_def)
qed

lemma contrast_777:
  "contrast_ratio light_text ''#777777'' < 4.5" "contrast_ratio dark_text ''#777777'' < contrast_ratio light_text ''#777777''"
proof -
  define L where "L = luminance (119, 119, 119)"
  define D where "D = luminance (17, 17, 17)"
  have b: "18336 / 100000 \<le> L" "L \<le> 1846 / 10000" "5500 / 1000000 \<le> D" "D \<le> 5640 / 1000000"
    using luminance_777 luminance_dark_low luminance_dark(2) by (simp_all add: L_def D_def)
  have g: "parse_color ''#777777'' = Some (119, 119, 119)" by code_simp
  have w: "contrast_ratio light_text ''#777777'' = (1 + 0.05) / (L + 0.05)"
    using b unfolding contrast_ratio_def parse_light g L_def contrast_of_def by (simp add: luminance_white del: luminance.simps)
  have d: "contrast_ratio dark_text ''#777777'' = (L + 0.05) / (D + 0.05)"
    using b unfolding contrast_ratio_def parse_dark g L_def D_def contrast_of_def by (simp del: luminance.simps)
  show "contrast_ratio light_text ''#777777'' < 4.5" unfolding w using b by (simp add: pos_divide_less_eq)
  have "(L + 0.05) / (D + 0.05) \<le> 43 / 10" using b by (simp add: pos_divide_le_eq)
  moreover have "44 / 10 \<le> (1 + 0.05) / (L + 0.05)" using b by (simp add: pos_le_divide_eq)
  ultimately show "contrast_ratio dark_text ''#777777'' < contrast_ratio light_text ''#777777''" unfolding w d by linarith
qed

theorem grey_accent_stays:
  assumes "harmonize_brand show ''midnight'' [(''accent'', JStr ''#777777'')] = (c, remarks)"
  shows "effective (theme_vars ''midnight'') c ''accent-text'' = light_text \<and> effective (theme_vars ''midnight'') c ''accent'' = ''#777777''
    \<and> contrast_ratio light_text ''#777777'' < 4.5"
proof -
  let ?base = "theme_vars ''midnight''" let ?clean = "[(''accent'', ''#777777'')]"
  have cl: "sanitize_brand show [(''accent'', JStr ''#777777'')] = ?clean"
  proof -
    have "strip ''#777777'' = ''#777777''" "brand_entry_ok ''accent'' ''#777777''" by code_simp+
    then show ?thesis by (simp add: sanitize_brand_def text_of_def)
  qed
  have d: "derive_backgrounds ?clean = ?clean" by (simp add: derive_backgrounds_def)
  define st where "st = fold (fix_pair ?base) (take 7 contrast_pairs) (?clean, [])"
  have s: "get (fst st) k = get ?clean k" if "k \<in> {''accent'', ''accent-text''}" for k
    unfolding st_def using fold_fix_other [of k "take 7 contrast_pairs" ?base "(?clean, [])"] that by (auto simp: contrast_pairs_def)
  have b: "get_default ?base ''accent-text'' x = light_text" for x by code_simp
  have a: "effective ?base (fst st) ''accent'' = ''#777777''" "effective ?base (fst st) ''accent-text'' = light_text"
    by (simp_all add: effective_def get_default_def [of "fst st"] s b)
  have "fix_pair ?base (''accent-text'', ''accent'', 4.5) st = st"
    using contrast_777 by (simp add: fix_pair_def split_beta Let_def a b readable_on_def)
  then have c: "c = fst (fold (fix_pair ?base) [(''link'', ''assistant-bubble'', 3)] st)"
  proof -
    have "(c, remarks) = fold (fix_pair ?base) (take 7 contrast_pairs @ (''accent-text'', ''accent'', 4.5) # [(''link'', ''assistant-bubble'', 3)]) (?clean, [])"
      using assms unfolding harmonize_brand_def Let_def cl d accent_pair [symmetric] by simp
    also have "\<dots> = fold (fix_pair ?base) [(''link'', ''assistant-bubble'', 3)] (fix_pair ?base (''accent-text'', ''accent'', 4.5) st)"
      by (simp add: st_def)
    finally show ?thesis unfolding \<open>fix_pair ?base (''accent-text'', ''accent'', 4.5) st = st\<close> by (metis fst_conv)
  qed
  have "effective ?base c k = effective ?base (fst st) k" if "k \<in> {''accent'', ''accent-text''}" for k
    unfolding c by (rule effective_cong, rule fold_fix_other) (use that in auto)
  then show ?thesis using a contrast_777(1) by simp
qed

end
