(* ===== verification/Chatbot_Page.thy ===== *)
theory Chatbot_Page
  imports Page_Theme
begin

text \<open>
  The page of a deployed chatbot, from \<open>src/src/api/chatbot_page.py\<close>: the runtime configuration and the helpers that are put
  into a page, the checks of a generated page, and the built-in page.  The long style, script and page texts of the source are the
  fields of \<open>page_assets\<close>; \<open>json.dumps\<close> is the parameter \<open>dumps\<close>.  A host name is ASCII; whether a bracketed address is a
  valid one is the parameter \<open>ip_ok\<close>.
\<close>

record page_assets =
  pa_markdown_style :: string
  pa_markdown_script :: string
  pa_voice_style :: string
  pa_voice_script :: string
  pa_page :: string
  pa_embed :: string

definition page_version :: nat where
  "page_version = 3"

definition generator :: string where
  "generator = ''delaxis-chatbot-page''"

subsection \<open>Texts\<close>

definition fence3 :: string where
  "fence3 = replicate 3 (CHR 0x60)"

text \<open>\<open>s.replace(p, r, 1)\<close> for a non-empty \<open>p\<close>, and \<open>html.escape\<close>.\<close>

fun replace_first :: "string \<Rightarrow> string \<Rightarrow> string \<Rightarrow> string" where
  "replace_first p r [] = []"
| "replace_first p r (c # s) = (if starts_with p (c # s) then r @ drop (length p) (c # s) else c # replace_first p r s)"

definition escape_char :: "char \<Rightarrow> string" where
  "escape_char c = (if c = CHR ''&'' then ''&amp;'' else if c = CHR ''<'' then ''&lt;'' else if c = CHR ''>'' then ''&gt;''
     else if c = CHR 0x22 then ''&quot;'' else if c = CHR 0x27 then ''&#x27;'' else [c])"

definition escape :: "string \<Rightarrow> string" where
  "escape s = concat (map escape_char s)"

text \<open>\<open>safe_json\<close> of a printed object.\<close>

definition safe_json :: "string \<Rightarrow> string" where
  "safe_json s = replace_all ''</'' [CHR ''<'', CHR 0x5C, CHR ''/''] s"

subsection \<open>The configuration in a page\<close>

definition placeholder :: string where
  "placeholder = ''__CHATBOT_CONFIG__''"

definition config_snippet :: string where
  "config_snippet = ''<script>window.CHATBOT_CONFIG = __CHATBOT_CONFIG__;</script>''"

text \<open>\<open>_HEAD_OPEN_RE.search\<close>: the text up to the end of the first match, and the rest; \<open>_SCRIPT_OPEN_RE.search\<close>: the text
  before it, and the rest.\<close>

fun split_head :: "string \<Rightarrow> (string \<times> string) option" where
  "split_head [] = None"
| "split_head (c # s) = (if starts_with ''<head'' (lower (c # s)) \<and> CHR ''>'' \<in> set (drop 5 (c # s))
     then Some (before_char (CHR ''>'') (c # s) @ ''>'', the (after_char (CHR ''>'') (c # s)))
     else map_option (\<lambda>(a, b). (c # a, b)) (split_head s))"

fun split_script :: "string \<Rightarrow> (string \<times> string) option" where
  "split_script [] = None"
| "split_script (c # s) = (if starts_with ''<script'' (lower (c # s)) \<and> (case drop 7 (c # s) of [] \<Rightarrow> True | d # _ \<Rightarrow> \<not> is_word d)
     then Some ([], c # s) else map_option (\<lambda>(a, b). (c # a, b)) (split_script s))"

definition ensure_config_contract :: "string \<Rightarrow> string" where
  "ensure_config_contract html =
     (if contains placeholder html then html
      else case split_head html of
        Some (a, b) \<Rightarrow> a @ [newline] @ ''  '' @ config_snippet @ b
      | None \<Rightarrow> (case split_script html of
            Some (a, b) \<Rightarrow> a @ config_snippet @ [newline] @ b
          | None \<Rightarrow> config_snippet @ [newline] @ html))"

definition inject_runtime_config :: "('c \<Rightarrow> string) \<Rightarrow> 'c \<Rightarrow> string \<Rightarrow> string" where
  "inject_runtime_config dumps config html = replace_all placeholder (safe_json (dumps config)) (ensure_config_contract html)"

subsection \<open>Helpers in a page\<close>

definition add_style :: "string \<Rightarrow> string \<Rightarrow> string" where
  "add_style style html =
     (if contains ''</style>'' html then replace_first ''</style>'' (style @ [newline] @ ''  </style>'') html
      else if contains ''</head>'' html then replace_first ''</head>'' (''<style>'' @ style @ ''</style>'' @ [newline] @ ''</head>'') html
      else ''<style>'' @ style @ ''</style>'' @ [newline] @ html)"

definition script_block :: "string \<Rightarrow> string" where
  "script_block js = ''<script>'' @ [newline] @ js @ [newline] @ ''</script>''"

definition ensure_markdown_support :: "page_assets \<Rightarrow> string \<Rightarrow> string" where
  "ensure_markdown_support pa html0 =
     (if contains ''function renderMarkdown'' html0 then html0
      else let html = add_style (pa_markdown_style pa) html0; script = script_block (pa_markdown_script pa) in
        if contains ''</head>'' html then replace_first ''</head>'' (script @ [newline] @ ''</head>'') html
        else case split_script html of
            Some (a, b) \<Rightarrow> a @ script @ [newline] @ b
          | None \<Rightarrow> html @ [newline] @ script)"

definition ensure_voice_support :: "page_assets \<Rightarrow> string \<Rightarrow> string" where
  "ensure_voice_support pa html0 =
     (if contains ''const VOICE = (function'' html0 then html0
      else let html = add_style (pa_voice_style pa) html0; script = script_block (pa_voice_script pa) in
        if contains ''</body>'' html then replace_first ''</body>'' (script @ [newline] @ ''</body>'') html
        else html @ [newline] @ script)"

subsection \<open>Checks of a page\<close>

text \<open>The hosts of the absolute socket addresses in quotes, \<open>_WS_URL_RE.finditer\<close>: after a match the search goes on behind it.\<close>

definition is_quote :: "char \<Rightarrow> bool" where
  "is_quote c \<longleftrightarrow> c = CHR 0x22 \<or> c = CHR 0x27"

definition socket_here :: "string \<Rightarrow> (string \<times> string) option" where
  "socket_here s = (case s of [] \<Rightarrow> None
     | q # t \<Rightarrow>
        if \<not> is_quote q then None
        else let n = (if starts_with ''ws://'' (lower t) then 5 else if starts_with ''wss://'' (lower t) then 6 else 0);
               name = takeWhile (\<lambda>c. \<not> is_quote c \<and> \<not> is_space c) (drop n t); rest = dropWhile (\<lambda>c. \<not> is_quote c \<and> \<not> is_space c) (drop n t)
          in if n = 0 \<or> name = [] then None
             else case rest of [] \<Rightarrow> None | d # u \<Rightarrow> if is_quote d then Some (name, u) else None)"

lemma socket_here_shorter:
  assumes "socket_here s = Some (n, u)"
  shows "length u < length s"
proof -
  obtain q t where s: "s = q # t" using assms by (cases s) (simp_all add: socket_here_def)
  obtain P k d where d: "dropWhile P (drop k t) = d # u"
    using assms unfolding s socket_here_def list.case Let_def by (cases "is_quote q") (auto split: if_splits list.splits)
  have "length (dropWhile P (drop k t)) \<le> length t" by (metis length_drop length_dropWhile_le diff_le_self order_trans)
  then show ?thesis by (simp add: s d)
qed

function socket_names :: "string \<Rightarrow> string list" where
  "socket_names s = (case socket_here s of Some (n, u) \<Rightarrow> n # socket_names u
     | None \<Rightarrow> (case s of [] \<Rightarrow> [] | c # t \<Rightarrow> socket_names t))"
  by pat_completeness auto
termination
  by (relation "measure length") (auto dest: socket_here_shorter)

declare socket_names.simps [simp del]

text \<open>\<open>urlparse(url).hostname\<close> of \<open>ws://\<close> followed by this text; \<open>None\<close> when it raises.\<close>

definition after_last :: "char \<Rightarrow> string \<Rightarrow> string" where
  "after_last c s = rev (takeWhile (\<lambda>d. d \<noteq> c) (rev s))"

definition hostname :: "(string \<Rightarrow> bool) \<Rightarrow> string \<Rightarrow> string option" where
  "hostname ip_ok s =
     (let netloc = takeWhile (\<lambda>c. c \<notin> {CHR ''/'', CHR ''?'', CHR ''#''}) s; info = after_last (CHR ''@'') netloc in
      if (CHR ''['' \<in> set netloc) \<noteq> (CHR '']'' \<in> set netloc) then None
      else if CHR ''['' \<in> set netloc \<and> \<not> ip_ok netloc then None
      else Some (lower (case after_char (CHR ''['') info of
          Some b \<Rightarrow> before_char (CHR '']'') b
        | None \<Rightarrow> before_char (CHR '':'') info)))"

definition local_hosts :: "string list" where
  "local_hosts = [''localhost'', ''127.0.0.1'', ''[::1]'']"

text \<open>Whether a name is the first that counts: an external host, or one that raises.\<close>

fun external_socket :: "(string \<Rightarrow> bool) \<Rightarrow> string list \<Rightarrow> bool option" where
  "external_socket ip_ok [] = Some False"
| "external_socket ip_ok (n # ns) = (case hostname ip_ok n of None \<Rightarrow> None
     | Some h \<Rightarrow> if h \<noteq> [] \<and> h \<notin> set local_hosts then Some True else external_socket ip_ok ns)"

definition cdn_hosts :: "string list" where
  "cdn_hosts = [''cdn.'', ''unpkg.com'', ''jsdelivr'', ''googleapis.com'', ''cdnjs'']"

definition cdn_patterns :: "string list" where
  "cdn_patterns = [''src='' @ [CHR 0x22] @ ''http'', ''src='' @ [CHR 0x27] @ ''http'', ''href='' @ [CHR 0x22] @ ''http'']"

definition loads_cdn :: "string \<Rightarrow> string \<Rightarrow> bool" where
  "loads_cdn html p = list_ex (\<lambda>i. starts_with p (drop i (lower html)) \<and> list_ex (\<lambda>h. contains h (take 160 (drop i html))) cdn_hosts) [0..<length html]"

definition first_of :: "string list \<Rightarrow> string list" where
  "first_of xs = fold append_new xs []"

definition lstrip :: "string \<Rightarrow> string" where
  "lstrip s = dropWhile is_space s"

definition rstrip :: "string \<Rightarrow> string" where
  "rstrip s = rev (dropWhile is_space (rev s))"

definition warn_if :: "bool \<Rightarrow> string \<Rightarrow> string list" where
  "warn_if b m = (if b then [m] else [])"

text \<open>\<open>None\<close> when a socket address raises.\<close>

definition page_defects :: "(string \<Rightarrow> bool) \<Rightarrow> string \<Rightarrow> string list option" where
  "page_defects ip_ok html = map_option (\<lambda>socket. let lowered = lower html in first_of
      (warn_if (\<not> contains ''window.chatbot_config'' lowered)
         ''Never reads window.CHATBOT_CONFIG, so it does not know which workflow to talk to.''
       @ (if \<not> contains ''/api/v1/sessions'' html then [''Never calls /api/v1/sessions, so no conversation is ever created.'']
          else warn_if (\<not> contains ''/messages'' html) ''Creates a session but never posts to /messages, so nothing is ever sent.'')
       @ warn_if (\<not> list_ex (\<lambda>t. contains t html) [''addEventListener'', ''onsubmit'', ''onclick'', ''onSubmit'', ''onClick''])
           ''No event handlers, so nothing happens when the user presses send.''
       @ warn_if (\<not> contains ''fetch('' html \<and> \<not> contains ''XMLHttpRequest'' html) ''Never makes an HTTP request.''
       @ warn_if (\<not> contains ''<textarea'' lowered \<and> \<not> contains ''<input'' lowered) ''No text input, so there is no way to send a message.''
       @ concat (map (\<lambda>p. warn_if (loads_cdn html p) ''Loads an external CDN asset, which will not resolve in an offline deployment.'') cdn_patterns)
       @ warn_if socket ''Opens a WebSocket to an external host; a deployed page must only talk to its own origin.''
       @ warn_if (starts_with fence3 (lstrip html) \<or> starts_with (rev fence3) (rev (rstrip html))) ''Still wrapped in markdown code fences.''))
     (external_socket ip_ok (socket_names html))"

definition validate_page :: "(string \<Rightarrow> bool) \<Rightarrow> bool \<Rightarrow> string \<Rightarrow> string list option" where
  "validate_page ip_ok voice html = map_option (\<lambda>defects. let lowered = lower html in
       warn_if (\<not> contains ''<!doctype'' lowered) ''Missing <!doctype html> declaration.''
       @ warn_if (\<not> contains ''<head'' lowered) ''Missing <head> section.''
       @ warn_if (\<not> contains ''<body'' lowered) ''Missing <body> section.''
       @ warn_if (\<not> contains ''function rendermarkdown'' lowered)
           (''Markdown renderer missing '' @ [em_dash] @ '' assistant replies will render as plain text.'')
       @ warn_if (voice \<and> \<not> contains ''/api/v1/voice/ticket'' html)
           (''Voice is enabled but the page has no voice client '' @ [em_dash] @ '' the mic will not appear.'')
       @ defects)
     (page_defects ip_ok html)"

subsection \<open>The built-in page\<close>

definition embed_script :: "page_assets \<Rightarrow> string \<Rightarrow> string \<Rightarrow> string \<Rightarrow> string \<Rightarrow> string" where
  "embed_script pa i title theme origin =
     replace_all ''__ORIGIN__'' (rev (dropWhile (\<lambda>c. c = CHR ''/'') (rev origin)))
       (replace_all ''__ACCENT__'' (get_default (theme_vars theme) ''accent'' [])
         (replace_all ''__TITLE__'' (replace_all [CHR 0x27] [CHR 0x5C, CHR 0x27] (replace_all [CHR 0x5C] [CHR 0x5C, CHR 0x5C] title))
           (replace_all ''__DEPLOYMENT_ID__'' i (pa_embed pa))))"

definition generator_meta :: string where
  "generator_meta = ''<meta name='' @ [CHR 0x22] @ ''generator'' @ [CHR 0x22] @ '' content='' @ [CHR 0x22] @ generator @ ''/''"

fun generation_stamp :: "string \<Rightarrow> nat option" where
  "generation_stamp [] = None"
| "generation_stamp (c # s) = (let u = drop (length generator_meta) (c # s); n = takeWhile is_digit u in
     if starts_with generator_meta (c # s) \<and> n \<noteq> [] \<and> dropWhile is_digit u \<noteq> [] \<and> hd (dropWhile is_digit u) = CHR 0x22
     then Some (digits_number n) else generation_stamp s)"

definition attribute :: "string \<Rightarrow> string \<Rightarrow> string" where
  "attribute n v = n @ ''='' @ [CHR 0x22] @ v @ [CHR 0x22]"

definition page_generation :: "string \<Rightarrow> nat option" where
  "page_generation html = (case generation_stamp html of Some n \<Rightarrow> Some n
     | None \<Rightarrow> if contains (attribute ''id'' ''chats'') html \<and> contains (attribute ''class'' ''composer'') html \<and> \<not> contains placeholder html
         then Some 1 else None)"

record page_texts =
  px_title :: string
  px_greeting :: string
  px_workflow :: string
  px_provider :: string
  px_model :: string
  px_theme :: string
  px_voice :: bool

definition theme_options :: string where
  "theme_options = concat (map (\<lambda>(i, _). ''<option value='' @ [CHR 0x22] @ i @ [CHR 0x22] @ ''>'' @ escape (get_default theme_labels i i) @ ''</option>'') themes)"

text \<open>The substitutions, in the order of the source; \<open>brand\<close> is the design's stylesheet.\<close>

definition page_substitutions :: "page_assets \<Rightarrow> page_texts \<Rightarrow> string \<Rightarrow> string \<Rightarrow> (string \<times> string) list" where
  "page_substitutions pa x brand config =
     [(''__GENERATOR__'', generator @ ''/'' @ nat_str page_version), (''__VOICE_STYLE__'', if px_voice x then pa_voice_style pa else []),
      (''__BRAND_CSS__'', brand), (''__TITLE__'', escape (px_title x)), (''__GREETING__'', escape (px_greeting x)),
      (''__WORKFLOW_ID__'', escape (px_workflow x)), (''__PROVIDER_ID__'', escape (px_provider x)), (''__MODEL_ID__'', escape (px_model x)),
      (''__THEME_CSS__'', all_theme_css (px_theme x)), (''__MARKDOWN_STYLE__'', pa_markdown_style pa), (''__MARKDOWN_SCRIPT__'', pa_markdown_script pa),
      (''__THEME_OPTIONS__'', theme_options), (placeholder, safe_json config)]"

definition default_chatbot_html :: "page_assets \<Rightarrow> page_texts \<Rightarrow> string \<Rightarrow> string \<Rightarrow> string" where
  "default_chatbot_html pa x brand config = fold (\<lambda>(p, r) html. replace_all p r html) (page_substitutions pa x brand config) (pa_page pa)"

subsection \<open>Texts that were replaced\<close>

text \<open>C36: The configuration that is put into a page cannot end its script element: the printed JSON holds no end tag.\<close>

theorem script_stays_open: "\<not> contains ''</'' (safe_json s)"
proof -
  let ?r = "replace_all ''</'' [CHR ''<'', CHR 0x5C, CHR ''/'']"
  have "\<not> contains ''</'' (?r s) \<and> (starts_with ''/'' (?r s) \<longrightarrow> starts_with ''/'' s)"
  proof (induction "length s" arbitrary: s rule: less_induct)
    case less
    show ?case
    proof (cases s)
      case (Cons c cs)
      show ?thesis
      proof (cases "starts_with ''</'' s")
        case True
        then obtain t where t: "s = ''</'' @ t" by (rule starts_withE)
        have r: "?r s = [CHR ''<'', CHR 0x5C, CHR ''/''] @ ?r t" unfolding t by (rule replace_all_at) simp
        have "\<not> contains ''</'' (?r t)" using less [of t] t by simp
        then show ?thesis unfolding r by (simp add: starts_with_def)
      next
        case False
        obtain w where w: "w = ?r cs" by simp
        have r: "?r s = c # w" using False unfolding w by (simp add: Cons replace_all.simps [of _ _ "_ # _"])
        have ih: "\<not> contains ''</'' w" "starts_with ''/'' w \<Longrightarrow> starts_with ''/'' cs" using less [of cs] Cons w by auto
        have "\<not> starts_with ''</'' (c # w)" using ih(2) False Cons by (auto simp: starts_with_def)
        then show ?thesis unfolding r using ih(1) Cons by (auto simp: starts_with_def)
      qed
    qed (simp add: replace_all.simps starts_with_def)
  qed
  then show ?thesis by (simp add: safe_json_def)
qed

text \<open>The helpers are added once.\<close>

lemma replace_first_holds: "p \<noteq> [] \<Longrightarrow> contains p s \<Longrightarrow> \<exists>u v. s = u @ p @ v \<and> replace_first p r s = u @ r @ v"
proof (induction s)
  case (Cons c s)
  show ?case
  proof (cases "starts_with p (c # s)")
    case True
    then obtain t where t: "c # s = p @ t" by (rule starts_withE)
    have "replace_first p r (c # s) = r @ drop (length p) (c # s)" using True by simp
    also have "drop (length p) (c # s) = t" unfolding t by simp
    finally show ?thesis using t by (intro exI [of _ "[]"] exI [of _ t]) (simp only: append_Nil simp_thms)
  next
    case False
    then obtain u v where "s = u @ p @ v" "replace_first p r s = u @ r @ v" using Cons by auto
    then show ?thesis using False by (intro exI [of _ "c # u"] exI [of _ v]) simp
  qed
qed simp

lemma split_script_parts: "split_script s = Some (a, b) \<Longrightarrow> s = a @ b"
  by (induction s arbitrary: a) (auto split: if_splits)

lemma markdown_script_added:
  assumes "\<not> contains ''function renderMarkdown'' html"
  shows "\<exists>u v. ensure_markdown_support pa html = u @ script_block (pa_markdown_script pa) @ v"
proof -
  define h where "h = add_style (pa_markdown_style pa) html"
  define k where "k = script_block (pa_markdown_script pa)"
  have d: "ensure_markdown_support pa html = (if contains ''</head>'' h then replace_first ''</head>'' (k @ [newline] @ ''</head>'') h
      else case split_script h of Some (a, b) \<Rightarrow> a @ k @ [newline] @ b | None \<Rightarrow> h @ [newline] @ k)"
    using assms unfolding ensure_markdown_support_def Let_def h_def k_def by (simp only: if_False)
  show ?thesis
  proof (cases "contains ''</head>'' h")
    case True
    obtain u v where "replace_first ''</head>'' (k @ [newline] @ ''</head>'') h = u @ (k @ [newline] @ ''</head>'') @ v"
      using replace_first_holds [OF _ True] by blast
    then have "ensure_markdown_support pa html = u @ k @ ([newline] @ ''</head>'' @ v)" using True d by simp
    then show ?thesis unfolding k_def by blast
  next
    case False
    show ?thesis
    proof (cases "split_script h")
      case None
      then have "ensure_markdown_support pa html = (h @ [newline]) @ k @ []" using False d by simp
      then show ?thesis unfolding k_def by blast
    next
      case (Some x)
      obtain a b where x: "x = (a, b)" by fastforce
      have "ensure_markdown_support pa html = a @ k @ ([newline] @ b)" using False d Some x by simp
      then show ?thesis unfolding k_def by blast
    qed
  qed
qed

lemma markdown_support_once:
  assumes "contains ''function renderMarkdown'' (pa_markdown_script pa)"
  shows "ensure_markdown_support pa (ensure_markdown_support pa html) = ensure_markdown_support pa html"
proof (cases "contains ''function renderMarkdown'' html")
  case False
  obtain u v where h: "ensure_markdown_support pa html = u @ script_block (pa_markdown_script pa) @ v" using markdown_script_added [OF False] by blast
  have "contains ''function renderMarkdown'' (ensure_markdown_support pa html)"
    unfolding h script_block_def by (rule contains_append(2), rule contains_append(1), rule contains_append(2), rule contains_append(2), rule contains_append(1), rule assms)
  then show ?thesis by (simp add: ensure_markdown_support_def [of pa "ensure_markdown_support pa html"])
qed (simp add: ensure_markdown_support_def)

lemma voice_support_once:
  assumes "contains ''const VOICE = (function'' (pa_voice_script pa)"
  shows "ensure_voice_support pa (ensure_voice_support pa html) = ensure_voice_support pa html"
proof (cases "contains ''const VOICE = (function'' html")
  case False
  define h where "h = add_style (pa_voice_style pa) html"
  define k where "k = script_block (pa_voice_script pa)"
  have d: "ensure_voice_support pa html = (if contains ''</body>'' h then replace_first ''</body>'' (k @ [newline] @ ''</body>'') h else h @ [newline] @ k)"
    using False unfolding ensure_voice_support_def Let_def h_def k_def by (simp only: if_False)
  have k: "contains ''const VOICE = (function'' (k @ v)" for v
    unfolding k_def script_block_def
    by (rule contains_append(1), rule contains_append(2), rule contains_append(2), rule contains_append(1), rule assms)
  have "contains ''const VOICE = (function'' (ensure_voice_support pa html)"
  proof (cases "contains ''</body>'' h")
    case True
    obtain u v where "replace_first ''</body>'' (k @ [newline] @ ''</body>'') h = u @ (k @ [newline] @ ''</body>'') @ v"
      using replace_first_holds [OF _ True] by blast
    then have "ensure_voice_support pa html = u @ k @ ([newline] @ ''</body>'' @ v)" using True d by simp
    then show ?thesis using contains_append(2) [OF k] by simp
  next
    case False
    then have "ensure_voice_support pa html = (h @ [newline]) @ k @ []" using d by simp
    then show ?thesis using contains_append(2) [OF k] by metis
  qed
  then show ?thesis by (simp add: ensure_voice_support_def [of pa "ensure_voice_support pa html"])
qed (simp add: ensure_voice_support_def)

text \<open>A page gets the Markdown renderer and the voice client once: adding them again changes nothing, whatever the page looks like.\<close>

theorem helpers_added_once:
  assumes "contains ''function renderMarkdown'' (pa_markdown_script pa)" "contains ''const VOICE = (function'' (pa_voice_script pa)"
  shows "ensure_markdown_support pa (ensure_markdown_support pa html) = ensure_markdown_support pa html
    \<and> ensure_voice_support pa (ensure_voice_support pa html) = ensure_voice_support pa html"
  by (rule conjI, rule markdown_support_once [OF assms(1)], rule voice_support_once [OF assms(2)])

definition sample_assets :: page_assets where
  "sample_assets = \<lparr>pa_markdown_style = ''.md{}'', pa_markdown_script = ''function renderMarkdown(s){}'', pa_voice_style = [],
     pa_voice_script = ''const VOICE = (function(){})();'', pa_page = [], pa_embed = []\<rparr>"

theorem helpers_added_once_witness:
  "ensure_markdown_support sample_assets (ensure_markdown_support sample_assets ''<p>'') = ensure_markdown_support sample_assets ''<p>''
    \<and> ensure_voice_support sample_assets (ensure_voice_support sample_assets ''<p>'') = ensure_voice_support sample_assets ''<p>''"
  by (rule helpers_added_once) (simp_all add: sample_assets_def starts_with_def)

subsection \<open>Where the configuration goes\<close>

definition config_prefix :: string where
  "config_prefix = ''window.CHATBOT_CONFIG = ''"

text \<open>The last assignment of the configuration in a text: what the page's code reads.\<close>

fun last_assignment :: "string \<Rightarrow> string option" where
  "last_assignment [] = None"
| "last_assignment (c # s) = (case last_assignment s of Some t \<Rightarrow> Some t
     | None \<Rightarrow> if starts_with config_prefix (c # s) then Some (drop (length config_prefix) (c # s)) else None)"

lemma last_assignment_append: "last_assignment s = Some t \<Longrightarrow> last_assignment (u @ s) = Some t"
  by (induction u) simp_all

lemma split_head_parts: "split_head s = Some (a, b) \<Longrightarrow> s = a @ b \<and> (\<exists>u. a = u @ ''>'')"
proof (induction s arbitrary: a)
  case (Cons c s)
  show ?case
  proof (cases "starts_with ''<head'' (lower (c # s)) \<and> CHR ''>'' \<in> set (drop 5 (c # s))")
    case True
    then have ab: "a = before_char (CHR ''>'') (c # s) @ ''>''" "b = the (after_char (CHR ''>'') (c # s))" using Cons.prems by simp_all
    have "CHR ''>'' \<in> set (c # s)" using True by (meson in_set_dropD)
    then obtain x y where "c # s = x @ CHR ''>'' # y" "CHR ''>'' \<notin> set x" by (meson split_list_first)
    then show ?thesis using ab by (simp add: before_char_append after_char_append)
  next
    case False
    then obtain a' where "split_head s = Some (a', b)" "a = c # a'" using Cons.prems by auto
    then show ?thesis using Cons.IH by auto
  qed
qed simp

lemma config_placed:
  assumes "\<not> contains placeholder html" "split_head html = Some (a, b)"
  shows "inject_runtime_config dumps c html
    = a @ [newline] @ ''  <script>window.CHATBOT_CONFIG = '' @ safe_json (dumps c) @ '';</script>'' @ b"
proof -
  let ?r = "replace_all placeholder (safe_json (dumps c))"
  obtain u where u: "html = a @ b" "a = u @ ''>''" using split_head_parts [OF assms(2)] by blast
  have p: "placeholder \<noteq> []" "newline \<notin> set placeholder" "CHR '';'' \<notin> set placeholder" "CHR ''>'' \<notin> set placeholder" "CHR '' '' \<notin> set placeholder"
    by (simp_all add: placeholder_def newline_def)
  have n: "\<not> contains placeholder u" "\<not> contains placeholder b"
    using assms(1) contains_split [OF p(4) p(1), of u b] u by auto
  have na: "\<not> contains placeholder a" using contains_split [OF p(4) p(1), of u "[]"] n(1) u(2) by (simp add: placeholder_def)
  have e: "ensure_config_contract html = a @ newline # ''  <script>window.CHATBOT_CONFIG ='' @ CHR '' '' # placeholder @ '';</script>'' @ b"
    using assms by (simp add: ensure_config_contract_def config_snippet_def placeholder_def)
  have k: "\<not> contains placeholder ''  <script>window.CHATBOT_CONFIG =''" by (simp add: placeholder_def starts_with_def)
  have t: "\<not> contains placeholder ([] @ CHR '';'' # ''</script'' @ CHR ''>'' # b)"
    unfolding contains_split [OF p(3) p(1)] contains_split [OF p(4) p(1)] using n(2) by (simp add: placeholder_def starts_with_def)
  have "?r (ensure_config_contract html)
      = a @ newline # ''  <script>window.CHATBOT_CONFIG ='' @ CHR '' '' # ?r (placeholder @ '';</script>'' @ b)"
    unfolding e replace_all_after [OF p(2,1) na] replace_all_after [OF p(5,1) k] ..
  also have "?r (placeholder @ '';</script>'' @ b) = safe_json (dumps c) @ '';</script>'' @ b"
    unfolding replace_all_at [OF p(1)] using replace_all_absent [OF t] by simp
  finally show ?thesis by (simp add: inject_runtime_config_def)
qed

text \<open>A page without the placeholder that assigns its own configuration after its head, as every page that the builder renders
  from the built-in template does, keeps it: the deployment's configuration is put in front of it, so the last assignment, the one
  that the page's code reads, is the page's own, whatever the deployment says.\<close>

theorem own_config_overrides:
  assumes "\<not> contains placeholder html" "split_head html = Some (a, b)" "last_assignment b = Some own"
  shows "last_assignment (inject_runtime_config dumps c html) = Some own"
  unfolding config_placed [OF assms(1,2)] by (intro last_assignment_append assms(3))

definition sample_themed :: string where
  "sample_themed = ''<head><script>window.CHATBOT_CONFIG = {1};</script></head>''"

theorem own_config_overrides_witness:
  "last_assignment (inject_runtime_config (\<lambda>c. c) ''{2}'' sample_themed) = Some ''{1};</script></head>''"
  by (rule own_config_overrides [of _ "''<head>''" "''<script>window.CHATBOT_CONFIG = {1};</script></head>''"])
    (simp_all add: sample_themed_def placeholder_def starts_with_def lower_def lower_char_def is_upper_def code_def Let_def
      before_char_def after_char_def config_prefix_def)

subsection \<open>Socket addresses\<close>

text \<open>An address in a template literal is not looked at; the loopback address in brackets counts as an external host.\<close>

lemma unquoted_socket_unseen: "\<forall>c \<in> set s. \<not> is_quote c \<Longrightarrow> socket_names s = []"
  by (induction s) (simp_all add: socket_names.simps [of "[]"] socket_names.simps [of "_ # _"] socket_here_def)

lemma loopback_reported: "external_socket (\<lambda>_. True) [''[::1]:8080/ws''] = Some True"
  by (simp add: hostname_def after_last_def after_char_def before_char_def lower_def lower_char_def is_upper_def code_def Let_def local_hosts_def)

end
