(* ===== verification/Deployments.thy ===== *)
theory Deployments
  imports Chatbot_Page Sessions
begin

text \<open>
  Deployments of chatbots, from \<open>src/src/api/routers/deployments.py\<close>: the request, the rendering of its page, the records of
  \<open>deployments.json\<close> and the pages on the disk, and what the chat and voice paths read from a record.  The directories are
  keyed by their resolved path; how a path resolves is the parameter \<open>ho_resolve\<close>.  A failing disk is not modelled.
\<close>

subsection \<open>Requests\<close>

record voice_config =
  vo_enabled :: bool
  vo_provider :: string
  vo_model :: string
  vo_name :: string
  vo_prompt :: string
  vo_greeting_spoken :: bool
  vo_max_seconds :: int

text \<open>A request without its page; \<open>'v\<close> is the type of the voice settings.\<close>

record 'v settings =
  st_workflow :: string
  st_name :: string
  st_api_url :: string
  st_trigger :: "string option"
  st_title :: string
  st_theme :: string
  st_greeting :: string
  st_suggestions :: "string list"
  st_provider :: string
  st_model :: string
  st_auth :: string
  st_voice :: 'v
  st_source :: string

record deploy_request =
  rq_settings :: "voice_config settings"
  rq_html :: "string option"

definition trim_suggestions :: "string list \<Rightarrow> string list" where
  "trim_suggestions xs = take 4 (map strip (filter (\<lambda>x. x \<noteq> [] \<and> strip x \<noteq> []) xs))"

text \<open>The validators of the request.\<close>

definition accept :: "voice_config settings \<Rightarrow> voice_config settings" where
  "accept s = s\<lparr>st_theme := normalize_theme (Some (st_theme s)), st_suggestions := trim_suggestions (st_suggestions s)\<rparr>"

text \<open>\<open>_slug\<close>; the loop ends because every round shortens the text.\<close>

lemma replace_all_shorter:
  assumes "length r < length p"
  shows "length (replace_all p r s) \<le> length s \<and> (contains p s \<longrightarrow> length (replace_all p r s) < length s)"
proof (induction "length s" arbitrary: s rule: less_induct)
  case less
  have p: "p \<noteq> []" using assms by auto
  show ?case
  proof (cases "starts_with p s")
    case True
    then obtain t where t: "s = p @ t" by (rule starts_withE)
    have "length (replace_all p r t) \<le> length t" using less [of t] t p by simp
    then show ?thesis using assms unfolding t replace_all_at [OF p] by simp
  next
    case False
    show ?thesis
    proof (cases s)
      case (Cons c cs)
      have r: "replace_all p r s = c # replace_all p r cs" using False Cons by (simp add: replace_all.simps [of p r "_ # _"])
      have "length (replace_all p r cs) \<le> length cs \<and> (contains p cs \<longrightarrow> length (replace_all p r cs) < length cs)" using less [of cs] Cons by simp
      then show ?thesis unfolding r using Cons False by auto
    qed (simp add: p replace_all.simps)
  qed
qed

function collapse :: "string \<Rightarrow> string" where
  "collapse s = (if contains ''--'' s then collapse (replace_all ''--'' ''-'' s) else s)"
  by pat_completeness auto
termination
  by (relation "measure length") (auto simp: replace_all_shorter)

declare collapse.simps [simp del]

definition strip_dashes :: "string \<Rightarrow> string" where
  "strip_dashes s = rev (dropWhile (\<lambda>c. c = CHR ''-'') (rev (dropWhile (\<lambda>c. c = CHR ''-'') s)))"

definition dash_char :: "char \<Rightarrow> char" where
  "dash_char c = (if is_alnum c then lower_char c else CHR ''-'')"

definition deployment_slug :: "string \<Rightarrow> string" where
  "deployment_slug s = str_or (collapse (strip_dashes (map dash_char s))) ''chatbot''"

subsection \<open>Rendering\<close>

text \<open>What the server gives to the pages.\<close>

record host =
  ho_assets :: page_assets
  ho_dumps :: "(bool \<times> bool) settings \<Rightarrow> string"
  ho_ip_ok :: "string \<Rightarrow> bool"
  ho_url_error :: "string \<Rightarrow> string"
  ho_dir :: string
  ho_resolve :: "string \<Rightarrow> string list"

definition public_voice_config :: "voice_config \<Rightarrow> bool \<times> bool" where
  "public_voice_config v = (vo_enabled v, vo_greeting_spoken v)"

definition runtime_config :: "voice_config settings \<Rightarrow> (bool \<times> bool) settings" where
  "runtime_config s = \<lparr>st_workflow = st_workflow s, st_name = st_name s, st_api_url = st_api_url s, st_trigger = st_trigger s,
     st_title = st_title s, st_theme = st_theme s, st_greeting = st_greeting s, st_suggestions = st_suggestions s,
     st_provider = st_provider s, st_model = st_model s, st_auth = st_auth s, st_voice = public_voice_config (st_voice s),
     st_source = st_source s\<rparr>"

definition page_texts_of :: "voice_config settings \<Rightarrow> page_texts" where
  "page_texts_of s = \<lparr>px_title = st_title s, px_greeting = st_greeting s, px_workflow = st_workflow s, px_provider = st_provider s,
     px_model = st_model s, px_theme = st_theme s, px_voice = vo_enabled (st_voice s)\<rparr>"

text \<open>\<open>Inl\<close> the text of the error that the checks of the page raised.\<close>

definition render :: "host \<Rightarrow> deploy_request \<Rightarrow> string + (string \<times> string list)" where
  "render ho q =
     (let s = rq_settings q; on = vo_enabled (st_voice s); config = runtime_config s;
          html = (if opt_truthy (rq_html q)
            then ensure_markdown_support (ho_assets ho) (inject_runtime_config (ho_dumps ho) config (ensure_config_contract (the (rq_html q))))
            else default_chatbot_html (ho_assets ho) (page_texts_of s) [] (ho_dumps ho config));
          page = (if on then ensure_voice_support (ho_assets ho) html else html)
      in case validate_page (ho_ip_ok ho) on page of None \<Rightarrow> Inl (ho_url_error ho page) | Some ws \<Rightarrow> Inr (page, ws))"

subsection \<open>Records and pages\<close>

datatype deployment_status = Active_deployment | Error_deployment

record deployment =
  dp_settings :: "voice_config settings"
  dp_id :: string
  dp_status :: deployment_status
  dp_url :: string
  dp_path :: string
  dp_created :: int
  dp_updated :: int
  dp_error :: "string option"

text \<open>The records, and for every directory its \<open>index.html\<close> and its \<open>deployment.json\<close>.\<close>

record site =
  si_records :: "deployment list"
  si_index :: "string list \<Rightarrow> string option"
  si_stored :: "string list \<Rightarrow> voice_config settings option"

definition page_dir :: "host \<Rightarrow> string \<Rightarrow> string" where
  "page_dir ho i = ho_dir ho @ ''/'' @ i"

definition page_url :: "string \<Rightarrow> string" where
  "page_url i = ''/d/'' @ i @ ''/''"

definition inside :: "host \<Rightarrow> string list \<Rightarrow> bool" where
  "inside ho p \<longleftrightarrow> take (length (ho_resolve ho (ho_dir ho))) p = ho_resolve ho (ho_dir ho)"

definition write_deployment :: "host \<Rightarrow> string \<Rightarrow> deploy_request \<Rightarrow> site \<Rightarrow> string option \<times> site" where
  "write_deployment ho i q s = (case render ho q of
      Inl e \<Rightarrow> (Some e, s)
    | Inr (html, _) \<Rightarrow> (let d = ho_resolve ho (page_dir ho i) in
        (None, s\<lparr>si_index := (si_index s)(d \<mapsto> html), si_stored := (si_stored s)(d \<mapsto> rq_settings q)\<rparr>)))"

definition delete_path :: "host \<Rightarrow> string \<Rightarrow> site \<Rightarrow> site" where
  "delete_path ho pt s =
     (if pt = [] then s
      else let d = ho_resolve ho pt in
        if \<not> inside ho d then s
        else s\<lparr>si_index := (\<lambda>p. if take (length d) p = d then None else si_index s p),
               si_stored := (\<lambda>p. if take (length d) p = d then None else si_stored s p)\<rparr>)"

definition find_deployment :: "string \<Rightarrow> deployment list \<Rightarrow> deployment option" where
  "find_deployment i ds = find (\<lambda>d. dp_id d = i) ds"

subsection \<open>What the chat and voice paths read\<close>

text \<open>The records are \<open>None\<close> when the file cannot be read.\<close>

definition deployment_model_override :: "deployment list option \<Rightarrow> string \<Rightarrow> (string, json) odict option" where
  "deployment_model_override ds ref =
     (if ref = [] then None
      else case ds of None \<Rightarrow> None
        | Some ds \<Rightarrow> (case find_deployment (deployment_slug ref) ds of None \<Rightarrow> None
            | Some d \<Rightarrow> (let s = dp_settings d;
                 o' = (if st_provider s \<noteq> [] then [(''provider_id'', JStr (st_provider s))] else [])
                   @ (if st_model s \<noteq> [] then [(''model'', JStr (st_model s))] else [])
               in if o' = [] then None else Some o')))"

definition deployment_voice_config :: "deployment list option \<Rightarrow> string \<Rightarrow> voice_config option" where
  "deployment_voice_config ds ref =
     (if ref = [] then None
      else case ds of None \<Rightarrow> None | Some ds \<Rightarrow> map_option (\<lambda>d. st_voice (dp_settings d)) (find_deployment (deployment_slug ref) ds))"

subsection \<open>Operations\<close>

datatype deploy_error = Generation_failed string | Deployment_not_found string

definition preview_deployment :: "host \<Rightarrow> deploy_request \<Rightarrow> string + (string \<times> string \<times> string list \<times> string)" where
  "preview_deployment ho q = (let i = deployment_slug (st_name (rq_settings q)) in
     case render ho q of Inl e \<Rightarrow> Inl e | Inr (html, ws) \<Rightarrow> Inr (page_url i, page_dir ho i, ws, html))"

definition flash_deploy :: "host \<Rightarrow> int \<Rightarrow> deploy_request \<Rightarrow> site \<Rightarrow> (deploy_error + deployment) \<times> site" where
  "flash_deploy ho now q s =
     (let i = deployment_slug (st_name (rq_settings q)); (err, s1) = write_deployment ho i q s;
          d = \<lparr>dp_settings = rq_settings q, dp_id = i, dp_status = (if err = None then Active_deployment else Error_deployment),
               dp_url = page_url i, dp_path = page_dir ho i, dp_created = now, dp_updated = now, dp_error = err\<rparr>;
          s2 = s1\<lparr>si_records := filter (\<lambda>e. dp_id e \<noteq> i) (si_records s1) @ [d]\<rparr>
      in (case err of Some e \<Rightarrow> Inl (Generation_failed e) | None \<Rightarrow> Inr d, s2))"

definition delete_deployment :: "host \<Rightarrow> string \<Rightarrow> site \<Rightarrow> deploy_error option \<times> site" where
  "delete_deployment ho i s = (case find_deployment i (si_records s) of
      None \<Rightarrow> (Some (Deployment_not_found i), s)
    | Some d \<Rightarrow> (None, delete_path ho (dp_path d) (s\<lparr>si_records := filter (\<lambda>e. dp_id e \<noteq> i) (si_records s)\<rparr>)))"

definition refresh_page_if_stale :: "host \<Rightarrow> string list \<Rightarrow> site \<Rightarrow> site" where
  "refresh_page_if_stale ho d s = (case si_index s d of None \<Rightarrow> s
    | Some html \<Rightarrow> (case page_generation html of None \<Rightarrow> s
      | Some g \<Rightarrow> if g \<ge> page_version then s
          else case si_stored s d of None \<Rightarrow> s
            | Some st \<Rightarrow> (case render ho \<lparr>rq_settings = accept st, rq_html = None\<rparr> of Inl _ \<Rightarrow> s
                | Inr (new, _) \<Rightarrow> s\<lparr>si_index := (si_index s)(d \<mapsto> new)\<rparr>)))"

definition serve_deployment_page :: "host \<Rightarrow> string \<Rightarrow> site \<Rightarrow> (deploy_error + string) \<times> site" where
  "serve_deployment_page ho i s =
     (let d = ho_resolve ho (page_dir ho i) in
      if \<not> inside ho (d @ [''index.html'']) \<or> si_index s d = None then (Inl (Deployment_not_found i), s)
      else let s1 = refresh_page_if_stale ho d s in (Inr (the (si_index s1 d)), s1))"

definition serve_embed_script :: "host \<Rightarrow> string \<Rightarrow> string \<Rightarrow> deployment list option \<Rightarrow> deploy_error + string" where
  "serve_embed_script ho origin i ds = (case find_deployment i (case ds of None \<Rightarrow> [] | Some ds \<Rightarrow> ds) of
      None \<Rightarrow> Inl (Deployment_not_found i)
    | Some d \<Rightarrow> Inr (embed_script (ho_assets ho) i (str_or (st_title (dp_settings d)) ''Chat'') (str_or (st_theme (dp_settings d)) ''midnight'')
        origin))"

text \<open>The snippets for another product: the two scripts, the frame and the link.\<close>

definition dq :: string where
  "dq = [CHR 0x22]"

definition deployment_integration :: "string \<Rightarrow> string \<Rightarrow> deployment list option \<Rightarrow> deploy_error + (string, string) odict" where
  "deployment_integration base i ds = (case find_deployment i (case ds of None \<Rightarrow> [] | Some ds \<Rightarrow> ds) of
      None \<Rightarrow> Inl (Deployment_not_found i)
    | Some d \<Rightarrow> (let url = rev (dropWhile (\<lambda>c. c = CHR ''/'') (rev base)) @ page_url i; title = st_title (dp_settings d) in
        Inr [(''widget'', ''<script src='' @ dq @ url @ ''embed.js'' @ dq @ '' defer></script>''),
             (''widget_options'', ''<script src='' @ dq @ url @ ''embed.js'' @ dq @ '' defer'' @ [newline]
                @ ''        data-position='' @ dq @ ''right'' @ dq @ [newline] @ ''        data-label='' @ dq @ title @ dq @ [newline]
                @ ''        data-width='' @ dq @ ''400'' @ dq @ '' data-height='' @ dq @ ''620'' @ dq @ ''></script>''),
             (''iframe'', ''<iframe src='' @ dq @ url @ dq @ '' title='' @ dq @ title @ dq @ [newline]
                @ ''        style='' @ dq @ ''width:100%;height:640px;border:0;border-radius:12px'' @ dq @ [newline]
                @ ''        allow='' @ dq @ ''clipboard-write'' @ dq @ ''></iframe>''),
             (''link'', url)]))"

subsection \<open>Identifiers\<close>

definition dash_ok :: "char \<Rightarrow> bool" where
  "dash_ok c \<longleftrightarrow> c = CHR ''-'' \<or> is_alnum c \<and> lower_char c = c"

lemma dash_char_ok: "dash_ok (dash_char c)"
proof (cases "is_alnum c \<and> is_upper c")
  case True
  define n where "n = code c"
  have n: "65 \<le> n \<and> n \<le> 90 \<or> 192 \<le> n \<and> n \<le> 222 \<and> n \<noteq> 215" using True by (auto simp: is_upper_def n_def Let_def)
  then have m: "n + 32 < 256" by auto
  have c: "code (lower_char c) = n + 32" using True m by (simp add: lower_char_def code_def n_def)
  have "is_lower (lower_char c)" "\<not> is_upper (lower_char c)" using n c by (auto simp: is_lower_def is_upper_def Let_def)
  then show ?thesis using True by (simp add: dash_ok_def dash_char_def is_alnum_def is_alpha_def lower_char_def [of "lower_char c"])
next
  case False
  then show ?thesis by (auto simp: dash_ok_def dash_char_def lower_char_def)
qed

lemma dash_char_idle: "dash_ok c \<Longrightarrow> dash_char c = c"
  by (auto simp: dash_ok_def dash_char_def lower_char_def is_alnum_def is_alpha_def is_upper_def is_lower_def is_digit_def code_def Let_def)

text \<open>A text with no dash at its ends, and none twice.\<close>

definition dash_ends :: "string \<Rightarrow> bool" where
  "dash_ends s \<longleftrightarrow> s = [] \<or> hd s \<noteq> CHR ''-'' \<and> last s \<noteq> CHR ''-''"

definition slug_like :: "string \<Rightarrow> bool" where
  "slug_like s \<longleftrightarrow> s \<noteq> [] \<and> list_all dash_ok s \<and> dash_ends s \<and> \<not> contains ''--'' s"

lemma dropWhile_hd: "dropWhile P s = [] \<or> \<not> P (hd (dropWhile P s))"
  using hd_dropWhile by blast

lemma strip_dashes_ends: "dash_ends (strip_dashes s)"
proof -
  let ?d = "dropWhile (\<lambda>c. c = CHR ''-'')"
  define t where "t = ?d s"
  have t: "t = [] \<or> hd t \<noteq> CHR ''-''" using dropWhile_hd [of "\<lambda>c. c = CHR ''-''" s] by (simp add: t_def)
  have "strip_dashes s = [] \<or> last (strip_dashes s) \<noteq> CHR ''-''"
    using dropWhile_hd [of "\<lambda>c. c = CHR ''-''" "rev t"] by (auto simp: strip_dashes_def t_def last_rev)
  moreover have "\<exists>v. t = strip_dashes s @ v"
    unfolding strip_dashes_def t_def [symmetric] by (metis rev_append rev_rev_ident takeWhile_dropWhile_id)
  ultimately show ?thesis using t unfolding dash_ends_def by (metis append_is_Nil_conv hd_append2)
qed

lemma strip_dashes_idle: "dash_ends s \<Longrightarrow> strip_dashes s = s"
proof (cases "s = []")
  case False
  assume "dash_ends s"
  then have h: "hd s \<noteq> CHR ''-''" "hd (rev s) \<noteq> CHR ''-''" using False by (simp_all add: dash_ends_def hd_rev)
  have d: "t \<noteq> [] \<Longrightarrow> hd t \<noteq> CHR ''-'' \<Longrightarrow> dropWhile (\<lambda>c. c = CHR ''-'') t = t" for t by (cases t) auto
  show ?thesis unfolding strip_dashes_def using d [OF False h(1)] d [of "rev s"] h(2) False by simp
qed (simp add: strip_dashes_def)

lemma strip_dashes_set: "set (strip_dashes s) \<subseteq> set s"
  unfolding strip_dashes_def by (metis set_dropWhileD set_rev subsetI)

lemma dashes_ends: "dash_ends s \<Longrightarrow> dash_ends (replace_all ''--'' ''-'' s)"
proof -
  have r: "replace_all ''--'' ''-'' (c # t) = (if starts_with ''--'' (c # t) then ''-'' @ replace_all ''--'' ''-'' (drop 2 (c # t)) else c # replace_all ''--'' ''-'' t)" for c t
    by (simp add: replace_all.simps [of _ _ "_ # _"])
  have n: "replace_all ''--'' ''-'' [] = []" by (simp add: replace_all.simps)
  have l: "t \<noteq> [] \<Longrightarrow> last t \<noteq> CHR ''-'' \<Longrightarrow> replace_all ''--'' ''-'' t \<noteq> [] \<and> last (replace_all ''--'' ''-'' t) \<noteq> CHR ''-''" for t
  proof (induction "length t" arbitrary: t rule: less_induct)
    case less
    obtain c u where t: "t = c # u" using less.prems by (cases t) auto
    show ?case
    proof (cases "starts_with ''--'' t")
      case True
      then obtain v where v: "t = ''--'' @ v" by (rule starts_withE)
      then have "v \<noteq> []" "last v \<noteq> CHR ''-''" using less.prems by (auto split: if_splits)
      then show ?thesis using less.hyps [of v] r [of c u] True v t by simp
    next
      case False
      show ?thesis using less.hyps [of u] less.prems r [of c u] False t n by (cases "u = []") auto
    qed
  qed
  assume "dash_ends s"
  then show ?thesis using l [of s] n r by (cases s) (auto simp: dash_ends_def starts_with_def)
qed

lemma dashes_set: "list_all dash_ok s \<Longrightarrow> list_all dash_ok (replace_all ''--'' ''-'' s)"
proof (induction "length s" arbitrary: s rule: less_induct)
  case less
  show ?case
  proof (cases s)
    case (Cons c u)
    have "list_all dash_ok (drop 2 s)" using less.prems by (meson in_set_dropD list_all_iff)
    then show ?thesis using less.hyps [of u] less.hyps [of "drop 2 s"] less.prems Cons
      by (simp add: replace_all.simps [of _ _ "_ # _"]) (simp add: dash_ok_def)
  qed (simp add: replace_all.simps)
qed

lemma collapse_slug: "list_all dash_ok s \<Longrightarrow> dash_ends s \<Longrightarrow> list_all dash_ok (collapse s) \<and> dash_ends (collapse s) \<and> \<not> contains ''--'' (collapse s)"
proof (induction s rule: collapse.induct)
  case (1 s)
  show ?case
  proof (cases "contains ''--'' s")
    case True
    have e: "collapse s = collapse (replace_all ''--'' ''-'' s)" using True by (simp add: collapse.simps [of s])
    show ?thesis unfolding e by (rule "1.IH" [OF True dashes_set [OF "1.prems"(1)] dashes_ends [OF "1.prems"(2)]])
  next
    case False
    then show ?thesis using "1.prems" by (simp add: collapse.simps [of s])
  qed
qed

lemma slug_like_result: "slug_like (deployment_slug s)"
proof -
  have "list_all dash_ok (strip_dashes (map dash_char s))" using strip_dashes_set [of "map dash_char s"] dash_char_ok by (auto simp: list_all_iff)
  then have "list_all dash_ok (collapse (strip_dashes (map dash_char s))) \<and> dash_ends (collapse (strip_dashes (map dash_char s)))
    \<and> \<not> contains ''--'' (collapse (strip_dashes (map dash_char s)))" using collapse_slug strip_dashes_ends by blast
  moreover have "slug_like ''chatbot''"
    by (simp add: slug_like_def dash_ok_def dash_ends_def is_alnum_def is_alpha_def is_lower_def lower_char_def is_upper_def code_def starts_with_def Let_def)
  ultimately show ?thesis by (simp add: deployment_slug_def str_or_def slug_like_def)
qed

lemma slug_idle: "slug_like s \<Longrightarrow> deployment_slug s = s"
proof -
  assume s: "slug_like s"
  have "map dash_char s = s" using s by (auto simp: slug_like_def list_all_iff dash_char_idle intro: map_idI)
  then show ?thesis using s by (simp add: deployment_slug_def slug_like_def strip_dashes_idle collapse.simps str_or_def)
qed

lemma deployment_id_contained_lemma:
  "deployment_slug s \<noteq> [] \<and> CHR ''/'' \<notin> set (deployment_slug s) \<and> CHR ''.'' \<notin> set (deployment_slug s) \<and> CHR 0x5C \<notin> set (deployment_slug s)
    \<and> hd (deployment_slug s) \<noteq> CHR ''-'' \<and> last (deployment_slug s) \<noteq> CHR ''-'' \<and> \<not> contains ''--'' (deployment_slug s)
    \<and> deployment_slug (deployment_slug s) = deployment_slug s"
proof -
  have c: "\<not> dash_ok (CHR ''/'')" "\<not> dash_ok (CHR ''.'')" "\<not> dash_ok (CHR 0x5C)"
    by (simp_all add: dash_ok_def is_alnum_def is_alpha_def is_upper_def is_lower_def is_digit_def code_def Let_def)
  show ?thesis using slug_like_result [of s] slug_idle [OF slug_like_result [of s]] c
    by (auto simp: slug_like_def dash_ends_def list_all_iff)
qed

text \<open>The identifier of a deployment names a direct child of the deployments directory whatever the name holds: it is not
  empty, holds no separator and no dot, does not start or end with a dash nor doubles one; and it is its own identifier, so a
  deployment is found by its name and by its identifier alike.\<close>

theorem deployment_id_contained:
  "deployment_slug s \<noteq> [] \<and> CHR ''/'' \<notin> set (deployment_slug s) \<and> CHR ''.'' \<notin> set (deployment_slug s) \<and> CHR 0x5C \<notin> set (deployment_slug s)
    \<and> hd (deployment_slug s) \<noteq> CHR ''-'' \<and> last (deployment_slug s) \<noteq> CHR ''-'' \<and> \<not> contains ''--'' (deployment_slug s)
    \<and> deployment_slug (deployment_slug s) = deployment_slug s"
  by (rule deployment_id_contained_lemma)

subsection \<open>What the page holds\<close>


definition sample_settings :: "string \<Rightarrow> voice_config settings" where
  "sample_settings prompt = \<lparr>st_workflow = ''w'', st_name = ''My Bot'', st_api_url = [], st_trigger = None, st_title = ''T'', st_theme = ''midnight'',
     st_greeting = ''Hi'', st_suggestions = [], st_provider = ''p'', st_model = ''m'', st_auth = ''public'',
     st_voice = \<lparr>vo_enabled = False, vo_provider = ''gemini'', vo_model = [], vo_name = [], vo_prompt = prompt, vo_greeting_spoken = True,
       vo_max_seconds = 300\<rparr>, st_source = ''default''\<rparr>"

definition sample_host :: host where
  "sample_host = \<lparr>ho_assets = sample_assets, ho_dumps = (\<lambda>c. ''{}''), ho_ip_ok = (\<lambda>s. False), ho_url_error = (\<lambda>s. ''Invalid IPv6 URL''),
     ho_dir = ''data'', ho_resolve = split_on (CHR ''/'')\<rparr>"


subsection \<open>The records\<close>

definition records_ok :: "host \<Rightarrow> site \<Rightarrow> bool" where
  "records_ok ho s \<longleftrightarrow> distinct (map dp_id (si_records s))
     \<and> list_all (\<lambda>d. dp_id d = deployment_slug (st_name (dp_settings d)) \<and> dp_url d = page_url (dp_id d) \<and> dp_path d = page_dir ho (dp_id d)
         \<and> (dp_status d = Error_deployment \<longleftrightarrow> dp_error d \<noteq> None)) (si_records s)"

lemma write_records: "si_records (snd (write_deployment ho i q s)) = si_records s"
  by (auto simp: write_deployment_def Let_def split: sum.splits)

definition new_record :: "host \<Rightarrow> int \<Rightarrow> deploy_request \<Rightarrow> deployment" where
  "new_record ho now q = (let i = deployment_slug (st_name (rq_settings q)); err = (case render ho q of Inl e \<Rightarrow> Some e | Inr _ \<Rightarrow> None) in
     \<lparr>dp_settings = rq_settings q, dp_id = i, dp_status = (if err = None then Active_deployment else Error_deployment),
      dp_url = page_url i, dp_path = page_dir ho i, dp_created = now, dp_updated = now, dp_error = err\<rparr>)"

lemma flash_records:
  "si_records (snd (flash_deploy ho now q s))
    = filter (\<lambda>e. dp_id e \<noteq> deployment_slug (st_name (rq_settings q))) (si_records s) @ [new_record ho now q]"
  by (simp add: flash_deploy_def new_record_def write_deployment_def Let_def split: sum.split prod.split)

lemma new_record_fields [simp]:
  "dp_id (new_record ho now q) = deployment_slug (st_name (rq_settings q))" "dp_settings (new_record ho now q) = rq_settings q"
  by (simp_all add: new_record_def Let_def)

lemma delete_path_records: "si_records (delete_path ho p s) = si_records s"
  by (simp add: delete_path_def Let_def)

lemma delete_records: "si_records (snd (delete_deployment ho i s)) = filter (\<lambda>e. dp_id e \<noteq> i) (si_records s)"
proof (cases "find_deployment i (si_records s)")
  case None
  then have "\<forall>e \<in> set (si_records s). dp_id e \<noteq> i" by (simp add: find_deployment_def find_None_iff)
  then show ?thesis using None by (simp add: delete_deployment_def)
next
  case (Some d)
  then show ?thesis by (simp add: delete_deployment_def delete_path_records)
qed

lemma distinct_without: "distinct (map f xs) \<Longrightarrow> distinct (map f (filter P xs))"
  by (induction xs) auto

lemma flash_keeps_records: "records_ok ho s \<Longrightarrow> records_ok ho (snd (flash_deploy ho now q s))"
  using distinct_without [of dp_id "si_records s"] unfolding records_ok_def flash_records by (auto simp: list_all_iff new_record_def Let_def)

lemma delete_keeps_records: "records_ok ho s \<Longrightarrow> records_ok ho (snd (delete_deployment ho i s))"
  using distinct_without [of dp_id "si_records s"] unfolding records_ok_def delete_records by (auto simp: list_all_iff)

text \<open>The records stay consistent: one for every identifier, each under the identifier of its own name with the address and the
  directory that follow from it, and in error exactly when it carries an error text; deploying, also when it fails, and deleting
  keep it so.\<close>

theorem records_consistent:
  assumes "records_ok ho s"
  shows "records_ok ho (snd (flash_deploy ho now q s)) \<and> records_ok ho (snd (delete_deployment ho i s))"
  by (rule conjI, rule flash_keeps_records [OF assms], rule delete_keeps_records [OF assms])

definition empty_site :: site where
  "empty_site = \<lparr>si_records = [], si_index = (\<lambda>p. None), si_stored = (\<lambda>p. None)\<rparr>"

theorem records_consistent_witness:
  "records_ok sample_host (snd (flash_deploy sample_host 1 \<lparr>rq_settings = sample_settings [], rq_html = None\<rparr> empty_site))"
  using records_consistent [of sample_host empty_site] by (simp add: records_ok_def empty_site_def)

lemma find_replaced: "f x = i \<Longrightarrow> find (\<lambda>e. f e = i) (filter (\<lambda>e. f e \<noteq> i) xs @ [x]) = Some x"
  by (induction xs) auto

lemma flashed_found:
  "find_deployment (deployment_slug (st_name (rq_settings q))) (si_records (snd (flash_deploy ho now q s))) = Some (new_record ho now q)"
  unfolding flash_records find_deployment_def by (rule find_replaced) simp

subsection \<open>The model of a conversation\<close>

lemma pinned_override:
  assumes "ref \<noteq> []" "find_deployment (deployment_slug ref) ds = Some d" "st_provider (dp_settings d) \<noteq> []" "st_model (dp_settings d) \<noteq> []"
  shows "deployment_model_override (Some ds) ref = Some [(''provider_id'', JStr (st_provider (dp_settings d))), (''model'', JStr (st_model (dp_settings d)))]"
  using assms by (simp add: deployment_model_override_def Let_def)

lemma run_override:
  assumes "jget (cv_meta c) ''deployment'' = JStr ref" "ref \<noteq> []" "wo_override wo ref = Some d" "d \<noteq> []"
  shows "jget (run_metadata wo c meta) ''model_override'' = JObj d"
  using assms by (simp add: run_metadata_def Let_def text_of_def jget_def [of "put _ _ _"] get_default_def)

text \<open>C37: The model of a deployed chatbot is the deployment's: for a session that names the deployment, by its name or by its
  identifier, the run gets the provider and the model of the record that was deployed last, whatever metadata the page sends with
  the message, and whether or not its page could be written.\<close>

theorem deployed_model_pinned:
  assumes "s' = snd (flash_deploy ho now q s)" "wo_override wo = deployment_model_override (Some (si_records s'))"
    and "st_provider (rq_settings q) \<noteq> []" "st_model (rq_settings q) \<noteq> []"
    and "jget (cv_meta c) ''deployment'' = JStr ref" "ref \<noteq> []" "deployment_slug ref = deployment_slug (st_name (rq_settings q))"
  shows "jget (run_metadata wo c meta) ''model_override''
    = JObj [(''provider_id'', JStr (st_provider (rq_settings q))), (''model'', JStr (st_model (rq_settings q)))]"
proof (rule run_override [OF assms(5,6)])
  have "find_deployment (deployment_slug ref) (si_records s') = Some (new_record ho now q)" unfolding assms(1,7) by (rule flashed_found)
  then show "wo_override wo ref = Some [(''provider_id'', JStr (st_provider (rq_settings q))), (''model'', JStr (st_model (rq_settings q)))]"
    unfolding assms(2) using pinned_override [OF assms(6)] assms(3,4) by simp
qed simp

definition sample_request :: deploy_request where
  "sample_request = \<lparr>rq_settings = sample_settings [], rq_html = None\<rparr>"

theorem deployed_model_pinned_witness:
  "jget (run_metadata (demo_world\<lparr>wo_override := deployment_model_override (Some (si_records (snd (flash_deploy sample_host 1 sample_request empty_site))))\<rparr>)
      (demo_session\<lparr>cv_meta := [(''deployment'', JStr ''My Bot'')]\<rparr>) [(''model_override'', JStr ''cheap'')]) ''model_override''
    = JObj [(''provider_id'', JStr ''p''), (''model'', JStr ''m'')]"
proof -
  have q: "st_provider (rq_settings sample_request) = ''p''" "st_model (rq_settings sample_request) = ''m''" "st_name (rq_settings sample_request) = ''My Bot''"
    by (simp_all add: sample_request_def sample_settings_def)
  show ?thesis using deployed_model_pinned [OF refl, of "demo_world\<lparr>wo_override := deployment_model_override (Some (si_records
      (snd (flash_deploy sample_host 1 sample_request empty_site))))\<rparr>" sample_host 1 sample_request empty_site
      "demo_session\<lparr>cv_meta := [(''deployment'', JStr ''My Bot'')]\<rparr>" "''My Bot''" "[(''model_override'', JStr ''cheap'')]"]
    unfolding q by (simp add: jget_def [of "[_]"] get_default_def)
qed

text \<open>A page of the builder names the workflow instead of the deployment, so its conversations run without the deployment's model.\<close>

lemma unknown_deployment_unpinned:
  assumes "wo_override wo = deployment_model_override (Some ds)" "jget (cv_meta c) ''deployment'' = JStr ref" "find_deployment (deployment_slug ref) ds = None"
  shows "jget (run_metadata wo c meta) ''model_override'' = JNull"
  using assms by (simp add: run_metadata_def Let_def text_of_def deployment_model_override_def jget_def [of "del _ _"] get_default_def)

subsection \<open>The pages\<close>

text \<open>A directory without links: an identifier resolves to the child of that name.\<close>

definition plain_host :: "host \<Rightarrow> bool" where
  "plain_host ho \<longleftrightarrow> ho_resolve ho (ho_dir ho) \<noteq> [] \<and> (\<forall>i. slug_like i \<longrightarrow> ho_resolve ho (page_dir ho i) = ho_resolve ho (ho_dir ho) @ [i])"

definition page_of :: "host \<Rightarrow> string \<Rightarrow> site \<Rightarrow> string option" where
  "page_of ho i s = si_index s (ho_resolve ho (page_dir ho i))"

lemma page_inside:
  assumes "plain_host ho" "slug_like i"
  shows "inside ho (ho_resolve ho (page_dir ho i))" "inside ho (ho_resolve ho (page_dir ho i) @ [x])"
  using assms by (simp_all add: inside_def plain_host_def)

lemma flash_files:
  "page_of ho (deployment_slug (st_name (rq_settings q))) (snd (flash_deploy ho now q s))
     = (case render ho q of Inl _ \<Rightarrow> page_of ho (deployment_slug (st_name (rq_settings q))) s | Inr (html, _) \<Rightarrow> Some html)"
  by (simp add: page_of_def flash_deploy_def write_deployment_def Let_def split: sum.split prod.split)

lemma serve_page:
  assumes "plain_host ho" "slug_like i" "page_of ho i s = Some html"
  shows "fst (serve_deployment_page ho i s)
    = Inr (the (si_index (refresh_page_if_stale ho (ho_resolve ho (page_dir ho i)) s) (ho_resolve ho (page_dir ho i))))"
  using page_inside(2) [OF assms(1,2)] assms(3) by (simp add: serve_deployment_page_def page_of_def Let_def)

lemma split_on_one: "c \<notin> set s \<Longrightarrow> split_on c s = [s]"
  by (induction s) auto

lemma sample_host_plain: "plain_host sample_host"
proof -
  have "CHR ''/'' \<notin> set i" if "slug_like i" for i using deployment_id_contained_lemma slug_idle [OF that] by metis
  then show ?thesis by (simp add: plain_host_def sample_host_def page_dir_def split_on_one)
qed

text \<open>A page that is deployed is the page that is served: after a successful deployment every visit gets exactly the page that
  was rendered, unless it carries the stamp of an older version of the built-in page.\<close>

theorem deployed_page_served:
  assumes "plain_host ho" "render ho q = Inr (html, ws)" "\<forall>g. page_generation html = Some g \<longrightarrow> page_version \<le> g"
  shows "fst (flash_deploy ho now q s) = Inr (new_record ho now q)
    \<and> fst (serve_deployment_page ho (deployment_slug (st_name (rq_settings q))) (snd (flash_deploy ho now q s))) = Inr html"
proof (rule conjI)
  show "fst (flash_deploy ho now q s) = Inr (new_record ho now q)"
    using assms(2) by (simp add: flash_deploy_def write_deployment_def new_record_def Let_def)
  let ?i = "deployment_slug (st_name (rq_settings q))"
  let ?s = "snd (flash_deploy ho now q s)"
  have p: "page_of ho ?i ?s = Some html" unfolding flash_files assms(2) by simp
  have "refresh_page_if_stale ho (ho_resolve ho (page_dir ho ?i)) ?s = ?s"
    using p assms(3) by (auto simp: refresh_page_if_stale_def page_of_def split: option.split)
  then show "fst (serve_deployment_page ho ?i ?s) = Inr html"
    using serve_page [OF assms(1) slug_like_result p] p by (simp add: page_of_def)
qed

lemma sample_render: "\<exists>ws. render sample_host sample_request = Inr ([], ws)"
proof -
  have r: "replace_all p r [] = []" for p r by (simp add: replace_all.simps)
  have f: "fold (\<lambda>(p, r) html. replace_all p r html) xs [] = []" for xs by (induction xs) (auto simp: r)
  have "default_chatbot_html sample_assets x b config = []" for x b config
    unfolding default_chatbot_html_def by (simp only: sample_assets_def page_assets.simps f)
  moreover obtain ws where "validate_page (\<lambda>s. False) False [] = Some ws"
    by (simp add: validate_page_def page_defects_def socket_names.simps socket_here_def)
  ultimately show ?thesis
    by (simp add: render_def sample_host_def sample_request_def sample_settings_def Let_def opt_truthy_def)
qed

theorem deployed_page_served_witness:
  "fst (serve_deployment_page sample_host (deployment_slug ''My Bot'') (snd (flash_deploy sample_host 1 sample_request empty_site))) = Inr []"
proof -
  obtain ws where r: "render sample_host sample_request = Inr ([], ws)" using sample_render by blast
  have "page_generation [] = None" by (simp add: page_generation_def attribute_def)
  then show ?thesis using deployed_page_served [OF sample_host_plain r, of 1 empty_site] by (simp add: sample_request_def sample_settings_def)
qed

text \<open>C40: A refresh loses a design: a custom page with the stamp of an older version is not served as it was deployed, the first visit
  replaces it by the built-in page of the stored settings, which hold neither the page nor its colours.\<close>

theorem refresh_drops_design:
  assumes "plain_host ho" "render ho q = Inr (html, ws)" "page_generation html = Some g" "g < page_version"
    and "accept (rq_settings q) = rq_settings q" "render ho (q\<lparr>rq_html := None\<rparr>) = Inr (built_in, ws')"
  shows "fst (serve_deployment_page ho (deployment_slug (st_name (rq_settings q))) (snd (flash_deploy ho now q s))) = Inr built_in"
proof -
  let ?i = "deployment_slug (st_name (rq_settings q))"
  let ?s = "snd (flash_deploy ho now q s)"
  let ?d = "ho_resolve ho (page_dir ho ?i)"
  have p: "page_of ho ?i ?s = Some html" unfolding flash_files assms(2) by simp
  have st: "si_stored ?s ?d = Some (rq_settings q)" using assms(2) by (simp add: flash_deploy_def write_deployment_def Let_def)
  have "\<lparr>rq_settings = accept (rq_settings q), rq_html = None\<rparr> = q\<lparr>rq_html := None\<rparr>" using assms(5) by simp
  then have "refresh_page_if_stale ho ?d ?s = ?s\<lparr>si_index := (si_index ?s)(?d \<mapsto> built_in)\<rparr>"
    using p st assms(3,4,6) by (simp add: refresh_page_if_stale_def page_of_def)
  then show ?thesis using serve_page [OF assms(1) slug_like_result p] by simp
qed

text \<open>A page that needs no helper and has the stamp of version 2.\<close>

definition styled_request :: deploy_request where
  "styled_request = \<lparr>rq_settings = sample_settings [], rq_html = Some (generator_meta @ ''2'' @ dq @ placeholder @ ''function renderMarkdown'')\<rparr>"

definition styled_page :: string where
  "styled_page = generator_meta @ ''2'' @ dq @ ''{}function renderMarkdown''"

lemma styled_parts:
  "ensure_markdown_support sample_assets (inject_runtime_config (ho_dumps sample_host) (runtime_config (sample_settings []))
     (ensure_config_contract (the (rq_html styled_request)))) = styled_page"
  "external_socket (\<lambda>_. False) (socket_names styled_page) = Some False"
  "page_generation styled_page = Some 2"
  by code_simp+

lemma styled_render: "\<exists>ws. render sample_host styled_request = Inr (styled_page, ws)"
proof -
  obtain ws where "validate_page (\<lambda>_. False) False styled_page = Some ws"
    using styled_parts(2) by (simp add: validate_page_def page_defects_def)
  moreover have "rq_settings styled_request = sample_settings []" "opt_truthy (rq_html styled_request)"
    "ho_assets sample_host = sample_assets" "ho_ip_ok sample_host = (\<lambda>_. False)" "vo_enabled (st_voice (sample_settings [])) = False"
    by (simp_all add: styled_request_def opt_truthy_def sample_host_def sample_settings_def)
  ultimately show ?thesis using styled_parts(1) by (simp add: render_def Let_def)
qed

theorem refresh_drops_design_witness:
  "fst (serve_deployment_page sample_host (deployment_slug ''My Bot'') (snd (flash_deploy sample_host 1 styled_request empty_site))) = Inr []"
proof -
  obtain ws where r: "render sample_host sample_request = Inr ([], ws)" using sample_render by blast
  obtain vs where v: "render sample_host styled_request = Inr (styled_page, vs)" using styled_render by blast
  have q: "styled_request\<lparr>rq_html := None\<rparr> = sample_request" "accept (rq_settings styled_request) = rq_settings styled_request"
      "deployment_slug (st_name (rq_settings styled_request)) = deployment_slug ''My Bot''"
    by (simp_all add: styled_request_def sample_request_def sample_settings_def accept_def trim_suggestions_def, code_simp)
  show ?thesis using refresh_drops_design [OF sample_host_plain v styled_parts(3) _ q(2), of "[]" ws 1 empty_site] r
    unfolding q by (simp add: page_version_def)
qed

text \<open>A deployment that fails does not take the running chatbot down, but changes it: the request ends in an error and every page
  stays as it was, while the record is replaced by one in error, so the old page is served on and its conversations already
  run under the settings of the failed deployment.\<close>

theorem failed_deployment_keeps_page:
  assumes "render ho q = Inl e"
  shows "fst (flash_deploy ho now q s) = Inl (Generation_failed e)
    \<and> si_index (snd (flash_deploy ho now q s)) = si_index s \<and> si_stored (snd (flash_deploy ho now q s)) = si_stored s
    \<and> (\<exists>d. find_deployment (deployment_slug (st_name (rq_settings q))) (si_records (snd (flash_deploy ho now q s))) = Some d
         \<and> dp_status d = Error_deployment \<and> dp_error d = Some e \<and> dp_settings d = rq_settings q)"
  using assms flashed_found [of q ho now s] by (simp add: flash_deploy_def write_deployment_def new_record_def Let_def)

definition broken_request :: deploy_request where
  "broken_request = \<lparr>rq_settings = sample_settings [], rq_html = Some (placeholder @ ''function renderMarkdown'' @ dq @ ''ws://[x]'' @ dq)\<rparr>"

lemma broken_render: "render sample_host broken_request = Inl ''Invalid IPv6 URL''"
  by code_simp

theorem failed_deployment_keeps_page_witness:
  "fst (flash_deploy sample_host 1 broken_request empty_site) = Inl (Generation_failed ''Invalid IPv6 URL'')"
  using failed_deployment_keeps_page [OF broken_render] by blast

text \<open>C39: Deleting a deployment takes down its page and no other: after it the identifier is not found, neither as a page nor as a
  record, and every other deployment keeps its page and its record.\<close>

theorem deleted_alone:
  assumes "plain_host ho" "records_ok ho s" "find_deployment i (si_records s) = Some d" "s' = snd (delete_deployment ho i s)"
  shows "fst (serve_deployment_page ho i s') = Inl (Deployment_not_found i) \<and> find_deployment i (si_records s') = None
    \<and> (\<forall>j. slug_like j \<and> j \<noteq> i \<longrightarrow> page_of ho j s' = page_of ho j s \<and> find_deployment j (si_records s') = find_deployment j (si_records s))"
proof -
  let ?root = "ho_resolve ho (ho_dir ho)"
  have d: "d \<in> set (si_records s)" "dp_id d = i" using assms(3) by (auto simp: find_deployment_def find_Some_iff)
  have i: "slug_like i" "dp_path d = page_dir ho i" using assms(2) d slug_like_result by (auto simp: records_ok_def list_all_iff)
  have r: "ho_resolve ho (page_dir ho j) = ?root @ [j]" if "slug_like j" for j using assms(1) that by (simp add: plain_host_def)
  have ne: "dp_path d \<noteq> []" by (simp add: i(2) page_dir_def)
  have "si_index s' = (\<lambda>p. if take (length (?root @ [i])) p = ?root @ [i] then None else si_index s p)"
    using assms(3) ne page_inside(1) [OF assms(1) i(1)] r [OF i(1)] unfolding assms(4) i(2) by (simp add: delete_deployment_def delete_path_def Let_def i(2) cong: if_cong)
  then have x: "page_of ho j s' = (if j = i then None else page_of ho j s)" if "slug_like j" for j
    unfolding page_of_def r [OF that] by simp
  have f: "find (\<lambda>e. dp_id e = j) (filter (\<lambda>e. dp_id e \<noteq> i) ds) = (if j = i then None else find (\<lambda>e. dp_id e = j) ds)" for j and ds :: "deployment list"
    by (induction ds) auto
  have "fst (serve_deployment_page ho i s') = Inl (Deployment_not_found i)"
    using x [OF i(1)] by (simp add: serve_deployment_page_def page_of_def Let_def)
  then show ?thesis using x f unfolding assms(4) delete_records find_deployment_def by simp
qed

theorem deleted_alone_witness:
  "fst (serve_deployment_page sample_host (deployment_slug ''My Bot'')
     (snd (delete_deployment sample_host (deployment_slug ''My Bot'') (snd (flash_deploy sample_host 1 sample_request empty_site)))))
   = Inl (Deployment_not_found (deployment_slug ''My Bot''))"
proof -
  have n: "st_name (rq_settings sample_request) = ''My Bot''" by (simp add: sample_request_def sample_settings_def)
  have "records_ok sample_host empty_site" by (simp add: records_ok_def empty_site_def)
  then have "records_ok sample_host (snd (flash_deploy sample_host 1 sample_request empty_site))" by (rule flash_keeps_records)
  then show ?thesis
    using deleted_alone [OF sample_host_plain _ flashed_found [of sample_request sample_host 1 empty_site] refl] unfolding n by blast
qed

end
