(* ===== verification/Spec2Isabelle.thy ===== *)
theory Spec2Isabelle
  imports Workflow_Validation Topology Workflow_Registry Caches Cache_Manager Rate_Limit Audit_Trail Pii Security
    Versioned_Config Sessions Node_Events Chunking Provider_Routing Dead_Letters Diagnostics
    Context_Tree Migration Dependencies Sql_Guard Behavior_Validator Model_Choice Plan_Builder Config_Api
    Workflow_Tests Deployments
begin

text \<open>
  A verification development for DelAxis, a server that runs workflows of language-model agents.

  The program.  A workflow is a graph of nodes, each naming an agent, kept with the agents' configurations in JSON
  files and edited in a canvas.  A chat message opens or continues a session; the session manager records the
  run, waits for one of the workflow's run slots and hands the message to the runtime, which turns the workflow
  into a CrewAI crew (agents, tasks, context) and returns the reply.  Around this path lie the validation of
  workflows, the store of past runs, response caches, rate limits, versioned configurations, an audit trail,
  and the scanners that agents and guardrails use to find secrets and personal data.

  Theories, in the order of their imports, with the files under \<open>src/src\<close> they model:
  \<^item> \<open>Prelude\<close>: strings, JSON values, insertion-ordered dictionaries and their lemmas.
  \<^item> \<open>Graph_Search\<close>, \<open>Workflow_Validation\<close> (\<open>api/workflow_validation.py\<close>): the cycle searches and the validation of
    a drawn workflow; it accepts exactly the graphs it means to, and its first reported cycle is genuine.
  \<^item> \<open>Topology\<close> (\<open>config/topology_models.py\<close>), \<open>Workflows\<close> (\<open>config/workflow_models.py\<close>), \<open>Agents\<close>
    (\<open>config/agent_models.py\<close>): the models with their field constraints and validators;
    \<open>validate_topology\<close> is equivalent to the graph condition of each topology type.
  \<^item> \<open>Workflow_Registry\<close> (\<open>config/workflow_registry.py\<close>): the registry refines a map from ids to valid workflows.
  \<^item> \<open>Run_Order\<close>, \<open>Runtime_Plan\<close> (\<open>crewai_runtime/runtime.py\<close>): the execution order of the nodes, and the crew
    that a message becomes; plans are well formed, a node with one predecessor gets its output, a join does not.
  \<^item> \<open>Run_History\<close> (\<open>infrastructure/database/run_store.py\<close>): the recorder and the table of runs.
  \<^item> \<open>Conversations\<close> (\<open>memory/models.py\<close>, \<open>core/events.py\<close>), \<open>Run_Slots\<close> and \<open>Sessions\<close>
    (\<open>api/session_manager.py\<close>): sessions, admission as a step relation with safety and progress, and one message
    from its arrival to the reply and its record, composed with the runtime and the run history.
  \<^item> \<open>Caches\<close>, \<open>Cache_Manager\<close> (\<open>infrastructure/cache_manager.py\<close>): the memory caches behind one interface, the
    configuration hierarchy and the two-level lookup.
  \<^item> \<open>Rate_Limit\<close> (\<open>api/rate_limiting.py\<close>): the sliding window over the store's sorted set.
  \<^item> \<open>Audit_Trail\<close> (\<open>tools/audit_trail.py\<close>): the hash chain, its verification and the queries.
  \<^item> \<open>Spans\<close>, \<open>Pii\<close>, \<open>Security\<close> (\<open>tools/pii.py\<close>, \<open>tools/security.py\<close>): the choice of non-overlapping spans, the
    detectors, redaction, and the guardrail.
  \<^item> \<open>Versioned_Config\<close> (\<open>config/versioned_service.py\<close>): optimistic locking, history, rollback and retention, as a
    refinement of a list of accepted configurations per key.

  \<^item> \<open>Node_Events\<close> (\<open>crewai_runtime/execution_events.py\<close>): the events a running crew reports; the context shown for a
    step is the one the plan gives it, and outputs follow announcements in any order of the callbacks.
  \<^item> \<open>Provider_Routing\<close> (\<open>config/provider_registry.py\<close>, \<open>config/provider_secrets.py\<close>, \<open>config/provider_capabilities.py\<close>
    and the model resolution of the runtime): keys, routes and the parameters of the model call.
  \<^item> \<open>Diagnostics\<close> (\<open>api/workflow_diagnostics.py\<close>): the studio's diagnosis, sound and complete for structural faults.
  \<^item> \<open>Chunking\<close> (\<open>rag/chunking.py\<close>): documents cut into overlapping chunks that cover them.
  \<^item> \<open>Dead_Letters\<close> (\<open>infrastructure/message_broker.py\<close>): publisher, consumer and the retries of failed tasks.

  \<^item> \<open>Env_Compat\<close> (\<open>config/env_compat.py\<close>), \<open>Sandbox\<close>, \<open>Context_Tree\<close> (\<open>tools/context_tree.py\<close>): the file tools of an agent
    over a file system with links; resolved paths stay under the roots, the search does not.

  \<^item> \<open>Tools\<close> (\<open>config/tool_models.py\<close>, \<open>config/tool_registry.py\<close>): what a tool configuration needs to be accepted, and the
    registry as a function of the configuration; \<open>Dependencies\<close> (\<open>config/dependency_validation.py\<close>): deletions that leave no
    dangling reference; \<open>Migration\<close> (\<open>config/migration.py\<close>): conversion of old configurations.
  \<^item> \<open>Sql_Guard\<close> (\<open>tools/database_factories.py\<close>): the database tools of an agent; what reaches the database passed the
    read-only guard and the allowlist.
  \<^item> \<open>Behavior_Validator\<close> (\<open>config/behavior_validator.py\<close>): the validation of an agent's answer.
  \<^item> \<open>Model_Choice\<close> (\<open>api/builder_models.py\<close>) and \<open>Plan_Builder\<close> (\<open>api/routers/builder.py\<close>): the model the builder picks,
    and the repair of the plan it returns; repaired plans are well formed and stable.
  \<^item> \<open>Config_Api\<close> (\<open>api/routers/agents.py\<close>, \<open>tools.py\<close>, \<open>workflows.py\<close>): the handlers that edit the configuration, which
    keep every reference resolved, and the validator's stale view of the tools.
  \<^item> \<open>Workflow_Tests\<close> (\<open>core/workflow_test_runner.py\<close>, \<open>api/test_models.py\<close>, \<open>api/routers/workflows.py\<close>): stored test
    cases, their execution and verdicts, and the validation and diagnosis of a drawn workflow; a test run executes
    its enabled cases once each and counts them right, and the runner's sessions overwrite those of the chat.
  \<^item> \<open>Page_Theme\<close>, \<open>Chatbot_Page\<close> (\<open>api/chatbot_page.py\<close>) and \<open>Deployments\<close> (\<open>api/routers/deployments.py\<close>): themes and
    designs with the correction of their contrast over the reals, the wiring and the checks of a page, and the deployed
    chatbots: what reaches the visitor, which model answers, and what deploying, deleting and refreshing change.

  Conventions.  A class is a record, an enumeration a datatype, a Python dictionary an association list with
  distinct keys in insertion order; a raised exception is \<open>Inl\<close> or \<open>None\<close>.  Floats are rationals, times are
  microseconds.  Regular expressions, SHA-256, the clock, generated ids, the named-entity recogniser and CrewAI's
  \<open>kickoff\<close> are parameters; where a property needs their documented behaviour it is a hypothesis, and a witness
  instantiates it.  Redis and the SQL tables are modelled as values, with the success of a call given where the
  code handles its failure.

  Interfaces are locales: \<open>memory_cache\<close> (interpreted on the LRU and the LFU cache and on the cache manager's
  choice between them), \<open>conflict\<close> and \<open>spans\<close> (interpreted on positions, PII matches and claimed
  secrets).

  Fuel.  The recursive searches take fuel: \<open>dfs_fuel\<close> exceeds the number of nodes of a graph and \<open>order_fuel\<close> the
  number of nodes of a topology, and both searches are proved to return with it.  Python's recursion limit is
  not modelled.

  Not modelled: the HTTP routers that only pass on requests, and the schemas; the style, script and HTML texts of the
  chatbot page, which are parameters; voice (audio relay and third-party realtime APIs), authentication middleware,
  connectors to outside services, retrieval and embedding stores, the clients of model providers, logging and
  metrics, the loading of settings from the environment, and the Studio front end.
\<close>

end
